(* ===== verification/Prelude.thy ===== *)
theory Prelude
  imports Main "HOL-Library.Word"
begin

text \<open>
  Shared vocabulary of the development: machine words, Go byte slices and strings, the
  result type \<open>'e + 'a\<close> for fallible calls, blocking reads of a fixed number of bytes
  (\<^verbatim>\<open>io.ReadFull\<close>), the big-endian integer codecs of \<^verbatim>\<open>encoding/binary\<close>, and the list,
  map and sorting lemmas that the component theories use through the collections
  \<open>codec_simps\<close> and \<open>table_simps\<close>.
\<close>

named_theorems codec_simps "encoders and decoders of bytes"
named_theorems table_simps "lookup and update laws of the runtime tables"

section \<open>Words, bytes and strings\<close>

type_synonym byte = "8 word"
type_synonym bytes = "8 word list"
type_synonym u16 = "16 word"
type_synonym u32 = "32 word"
type_synonym u64 = "64 word"

text \<open>
  A Go string is a byte sequence. The model uses \<^typ>\<open>string\<close>, whose characters are the
  256 byte values; the two functions below are the conversions \<^verbatim>\<open>[]byte(s)\<close> and
  \<^verbatim>\<open>string(b)\<close>.
\<close>

definition byte_of_char :: "char \<Rightarrow> byte" where
  "byte_of_char c = word_of_nat (of_char c)"

definition char_of_byte :: "byte \<Rightarrow> char" where
  "char_of_byte b = char_of (unat b)"

definition bytes_of_string :: "string \<Rightarrow> bytes" where
  "bytes_of_string s = map byte_of_char s"

definition string_of_bytes :: "bytes \<Rightarrow> string" where
  "string_of_bytes bs = map char_of_byte bs"

section \<open>Results\<close>

text \<open>A fallible call returns \<open>Inl\<close> the error or \<open>Inr\<close> the value.\<close>

fun rbind :: "'e + 'a \<Rightarrow> ('a \<Rightarrow> 'e + 'b) \<Rightarrow> 'e + 'b" where
  "rbind (Inl e) f = Inl e"
| "rbind (Inr x) f = f x"

fun is_ok :: "'e + 'a \<Rightarrow> bool" where
  "is_ok (Inl e) = False"
| "is_ok (Inr x) = True"

section \<open>Reading a fixed number of bytes\<close>

datatype ioerr = EOF | UnexpectedEOF | ErrClosed | ErrDeadline | ErrOther

text \<open>
  \<open>read_full n inp\<close> is \<^verbatim>\<open>io.ReadFull\<close> on a stream from which the bytes \<open>inp\<close> can still
  be read before it ends: \<open>n\<close> bytes and the rest, \<open>EOF\<close> when the stream ends before the
  first byte, \<open>UnexpectedEOF\<close> when it ends inside.
\<close>

definition read_full :: "nat \<Rightarrow> bytes \<Rightarrow> ioerr + (bytes \<times> bytes)" where
  "read_full n inp =
     (if n \<le> length inp then Inr (take n inp, drop n inp)
      else if inp = [] then Inl EOF else Inl UnexpectedEOF)"

section \<open>Big-endian integers\<close>

text \<open>
  \<open>be_bytes k v\<close> is what \<^verbatim>\<open>binary.BigEndian.PutUintN\<close> stores for \<open>k = N / 8\<close>, the most
  significant byte first; \<open>be_nat\<close> is what \<^verbatim>\<open>binary.BigEndian.UintN\<close> reads.
\<close>

fun be_bytes :: "nat \<Rightarrow> nat \<Rightarrow> bytes" where
  "be_bytes 0 v = []"
| "be_bytes (Suc k) v = word_of_nat (v div 256 ^ k) # be_bytes k v"

fun be_nat :: "bytes \<Rightarrow> nat" where
  "be_nat [] = 0"
| "be_nat (b # bs) = unat b * 256 ^ length bs + be_nat bs"

text \<open>The 32-bit instance used by every frame header.\<close>

definition put_u32 :: "u32 \<Rightarrow> bytes" where
  "put_u32 w = be_bytes 4 (unat w)"

definition get_u32 :: "bytes \<Rightarrow> u32" where
  "get_u32 bs = word_of_nat (be_nat bs)"

section \<open>Sorting by a key\<close>

text \<open>The stable insertion sort that stands for \<^verbatim>\<open>sort.Slice\<close> with a comparison of keys.\<close>

definition sort_by :: "('a \<Rightarrow> 'k::linorder) \<Rightarrow> 'a list \<Rightarrow> 'a list" where
  "sort_by f xs = sort_key f xs"

section \<open>Lemmas: bytes and strings\<close>

lemma char_byte_char [simp]: "char_of_byte (byte_of_char c) = c"
  by (simp add: char_of_byte_def byte_of_char_def unat_of_nat)

lemma byte_char_byte [simp]: "byte_of_char (char_of_byte b) = b"
proof -
  have "unat b < 256" using unsigned_less [of b] by simp
  then have "unat b mod 256 = unat b" by simp
  then show ?thesis
    by (simp add: char_of_byte_def byte_of_char_def)
qed

lemma byte_of_char_eq_iff [simp]: "byte_of_char c = byte_of_char d \<longleftrightarrow> c = d"
  by (metis char_byte_char)

lemma string_bytes_string [simp, codec_simps]: "string_of_bytes (bytes_of_string s) = s"
  by (simp add: string_of_bytes_def bytes_of_string_def comp_def)

lemma bytes_string_bytes [simp, codec_simps]: "bytes_of_string (string_of_bytes b) = b"
  by (simp add: string_of_bytes_def bytes_of_string_def comp_def)

lemma length_bytes_of_string [simp]: "length (bytes_of_string s) = length s"
  by (simp add: bytes_of_string_def)

lemma length_string_of_bytes [simp]: "length (string_of_bytes b) = length b"
  by (simp add: string_of_bytes_def)

section \<open>Lemmas: results and fixed-size reads\<close>

lemma rbind_eq_Inr: "rbind r f = Inr y \<longleftrightarrow> (\<exists>x. r = Inr x \<and> f x = Inr y)"
  by (cases r) auto

lemma rbind_eq_Inl: "rbind r f = Inl e \<longleftrightarrow> r = Inl e \<or> (\<exists>x. r = Inr x \<and> f x = Inl e)"
  by (cases r) auto

lemma read_full_append [simp, codec_simps]:
  "n = length a \<Longrightarrow> read_full n (a @ b) = Inr (a, b)"
  by (simp add: read_full_def)

lemma read_full_Inr:
  "read_full n inp = Inr (a, b) \<longleftrightarrow> inp = a @ b \<and> length a = n"
  by (auto simp: read_full_def split: if_splits)

lemma read_full_zero [simp]: "read_full 0 inp = Inr ([], inp)"
  by (simp add: read_full_def)

lemma read_full_short: "length inp < n \<Longrightarrow> \<exists>e. read_full n inp = Inl e"
  by (auto simp: read_full_def)

section \<open>Lemmas: big-endian integers\<close>

lemma length_be_bytes [simp]: "length (be_bytes k v) = k"
  by (induction k) simp_all

lemma be_nat_less: "be_nat bs < 256 ^ length bs"
proof (induction bs)
  case Nil
  then show ?case by simp
next
  case (Cons b bs)
  have "unat b < 256" using unsigned_less [of b] by simp
  then have "unat b + 1 \<le> 256" by simp
  then have "(unat b + 1) * 256 ^ length bs \<le> 256 * 256 ^ length bs"
    by (rule mult_le_mono1)
  then have "unat b * 256 ^ length bs + 256 ^ length bs \<le> 256 ^ length (b # bs)"
    by (simp only: add_mult_distrib mult_1 list.size power_Suc add_Suc_right add_0_right)
  with Cons.IH show ?case by (simp only: be_nat.simps)
qed

lemma be_nat_be_bytes: "be_nat (be_bytes k v) = v mod 256 ^ k"
proof (induction k)
  case 0
  then show ?case by simp
next
  case (Suc k)
  have "v mod 256 ^ Suc k = 256 ^ k * (v div 256 ^ k mod 256) + v mod 256 ^ k"
    using mod_mult2_eq [of v "256 ^ k" 256] by (simp add: mult.commute)
  with Suc.IH show ?case
    by (simp add: unat_of_nat mult.commute)
qed

lemma be_nat_be_bytes_small [simp, codec_simps]:
  "v < 256 ^ k \<Longrightarrow> be_nat (be_bytes k v) = v"
  by (simp add: be_nat_be_bytes)

lemma word_of_nat_add_256 [simp]: "(word_of_nat (a + 256 * b) :: byte) = word_of_nat a"
  by (simp add: word_of_nat_eq_iff take_bit_eq_mod del: of_nat_add of_nat_mult)

lemma be_bytes_mod: "j \<le> k \<Longrightarrow> be_bytes j (v + m * 256 ^ k) = be_bytes j v"
proof (induction j)
  case 0
  then show ?case by simp
next
  case (Suc j)
  then obtain d where d: "k = Suc j + d" using le_Suc_ex by blast
  have "m * 256 ^ k = (256 * (m * 256 ^ d)) * 256 ^ j"
    by (simp only: d power_add power_Suc mult.assoc mult.commute mult.left_commute)
  then have "(v + m * 256 ^ k) div 256 ^ j = 256 * (m * 256 ^ d) + v div 256 ^ j"
    by (simp only:) (rule div_mult_self1, simp)
  then have "(v + m * 256 ^ k) div 256 ^ j = v div 256 ^ j + 256 * (m * 256 ^ d)"
    by (simp only: add.commute)
  then have "word_of_nat ((v + m * 256 ^ k) div 256 ^ j) = (word_of_nat (v div 256 ^ j) :: byte)"
    by (simp only: word_of_nat_add_256)
  with Suc show ?case by (simp only: be_bytes.simps Suc_leD)
qed

lemma be_bytes_be_nat [simp, codec_simps]: "k = length bs \<Longrightarrow> be_bytes k (be_nat bs) = bs"
proof (induction bs arbitrary: k)
  case Nil
  then show ?case by simp
next
  case (Cons b bs)
  have "(unat b * 256 ^ length bs + be_nat bs) div 256 ^ length bs = unat b"
    using be_nat_less [of bs] by simp
  moreover have "be_bytes (length bs) (unat b * 256 ^ length bs + be_nat bs) = bs"
    using be_bytes_mod [of "length bs" "length bs" "be_nat bs" "unat b"] Cons.IH
    by (simp add: add.commute)
  ultimately show ?case using Cons.prems by simp
qed

lemma length_put_u32 [simp]: "length (put_u32 w) = 4"
  by (simp add: put_u32_def)

lemma get_put_u32 [simp, codec_simps]: "get_u32 (put_u32 w) = w"
proof -
  have "unat w < 256 ^ 4" using unsigned_less [of w] by simp
  then show ?thesis by (simp add: get_u32_def put_u32_def be_nat_be_bytes)
qed

lemma put_get_u32 [codec_simps]: "length bs = 4 \<Longrightarrow> put_u32 (get_u32 bs) = bs"
proof -
  assume l: "length bs = 4"
  then have "be_nat bs < 2 ^ 32" using be_nat_less [of bs] by simp
  then have "unat (get_u32 bs) = be_nat bs"
    by (simp add: get_u32_def unat_of_nat)
  with l show ?thesis by (simp add: put_u32_def)
qed

lemma unat_get_u32: "length bs = 4 \<Longrightarrow> unat (get_u32 bs) = be_nat bs"
  using be_nat_less [of bs] by (simp add: get_u32_def unat_of_nat)

section \<open>Lemmas: sorting, maps and indexing\<close>

lemma set_sort_by [simp]: "set (sort_by f xs) = set xs"
  by (simp add: sort_by_def)

lemma sorted_sort_by [simp]: "sorted (map f (sort_by f xs))"
  by (simp add: sort_by_def)

lemma length_sort_by [simp]: "length (sort_by f xs) = length xs"
  by (simp add: sort_by_def)

lemma distinct_sort_by [simp]: "distinct (sort_by f xs) = distinct xs"
  by (simp add: sort_by_def)

lemma dom_map_delete [simp, table_simps]: "dom (m(k := None)) = dom m - {k}"
  by simp

lemma ran_fun_upd_None: "ran (m(k := None)) \<subseteq> ran m"
  by (auto simp: ran_def)

lemma unat_inc:
  assumes "x \<noteq> - 1"
  shows "unat (x + 1) = unat (x :: 'a::len word) + 1"
proof -
  have "unat x \<noteq> 2 ^ LENGTH('a) - 1"
    using assms by (auto simp: word_unat_eq_iff unsigned_minus_1_eq_mask mask_eq_exp_minus_1)
  moreover have "unat x < 2 ^ LENGTH('a)" by (rule unsigned_less)
  ultimately have "unat x + 1 < 2 ^ LENGTH('a)" by linarith
  then show ?thesis by (simp add: unat_word_ariths)
qed

lemma word_inc_bounds:
  assumes "x \<noteq> - 1"
  shows "0 < x + (1 :: 'a::len word)" "x < x + 1" "i \<le> x \<Longrightarrow> i \<le> x + 1"
  using unat_inc [OF assms] by (simp_all add: word_less_nat_alt word_le_nat_alt)

lemma option_filter_eqI:
  assumes "\<And>e. a = Some e \<longleftrightarrow> b = Some e \<and> \<not> P e"
  shows "a = (case b of Some e \<Rightarrow> if P e then None else Some e | None \<Rightarrow> None)"
proof (cases a)
  case None
  then have "b = Some e \<Longrightarrow> P e" for e using assms [of e] by simp
  with None show ?thesis by (simp split: option.split)
next
  case (Some e)
  then have "b = Some e" "\<not> P e" using assms [of e] by simp_all
  with Some show ?thesis by simp
qed

end
