(* ===== verification/StarMessage.thy ===== *)
theory StarMessage
  imports Prelude
begin

text \<open>
  The star wire format of \<^verbatim>\<open>protocol/star/message.go\<close>: the constants, the
  \<^verbatim>\<open>Message\<close> struct, \<^verbatim>\<open>WriteMessage\<close> and \<^verbatim>\<open>ReadMessage\<close>, the half-close flag and
  \<^verbatim>\<open>MsgTypeName\<close>. A nil and an empty payload are both \<open>[]\<close>: \<^verbatim>\<open>ReadMessage\<close> leaves the
  field nil exactly when the frame declares length 0.
\<close>

section \<open>Constants\<close>

definition ProtocolVersion :: byte where "ProtocolVersion = 1"

definition MsgHandshake :: byte where "MsgHandshake = 0x01"
definition MsgHandshakeAck :: byte where "MsgHandshakeAck = 0x02"
definition MsgRegisterStream :: byte where "MsgRegisterStream = 0x03"
definition MsgRegisterStreamAck :: byte where "MsgRegisterStreamAck = 0x04"
definition MsgConnOpen :: byte where "MsgConnOpen = 0x05"
definition MsgConnOpenAck :: byte where "MsgConnOpenAck = 0x06"
definition MsgData :: byte where "MsgData = 0x10"
definition MsgStreamClose :: byte where "MsgStreamClose = 0x11"
definition MsgPing :: byte where "MsgPing = 0x20"
definition MsgPong :: byte where "MsgPong = 0x21"
definition MsgClientConnReq :: byte where "MsgClientConnReq = 0x30"
definition MsgClientConnAck :: byte where "MsgClientConnAck = 0x31"
definition MsgWindowUpdate :: byte where "MsgWindowUpdate = 0x22"

lemmas msg_type_defs =
  MsgHandshake_def MsgHandshakeAck_def MsgRegisterStream_def MsgRegisterStreamAck_def
  MsgConnOpen_def MsgConnOpenAck_def MsgData_def MsgStreamClose_def MsgPing_def MsgPong_def
  MsgClientConnReq_def MsgClientConnAck_def MsgWindowUpdate_def

definition HeaderSize :: nat where "HeaderSize = 12"
definition MaxPayloadSize :: nat where "MaxPayloadSize = 1048576"
definition CtrlStreamID :: u32 where "CtrlStreamID = 0"
definition FlagHalfClose :: byte where "FlagHalfClose = 0x01"

section \<open>Messages\<close>

record Message =
  mType :: byte
  mFlags :: byte
  mStreamID :: u32
  mPayload :: bytes

unbundle bit_operations_syntax

definition IsHalfClose :: "Message \<Rightarrow> bool" where
  "IsHalfClose m \<longleftrightarrow> mType m = MsgStreamClose \<and> mFlags m AND FlagHalfClose \<noteq> 0"

definition HalfClose :: "u32 \<Rightarrow> Message" where
  "HalfClose streamID =
     \<lparr>mType = MsgStreamClose, mFlags = FlagHalfClose, mStreamID = streamID, mPayload = []\<rparr>"

text \<open>A message literal without flags, as the callers write \<^verbatim>\<open>&Message{Type, StreamID, Payload}\<close>.\<close>

definition mk_msg :: "byte \<Rightarrow> u32 \<Rightarrow> bytes \<Rightarrow> Message" where
  "mk_msg t sid p = \<lparr>mType = t, mFlags = 0, mStreamID = sid, mPayload = p\<rparr>"

datatype msgerr =
    MsgIO ioerr
  | BadVersion byte
  | PayloadTooLarge nat
  | EmptyPayload byte
  | BadJson

definition frame_header :: "Message \<Rightarrow> bytes" where
  "frame_header m =
     [ProtocolVersion, mType m, mFlags m, 0]
       @ put_u32 (mStreamID m) @ put_u32 (word_of_nat (length (mPayload m)))"

definition WriteMessage :: "Message \<Rightarrow> msgerr + bytes" where
  "WriteMessage m =
     (if length (mPayload m) > MaxPayloadSize
      then Inl (PayloadTooLarge (length (mPayload m)))
      else Inr (frame_header m @ mPayload m))"

definition parse_header :: "bytes \<Rightarrow> msgerr + (Message \<times> u32)" where
  "parse_header head =
     (if head ! 0 \<noteq> ProtocolVersion then Inl (BadVersion (head ! 0))
      else let len = get_u32 (take 4 (drop 8 head)) in
        if unat len > MaxPayloadSize then Inl (PayloadTooLarge (unat len))
        else Inr (\<lparr>mType = head ! 1, mFlags = head ! 2,
                   mStreamID = get_u32 (take 4 (drop 4 head)), mPayload = []\<rparr>, len))"

definition ReadMessage :: "bytes \<Rightarrow> msgerr + (Message \<times> bytes)" where
  "ReadMessage inp =
     (case read_full HeaderSize inp of
        Inl e \<Rightarrow> Inl (MsgIO e)
      | Inr (head, rest) \<Rightarrow>
          (case parse_header head of
             Inl e \<Rightarrow> Inl e
           | Inr (m, len) \<Rightarrow>
               if len > 0 then
                 (case read_full (unat len) rest of
                    Inl e \<Rightarrow> Inl (MsgIO e)
                  | Inr (p, rest') \<Rightarrow> Inr (m\<lparr>mPayload := p\<rparr>, rest'))
               else Inr (m, rest)))"

text \<open>The lower-case hexadecimal text of a byte, as \<^verbatim>\<open>%02x\<close> prints it.\<close>

definition hex_digit :: "nat \<Rightarrow> char" where
  "hex_digit n = ''0123456789abcdef'' ! n"

definition hex_byte :: "byte \<Rightarrow> string" where
  "hex_byte b = [hex_digit (unat b div 16), hex_digit (unat b mod 16)]"

definition MsgTypeName :: "byte \<Rightarrow> string" where
  "MsgTypeName t =
     (if t = MsgHandshake then ''handshake''
      else if t = MsgHandshakeAck then ''handshakeAck''
      else if t = MsgRegisterStream then ''registerStream''
      else if t = MsgRegisterStreamAck then ''registerStreamAck''
      else if t = MsgConnOpen then ''connOpen''
      else if t = MsgConnOpenAck then ''connOpenAck''
      else if t = MsgData then ''data''
      else if t = MsgStreamClose then ''streamClose''
      else if t = MsgPing then ''ping''
      else if t = MsgPong then ''pong''
      else if t = MsgClientConnReq then ''clientConnReq''
      else if t = MsgClientConnAck then ''clientConnAck''
      else if t = MsgWindowUpdate then ''windowUpdate''
      else ''unknown(0x'' @ hex_byte t @ '')'')"

text \<open>
  Reading a whole stream: the messages a read loop receives before its first error, and
  that error. Each step consumes at least the header, so the recursion on the remaining
  bytes ends.
\<close>

lemma ReadMessage_shorter: "ReadMessage inp = Inr (m, rest) \<Longrightarrow> length rest < length inp"
  by (auto simp: ReadMessage_def read_full_Inr HeaderSize_def
           split: sum.splits prod.splits if_splits)

function read_all :: "bytes \<Rightarrow> Message list \<times> msgerr" where
  "read_all inp =
     (case ReadMessage inp of
        Inl e \<Rightarrow> ([], e)
      | Inr (m, rest) \<Rightarrow> (let (ms, e) = read_all rest in (m # ms, e)))"
  by pat_completeness auto
termination
  by (relation "measure length") (auto dest: ReadMessage_shorter)

declare read_all.simps [simp del]

section \<open>Lemmas\<close>

lemma length_frame_header [simp]: "length (frame_header m) = HeaderSize"
  by (simp add: frame_header_def HeaderSize_def)

lemma unat_payload_len:
  "n \<le> MaxPayloadSize \<Longrightarrow> unat (word_of_nat n :: u32) = n"
  by (simp add: MaxPayloadSize_def unat_of_nat)

lemma header_type [simp]:
  "frame_header m ! 0 = ProtocolVersion" "frame_header m ! Suc 0 = mType m"
  "frame_header m ! 2 = mFlags m"
  by (simp_all add: frame_header_def numeral_2_eq_2)

lemma header_stream_id [simp]: "take 4 (drop 4 (frame_header m)) = put_u32 (mStreamID m)"
  by (simp add: frame_header_def)

lemma header_length [simp]:
  "take 4 (drop 8 (frame_header m)) = put_u32 (word_of_nat (length (mPayload m)))"
  by (simp add: frame_header_def)

lemma parse_frame_header [codec_simps]:
  "length (mPayload m) \<le> MaxPayloadSize \<Longrightarrow>
     parse_header (frame_header m) = Inr (m\<lparr>mPayload := []\<rparr>, word_of_nat (length (mPayload m)))"
  by (simp add: parse_header_def Let_def unat_payload_len)

lemma WriteMessage_Inr:
  "WriteMessage m = Inr f \<longleftrightarrow> length (mPayload m) \<le> MaxPayloadSize \<and> f = frame_header m @ mPayload m"
  by (auto simp: WriteMessage_def)

lemma ReadMessage_frame [codec_simps]:
  assumes "length (mPayload m) \<le> MaxPayloadSize"
  shows "ReadMessage (frame_header m @ mPayload m @ rest) = Inr (m, rest)"
proof (cases "mPayload m = []")
  case True
  with assms show ?thesis
    by (simp add: ReadMessage_def parse_frame_header)
next
  case False
  with assms have "(word_of_nat (length (mPayload m)) :: u32) \<noteq> 0"
    by (metis unat_payload_len length_0_conv unsigned_0)
  with assms show ?thesis
    by (simp add: ReadMessage_def parse_frame_header unat_payload_len word_neq_0_conv)
qed

lemma read_all_frames:
  "list_all (\<lambda>m. length (mPayload m) \<le> MaxPayloadSize) ms \<Longrightarrow>
     read_all (concat (map (\<lambda>m. frame_header m @ mPayload m) ms) @ tail)
       = (ms @ fst (read_all tail), snd (read_all tail))"
proof (induction ms)
  case Nil
  then show ?case by simp
next
  case (Cons m ms)
  then show ?case
    by (subst read_all.simps) (simp add: ReadMessage_frame)
qed

lemma read_all_Nil [simp]: "read_all [] = ([], MsgIO EOF)"
  by (simp add: read_all.simps ReadMessage_def read_full_def HeaderSize_def)

lemma length_12_split:
  assumes "length h = 12"
  shows "h = [h ! 0, h ! 1, h ! 2, h ! 3] @ take 4 (drop 4 h) @ take 4 (drop 8 h)"
proof -
  obtain h0 h1 h2 h3 h4 h5 h6 h7 h8 h9 ha hb where "h = [h0,h1,h2,h3,h4,h5,h6,h7,h8,h9,ha,hb]"
    using assms by (auto simp: numeral_eq_Suc length_Suc_conv)
  then show ?thesis by (simp add: numeral_2_eq_2 numeral_3_eq_3)
qed

lemma parse_header_Inr:
  assumes "parse_header h = Inr (m, len)" "length h = HeaderSize"
  shows "unat len \<le> MaxPayloadSize" "mPayload m = []"
    "h = [ProtocolVersion, mType m, mFlags m, h ! 3] @ put_u32 (mStreamID m) @ put_u32 len"
proof -
  have l: "length h = 12" using assms(2) by (simp add: HeaderSize_def)
  have eq: "put_u32 (get_u32 (take 4 (drop 4 h))) = take 4 (drop 4 h)"
    "put_u32 (get_u32 (take 4 (drop 8 h))) = take 4 (drop 8 h)"
    by (rule put_get_u32, simp add: l)+
  have "h ! 0 = ProtocolVersion" "len = get_u32 (take 4 (drop 8 h))"
    "m = \<lparr>mType = h ! 1, mFlags = h ! 2, mStreamID = get_u32 (take 4 (drop 4 h)), mPayload = []\<rparr>"
    "unat len \<le> MaxPayloadSize"
    using assms(1) by (simp_all add: parse_header_def Let_def split: if_splits)
  with eq length_12_split [OF l]
  show "unat len \<le> MaxPayloadSize" "mPayload m = []"
    "h = [ProtocolVersion, mType m, mFlags m, h ! 3] @ put_u32 (mStreamID m) @ put_u32 len"
    by simp_all
qed

lemma word_of_nat_eq_unat: "length p = unat len \<Longrightarrow> word_of_nat (length p) = (len :: u32)"
  by simp

text \<open>The bytes that a successful \<^verbatim>\<open>ReadMessage\<close> consumed.\<close>

lemma ReadMessage_Inr:
  assumes "ReadMessage inp = Inr (m, rest)"
  shows "length (mPayload m) \<le> MaxPayloadSize"
    "\<exists>r. inp = [ProtocolVersion, mType m, mFlags m, r] @ put_u32 (mStreamID m)
                 @ put_u32 (word_of_nat (length (mPayload m))) @ mPayload m @ rest"
proof -
  obtain h q m0 len where h: "read_full HeaderSize inp = Inr (h, q)" "parse_header h = Inr (m0, len)"
    and p: "if len > 0 then \<exists>p. read_full (unat len) q = Inr (p, rest) \<and> m = m0\<lparr>mPayload := p\<rparr>
            else m = m0 \<and> rest = q"
    using assms by (auto simp: ReadMessage_def split: sum.splits prod.splits if_splits)
  have l: "inp = h @ q" "length h = HeaderSize" using h(1) by (simp_all add: read_full_Inr)
  note hd = parse_header_Inr [OF h(2) l(2)]
  have q: "q = mPayload m @ rest" "length (mPayload m) = unat len"
    "mType m = mType m0" "mFlags m = mFlags m0" "mStreamID m = mStreamID m0"
    using p hd(2) by (auto simp: read_full_Inr simp flip: word_neq_0_conv split: if_splits)
  with hd(1) show "length (mPayload m) \<le> MaxPayloadSize" by simp
  show "\<exists>r. inp = [ProtocolVersion, mType m, mFlags m, r] @ put_u32 (mStreamID m)
                 @ put_u32 (word_of_nat (length (mPayload m))) @ mPayload m @ rest"
    using l(1) hd(3) q word_of_nat_eq_unat [OF q(2)] by (intro exI [of _ "h ! 3"]) simp
qed

lemma read_full_take:
  assumes "k < length a"
  shows "read_full (length a) (take k a) = Inl (if k = 0 then EOF else UnexpectedEOF)"
  using assms by (auto simp: read_full_def)

section \<open>Properties\<close>

text \<open>
  C5: A peer that reads what any sequence of \<^verbatim>\<open>WriteMessage\<close> calls put on the connection gets
  exactly the messages written, in order and with type, flags, stream id and payload
  unchanged, and then whatever the rest of the stream holds.
\<close>

theorem write_read_stream:
  assumes "list_all2 (\<lambda>m f. WriteMessage m = Inr f) ms fs"
  shows "read_all (concat fs @ tail) = (ms @ fst (read_all tail), snd (read_all tail))"
proof -
  have "fs = map (\<lambda>m. frame_header m @ mPayload m) ms"
    "list_all (\<lambda>m. length (mPayload m) \<le> MaxPayloadSize) ms"
    using assms by (induction ms fs rule: list_all2_induct) (auto simp: WriteMessage_Inr)
  then show ?thesis by (simp add: read_all_frames)
qed

theorem write_read_stream_witness:
  "read_all (frame_header (HalfClose 7) @ frame_header (mk_msg MsgData 9 [1, 2]) @ [1, 2])
     = ([HalfClose 7, mk_msg MsgData 9 [1, 2]], MsgIO EOF)"
  using write_read_stream [of "[HalfClose 7, mk_msg MsgData 9 [1, 2]]"
      "[frame_header (HalfClose 7), frame_header (mk_msg MsgData 9 [1, 2]) @ [1, 2]]" "[]"]
  by (simp add: WriteMessage_def HalfClose_def mk_msg_def MaxPayloadSize_def)

text \<open>
  C30: \<^verbatim>\<open>ReadMessage\<close> accepts exactly the version-1 frames with a payload of at most
  \<^verbatim>\<open>MaxPayloadSize\<close> bytes: on success the input starts with the header of the returned message
  (the second reserved byte is arbitrary) and its payload, and the rest is left unread;
  conversely every such frame is read back.
\<close>

theorem ReadMessage_exact:
  "ReadMessage inp = Inr (m, rest) \<longleftrightarrow>
     length (mPayload m) \<le> MaxPayloadSize \<and>
     (\<exists>r. inp = [ProtocolVersion, mType m, mFlags m, r] @ put_u32 (mStreamID m)
                 @ put_u32 (word_of_nat (length (mPayload m))) @ mPayload m @ rest)"
    (is "?L \<longleftrightarrow> ?R")
proof
  show "?L \<Longrightarrow> ?R" using ReadMessage_Inr by blast
next
  assume R: ?R
  then obtain r where inp: "inp = [ProtocolVersion, mType m, mFlags m, r] @ put_u32 (mStreamID m)
       @ put_u32 (word_of_nat (length (mPayload m))) @ mPayload m @ rest" by blast
  let ?h = "[ProtocolVersion, mType m, mFlags m, r] @ put_u32 (mStreamID m)
       @ put_u32 (word_of_nat (length (mPayload m)))"
  have "parse_header ?h = parse_header (frame_header m)"
    by (simp add: parse_header_def frame_header_def Let_def numeral_2_eq_2)
  moreover have "read_full HeaderSize inp = Inr (?h, mPayload m @ rest)"
    unfolding inp read_full_Inr by (simp add: HeaderSize_def)
  ultimately have "ReadMessage inp = ReadMessage (frame_header m @ mPayload m @ rest)"
    by (simp add: ReadMessage_def)
  with R show ?L by (simp add: ReadMessage_frame)
qed

text \<open>
  A frame cut short is never taken for a message. A stream that ends inside the header
  or inside the payload gives \<^verbatim>\<open>io.ErrUnexpectedEOF\<close>, one that ends before the first byte
  gives \<^verbatim>\<open>io.EOF\<close>; one that ends right after the header of a frame with a payload gives
  \<^verbatim>\<open>io.EOF\<close> too, so a caller cannot tell that cut from an orderly end.
\<close>

theorem ReadMessage_truncated:
  assumes "WriteMessage m = Inr f" "k < length f"
  shows "ReadMessage (take k f) = Inl (MsgIO (if k = 0 \<or> k = HeaderSize then EOF else UnexpectedEOF))"
proof (cases "k < HeaderSize")
  case True
  have "take k f = take k (frame_header m)" using assms True by (simp add: WriteMessage_Inr)
  then have "read_full HeaderSize (take k f) = Inl (if k = 0 then EOF else UnexpectedEOF)"
    using read_full_take [of k "frame_header m"] True by simp
  with True show ?thesis by (simp add: ReadMessage_def)
next
  case False
  define j where "j = k - HeaderSize"
  have k: "k = HeaderSize + j" using False by (simp add: j_def)
  have f: "f = frame_header m @ mPayload m" "length (mPayload m) \<le> MaxPayloadSize"
    using assms(1) by (simp_all add: WriteMessage_Inr)
  then have j: "j < length (mPayload m)" using assms(2) by (simp add: k)
  have "take k f = frame_header m @ take j (mPayload m)" by (simp add: f k)
  moreover have "(word_of_nat (length (mPayload m)) :: u32) > 0"
    using j f(2) by (metis unat_payload_len not_less_zero unsigned_0 word_neq_0_conv)
  ultimately show ?thesis
    using j f(2) read_full_take [OF j]
    by (simp add: ReadMessage_def parse_frame_header unat_payload_len k HeaderSize_def)
qed

theorem ReadMessage_truncated_witness:
  "ReadMessage (take 12 (frame_header (mk_msg MsgData 9 [1, 2]) @ [1, 2])) = Inl (MsgIO EOF)"
  using ReadMessage_truncated [of "mk_msg MsgData 9 [1, 2]"
      "frame_header (mk_msg MsgData 9 [1, 2]) @ [1, 2]" 12]
  by (simp add: WriteMessage_def mk_msg_def MaxPayloadSize_def HeaderSize_def)

end
