(* ===== verification/GoJson.thy ===== *)
theory GoJson
  imports Prelude
begin

text \<open>
  What the control channel uses of Go's \<^verbatim>\<open>encoding/json\<close>: \<^verbatim>\<open>Marshal\<close> of flat structs
  (strings, integers, booleans, \<^verbatim>\<open>omitempty\<close>) and \<^verbatim>\<open>Unmarshal\<close> of any JSON text into such
  a struct. Text is a Go string, a sequence of bytes; both directions replace every byte
  that does not start a well-formed UTF-8 sequence by U+FFFD (\<open>to_valid\<close>). Field names are
  matched up to ASCII case, unknown members are skipped, the last of duplicate members wins,
  \<^verbatim>\<open>null\<close> leaves a field alone, a member of the wrong type is an error. The parser recurses
  on fuel; \<open>jvalue_enough\<close> shows that twice as much fuel as there are characters is never
  used up. The decoder's limit of 10000 nested arrays or objects is not modelled.
\<close>

section \<open>Printing\<close>

definition ch_quote :: char where "ch_quote = CHR 0x22"
definition ch_bslash :: char where "ch_bslash = CHR 0x5C"

definition hexd :: "nat \<Rightarrow> char" where
  "hexd n = ''0123456789abcdef'' ! n"

definition escape_char :: "char \<Rightarrow> string" where
  "escape_char c =
     (if c = ch_quote \<or> c = ch_bslash then [ch_bslash, c]
      else if c = CHR 0x08 then [ch_bslash, CHR ''b'']
      else if c = CHR 0x0C then [ch_bslash, CHR ''f'']
      else if c = CHR 0x0A then [ch_bslash, CHR ''n'']
      else if c = CHR 0x0D then [ch_bslash, CHR ''r'']
      else if c = CHR 0x09 then [ch_bslash, CHR ''t'']
      else if (of_char c :: nat) < 32 \<or> c \<in> {CHR ''<'', CHR ''>'', CHR ''&''}
      then [ch_bslash, CHR ''u'', CHR ''0'', CHR ''0'', hexd (of_char c div 16), hexd (of_char c mod 16)]
      else [c])"

text \<open>
  \<open>rune_len s\<close> is the size of the first rune of \<open>s\<close> as \<^verbatim>\<open>utf8.DecodeRuneInString\<close> finds it, 0
  when \<open>s\<close> does not start with a well-formed sequence.
\<close>

definition rune_size :: "nat \<Rightarrow> nat" where
  "rune_size n =
     (if n < 0x80 then 1 else if n < 0xC2 then 0 else if n < 0xE0 then 2
      else if n < 0xF0 then 3 else if n < 0xF5 then 4 else 0)"

definition second_ok :: "nat \<Rightarrow> nat \<Rightarrow> bool" where
  "second_ok n m \<longleftrightarrow>
     (if n = 0xE0 then 0xA0 else if n = 0xF0 then 0x90 else 0x80) \<le> m
     \<and> m \<le> (if n = 0xED then 0x9F else if n = 0xF4 then 0x8F else 0xBF)"

definition rune_ok :: "string \<Rightarrow> bool" where
  "rune_ok r \<longleftrightarrow>
     (1 < length r \<longrightarrow> second_ok (of_char (r ! 0)) (of_char (r ! 1)))
     \<and> list_all (\<lambda>c. 0x80 \<le> (of_char c :: nat) \<and> (of_char c :: nat) \<le> 0xBF) (drop 2 r)"

definition rune_len :: "string \<Rightarrow> nat" where
  "rune_len s =
     (case s of
        [] \<Rightarrow> 0
      | c # _ \<Rightarrow> let k = rune_size (of_char c) in
                 if k \<le> length s \<and> rune_ok (take k s) then k else 0)"

text \<open>The UTF-8 encoding of U+FFFD, and the text of a string in which it replaces bad bytes.\<close>

definition bad_rune :: string where
  "bad_rune = [CHR 0xEF, CHR 0xBF, CHR 0xBD]"

function to_valid :: "string \<Rightarrow> string" where
  "to_valid [] = []"
| "to_valid (c # s) =
     (if (of_char c :: nat) < 128 then c # to_valid s
      else if rune_len (c # s) = 0 then bad_rune @ to_valid s
      else take (rune_len (c # s)) (c # s) @ to_valid (drop (rune_len (c # s)) (c # s)))"
  by pat_completeness auto
termination
  by (relation "measure length") auto

definition valid_utf8 :: "string \<Rightarrow> bool" where
  "valid_utf8 s \<longleftrightarrow> to_valid s = s"

definition escape_rune :: "string \<Rightarrow> string" where
  "escape_rune r =
     (if r = [CHR 0xE2, CHR 0x80, CHR 0xA8] then ch_bslash # ''u2028''
      else if r = [CHR 0xE2, CHR 0x80, CHR 0xA9] then ch_bslash # ''u2029''
      else r)"

function escape_string :: "string \<Rightarrow> string" where
  "escape_string [] = []"
| "escape_string (c # s) =
     (if (of_char c :: nat) < 128 then escape_char c @ escape_string s
      else if rune_len (c # s) = 0 then ch_bslash # ''ufffd'' @ escape_string s
      else escape_rune (take (rune_len (c # s)) (c # s))
             @ escape_string (drop (rune_len (c # s)) (c # s)))"
  by pat_completeness auto
termination
  by (relation "measure length") auto

definition print_string :: "string \<Rightarrow> string" where
  "print_string s = ch_quote # escape_string s @ [ch_quote]"

definition digit_char :: "nat \<Rightarrow> char" where
  "digit_char n = ''0123456789'' ! n"

fun print_nat :: "nat \<Rightarrow> string" where
  "print_nat n = (if n < 10 then [digit_char n] else print_nat (n div 10) @ [digit_char (n mod 10)])"

declare print_nat.simps [simp del]

definition print_int :: "int \<Rightarrow> string" where
  "print_int i = (if i < 0 then CHR ''-'' # print_nat (nat (- i)) else print_nat (nat i))"

datatype jscalar = SStr string | SNum int | SBool bool

fun print_scalar :: "jscalar \<Rightarrow> string" where
  "print_scalar (SStr s) = print_string s"
| "print_scalar (SNum i) = print_int i"
| "print_scalar (SBool b) = (if b then ''true'' else ''false'')"

definition print_member :: "string \<times> jscalar \<Rightarrow> string" where
  "print_member kv = print_string (fst kv) @ '':'' @ print_scalar (snd kv)"

fun print_members :: "(string \<times> jscalar) list \<Rightarrow> string" where
  "print_members [] = []"
| "print_members [kv] = print_member kv"
| "print_members (kv # kvs) = print_member kv @ '','' @ print_members kvs"

definition json_object :: "(string \<times> jscalar) list \<Rightarrow> string" where
  "json_object kvs = ''{'' @ print_members kvs @ ''}''"

text \<open>A field tagged \<^verbatim>\<open>omitempty\<close> is left out when it holds the empty string.\<close>

definition omit_empty :: "string \<Rightarrow> string \<Rightarrow> (string \<times> jscalar) list" where
  "omit_empty k s = (if s = [] then [] else [(k, SStr s)])"

section \<open>Parsing\<close>

datatype json =
    JNull
  | JBool bool
  | JNum string
  | JStr string
  | JArr "json list"
  | JObj "(string \<times> json) list"

definition is_ws :: "char \<Rightarrow> bool" where
  "is_ws c \<longleftrightarrow> c = CHR 0x20 \<or> c = CHR 0x09 \<or> c = CHR 0x0A \<or> c = CHR 0x0D"

definition skip_ws :: "string \<Rightarrow> string" where
  "skip_ws s = dropWhile is_ws s"

definition is_digit :: "char \<Rightarrow> bool" where
  "is_digit c \<longleftrightarrow> 48 \<le> (of_char c :: nat) \<and> (of_char c :: nat) \<le> 57"

definition digit_val :: "char \<Rightarrow> nat" where
  "digit_val c = of_char c - 48"

definition hex_val :: "char \<Rightarrow> nat option" where
  "hex_val c =
     (if is_digit c then Some (of_char c - 48)
      else if 97 \<le> (of_char c :: nat) \<and> (of_char c :: nat) \<le> 102 then Some (of_char c - 87)
      else if 65 \<le> (of_char c :: nat) \<and> (of_char c :: nat) \<le> 70 then Some (of_char c - 55)
      else None)"

fun hex4 :: "string \<Rightarrow> nat option" where
  "hex4 (a # b # c # d # s) =
     (case (hex_val a, hex_val b, hex_val c, hex_val d) of
        (Some w, Some x, Some y, Some z) \<Rightarrow> Some (((w * 16 + x) * 16 + y) * 16 + z)
      | _ \<Rightarrow> None)"
| "hex4 s = None"

definition utf8 :: "nat \<Rightarrow> string" where
  "utf8 n =
     (if n < 0x80 then [char_of n]
      else if n < 0x800 then [char_of (0xC0 + n div 64), char_of (0x80 + n mod 64)]
      else if n < 0x10000
      then [char_of (0xE0 + n div 4096), char_of (0x80 + n div 64 mod 64), char_of (0x80 + n mod 64)]
      else [char_of (0xF0 + n div 262144), char_of (0x80 + n div 4096 mod 64),
            char_of (0x80 + n div 64 mod 64), char_of (0x80 + n mod 64)])"

definition unescape :: "char \<Rightarrow> char option" where
  "unescape c =
     (if c = ch_quote \<or> c = ch_bslash \<or> c = CHR ''/'' then Some c
      else if c = CHR ''b'' then Some (CHR 0x08)
      else if c = CHR ''f'' then Some (CHR 0x0C)
      else if c = CHR ''n'' then Some (CHR 0x0A)
      else if c = CHR ''r'' then Some (CHR 0x0D)
      else if c = CHR ''t'' then Some (CHR 0x09)
      else None)"

text \<open>
  The second half of a surrogate pair: when the text goes on with \<^verbatim>\<open>\uDC00\<close> to
  \<^verbatim>\<open>\uDFFF\<close> after a high surrogate, the pair is one code point.
\<close>

definition low_surrogate :: "nat \<Rightarrow> string \<Rightarrow> nat option" where
  "low_surrogate hi s =
     (if 0xD800 \<le> hi \<and> hi < 0xDC00 \<and> take 2 s = [ch_bslash, CHR ''u''] then
        (case hex4 (drop 2 s) of
           Some lo \<Rightarrow> if 0xDC00 \<le> lo \<and> lo < 0xE000
                      then Some (0x10000 + (hi - 0xD800) * 1024 + (lo - 0xDC00)) else None
         | None \<Rightarrow> None)
      else None)"

text \<open>The rest of a string literal after its opening quote: its value and what follows.\<close>

function scan_string :: "string \<Rightarrow> (string \<times> string) option" where
  "scan_string [] = None"
| "scan_string (c # s) =
     (if c = ch_quote then Some ([], s)
      else if c = ch_bslash then
        (case s of
           [] \<Rightarrow> None
         | e # t \<Rightarrow>
             if e = CHR ''u'' then
               (case hex4 t of
                  None \<Rightarrow> None
                | Some n \<Rightarrow>
                    if 0xD800 \<le> n \<and> n < 0xE000 then
                      (case low_surrogate n (drop 4 t) of
                         Some p \<Rightarrow> map_option (apfst ((@) (utf8 p))) (scan_string (drop 10 t))
                       | None \<Rightarrow> map_option (apfst ((@) (utf8 0xFFFD))) (scan_string (drop 4 t)))
                    else map_option (apfst ((@) (utf8 n))) (scan_string (drop 4 t)))
             else
               (case unescape e of
                  None \<Rightarrow> None
                | Some d \<Rightarrow> map_option (apfst ((#) d)) (scan_string t)))
      else if (of_char c :: nat) < 32 then None
      else if (of_char c :: nat) < 128 then map_option (apfst ((#) c)) (scan_string s)
      else if rune_len (c # s) = 0 then map_option (apfst ((@) bad_rune)) (scan_string s)
      else map_option (apfst ((@) (take (rune_len (c # s)) (c # s))))
             (scan_string (drop (rune_len (c # s)) (c # s))))"
  by pat_completeness auto
termination
  by (relation "measure length") auto

text \<open>A number literal: its text and what follows.\<close>

definition scan_frac :: "string \<Rightarrow> (string \<times> string) option" where
  "scan_frac s =
     (case s of
        c # r \<Rightarrow>
          (if c = CHR ''.'' then
             (if takeWhile is_digit r = [] then None
              else Some (c # takeWhile is_digit r, dropWhile is_digit r))
           else Some ([], s))
      | [] \<Rightarrow> Some ([], s))"

definition scan_exp :: "string \<Rightarrow> (string \<times> string) option" where
  "scan_exp s =
     (case s of
        e # r \<Rightarrow>
          (if e = CHR ''e'' \<or> e = CHR ''E'' then
             (let (sg, r') = (case r of c # q \<Rightarrow> if c = CHR ''+'' \<or> c = CHR ''-'' then ([c], q) else ([], r)
                                      | [] \<Rightarrow> ([], r))
              in if takeWhile is_digit r' = [] then None
                 else Some (e # sg @ takeWhile is_digit r', dropWhile is_digit r'))
           else Some ([], s))
      | [] \<Rightarrow> Some ([], s))"

definition scan_int :: "string \<Rightarrow> (string \<times> string) option" where
  "scan_int s =
     (case s of
        [] \<Rightarrow> None
      | c # r \<Rightarrow> if c = CHR ''0'' then Some ([c], r)
                 else if is_digit c then Some (takeWhile is_digit s, dropWhile is_digit s)
                 else None)"

definition scan_number :: "string \<Rightarrow> (string \<times> string) option" where
  "scan_number s =
     (let (sg, s1) = (case s of c # r \<Rightarrow> if c = CHR ''-'' then ([c], r) else ([], s) | [] \<Rightarrow> ([], s))
      in case scan_int s1 of
           None \<Rightarrow> None
         | Some (ip, s2) \<Rightarrow>
             (case scan_frac s2 of
                None \<Rightarrow> None
              | Some (fp, s3) \<Rightarrow>
                  (case scan_exp s3 of
                     None \<Rightarrow> None
                   | Some (ep, s4) \<Rightarrow> Some (sg @ ip @ fp @ ep, s4))))"

fun jvalue :: "nat \<Rightarrow> string \<Rightarrow> (json \<times> string) option"
and jelems :: "nat \<Rightarrow> string \<Rightarrow> (json list \<times> string) option"
and jmembers :: "nat \<Rightarrow> string \<Rightarrow> ((string \<times> json) list \<times> string) option" where
  "jvalue 0 s = None"
| "jvalue (Suc f) s =
     (case skip_ws s of
        [] \<Rightarrow> None
      | c # r \<Rightarrow>
          if c = CHR ''{'' then
            (case skip_ws r of
               [] \<Rightarrow> None
             | d # t \<Rightarrow> if d = CHR ''}'' then Some (JObj [], t)
                        else map_option (apfst JObj) (jmembers f (d # t)))
          else if c = CHR ''['' then
            (case skip_ws r of
               [] \<Rightarrow> None
             | d # t \<Rightarrow> if d = CHR '']'' then Some (JArr [], t)
                        else map_option (apfst JArr) (jelems f (d # t)))
          else if c = ch_quote then map_option (apfst JStr) (scan_string r)
          else if take 4 (c # r) = ''null'' then Some (JNull, drop 4 (c # r))
          else if take 4 (c # r) = ''true'' then Some (JBool True, drop 4 (c # r))
          else if take 5 (c # r) = ''false'' then Some (JBool False, drop 5 (c # r))
          else map_option (apfst JNum) (scan_number (c # r)))"
| "jelems 0 s = None"
| "jelems (Suc f) s =
     (case jvalue f s of
        None \<Rightarrow> None
      | Some (v, r) \<Rightarrow>
          (case skip_ws r of
             [] \<Rightarrow> None
           | d # t \<Rightarrow> if d = CHR '','' then map_option (apfst ((#) v)) (jelems f t)
                      else if d = CHR '']'' then Some ([v], t) else None))"
| "jmembers 0 s = None"
| "jmembers (Suc f) s =
     (case skip_ws s of
        [] \<Rightarrow> None
      | c # r \<Rightarrow>
          if c = ch_quote then
            (case scan_string r of
               None \<Rightarrow> None
             | Some (k, r1) \<Rightarrow>
                 (case skip_ws r1 of
                    [] \<Rightarrow> None
                  | d # r2 \<Rightarrow>
                      if d = CHR '':'' then
                        (case jvalue f r2 of
                           None \<Rightarrow> None
                         | Some (v, r3) \<Rightarrow>
                             (case skip_ws r3 of
                                [] \<Rightarrow> None
                              | e # r4 \<Rightarrow>
                                  if e = CHR '','' then map_option (apfst ((#) (k, v))) (jmembers f r4)
                                  else if e = CHR ''}'' then Some ([(k, v)], r4) else None))
                      else None))
          else None)"

definition json_parse :: "string \<Rightarrow> json option" where
  "json_parse s =
     (case jvalue (2 * length s + 1) s of
        Some (v, r) \<Rightarrow> if skip_ws r = [] then Some v else None
      | None \<Rightarrow> None)"

section \<open>Decoding a parsed value into a struct\<close>

definition lower_char :: "char \<Rightarrow> char" where
  "lower_char c = (if 65 \<le> (of_char c :: nat) \<and> (of_char c :: nat) \<le> 90
                   then char_of ((of_char c :: nat) + 32) else c)"

definition key_is :: "string \<Rightarrow> string \<Rightarrow> bool" where
  "key_is name k \<longleftrightarrow> map lower_char k = map lower_char name"

fun digits_val :: "nat \<Rightarrow> string \<Rightarrow> nat" where
  "digits_val a [] = a"
| "digits_val a (c # s) = digits_val (a * 10 + digit_val c) s"

definition parse_uint :: "nat \<Rightarrow> string \<Rightarrow> nat option" where
  "parse_uint bound s =
     (if s \<noteq> [] \<and> list_all is_digit s \<and> digits_val 0 s < bound then Some (digits_val 0 s) else None)"

definition parse_int64 :: "string \<Rightarrow> int option" where
  "parse_int64 s =
     (case s of
        [] \<Rightarrow> None
      | c # r \<Rightarrow> if c = CHR ''-''
                 then map_option (\<lambda>n. - int n) (parse_uint (2 ^ 63 + 1) r)
                 else map_option int (parse_uint (2 ^ 63) s))"

fun set_string :: "json \<Rightarrow> string \<Rightarrow> string option" where
  "set_string (JStr s) old = Some s"
| "set_string JNull old = Some old"
| "set_string _ old = None"

fun set_bool :: "json \<Rightarrow> bool \<Rightarrow> bool option" where
  "set_bool (JBool b) old = Some b"
| "set_bool JNull old = Some old"
| "set_bool _ old = None"

fun set_u32 :: "json \<Rightarrow> u32 \<Rightarrow> u32 option" where
  "set_u32 (JNum s) old = map_option word_of_nat (parse_uint (2 ^ 32) s)"
| "set_u32 JNull old = Some old"
| "set_u32 _ old = None"

fun set_int :: "json \<Rightarrow> int \<Rightarrow> int option" where
  "set_int (JNum s) old = parse_int64 s"
| "set_int JNull old = Some old"
| "set_int _ old = None"

fun decode_members :: "(string \<Rightarrow> json \<Rightarrow> 'r \<Rightarrow> 'r option) \<Rightarrow> (string \<times> json) list \<Rightarrow> 'r \<Rightarrow> 'r option" where
  "decode_members fld [] r = Some r"
| "decode_members fld ((k, v) # ms) r =
     (case fld k v r of None \<Rightarrow> None | Some r' \<Rightarrow> decode_members fld ms r')"

fun decode_struct :: "(string \<Rightarrow> json \<Rightarrow> 'r \<Rightarrow> 'r option) \<Rightarrow> 'r \<Rightarrow> json \<Rightarrow> 'r option" where
  "decode_struct fld zero (JObj ms) = decode_members fld ms zero"
| "decode_struct fld zero JNull = Some zero"
| "decode_struct fld zero _ = None"

definition Unmarshal :: "(string \<Rightarrow> json \<Rightarrow> 'r \<Rightarrow> 'r option) \<Rightarrow> 'r \<Rightarrow> string \<Rightarrow> 'r option" where
  "Unmarshal fld zero s =
     (case json_parse s of None \<Rightarrow> None | Some j \<Rightarrow> decode_struct fld zero j)"

section \<open>Printed text parses back\<close>

lemma hex_val_hexd [simp]: "n < 16 \<Longrightarrow> hex_val (hexd n) = Some n"
proof -
  have "\<forall>n \<in> {0..<16}. hex_val (hexd n) = Some n" by code_simp
  then show "n < 16 \<Longrightarrow> hex_val (hexd n) = Some n" by simp
qed

lemma hex_val_0 [simp]: "hex_val (CHR ''0'') = Some 0"
  by code_simp

lemma special_less_64: "c \<in> {CHR ''<'', CHR ''>'', CHR ''&''} \<Longrightarrow> (of_char c :: nat) < 64"
  by auto

lemma scan_unicode:
  assumes "hex4 s = Some n" "\<not> (0xD800 \<le> n \<and> n < 0xE000)"
  shows "scan_string (ch_bslash # CHR ''u'' # s) = map_option (apfst ((@) (utf8 n))) (scan_string (drop 4 s))"
  using assms by (auto simp: ch_bslash_def ch_quote_def)

lemma scan_hex_escape:
  assumes "(of_char c :: nat) < 64"
  shows "scan_string ([ch_bslash, CHR ''u'', CHR ''0'', CHR ''0'', hexd (of_char c div 16), hexd (of_char c mod 16)] @ t)
         = map_option (apfst ((#) c)) (scan_string t)"
proof -
  let ?s = "CHR ''0'' # CHR ''0'' # hexd (of_char c div 16) # hexd (of_char c mod 16) # t"
  have "of_char c div 16 < (16::nat)" using assms by simp
  then have "hex4 ?s = Some (of_char c)" by simp
  moreover have "utf8 (of_char c) = [c]" using assms by (simp add: utf8_def char_of_eq_iff)
  moreover have "(@) [c] = (#) c" by (simp add: fun_eq_iff)
  moreover have "drop 4 ?s = t" by simp
  ultimately show ?thesis
    using scan_unicode [of ?s "of_char c"] assms by (simp del: scan_string.simps hex4.simps)
qed

lemma escape_cases:
  obtains (hex) "(of_char c :: nat) < 64" "escape_char c = [ch_bslash, CHR ''u'', CHR ''0'', CHR ''0'',
       hexd (of_char c div 16), hexd (of_char c mod 16)]"
    | (esc) e where "escape_char c = [ch_bslash, e]" "unescape e = Some c" "e \<noteq> CHR ''u''"
    | (raw) "escape_char c = [c]" "c \<noteq> ch_quote" "c \<noteq> ch_bslash" "\<not> (of_char c :: nat) < 32"
proof (cases "c \<in> {ch_quote, ch_bslash, CHR 0x08, CHR 0x0C, CHR 0x0A, CHR 0x0D, CHR 0x09}")
  case True
  then show ?thesis
    by (auto intro!: esc simp: escape_char_def unescape_def ch_bslash_def ch_quote_def)
next
  case nosp: False
  show ?thesis
  proof (cases "(of_char c :: nat) < 32 \<or> c \<in> {CHR ''<'', CHR ''>'', CHR ''&''}")
    case True
    then have "(of_char c :: nat) < 64" using special_less_64 by force
    moreover from True nosp have "escape_char c = [ch_bslash, CHR ''u'', CHR ''0'', CHR ''0'',
       hexd (of_char c div 16), hexd (of_char c mod 16)]"
      unfolding escape_char_def by simp
    ultimately show ?thesis by (rule hex)
  next
    case False
    with nosp have "escape_char c = [c]" unfolding escape_char_def by simp
    with nosp False show ?thesis by (intro raw) simp_all
  qed
qed

lemma scan_escape:
  assumes ascii: "(of_char c :: nat) < 128"
  shows "scan_string (escape_char c @ t) = map_option (apfst ((#) c)) (scan_string t)"
proof (cases c rule: escape_cases)
  case hex
  then show ?thesis using scan_hex_escape [of c t] by simp
next
  case (esc e)
  then show ?thesis by (simp add: ch_bslash_def ch_quote_def)
next
  case raw
  then show ?thesis using ascii by simp
qed

lemma rune_len_le: "rune_len s \<le> length s"
  by (auto simp: rune_len_def Let_def split: list.splits)

lemma rune_len_take:
  assumes "0 < rune_len s"
  shows "rune_len (take (rune_len s) s @ t) = rune_len s"
proof -
  obtain c q where s: "s = c # q" using assms by (cases s) (auto simp: rune_len_def)
  define k where "k = rune_size (of_char c)"
  have k: "rune_len s = k" "0 < k" "k \<le> length s" "rune_ok (take k s)"
    using assms by (auto simp: rune_len_def s k_def Let_def split: if_splits)
  then obtain r where r: "take k s = c # r" "length r = k - 1"
    by (cases k) (auto simp: s)
  with k have "take k (c # r @ t) = c # r" by (cases k) auto
  with k r show ?thesis by (simp add: rune_len_def Let_def k_def [symmetric])
qed

lemma utf8_bad_rune [simp]: "utf8 0xFFFD = bad_rune"
  by (simp add: utf8_def bad_rune_def char_of_eq_iff)

lemma scan_rune:
  assumes "\<not> (of_char c :: nat) < 128" "0 < rune_len (c # s)"
  shows "scan_string (escape_rune (take (rune_len (c # s)) (c # s)) @ t)
       = map_option (apfst ((@) (take (rune_len (c # s)) (c # s)))) (scan_string t)"
proof -
  define r where "r = take (rune_len (c # s)) (c # s)"
  obtain q where q: "r = c # q" using assms by (cases "rune_len (c # s)") (auto simp: r_def)
  have len: "length r = rune_len (c # s)" using rune_len_le [of "c # s"] by (simp add: r_def)
  have rl: "rune_len (c # q @ t) = length r"
    using rune_len_take [OF assms(2), of t] len by (simp add: r_def [symmetric] q)
  have tk: "take (length r) (c # q @ t) = r" "drop (length r) (c # q @ t) = t"
    unfolding q by simp_all
  have "escape_rune r = r" if "r \<noteq> [CHR 0xE2, CHR 0x80, CHR 0xA8]" "r \<noteq> [CHR 0xE2, CHR 0x80, CHR 0xA9]"
    using that unfolding escape_rune_def by argo
  then consider (ls) "r = [CHR 0xE2, CHR 0x80, CHR 0xA8]" | (ps) "r = [CHR 0xE2, CHR 0x80, CHR 0xA9]"
    | (plain) "escape_rune r = r" by blast
  then show ?thesis
  proof cases
    case ls
    moreover have "utf8 0x2028 = [CHR 0xE2, CHR 0x80, CHR 0xA8]" by (simp add: utf8_def char_of_eq_iff)
    moreover have "hex4 (''2028'' @ t) = Some 0x2028" by (simp add: hex_val_def is_digit_def)
    ultimately show ?thesis
      using scan_unicode [of "''2028'' @ t" "0x2028"] by (simp add: escape_rune_def r_def [symmetric] del: scan_string.simps)
  next
    case ps
    moreover have "utf8 0x2029 = [CHR 0xE2, CHR 0x80, CHR 0xA9]" by (simp add: utf8_def char_of_eq_iff)
    moreover have "hex4 (''2029'' @ t) = Some 0x2029" by (simp add: hex_val_def is_digit_def)
    ultimately show ?thesis
      using scan_unicode [of "''2029'' @ t" "0x2029"] by (simp add: escape_rune_def r_def [symmetric] del: scan_string.simps)
  next
    case plain
    have "c \<noteq> ch_quote" "c \<noteq> ch_bslash" using assms(1) by (auto simp: ch_quote_def ch_bslash_def)
    moreover have "0 < length r" using q by simp
    ultimately have "scan_string (c # q @ t) = map_option (apfst ((@) r)) (scan_string t)"
      using assms(1) rl tk by (subst scan_string.simps) (simp del: scan_string.simps)
    with plain show ?thesis by (simp add: r_def [symmetric] q del: scan_string.simps)
  qed
qed

lemma scan_bad:
  "scan_string (ch_bslash # ''ufffd'' @ t) = map_option (apfst ((@) bad_rune)) (scan_string t)"
proof -
  have "hex4 (''fffd'' @ t) = Some 0xFFFD" by (simp add: hex_val_def is_digit_def)
  then show ?thesis
    using scan_unicode [of "''fffd'' @ t" "0xFFFD"] by (simp del: scan_string.simps)
qed

text \<open>Reading a printed string literal gives the string, its bad bytes replaced.\<close>

lemma scan_print_string [simp]:
  "scan_string (escape_string s @ ch_quote # rest) = Some (to_valid s, rest)"
proof (induction s rule: to_valid.induct)
  case 1
  then show ?case by simp
next
  case (2 c s)
  show ?case
  proof (cases "(of_char c :: nat) < 128")
    case True
    with 2 show ?thesis by (simp add: scan_escape del: scan_string.simps)
  next
    case hi: False
    show ?thesis
    proof (cases "rune_len (c # s) = 0")
      case True
      with 2 hi show ?thesis
        using scan_bad [of "escape_string s @ ch_quote # rest"] by (simp del: scan_string.simps)
    next
      case False
      with 2 hi show ?thesis by (simp add: scan_rune del: scan_string.simps)
    qed
  qed
qed

lemma digit_char_props:
  "n < 10 \<Longrightarrow> is_digit (digit_char n) \<and> digit_val (digit_char n) = n \<and> (digit_char n = CHR ''0'') = (n = 0)"
proof -
  have "\<forall>n \<in> {0..<10}. is_digit (digit_char n) \<and> digit_val (digit_char n) = n \<and> (digit_char n = CHR ''0'') = (n = 0)"
    by code_simp
  then show "n < 10 \<Longrightarrow> ?thesis" by simp
qed

lemma print_nat_digits: "list_all is_digit (print_nat n)"
proof (induction n rule: print_nat.induct)
  case (1 n)
  then show ?case by (subst print_nat.simps) (auto simp: digit_char_props)
qed

lemma print_nat_not_Nil [simp]: "print_nat n \<noteq> []"
  by (subst print_nat.simps) simp

lemma digits_val_append: "digits_val a (s @ t) = digits_val (digits_val a s) t"
  by (induction s arbitrary: a) simp_all

lemma digits_val_print_nat [simp]: "digits_val 0 (print_nat n) = n"
proof (induction n rule: print_nat.induct)
  case (1 n)
  show ?case
  proof (cases "n < 10")
    case True
    then show ?thesis by (subst print_nat.simps) (simp add: digit_char_props)
  next
    case False
    with 1 show ?thesis
      by (subst print_nat.simps) (simp add: digits_val_append digit_char_props)
  qed
qed

lemma print_nat_hd: "hd (print_nat n) = CHR ''0'' \<longleftrightarrow> n = 0"
proof (induction n rule: print_nat.induct)
  case (1 n)
  show ?case
  proof (cases "n < 10")
    case True
    then show ?thesis by (subst print_nat.simps) (simp add: digit_char_props)
  next
    case False
    with 1 show ?thesis by (subst print_nat.simps) simp
  qed
qed

lemma print_nat_0: "print_nat 0 = ''0''"
  by (subst print_nat.simps) (simp add: digit_char_def)

text \<open>The characters that can follow a member's value.\<close>

definition ends_value :: "char \<Rightarrow> bool" where
  "ends_value c \<longleftrightarrow> c = CHR '','' \<or> c = CHR ''}''"

lemma takeWhile_digits:
  "list_all is_digit s \<Longrightarrow> ends_value d \<Longrightarrow> takeWhile is_digit (s @ d # rest) = s"
  "list_all is_digit s \<Longrightarrow> ends_value d \<Longrightarrow> dropWhile is_digit (s @ d # rest) = d # rest"
  by (induction s) (auto simp: ends_value_def is_digit_def)

lemma scan_int_print_nat:
  assumes "ends_value d"
  shows "scan_int (print_nat n @ d # rest) = Some (print_nat n, d # rest)"
proof (cases "n = 0")
  case True
  then show ?thesis by (simp add: print_nat_0 scan_int_def)
next
  case False
  obtain c r where cr: "print_nat n = c # r" by (meson neq_Nil_conv print_nat_not_Nil)
  with False have "c \<noteq> CHR ''0''" using print_nat_hd [of n] by simp
  moreover have "is_digit c" using print_nat_digits [of n] cr by simp
  moreover have "takeWhile is_digit (c # r @ d # rest) = c # r" "dropWhile is_digit (c # r @ d # rest) = d # rest"
    using takeWhile_digits [OF print_nat_digits [of n] assms, of rest] cr by simp_all
  ultimately show ?thesis by (simp add: scan_int_def cr)
qed

lemma scan_tail:
  "ends_value d \<Longrightarrow> scan_frac (d # rest) = Some ([], d # rest)"
  "ends_value d \<Longrightarrow> scan_exp (d # rest) = Some ([], d # rest)"
  by (auto simp: ends_value_def scan_frac_def scan_exp_def)

lemma is_digit_neq [simp]: "is_digit c \<Longrightarrow> c \<noteq> CHR ''-''"
  by (auto simp: is_digit_def)

lemma hd_print_nat_digit: "print_nat n = c # r \<Longrightarrow> is_digit c"
  using print_nat_digits [of n] by simp

lemma scan_print_int:
  assumes "ends_value d"
  shows "scan_number (print_int i @ d # rest) = Some (print_int i, d # rest)"
proof (cases "i < 0")
  case True
  with assms show ?thesis
    by (simp add: print_int_def scan_number_def scan_int_print_nat scan_tail)
next
  case False
  obtain c r where cr: "print_nat (nat i) = c # r" by (meson neq_Nil_conv print_nat_not_Nil)
  then have "c \<noteq> CHR ''-''" using hd_print_nat_digit is_digit_neq by blast
  moreover have "scan_int (c # r @ d # rest) = Some (c # r, d # rest)"
    using scan_int_print_nat [OF assms, of "nat i" rest] cr by simp
  ultimately show ?thesis using False assms
    by (simp add: print_int_def scan_number_def cr scan_tail)
qed

lemma parse_uint_print_nat [simp]: "n < b \<Longrightarrow> parse_uint b (print_nat n) = Some n"
  by (simp add: parse_uint_def print_nat_digits)

lemma parse_int64_print_int:
  assumes "- (2 ^ 63) \<le> i" "i < 2 ^ 63"
  shows "parse_int64 (print_int i) = Some i"
proof (cases "i < 0")
  case True
  with assms have "nat (- i) < 2 ^ 63 + 1" by simp
  with True show ?thesis by (simp add: print_int_def parse_int64_def)
next
  case False
  obtain c r where cr: "print_nat (nat i) = c # r" by (meson neq_Nil_conv print_nat_not_Nil)
  then have "c \<noteq> CHR ''-''" using hd_print_nat_digit is_digit_neq by blast
  moreover have "parse_uint (2 ^ 63) (c # r) = Some (nat i)"
    using parse_uint_print_nat [of "nat i" "2 ^ 63"] assms False cr by simp
  ultimately show ?thesis using False by (simp add: print_int_def parse_int64_def cr)
qed

section \<open>Flat objects\<close>

declare jvalue.simps [simp del] jelems.simps [simp del] jmembers.simps [simp del]

fun json_of :: "jscalar \<Rightarrow> json" where
  "json_of (SStr s) = JStr (to_valid s)"
| "json_of (SNum i) = JNum (print_int i)"
| "json_of (SBool b) = JBool b"

lemma skip_ws_Cons [simp]: "\<not> is_ws c \<Longrightarrow> skip_ws (c # s) = c # s"
  by (simp add: skip_ws_def)

lemma skip_ws_Nil [simp]: "skip_ws [] = []"
  by (simp add: skip_ws_def)

lemma not_ws [simp]:
  "\<not> is_ws ch_quote" "\<not> is_ws (CHR ''{'')" "\<not> is_ws (CHR ''}'')" "\<not> is_ws (CHR '','')"
  "\<not> is_ws (CHR '':'')" "is_digit c \<Longrightarrow> \<not> is_ws c" "\<not> is_ws (CHR ''-'')"
  by (auto simp: is_ws_def ch_quote_def is_digit_def)

lemma ends_value_not_ws [simp]: "ends_value d \<Longrightarrow> \<not> is_ws d"
  by (auto simp: ends_value_def)

lemma print_int_Cons:
  obtains c r where "print_int i = c # r" "is_digit c \<or> c = CHR ''-''"
proof (cases "i < 0")
  case True
  then show ?thesis using that by (simp add: print_int_def)
next
  case False
  obtain c r where cr: "print_nat (nat i) = c # r" by (meson neq_Nil_conv print_nat_not_Nil)
  with False show ?thesis using that hd_print_nat_digit [OF cr] by (simp add: print_int_def)
qed

lemma number_start:
  "is_digit c \<or> c = CHR ''-'' \<Longrightarrow>
     c \<noteq> CHR ''{'' \<and> c \<noteq> CHR ''['' \<and> c \<noteq> ch_quote \<and> c \<noteq> CHR ''n'' \<and> c \<noteq> CHR ''t'' \<and> c \<noteq> CHR ''f''
     \<and> \<not> is_ws c"
  by (auto simp: is_digit_def ch_quote_def)

lemma jvalue_number:
  assumes "ends_value d"
  shows "jvalue (Suc f) (print_int i @ d # rest) = Some (JNum (print_int i), d # rest)"
proof -
  obtain c r where cr: "print_int i = c # r" "is_digit c \<or> c = CHR ''-''" by (rule print_int_Cons)
  then show ?thesis
    using number_start [OF cr(2)] scan_print_int [OF assms, of i rest]
    by (simp add: numeral_eq_Suc jvalue.simps)
qed

lemma jvalue_scalar:
  assumes "ends_value d"
  shows "jvalue (Suc f) (print_scalar v @ d # rest) = Some (json_of v, d # rest)"
proof (cases v)
  case (SStr s)
  then show ?thesis by (simp add: print_string_def jvalue.simps) (simp add: ch_quote_def)
next
  case (SNum i)
  with assms show ?thesis by (simp add: jvalue_number)
next
  case (SBool b)
  then show ?thesis by (simp add: ch_quote_def is_ws_def skip_ws_def jvalue.simps)
qed

lemma jmembers_member:
  assumes "ends_value d"
  shows "jmembers (Suc (Suc g)) (print_member kv @ d # rest) =
     (if d = CHR '','' then map_option (apfst ((#) (map_prod to_valid json_of kv))) (jmembers (Suc g) rest)
      else Some ([map_prod to_valid json_of kv], rest))"
proof (cases kv)
  case (Pair k v)
  have "jmembers (Suc (Suc g)) (print_member kv @ d # rest) =
     (case skip_ws (d # rest) of [] \<Rightarrow> None
      | e # r4 \<Rightarrow> if e = CHR '','' then map_option (apfst ((#) (to_valid k, json_of v))) (jmembers (Suc g) r4)
                  else if e = CHR ''}'' then Some ([(to_valid k, json_of v)], r4) else None)"
    unfolding jmembers.simps(2) [of "Suc g"]
    using jvalue_scalar [OF assms, of g v rest] Pair
    by (simp add: print_member_def print_string_def)
  with assms Pair show ?thesis by (auto simp: ends_value_def)
qed

lemma jmembers_print:
  "kvs \<noteq> [] \<Longrightarrow> length kvs < f \<Longrightarrow>
     jmembers f (print_members kvs @ CHR ''}'' # rest) = Some (map (map_prod to_valid json_of) kvs, rest)"
proof (induction kvs arbitrary: f rule: print_members.induct)
  case 1
  then show ?case by simp
next
  case (2 kv)
  then obtain g where "f = Suc (Suc g)" by (auto simp: less_iff_Suc_add)
  then show ?case by (simp add: jmembers_member ends_value_def)
next
  case (3 kv kv' kvs)
  then obtain g where g: "f = Suc (Suc g)" by (auto simp: less_iff_Suc_add)
  with "3.prems" have "jmembers (Suc g) (print_members (kv' # kvs) @ CHR ''}'' # rest)
       = Some (map (map_prod to_valid json_of) (kv' # kvs), rest)"
    by (intro "3.IH") simp_all
  then show ?case by (simp add: g jmembers_member ends_value_def)
qed

lemma length_print_members: "length kvs \<le> length (print_members kvs)"
  by (induction kvs rule: print_members.induct) (simp_all add: print_member_def print_string_def)

lemma print_members_start:
  "kvs \<noteq> [] \<Longrightarrow> \<exists>r. print_members kvs = ch_quote # r"
  by (cases kvs rule: print_members.cases) (simp_all add: print_member_def print_string_def)

theorem json_object_parses:
  "json_parse (json_object kvs) = Some (JObj (map (map_prod to_valid json_of) kvs))"
proof (cases "kvs = []")
  case True
  have "jvalue (Suc f) ''{}'' = Some (JObj [], [])" for f by (simp add: jvalue.simps)
  from this [of 4] True show ?thesis by (simp add: json_parse_def json_object_def)
next
  case False
  then obtain r where r: "print_members kvs = ch_quote # r" using print_members_start by blast
  have "jmembers (2 * length (json_object kvs)) (print_members kvs @ ''}'')
        = Some (map (map_prod to_valid json_of) kvs, [])"
    using False length_print_members [of kvs]
    by (intro jmembers_print) (simp_all add: json_object_def)
  then show ?thesis
    by (simp add: json_parse_def json_object_def jvalue.simps r) (simp add: ch_quote_def)
qed

lemma Unmarshal_object:
  "Unmarshal fld zero (json_object kvs) = decode_members fld (map (map_prod to_valid json_of) kvs) zero"
  by (simp add: Unmarshal_def json_object_parses)

lemma decode_members_append:
  "decode_members fld (ms @ ns) r =
     (case decode_members fld ms r of None \<Rightarrow> None | Some r' \<Rightarrow> decode_members fld ns r')"
  by (induction ms arbitrary: r) (auto split: option.splits)

section \<open>Enough fuel\<close>

lemma skip_ws_length: "length (skip_ws s) \<le> length s"
  by (simp add: skip_ws_def length_dropWhile_le)

lemma scan_string_shorter: "scan_string s = Some (v, r) \<Longrightarrow> length r < length s"
proof (induction s arbitrary: v r rule: scan_string.induct)
  case 1
  then show ?case by simp
next
  case (2 c s)
  then show ?case
    by (fastforce split: if_splits list.splits option.splits)
qed

lemma scan_tails_shorter:
  "scan_frac s = Some (v, r) \<Longrightarrow> length r \<le> length s"
  "scan_exp s = Some (w, r) \<Longrightarrow> length r \<le> length s"
  "scan_int s = Some (u, r) \<Longrightarrow> length r < length s"
  by (auto simp: scan_frac_def scan_exp_def scan_int_def le_SucI less_Suc_eq_le length_dropWhile_le
           split: list.splits if_splits prod.splits intro: le_trans [OF length_dropWhile_le])

lemma scan_number_shorter: "scan_number s = Some (v, r) \<Longrightarrow> length r < length s"
  by (auto simp: scan_number_def Let_def split: list.splits if_splits option.splits prod.splits
           dest!: scan_tails_shorter)

lemma skip_ws_Cons_length: "skip_ws s = c # r \<Longrightarrow> length r < length s"
  using skip_ws_length [of s] by simp

lemma map_option_apfst: "map_option (apfst g) z = Some (v, r) \<longleftrightarrow> (\<exists>u. z = Some (u, r) \<and> v = g u)"
  by (cases z) (auto simp: apfst_def map_prod_def split: prod.splits)

lemma parsers_shorter:
  "jvalue f s = Some (v, r) \<Longrightarrow> length r < length s"
  "jelems f s = Some (vs, r) \<Longrightarrow> length r < length s"
  "jmembers f s = Some (ms, r) \<Longrightarrow> length r < length s"
proof (induction f arbitrary: s v vs ms r)
  case 0
  { case 1 then show ?case by (simp add: jvalue.simps)
  next case 2 then show ?case by (simp add: jelems.simps)
  next case 3 then show ?case by (simp add: jmembers.simps) }
next
  case (Suc f)
  note shorter = skip_ws_Cons_length scan_string_shorter scan_number_shorter Suc.IH
  { case 1
    then show ?case
      by (fastforce simp: jvalue.simps map_option_apfst split: list.splits if_splits dest!: shorter)
  next case 2
    then show ?case
      by (fastforce simp: jelems.simps map_option_apfst split: list.splits if_splits option.splits dest!: shorter)
  next case 3
    then show ?case
      by (fastforce simp: jmembers.simps map_option_apfst split: list.splits if_splits option.splits dest!: shorter) }
qed

text \<open>More fuel than twice the text's length never changes what the parsers return.\<close>

lemma jvalue_enough:
  "2 * length s < f \<Longrightarrow> jvalue (Suc f) s = jvalue f s"
  "2 * length s + 1 < f \<Longrightarrow> jelems (Suc f) s = jelems f s"
  "2 * length s < f \<Longrightarrow> jmembers (Suc f) s = jmembers f s"
proof (induction f arbitrary: s)
  case 0
  { case 1 then show ?case by simp
  next case 2 then show ?case by simp
  next case 3 then show ?case by simp }
next
  case (Suc f)
  note shorter = skip_ws_Cons_length scan_string_shorter parsers_shorter
  { case 1
    then show ?case
      unfolding jvalue.simps(2) [of "Suc f" s] jvalue.simps(2) [of f s]
      by (auto simp: Suc.IH split: list.split dest!: shorter)
  next case 2
    then show ?case
      unfolding jelems.simps(2) [of "Suc f" s] jelems.simps(2) [of f s]
      by (auto simp: Suc.IH split: list.split option.split dest!: shorter)
  next case 3
    note unfold = jmembers.simps(2) [of "Suc f" s] jmembers.simps(2) [of f s]
    show ?case
    proof (cases "\<exists>c r k r1 d r2. skip_ws s = c # r \<and> scan_string r = Some (k, r1) \<and> skip_ws r1 = d # r2")
      case True
      then obtain c r k r1 d r2 where s: "skip_ws s = c # r" "scan_string r = Some (k, r1)" "skip_ws r1 = d # r2"
        by blast
      then have "length r2 < length s - 1"
        using shorter(1) [OF s(1)] shorter(2) [OF s(2)] shorter(1) [OF s(3)] by simp
      with 3 have "jvalue (Suc f) r2 = jvalue f r2" by (simp add: Suc.IH)
      moreover have "jmembers (Suc f) r4 = jmembers f r4"
        if "jvalue f r2 = Some (v, r3)" "skip_ws r3 = e # r4" for v r3 e r4
        using \<open>length r2 < length s - 1\<close> shorter(3) [OF that(1)] shorter(1) [OF that(2)] 3 by (simp add: Suc.IH)
      ultimately show ?thesis
        unfolding unfold by (auto simp: s split: list.split option.split)
    next
      case False
      then show ?thesis
        unfolding unfold by (auto split: list.split option.split)
    qed }
qed

section \<open>Length of printed text\<close>

lemma length_escape_char: "length (escape_char c) \<le> 6"
  by (cases c rule: escape_cases) simp_all

lemma length_escape_rune: "length (escape_rune r) \<le> 6 * length r"
  by (simp add: escape_rune_def)

lemma length_escape_string: "length (escape_string s) \<le> 6 * length s"
proof (induction s rule: escape_string.induct)
  case 1
  then show ?case by simp
next
  case (2 c s)
  show ?case
  proof (cases "(of_char c :: nat) < 128")
    case True
    with 2 length_escape_char [of c] show ?thesis by simp
  next
    case hi: False
    show ?thesis
    proof (cases "rune_len (c # s) = 0")
      case True
      with 2 hi show ?thesis by simp
    next
      case False
      define n where "n = rune_len (c # s)"
      have "n \<le> length (c # s)" using rune_len_le [of "c # s"] by (simp add: n_def)
      then have "6 * length (take n (c # s)) + 6 * length (drop n (c # s)) = 6 * length (c # s)" by simp
      moreover have "length (escape_string (drop n (c # s))) \<le> 6 * length (drop n (c # s))"
        using 2(3) hi False by (simp add: n_def)
      moreover note length_escape_rune [of "take n (c # s)"]
      moreover have "escape_string (c # s) = escape_rune (take n (c # s)) @ escape_string (drop n (c # s))"
        using hi False by (simp add: n_def)
      ultimately show ?thesis by simp
    qed
  qed
qed

lemma length_print_string: "length (print_string s) \<le> 6 * length s + 2"
  using length_escape_string [of s] by (simp add: print_string_def)

lemma length_print_nat: "n < 10 ^ k \<Longrightarrow> 0 < k \<Longrightarrow> length (print_nat n) \<le> k"
proof (induction k arbitrary: n)
  case 0
  then show ?case by simp
next
  case (Suc k)
  show ?case
  proof (cases "n < 10")
    case True
    then show ?thesis by (subst print_nat.simps) simp
  next
    case False
    with Suc.prems have "0 < k" by (cases k) auto
    moreover have "n div 10 < 10 ^ k" using Suc.prems by (simp add: div_less_iff_less_mult mult.commute)
    ultimately have "length (print_nat (n div 10)) \<le> k" by (rule Suc.IH [rotated])
    with False show ?thesis by (subst print_nat.simps) simp
  qed
qed

lemma length_print_u32: "length (print_int (uint (w :: u32))) \<le> 10"
proof -
  have "print_int (uint w) = print_nat (unat w)" by (simp add: print_int_def)
  moreover have "unat w < 2 ^ 32" using unsigned_less [of w] by simp
  then have "unat w < 10 ^ 10" by simp
  ultimately show ?thesis using length_print_nat [of "unat w" 10] by simp
qed

text \<open>An upper bound of the size of a printed object, by its fields.\<close>

fun scalar_bound :: "jscalar \<Rightarrow> nat" where
  "scalar_bound (SStr s) = 6 * length s + 2"
| "scalar_bound (SNum i) = length (print_int i)"
| "scalar_bound (SBool b) = 5"

fun members_bound :: "(string \<times> jscalar) list \<Rightarrow> nat" where
  "members_bound [] = 0"
| "members_bound ((k, v) # kvs) = 6 * length k + 4 + scalar_bound v + members_bound kvs"

lemma length_print_scalar: "length (print_scalar v) \<le> scalar_bound v"
  using length_print_string by (cases v) auto

lemma length_print_member: "length (print_member (k, v)) \<le> 6 * length k + 3 + scalar_bound v"
  using length_print_string [of k] length_print_scalar [of v] by (simp add: print_member_def)

lemma length_members_bound: "length (print_members kvs) \<le> members_bound kvs"
proof (induction kvs rule: print_members.induct)
  case 1
  then show ?case by simp
next
  case (2 kv)
  then show ?case using length_print_member [of "fst kv" "snd kv"] by (cases kv) simp
next
  case (3 kv kv' kvs)
  then show ?case using length_print_member [of "fst kv" "snd kv"] by (cases kv) simp
qed

lemma length_json_object: "length (json_object kvs) \<le> members_bound kvs + 2"
  using length_members_bound [of kvs] by (simp add: json_object_def)

end
