(* ===== verification/StarControl.thy ===== *)
theory StarControl
  imports StarMessage GoJson
begin

text \<open>
  The control messages of \<^verbatim>\<open>protocol/star/message.go\<close> and \<^verbatim>\<open>response.go\<close>: one record per
  JSON struct with its encoder (\<open>_json\<close>, what \<^verbatim>\<open>json.Marshal\<close> prints for the tagged fields),
  its decoder (\<open>_parse\<close>, what \<^verbatim>\<open>json.Unmarshal\<close> stores into a zero struct) and the values both
  sides agree on (\<open>_ok\<close>: strings are valid UTF-8, integers have 64 bits); then
  \<^verbatim>\<open>SendControl\<close>, \<^verbatim>\<open>DecodeControl\<close> and the locale \<open>control_codec\<close>, the contract that the two
  rely on, with its nine interpretations.
\<close>

section \<open>The structs\<close>

subsection \<open>HandshakeReq\<close>

record HandshakeReq =
  hrVersion :: int
  hrClientName :: string
  hrKeyPassword :: string

definition HandshakeReq_zero :: HandshakeReq where
  "HandshakeReq_zero = \<lparr>hrVersion = 0, hrClientName = [], hrKeyPassword = []\<rparr>"

definition HandshakeReq_json :: "HandshakeReq \<Rightarrow> string" where
  "HandshakeReq_json r = json_object ([(''version'', SNum (hrVersion r))]
     @ omit_empty ''clientName'' (hrClientName r)
     @ [(''keyPassword'', SStr (hrKeyPassword r))])"

definition HandshakeReq_field :: "string \<Rightarrow> json \<Rightarrow> HandshakeReq \<Rightarrow> HandshakeReq option" where
  "HandshakeReq_field k v r =
     (if key_is ''version'' k then map_option (\<lambda>x. r\<lparr>hrVersion := x\<rparr>) (set_int v (hrVersion r))
      else if key_is ''clientName'' k then map_option (\<lambda>x. r\<lparr>hrClientName := x\<rparr>) (set_string v (hrClientName r))
      else if key_is ''keyPassword'' k then map_option (\<lambda>x. r\<lparr>hrKeyPassword := x\<rparr>) (set_string v (hrKeyPassword r))
      else Some r)"

definition HandshakeReq_parse :: "string \<Rightarrow> HandshakeReq option" where
  "HandshakeReq_parse = Unmarshal HandshakeReq_field HandshakeReq_zero"

definition HandshakeReq_ok :: "HandshakeReq \<Rightarrow> bool" where
  "HandshakeReq_ok r \<longleftrightarrow> - (2 ^ 63) \<le> hrVersion r \<and> hrVersion r < 2 ^ 63 \<and> valid_utf8 (hrClientName r) \<and> valid_utf8 (hrKeyPassword r)"

subsection \<open>HandshakeAck\<close>

record HandshakeAck =
  haOK :: bool
  haMessage :: string

definition HandshakeAck_zero :: HandshakeAck where
  "HandshakeAck_zero = \<lparr>haOK = False, haMessage = []\<rparr>"

definition HandshakeAck_json :: "HandshakeAck \<Rightarrow> string" where
  "HandshakeAck_json r = json_object ([(''ok'', SBool (haOK r))]
     @ omit_empty ''message'' (haMessage r))"

definition HandshakeAck_field :: "string \<Rightarrow> json \<Rightarrow> HandshakeAck \<Rightarrow> HandshakeAck option" where
  "HandshakeAck_field k v r =
     (if key_is ''ok'' k then map_option (\<lambda>x. r\<lparr>haOK := x\<rparr>) (set_bool v (haOK r))
      else if key_is ''message'' k then map_option (\<lambda>x. r\<lparr>haMessage := x\<rparr>) (set_string v (haMessage r))
      else Some r)"

definition HandshakeAck_parse :: "string \<Rightarrow> HandshakeAck option" where
  "HandshakeAck_parse = Unmarshal HandshakeAck_field HandshakeAck_zero"

definition HandshakeAck_ok :: "HandshakeAck \<Rightarrow> bool" where
  "HandshakeAck_ok r \<longleftrightarrow> valid_utf8 (haMessage r)"

subsection \<open>RegisterStreamReq\<close>

record RegisterStreamReq =
  rrClientProxyName :: string
  rrStreamId :: string

definition RegisterStreamReq_zero :: RegisterStreamReq where
  "RegisterStreamReq_zero = \<lparr>rrClientProxyName = [], rrStreamId = []\<rparr>"

definition RegisterStreamReq_json :: "RegisterStreamReq \<Rightarrow> string" where
  "RegisterStreamReq_json r = json_object ([(''clientProxyName'', SStr (rrClientProxyName r)), (''streamId'', SStr (rrStreamId r))])"

definition RegisterStreamReq_field :: "string \<Rightarrow> json \<Rightarrow> RegisterStreamReq \<Rightarrow> RegisterStreamReq option" where
  "RegisterStreamReq_field k v r =
     (if key_is ''clientProxyName'' k then map_option (\<lambda>x. r\<lparr>rrClientProxyName := x\<rparr>) (set_string v (rrClientProxyName r))
      else if key_is ''streamId'' k then map_option (\<lambda>x. r\<lparr>rrStreamId := x\<rparr>) (set_string v (rrStreamId r))
      else Some r)"

definition RegisterStreamReq_parse :: "string \<Rightarrow> RegisterStreamReq option" where
  "RegisterStreamReq_parse = Unmarshal RegisterStreamReq_field RegisterStreamReq_zero"

definition RegisterStreamReq_ok :: "RegisterStreamReq \<Rightarrow> bool" where
  "RegisterStreamReq_ok r \<longleftrightarrow> valid_utf8 (rrClientProxyName r) \<and> valid_utf8 (rrStreamId r)"

subsection \<open>RegisterStreamAck\<close>

record RegisterStreamAck =
  raOK :: bool
  raStreamId :: string
  raAssignID :: u32
  raMessage :: string

definition RegisterStreamAck_zero :: RegisterStreamAck where
  "RegisterStreamAck_zero = \<lparr>raOK = False, raStreamId = [], raAssignID = 0, raMessage = []\<rparr>"

definition RegisterStreamAck_json :: "RegisterStreamAck \<Rightarrow> string" where
  "RegisterStreamAck_json r = json_object ([(''ok'', SBool (raOK r)), (''streamId'', SStr (raStreamId r)), (''assignId'', SNum (uint (raAssignID r)))]
     @ omit_empty ''message'' (raMessage r))"

definition RegisterStreamAck_field :: "string \<Rightarrow> json \<Rightarrow> RegisterStreamAck \<Rightarrow> RegisterStreamAck option" where
  "RegisterStreamAck_field k v r =
     (if key_is ''ok'' k then map_option (\<lambda>x. r\<lparr>raOK := x\<rparr>) (set_bool v (raOK r))
      else if key_is ''streamId'' k then map_option (\<lambda>x. r\<lparr>raStreamId := x\<rparr>) (set_string v (raStreamId r))
      else if key_is ''assignId'' k then map_option (\<lambda>x. r\<lparr>raAssignID := x\<rparr>) (set_u32 v (raAssignID r))
      else if key_is ''message'' k then map_option (\<lambda>x. r\<lparr>raMessage := x\<rparr>) (set_string v (raMessage r))
      else Some r)"

definition RegisterStreamAck_parse :: "string \<Rightarrow> RegisterStreamAck option" where
  "RegisterStreamAck_parse = Unmarshal RegisterStreamAck_field RegisterStreamAck_zero"

definition RegisterStreamAck_ok :: "RegisterStreamAck \<Rightarrow> bool" where
  "RegisterStreamAck_ok r \<longleftrightarrow> valid_utf8 (raStreamId r) \<and> valid_utf8 (raMessage r)"

subsection \<open>ConnOpenReq\<close>

record ConnOpenReq =
  orStreamID :: u32
  orConnID :: u32

definition ConnOpenReq_zero :: ConnOpenReq where
  "ConnOpenReq_zero = \<lparr>orStreamID = 0, orConnID = 0\<rparr>"

definition ConnOpenReq_json :: "ConnOpenReq \<Rightarrow> string" where
  "ConnOpenReq_json r = json_object ([(''streamId'', SNum (uint (orStreamID r))), (''connId'', SNum (uint (orConnID r)))])"

definition ConnOpenReq_field :: "string \<Rightarrow> json \<Rightarrow> ConnOpenReq \<Rightarrow> ConnOpenReq option" where
  "ConnOpenReq_field k v r =
     (if key_is ''streamId'' k then map_option (\<lambda>x. r\<lparr>orStreamID := x\<rparr>) (set_u32 v (orStreamID r))
      else if key_is ''connId'' k then map_option (\<lambda>x. r\<lparr>orConnID := x\<rparr>) (set_u32 v (orConnID r))
      else Some r)"

definition ConnOpenReq_parse :: "string \<Rightarrow> ConnOpenReq option" where
  "ConnOpenReq_parse = Unmarshal ConnOpenReq_field ConnOpenReq_zero"

definition ConnOpenReq_ok :: "ConnOpenReq \<Rightarrow> bool" where
  "ConnOpenReq_ok r \<longleftrightarrow> True"

subsection \<open>ConnOpenAck\<close>

record ConnOpenAck =
  oaConnID :: u32
  oaOK :: bool
  oaMessage :: string

definition ConnOpenAck_zero :: ConnOpenAck where
  "ConnOpenAck_zero = \<lparr>oaConnID = 0, oaOK = False, oaMessage = []\<rparr>"

definition ConnOpenAck_json :: "ConnOpenAck \<Rightarrow> string" where
  "ConnOpenAck_json r = json_object ([(''connId'', SNum (uint (oaConnID r))), (''ok'', SBool (oaOK r))]
     @ omit_empty ''message'' (oaMessage r))"

definition ConnOpenAck_field :: "string \<Rightarrow> json \<Rightarrow> ConnOpenAck \<Rightarrow> ConnOpenAck option" where
  "ConnOpenAck_field k v r =
     (if key_is ''connId'' k then map_option (\<lambda>x. r\<lparr>oaConnID := x\<rparr>) (set_u32 v (oaConnID r))
      else if key_is ''ok'' k then map_option (\<lambda>x. r\<lparr>oaOK := x\<rparr>) (set_bool v (oaOK r))
      else if key_is ''message'' k then map_option (\<lambda>x. r\<lparr>oaMessage := x\<rparr>) (set_string v (oaMessage r))
      else Some r)"

definition ConnOpenAck_parse :: "string \<Rightarrow> ConnOpenAck option" where
  "ConnOpenAck_parse = Unmarshal ConnOpenAck_field ConnOpenAck_zero"

definition ConnOpenAck_ok :: "ConnOpenAck \<Rightarrow> bool" where
  "ConnOpenAck_ok r \<longleftrightarrow> valid_utf8 (oaMessage r)"

subsection \<open>ClientConnReq\<close>

record ClientConnReq =
  crConnID :: u32
  crClientProxyName :: string
  crStreamId :: string

definition ClientConnReq_zero :: ClientConnReq where
  "ClientConnReq_zero = \<lparr>crConnID = 0, crClientProxyName = [], crStreamId = []\<rparr>"

definition ClientConnReq_json :: "ClientConnReq \<Rightarrow> string" where
  "ClientConnReq_json r = json_object ([(''connId'', SNum (uint (crConnID r))), (''clientProxyName'', SStr (crClientProxyName r)), (''streamId'', SStr (crStreamId r))])"

definition ClientConnReq_field :: "string \<Rightarrow> json \<Rightarrow> ClientConnReq \<Rightarrow> ClientConnReq option" where
  "ClientConnReq_field k v r =
     (if key_is ''connId'' k then map_option (\<lambda>x. r\<lparr>crConnID := x\<rparr>) (set_u32 v (crConnID r))
      else if key_is ''clientProxyName'' k then map_option (\<lambda>x. r\<lparr>crClientProxyName := x\<rparr>) (set_string v (crClientProxyName r))
      else if key_is ''streamId'' k then map_option (\<lambda>x. r\<lparr>crStreamId := x\<rparr>) (set_string v (crStreamId r))
      else Some r)"

definition ClientConnReq_parse :: "string \<Rightarrow> ClientConnReq option" where
  "ClientConnReq_parse = Unmarshal ClientConnReq_field ClientConnReq_zero"

definition ClientConnReq_ok :: "ClientConnReq \<Rightarrow> bool" where
  "ClientConnReq_ok r \<longleftrightarrow> valid_utf8 (crClientProxyName r) \<and> valid_utf8 (crStreamId r)"

subsection \<open>ClientConnAck\<close>

record ClientConnAck =
  caConnID :: u32
  caOK :: bool
  caMessage :: string

definition ClientConnAck_zero :: ClientConnAck where
  "ClientConnAck_zero = \<lparr>caConnID = 0, caOK = False, caMessage = []\<rparr>"

definition ClientConnAck_json :: "ClientConnAck \<Rightarrow> string" where
  "ClientConnAck_json r = json_object ([(''connId'', SNum (uint (caConnID r))), (''ok'', SBool (caOK r))]
     @ omit_empty ''message'' (caMessage r))"

definition ClientConnAck_field :: "string \<Rightarrow> json \<Rightarrow> ClientConnAck \<Rightarrow> ClientConnAck option" where
  "ClientConnAck_field k v r =
     (if key_is ''connId'' k then map_option (\<lambda>x. r\<lparr>caConnID := x\<rparr>) (set_u32 v (caConnID r))
      else if key_is ''ok'' k then map_option (\<lambda>x. r\<lparr>caOK := x\<rparr>) (set_bool v (caOK r))
      else if key_is ''message'' k then map_option (\<lambda>x. r\<lparr>caMessage := x\<rparr>) (set_string v (caMessage r))
      else Some r)"

definition ClientConnAck_parse :: "string \<Rightarrow> ClientConnAck option" where
  "ClientConnAck_parse = Unmarshal ClientConnAck_field ClientConnAck_zero"

definition ClientConnAck_ok :: "ClientConnAck \<Rightarrow> bool" where
  "ClientConnAck_ok r \<longleftrightarrow> valid_utf8 (caMessage r)"

subsection \<open>WindowUpdate\<close>

record WindowUpdate =
  wuConnID :: u32
  wuDelta :: u32

definition WindowUpdate_zero :: WindowUpdate where
  "WindowUpdate_zero = \<lparr>wuConnID = 0, wuDelta = 0\<rparr>"

definition WindowUpdate_json :: "WindowUpdate \<Rightarrow> string" where
  "WindowUpdate_json r = json_object ([(''connId'', SNum (uint (wuConnID r))), (''delta'', SNum (uint (wuDelta r)))])"

definition WindowUpdate_field :: "string \<Rightarrow> json \<Rightarrow> WindowUpdate \<Rightarrow> WindowUpdate option" where
  "WindowUpdate_field k v r =
     (if key_is ''connId'' k then map_option (\<lambda>x. r\<lparr>wuConnID := x\<rparr>) (set_u32 v (wuConnID r))
      else if key_is ''delta'' k then map_option (\<lambda>x. r\<lparr>wuDelta := x\<rparr>) (set_u32 v (wuDelta r))
      else Some r)"

definition WindowUpdate_parse :: "string \<Rightarrow> WindowUpdate option" where
  "WindowUpdate_parse = Unmarshal WindowUpdate_field WindowUpdate_zero"

definition WindowUpdate_ok :: "WindowUpdate \<Rightarrow> bool" where
  "WindowUpdate_ok r \<longleftrightarrow> True"

section \<open>Sending and decoding\<close>

text \<open>The message that \<^verbatim>\<open>SendControl\<close> hands to \<^verbatim>\<open>Session.Send\<close>.\<close>

definition control_message :: "byte \<Rightarrow> string \<Rightarrow> Message" where
  "control_message msgType json = mk_msg msgType CtrlStreamID (bytes_of_string json)"

definition DecodeControl :: "(string \<Rightarrow> 'r option) \<Rightarrow> Message \<Rightarrow> msgerr + 'r" where
  "DecodeControl parse m =
     (if mPayload m = [] then Inl (EmptyPayload (mType m))
      else case parse (string_of_bytes (mPayload m)) of
             None \<Rightarrow> Inl BadJson
           | Some v \<Rightarrow> Inr v)"

section \<open>The contract of a control codec\<close>

locale control_codec =
  fixes enc :: "'r \<Rightarrow> string" and dec :: "string \<Rightarrow> 'r option" and ok :: "'r \<Rightarrow> bool"
  assumes dec_enc: "ok v \<Longrightarrow> dec (enc v) = Some v"
    and enc_nonempty: "enc v \<noteq> []"
begin

lemma decode_message:
  "ok v \<Longrightarrow> DecodeControl dec (control_message t (enc v)) = Inr v"
  by (simp add: DecodeControl_def control_message_def mk_msg_def dec_enc enc_nonempty bytes_of_string_def)
    (metis bytes_of_string_def string_bytes_string dec_enc option.simps(5))

lemma transfer:
  assumes "ok v" "WriteMessage (control_message t (enc v)) = Inr f"
  shows "\<exists>m. ReadMessage (f @ rest) = Inr (m, rest) \<and> mType m = t \<and> mStreamID m = CtrlStreamID
              \<and> DecodeControl dec m = Inr v"
proof -
  have "ReadMessage (f @ rest) = Inr (control_message t (enc v), rest)"
    using assms(2) by (simp add: WriteMessage_Inr ReadMessage_frame)
  with decode_message [OF assms(1)] show ?thesis
    by (simp add: control_message_def mk_msg_def)
qed

lemma enc_inj: "ok v \<Longrightarrow> ok w \<Longrightarrow> enc v = enc w \<Longrightarrow> v = w"
  by (metis dec_enc option.inject)

end

section \<open>Round trips\<close>

lemma to_valid_ok [simp]: "valid_utf8 s \<Longrightarrow> to_valid s = s"
  by (simp add: valid_utf8_def)

lemma parse_uint_print_u32: "parse_uint 4294967296 (print_int (uint (w :: u32))) = Some (unat w)"
proof -
  have "print_int (uint w) = print_nat (unat w)" by (simp add: print_int_def)
  moreover have "unat w < 4294967296" using unsigned_less [of w] by simp
  ultimately show ?thesis by simp
qed

lemma parse_int64_numeral:
  "- 9223372036854775808 \<le> i \<and> i < 9223372036854775808 \<Longrightarrow> parse_int64 (print_int i) = Some i"
  using parse_int64_print_int [of i] by simp

lemma json_object_nonempty [simp]: "json_object kvs \<noteq> []"
  by (simp add: json_object_def)

lemmas control_codec_simps = 
  Unmarshal_object omit_empty_def key_is_def lower_char_def parse_uint_print_u32 parse_int64_numeral

lemma HandshakeReq_roundtrip: "HandshakeReq_ok r \<Longrightarrow> HandshakeReq_parse (HandshakeReq_json r) = Some r"
  by (cases r) (simp add: HandshakeReq_ok_def HandshakeReq_parse_def HandshakeReq_json_def HandshakeReq_field_def HandshakeReq_zero_def
      control_codec_simps)

lemma HandshakeAck_roundtrip: "HandshakeAck_ok r \<Longrightarrow> HandshakeAck_parse (HandshakeAck_json r) = Some r"
  by (cases r) (simp add: HandshakeAck_ok_def HandshakeAck_parse_def HandshakeAck_json_def HandshakeAck_field_def HandshakeAck_zero_def
      control_codec_simps)

lemma RegisterStreamReq_roundtrip: "RegisterStreamReq_ok r \<Longrightarrow> RegisterStreamReq_parse (RegisterStreamReq_json r) = Some r"
  by (cases r) (simp add: RegisterStreamReq_ok_def RegisterStreamReq_parse_def RegisterStreamReq_json_def RegisterStreamReq_field_def RegisterStreamReq_zero_def
      control_codec_simps)

lemma RegisterStreamAck_roundtrip: "RegisterStreamAck_ok r \<Longrightarrow> RegisterStreamAck_parse (RegisterStreamAck_json r) = Some r"
  by (cases r) (simp add: RegisterStreamAck_ok_def RegisterStreamAck_parse_def RegisterStreamAck_json_def RegisterStreamAck_field_def RegisterStreamAck_zero_def
      control_codec_simps)

lemma ConnOpenReq_roundtrip: "ConnOpenReq_ok r \<Longrightarrow> ConnOpenReq_parse (ConnOpenReq_json r) = Some r"
  by (cases r) (simp add: ConnOpenReq_ok_def ConnOpenReq_parse_def ConnOpenReq_json_def ConnOpenReq_field_def ConnOpenReq_zero_def
      control_codec_simps)

lemma ConnOpenAck_roundtrip: "ConnOpenAck_ok r \<Longrightarrow> ConnOpenAck_parse (ConnOpenAck_json r) = Some r"
  by (cases r) (simp add: ConnOpenAck_ok_def ConnOpenAck_parse_def ConnOpenAck_json_def ConnOpenAck_field_def ConnOpenAck_zero_def
      control_codec_simps)

lemma ClientConnReq_roundtrip: "ClientConnReq_ok r \<Longrightarrow> ClientConnReq_parse (ClientConnReq_json r) = Some r"
  by (cases r) (simp add: ClientConnReq_ok_def ClientConnReq_parse_def ClientConnReq_json_def ClientConnReq_field_def ClientConnReq_zero_def
      control_codec_simps)

lemma ClientConnAck_roundtrip: "ClientConnAck_ok r \<Longrightarrow> ClientConnAck_parse (ClientConnAck_json r) = Some r"
  by (cases r) (simp add: ClientConnAck_ok_def ClientConnAck_parse_def ClientConnAck_json_def ClientConnAck_field_def ClientConnAck_zero_def
      control_codec_simps)

lemma WindowUpdate_roundtrip: "WindowUpdate_ok r \<Longrightarrow> WindowUpdate_parse (WindowUpdate_json r) = Some r"
  by (cases r) (simp add: WindowUpdate_ok_def WindowUpdate_parse_def WindowUpdate_json_def WindowUpdate_field_def WindowUpdate_zero_def
      control_codec_simps)

interpretation hs_req: control_codec HandshakeReq_json HandshakeReq_parse HandshakeReq_ok
  by unfold_locales (rule HandshakeReq_roundtrip, assumption, simp add: HandshakeReq_json_def)

interpretation hs_ack: control_codec HandshakeAck_json HandshakeAck_parse HandshakeAck_ok
  by unfold_locales (rule HandshakeAck_roundtrip, assumption, simp add: HandshakeAck_json_def)

interpretation reg_req: control_codec RegisterStreamReq_json RegisterStreamReq_parse RegisterStreamReq_ok
  by unfold_locales (rule RegisterStreamReq_roundtrip, assumption, simp add: RegisterStreamReq_json_def)

interpretation reg_ack: control_codec RegisterStreamAck_json RegisterStreamAck_parse RegisterStreamAck_ok
  by unfold_locales (rule RegisterStreamAck_roundtrip, assumption, simp add: RegisterStreamAck_json_def)

interpretation open_req: control_codec ConnOpenReq_json ConnOpenReq_parse ConnOpenReq_ok
  by unfold_locales (rule ConnOpenReq_roundtrip, assumption, simp add: ConnOpenReq_json_def)

interpretation open_ack: control_codec ConnOpenAck_json ConnOpenAck_parse ConnOpenAck_ok
  by unfold_locales (rule ConnOpenAck_roundtrip, assumption, simp add: ConnOpenAck_json_def)

interpretation cc_req: control_codec ClientConnReq_json ClientConnReq_parse ClientConnReq_ok
  by unfold_locales (rule ClientConnReq_roundtrip, assumption, simp add: ClientConnReq_json_def)

interpretation cc_ack: control_codec ClientConnAck_json ClientConnAck_parse ClientConnAck_ok
  by unfold_locales (rule ClientConnAck_roundtrip, assumption, simp add: ClientConnAck_json_def)

interpretation wnd_upd: control_codec WindowUpdate_json WindowUpdate_parse WindowUpdate_ok
  by unfold_locales (rule WindowUpdate_roundtrip, assumption, simp add: WindowUpdate_json_def)

end
