(* ===== verification/StarSession.thy ===== *)
theory StarSession
  imports StarControl
begin

text \<open>
  Sessions and the two request/response exchanges of the control channel:
  \<^verbatim>\<open>protocol/star/session.go\<close> (\<^verbatim>\<open>Send\<close>, \<^verbatim>\<open>Receive\<close>, \<^verbatim>\<open>Close\<close>, \<^verbatim>\<open>Ping\<close>, the deadline helpers) and
  \<^verbatim>\<open>handshake.go\<close> (handshake and stream registration, both sides). A session holds the bytes
  that can still be read from its connection, the bytes written to it, the error that writes
  meet (if any), the deadline in force and whether it was closed. The write lock makes each
  \<^verbatim>\<open>Send\<close> one atomic append.
\<close>

section \<open>Sessions\<close>

record Session =
  sIn :: bytes
  sOut :: bytes
  sWErr :: "ioerr option"
  sDeadline :: "nat option"
  sClosed :: bool

definition NewSession :: "bytes \<Rightarrow> Session" where
  "NewSession inp = \<lparr>sIn = inp, sOut = [], sWErr = None, sDeadline = None, sClosed = False\<rparr>"

text \<open>\<^verbatim>\<open>net.Conn.Write\<close> of one frame.\<close>

definition conn_write :: "Session \<Rightarrow> bytes \<Rightarrow> (ioerr + unit) \<times> Session" where
  "conn_write s f =
     (if sClosed s then (Inl ErrClosed, s)
      else case sWErr s of
             Some e \<Rightarrow> (Inl e, s)
           | None \<Rightarrow> (Inr (), s\<lparr>sOut := sOut s @ f\<rparr>))"

definition Send :: "Session \<Rightarrow> Message \<Rightarrow> (msgerr + unit) \<times> Session" where
  "Send s m =
     (case WriteMessage m of
        Inl e \<Rightarrow> (Inl e, s)
      | Inr f \<Rightarrow>
          (case conn_write s f of
             (Inl e, s') \<Rightarrow> (Inl (MsgIO e), s')
           | (Inr _, s') \<Rightarrow> (Inr (), s')))"

text \<open>A failed read has consumed everything (the stream ended) or the header it rejects.\<close>

definition Receive :: "Session \<Rightarrow> (msgerr + Message) \<times> Session" where
  "Receive s =
     (case ReadMessage (sIn s) of
        Inr (m, rest) \<Rightarrow> (Inr m, s\<lparr>sIn := rest\<rparr>)
      | Inl (MsgIO e) \<Rightarrow> (Inl (MsgIO e), s\<lparr>sIn := []\<rparr>)
      | Inl e \<Rightarrow> (Inl e, s\<lparr>sIn := drop HeaderSize (sIn s)\<rparr>))"

definition SendControl :: "Session \<Rightarrow> byte \<Rightarrow> string \<Rightarrow> (msgerr + unit) \<times> Session" where
  "SendControl s msgType json = Send s (control_message msgType json)"

definition Session_Close :: "Session \<Rightarrow> Session" where
  "Session_Close s = s\<lparr>sClosed := True\<rparr>"

definition deadline :: "nat \<Rightarrow> Session \<Rightarrow> Session" where
  "deadline d s = s\<lparr>sDeadline := Some d\<rparr>"

definition clearDeadline :: "Session \<Rightarrow> Session" where
  "clearDeadline s = s\<lparr>sDeadline := None\<rparr>"

datatype hserr =
    SendErr msgerr
  | ReadErr msgerr
  | Unexpected byte
  | DecodeErr msgerr
  | Rejected string

text \<open>Waiting for one message of the expected type.\<close>

definition expect :: "byte \<Rightarrow> Session \<Rightarrow> (hserr + Message) \<times> Session" where
  "expect t s =
     (case Receive s of
        (Inl e, s') \<Rightarrow> (Inl (ReadErr e), s')
      | (Inr m, s') \<Rightarrow> if mType m \<noteq> t then (Inl (Unexpected (mType m)), s') else (Inr m, s'))"

definition Ping :: "nat \<Rightarrow> Session \<Rightarrow> (hserr + unit) \<times> Session" where
  "Ping timeout s0 =
     (case Send (deadline timeout s0) (mk_msg MsgPing CtrlStreamID []) of
        (Inl e, s) \<Rightarrow> (Inl (SendErr e), clearDeadline s)
      | (Inr _, s) \<Rightarrow>
          (case expect MsgPong s of
             (Inl e, s') \<Rightarrow> (Inl e, clearDeadline s')
           | (Inr _, s') \<Rightarrow> (Inr (), clearDeadline s')))"

section \<open>Handshake\<close>

definition handshakeTimeout :: nat where "handshakeTimeout = 10"
definition registerTimeout :: nat where "registerTimeout = 10"

definition default_version :: "HandshakeReq \<Rightarrow> HandshakeReq" where
  "default_version req =
     (if hrVersion req = 0 then req\<lparr>hrVersion := uint ProtocolVersion\<rparr> else req)"

definition ClientHandshake :: "Session \<Rightarrow> HandshakeReq \<Rightarrow> (hserr + HandshakeAck) \<times> Session" where
  "ClientHandshake s0 req0 =
     (let s1 = deadline handshakeTimeout s0; req = default_version req0 in
      case SendControl s1 MsgHandshake (HandshakeReq_json req) of
        (Inl e, s2) \<Rightarrow> (Inl (SendErr e), clearDeadline s2)
      | (Inr _, s2) \<Rightarrow>
          (case expect MsgHandshakeAck s2 of
             (Inl e, s3) \<Rightarrow> (Inl e, clearDeadline s3)
           | (Inr m, s3) \<Rightarrow>
               (case DecodeControl HandshakeAck_parse m of
                  Inl e \<Rightarrow> (Inl (DecodeErr e), clearDeadline s3)
                | Inr ack \<Rightarrow> (Inr ack, clearDeadline s3))))"

definition invalid_key :: string where "invalid_key = ''invalid key password''"

definition ServerHandshakeVerify ::
    "Session \<Rightarrow> (HandshakeReq \<Rightarrow> bool) option \<Rightarrow> (hserr + HandshakeReq) \<times> Session" where
  "ServerHandshakeVerify s0 verify =
     (case expect MsgHandshake (deadline handshakeTimeout s0) of
        (Inl e, s1) \<Rightarrow> (Inl e, clearDeadline s1)
      | (Inr m, s1) \<Rightarrow>
          (case DecodeControl HandshakeReq_parse m of
             Inl e \<Rightarrow> (Inl (DecodeErr e), clearDeadline s1)
           | Inr req \<Rightarrow>
               (let good = (case verify of None \<Rightarrow> False | Some v \<Rightarrow> v req);
                    ack = (if good then \<lparr>haOK = True, haMessage = []\<rparr>
                           else \<lparr>haOK = False, haMessage = invalid_key\<rparr>) in
                case SendControl s1 MsgHandshakeAck (HandshakeAck_json ack) of
                  (Inl e, s2) \<Rightarrow> (Inl (SendErr e), clearDeadline s2)
                | (Inr _, s2) \<Rightarrow>
                    if \<not> haOK ack then (Inl (Rejected (haMessage ack)), clearDeadline s2)
                    else (Inr req, clearDeadline s2))))"

definition ServerHandshake :: "Session \<Rightarrow> string \<Rightarrow> (hserr + HandshakeReq) \<times> Session" where
  "ServerHandshake s keyPassword =
     ServerHandshakeVerify s (Some (\<lambda>req. hrKeyPassword req = keyPassword))"

section \<open>Stream registration\<close>

definition ClientRegisterStream ::
    "Session \<Rightarrow> RegisterStreamReq \<Rightarrow> (hserr + RegisterStreamAck) \<times> Session" where
  "ClientRegisterStream s0 req =
     (case SendControl (deadline registerTimeout s0) MsgRegisterStream (RegisterStreamReq_json req) of
        (Inl e, s1) \<Rightarrow> (Inl (SendErr e), clearDeadline s1)
      | (Inr _, s1) \<Rightarrow>
          (case expect MsgRegisterStreamAck s1 of
             (Inl e, s2) \<Rightarrow> (Inl e, clearDeadline s2)
           | (Inr m, s2) \<Rightarrow>
               (case DecodeControl RegisterStreamAck_parse m of
                  Inl e \<Rightarrow> (Inl (DecodeErr e), clearDeadline s2)
                | Inr ack \<Rightarrow> (Inr ack, clearDeadline s2))))"

text \<open>
  \<^verbatim>\<open>assignID\<close> is the server's stream table; it is a function on that table's state and returns
  the error text or the numeric id. \<open>None\<close> is a nil function.
\<close>

definition ServerRegisterStream ::
    "Session \<Rightarrow> Message \<Rightarrow> 't \<Rightarrow> (RegisterStreamReq \<Rightarrow> 't \<Rightarrow> (string + u32) \<times> 't) option
       \<Rightarrow> (hserr + RegisterStreamAck) \<times> Session \<times> 't" where
  "ServerRegisterStream s msg tbl assignID =
     (if mType msg \<noteq> MsgRegisterStream then (Inl (Unexpected (mType msg)), s, tbl)
      else case DecodeControl RegisterStreamReq_parse msg of
        Inl e \<Rightarrow> (Inl (DecodeErr e), s, tbl)
      | Inr req \<Rightarrow>
          (let good = \<lparr>raOK = True, raStreamId = rrStreamId req, raAssignID = 0, raMessage = []\<rparr>;
               (ack, tbl') =
                 (case assignID of
                    None \<Rightarrow> (good, tbl)
                  | Some f \<Rightarrow>
                      (case f req tbl of
                         (Inl err, t) \<Rightarrow>
                           (\<lparr>raOK = False, raStreamId = rrStreamId req, raAssignID = 0, raMessage = err\<rparr>, t)
                       | (Inr i, t) \<Rightarrow> (good\<lparr>raAssignID := i\<rparr>, t))) in
           case SendControl s MsgRegisterStreamAck (RegisterStreamAck_json ack) of
             (Inl e, s') \<Rightarrow> (Inl (SendErr e), s', tbl')
           | (Inr _, s') \<Rightarrow>
               if \<not> raOK ack then (Inl (Rejected (raMessage ack)), s', tbl')
               else (Inr ack, s', tbl')))"

section \<open>Lemmas\<close>

definition writable :: "Session \<Rightarrow> bool" where
  "writable s \<longleftrightarrow> \<not> sClosed s \<and> sWErr s = None"

definition frame_of :: "Message \<Rightarrow> bytes" where
  "frame_of m = frame_header m @ mPayload m"

definition fits :: "Message \<Rightarrow> bool" where
  "fits m \<longleftrightarrow> length (mPayload m) \<le> MaxPayloadSize"

lemma Send_writable [simp]:
  "writable s \<Longrightarrow> fits m \<Longrightarrow> Send s m = (Inr (), s\<lparr>sOut := sOut s @ frame_of m\<rparr>)"
  by (simp add: Send_def WriteMessage_def conn_write_def writable_def fits_def frame_of_def)

text \<open>A send either appends exactly one frame or leaves the connection alone.\<close>

lemma Send_cases:
  obtains (sent) "fits m" "Send s m = (Inr (), s\<lparr>sOut := sOut s @ frame_of m\<rparr>)"
    | (failed) e where "Send s m = (Inl e, s)"
  by (cases "fits m"; cases "sClosed s"; cases "sWErr s")
    (auto simp: Send_def WriteMessage_def conn_write_def fits_def frame_of_def)

lemma Receive_frame [simp]:
  "sIn s = frame_of m @ rest \<Longrightarrow> fits m \<Longrightarrow> Receive s = (Inr m, s\<lparr>sIn := rest\<rparr>)"
  by (simp add: Receive_def fits_def frame_of_def ReadMessage_frame)

lemma writable_deadline [simp]:
  "writable (deadline d s) = writable s" "writable (clearDeadline s) = writable s"
  "sIn (deadline d s) = sIn s" "sOut (deadline d s) = sOut s"
  "sIn (clearDeadline s) = sIn s" "sOut (clearDeadline s) = sOut s" "sDeadline (clearDeadline s) = None"
  by (simp_all add: writable_def deadline_def clearDeadline_def)

lemma writable_update [simp]:
  "writable (s\<lparr>sIn := i\<rparr>) = writable s" "writable (s\<lparr>sOut := i\<rparr>) = writable s"
  by (simp_all add: writable_def)

lemma control_message_simps [simp]:
  "mType (control_message t j) = t" "mStreamID (control_message t j) = CtrlStreamID"
  "mPayload (control_message t j) = bytes_of_string j" "mFlags (control_message t j) = 0"
  by (simp_all add: control_message_def mk_msg_def)

lemma expect_frame:
  "sIn s = frame_of m @ rest \<Longrightarrow> fits m \<Longrightarrow> mType m = t \<Longrightarrow> expect t s = (Inr m, s\<lparr>sIn := rest\<rparr>)"
  by (simp add: expect_def)

lemma HandshakeAck_ok_server [simp]:
  "HandshakeAck_ok \<lparr>haOK = True, haMessage = []\<rparr>"
  "HandshakeAck_ok \<lparr>haOK = False, haMessage = invalid_key\<rparr>"
  by (simp_all add: HandshakeAck_ok_def valid_utf8_def invalid_key_def)

text \<open>What the server does with a well-formed handshake.\<close>

lemma ServerHandshakeVerify_frame:
  fixes verify :: "(HandshakeReq \<Rightarrow> bool) option"
  assumes "sIn s = frame_of (control_message MsgHandshake (HandshakeReq_json req)) @ rest"
    "fits (control_message MsgHandshake (HandshakeReq_json req))" "HandshakeReq_ok req" "writable s"
  defines "good \<equiv> (case verify of None \<Rightarrow> False | Some v \<Rightarrow> v req)"
  defines "ack \<equiv> (if good then \<lparr>haOK = True, haMessage = []\<rparr> else \<lparr>haOK = False, haMessage = invalid_key\<rparr>)"
  assumes "fits (control_message MsgHandshakeAck (HandshakeAck_json ack))"
  shows "ServerHandshakeVerify s verify =
     ((if good then Inr req else Inl (Rejected invalid_key)),
      clearDeadline (deadline handshakeTimeout s)\<lparr>sIn := rest,
        sOut := sOut s @ frame_of (control_message MsgHandshakeAck (HandshakeAck_json ack))\<rparr>)"
proof -
  have ex: "expect MsgHandshake (deadline handshakeTimeout s) =
      (Inr (control_message MsgHandshake (HandshakeReq_json req)),
       (deadline handshakeTimeout s)\<lparr>sIn := rest\<rparr>)"
    using assms by (intro expect_frame) simp_all
  show ?thesis
    using assms(3,4,7)
    by (simp add: ServerHandshakeVerify_def ex hs_req.decode_message Let_def SendControl_def
        good_def [symmetric] ack_def [symmetric])
      (simp add: ack_def deadline_def clearDeadline_def)
qed

lemma fits_object:
  "members_bound kvs + 2 \<le> MaxPayloadSize \<Longrightarrow> fits (control_message t (json_object kvs))"
  using length_json_object [of kvs] by (simp add: fits_def)

lemma fits_handshake_ack [simp]:
  "fits (control_message MsgHandshakeAck (HandshakeAck_json \<lparr>haOK = True, haMessage = []\<rparr>))"
  "fits (control_message MsgHandshakeAck (HandshakeAck_json \<lparr>haOK = False, haMessage = invalid_key\<rparr>))"
proof -
  show "fits (control_message MsgHandshakeAck (HandshakeAck_json \<lparr>haOK = True, haMessage = []\<rparr>))"
    "fits (control_message MsgHandshakeAck (HandshakeAck_json \<lparr>haOK = False, haMessage = invalid_key\<rparr>))"
    by (simp_all add: HandshakeAck_json_def omit_empty_def invalid_key_def fits_object MaxPayloadSize_def)
qed

lemma default_version_ok: "HandshakeReq_ok req \<Longrightarrow> HandshakeReq_ok (default_version req)"
  by (simp add: HandshakeReq_ok_def default_version_def ProtocolVersion_def)

text \<open>What the client does when the acknowledgement is the next frame it can read.\<close>

lemma ClientHandshake_frame:
  assumes "sIn c = frame_of (control_message MsgHandshakeAck (HandshakeAck_json ack)) @ rest"
    "fits (control_message MsgHandshakeAck (HandshakeAck_json ack))" "HandshakeAck_ok ack"
    "fits (control_message MsgHandshake (HandshakeReq_json (default_version req)))" "writable c"
  shows "ClientHandshake c req =
     (Inr ack, clearDeadline (deadline handshakeTimeout c)\<lparr>sIn := rest,
        sOut := sOut c @ frame_of (control_message MsgHandshake (HandshakeReq_json (default_version req)))\<rparr>)"
proof -
  let ?s = "(deadline handshakeTimeout c)\<lparr>sOut := sOut c @
       frame_of (control_message MsgHandshake (HandshakeReq_json (default_version req)))\<rparr>"
  have "expect MsgHandshakeAck ?s =
      (Inr (control_message MsgHandshakeAck (HandshakeAck_json ack)), ?s\<lparr>sIn := rest\<rparr>)"
    using assms by (intro expect_frame) simp_all
  with assms show ?thesis
    by (simp add: ClientHandshake_def Let_def SendControl_def hs_ack.decode_message)
      (simp add: clearDeadline_def deadline_def)
qed

lemma handshake_result_sound:
  "case ServerHandshakeVerify s verify of
     (Inr req, s') \<Rightarrow>
       (\<exists>v. verify = Some v \<and> v req) \<and>
       (\<exists>m rest. ReadMessage (sIn s) = Inr (m, rest) \<and> mType m = MsgHandshake
                 \<and> DecodeControl HandshakeReq_parse m = Inr req \<and> sIn s' = rest) \<and>
       sOut s' = sOut s @ frame_of (control_message MsgHandshakeAck
                    (HandshakeAck_json \<lparr>haOK = True, haMessage = []\<rparr>))
   | (Inl e, s') \<Rightarrow>
       sOut s' = sOut s \<or>
       sOut s' = sOut s @ frame_of (control_message MsgHandshakeAck
                    (HandshakeAck_json \<lparr>haOK = False, haMessage = invalid_key\<rparr>))"
proof (cases "expect MsgHandshake (deadline handshakeTimeout s)")
  case (Pair r s1)
  have out: "sOut s1 = sOut s"
    using Pair by (auto simp: expect_def Receive_def split: sum.splits msgerr.splits prod.splits if_splits)
  show ?thesis
  proof (cases r)
    case (Inl e)
    with Pair out show ?thesis by (simp add: ServerHandshakeVerify_def)
  next
    case (Inr m)
    then obtain rest where m: "ReadMessage (sIn s) = Inr (m, rest)" "mType m = MsgHandshake" "sIn s1 = rest"
      using Pair by (auto simp: expect_def Receive_def split: sum.splits msgerr.splits prod.splits if_splits)
    show ?thesis
    proof (cases "DecodeControl HandshakeReq_parse m")
      case (Inl e)
      with Pair Inr out show ?thesis by (simp add: ServerHandshakeVerify_def)
    next
      case dec: (Inr req)
      define good where "good = (case verify of None \<Rightarrow> False | Some v \<Rightarrow> v req)"
      define ack where "ack = (if good then \<lparr>haOK = True, haMessage = []\<rparr>
                               else \<lparr>haOK = False, haMessage = invalid_key\<rparr>)"
      have "good \<longleftrightarrow> (\<exists>v. verify = Some v \<and> v req)" by (auto simp: good_def split: option.splits)
      with Pair Inr dec m out show ?thesis
        by (cases rule: Send_cases [of "control_message MsgHandshakeAck (HandshakeAck_json ack)" s1])
          (auto simp: ServerHandshakeVerify_def Let_def SendControl_def good_def [symmetric] ack_def split: if_splits)
    qed
  qed
qed

section \<open>Properties\<close>

text \<open>
  C30: Every control struct survives the wire: decoding the JSON text that its encoder
  prints gives the same struct, for all field values (strings valid UTF-8, the version a
  64-bit integer), omitted empty fields included.
\<close>

theorem control_structs_roundtrip:
  "(HandshakeReq_ok a \<longrightarrow> DecodeControl HandshakeReq_parse (control_message t (HandshakeReq_json a)) = Inr a)
   \<and> (HandshakeAck_ok b \<longrightarrow> DecodeControl HandshakeAck_parse (control_message t (HandshakeAck_json b)) = Inr b)
   \<and> (RegisterStreamReq_ok c \<longrightarrow>
        DecodeControl RegisterStreamReq_parse (control_message t (RegisterStreamReq_json c)) = Inr c)
   \<and> (RegisterStreamAck_ok d \<longrightarrow>
        DecodeControl RegisterStreamAck_parse (control_message t (RegisterStreamAck_json d)) = Inr d)
   \<and> DecodeControl ConnOpenReq_parse (control_message t (ConnOpenReq_json e)) = Inr e
   \<and> (ConnOpenAck_ok f \<longrightarrow> DecodeControl ConnOpenAck_parse (control_message t (ConnOpenAck_json f)) = Inr f)
   \<and> (ClientConnReq_ok g \<longrightarrow> DecodeControl ClientConnReq_parse (control_message t (ClientConnReq_json g)) = Inr g)
   \<and> (ClientConnAck_ok h \<longrightarrow> DecodeControl ClientConnAck_parse (control_message t (ClientConnAck_json h)) = Inr h)
   \<and> DecodeControl WindowUpdate_parse (control_message t (WindowUpdate_json i)) = Inr i"
  by (simp add: hs_req.decode_message hs_ack.decode_message reg_req.decode_message
      reg_ack.decode_message open_req.decode_message open_ack.decode_message
      cc_req.decode_message cc_ack.decode_message wnd_upd.decode_message
      ConnOpenReq_ok_def WindowUpdate_ok_def)

theorem control_structs_roundtrip_witness:
  "DecodeControl HandshakeReq_parse (control_message MsgHandshake
     (HandshakeReq_json \<lparr>hrVersion = 1, hrClientName = ''a<b'', hrKeyPassword = ''k''\<rparr>))
   = Inr \<lparr>hrVersion = 1, hrClientName = ''a<b'', hrKeyPassword = ''k''\<rparr>"
  using control_structs_roundtrip [of "\<lparr>hrVersion = 1, hrClientName = ''a<b'', hrKeyPassword = ''k''\<rparr>"
      MsgHandshake "\<lparr>haOK = True, haMessage = []\<rparr>" "\<lparr>rrClientProxyName = [], rrStreamId = []\<rparr>"
      "\<lparr>raOK = True, raStreamId = [], raAssignID = 0, raMessage = []\<rparr>"
      "\<lparr>orStreamID = 0, orConnID = 0\<rparr>" "\<lparr>oaConnID = 0, oaOK = True, oaMessage = []\<rparr>"
      "\<lparr>crConnID = 0, crClientProxyName = [], crStreamId = []\<rparr>"
      "\<lparr>caConnID = 0, caOK = True, caMessage = []\<rparr>" "\<lparr>wuConnID = 0, wuDelta = 0\<rparr>"]
  by (simp add: HandshakeReq_ok_def valid_utf8_def)

text \<open>
  The handshake reaches agreement. When the server reads the bytes that the client's
  \<^verbatim>\<open>ClientHandshake\<close> wrote and the client reads the bytes the server answered, the server
  sees the request with its version filled in, accepts it exactly when \<^verbatim>\<open>verify\<close> does, and
  the client's acknowledgement says so (or carries the rejection text); the server leaves
  the bytes after the handshake unread and both sides have cleared their deadlines.
\<close>

theorem handshake_agreement:
  assumes "HandshakeReq_ok req" "writable c" "writable srv"
    and "fits (control_message MsgHandshake (HandshakeReq_json (default_version req)))"
  defines "hello \<equiv> frame_of (control_message MsgHandshake (HandshakeReq_json (default_version req)))"
  shows "\<exists>r srv' ack c'.
     ServerHandshakeVerify (srv\<lparr>sIn := hello @ rest\<rparr>) verify = (r, srv')
     \<and> ClientHandshake (c\<lparr>sIn := drop (length (sOut srv)) (sOut srv')\<rparr>) req = (Inr ack, c')
     \<and> sOut c' = sOut c @ hello \<and> sIn srv' = rest
     \<and> sDeadline srv' = None \<and> sDeadline c' = None
     \<and> (if (\<exists>v. verify = Some v \<and> v (default_version req))
        then r = Inr (default_version req) \<and> ack = \<lparr>haOK = True, haMessage = []\<rparr>
        else r = Inl (Rejected invalid_key) \<and> ack = \<lparr>haOK = False, haMessage = invalid_key\<rparr>)"
proof -
  define good where "good = (case verify of None \<Rightarrow> False | Some v \<Rightarrow> v (default_version req))"
  define ack where "ack = (if good then \<lparr>haOK = True, haMessage = []\<rparr>
                           else \<lparr>haOK = False, haMessage = invalid_key\<rparr>)"
  define reply where "reply = frame_of (control_message MsgHandshakeAck (HandshakeAck_json ack))"
  have a: "fits (control_message MsgHandshakeAck (HandshakeAck_json ack))" "HandshakeAck_ok ack"
    by (simp_all add: ack_def)
  have srv: "ServerHandshakeVerify (srv\<lparr>sIn := hello @ rest\<rparr>) verify =
     ((if good then Inr (default_version req) else Inl (Rejected invalid_key)),
      clearDeadline (deadline handshakeTimeout srv)\<lparr>sIn := rest, sOut := sOut srv @ reply\<rparr>)"
    using ServerHandshakeVerify_frame [of "srv\<lparr>sIn := hello @ rest\<rparr>" "default_version req" rest verify]
      assms a default_version_ok [OF assms(1)]
    by (simp add: good_def ack_def reply_def hello_def clearDeadline_def deadline_def)
  have cl: "ClientHandshake (c\<lparr>sIn := reply\<rparr>) req =
     (Inr ack, clearDeadline (deadline handshakeTimeout c)\<lparr>sIn := [], sOut := sOut c @ hello\<rparr>)"
    using ClientHandshake_frame [of "c\<lparr>sIn := reply\<rparr>" ack "[]" req] a assms
    by (simp add: reply_def hello_def clearDeadline_def deadline_def)
  have "good \<longleftrightarrow> (\<exists>v. verify = Some v \<and> v (default_version req))"
    by (auto simp: good_def split: option.splits)
  with srv cl show ?thesis by (simp add: ack_def clearDeadline_def)
qed

theorem handshake_agreement_witness:
  "\<exists>r srv' ack c'.
     ServerHandshakeVerify ((NewSession [])\<lparr>sIn := frame_of (control_message MsgHandshake
         (HandshakeReq_json \<lparr>hrVersion = 1, hrClientName = ''rainc'', hrKeyPassword = ''pw''\<rparr>))\<rparr>)
       (Some (\<lambda>r. hrKeyPassword r = ''pw'')) = (r, srv')
     \<and> ClientHandshake ((NewSession [])\<lparr>sIn := sOut srv'\<rparr>)
         \<lparr>hrVersion = 0, hrClientName = ''rainc'', hrKeyPassword = ''pw''\<rparr> = (Inr ack, c') \<and> haOK ack"
proof -
  let ?req = "\<lparr>hrVersion = 0, hrClientName = ''rainc'', hrKeyPassword = ''pw''\<rparr>"
  have d: "default_version ?req = \<lparr>hrVersion = 1, hrClientName = ''rainc'', hrKeyPassword = ''pw''\<rparr>"
    by (simp add: default_version_def ProtocolVersion_def)
  have "print_int 1 = ''1''" by code_simp
  then have "fits (control_message MsgHandshake (HandshakeReq_json (default_version ?req)))"
    by (simp add: d HandshakeReq_json_def omit_empty_def fits_object MaxPayloadSize_def)
  moreover have "HandshakeReq_ok ?req" "writable (NewSession [])"
    by (simp_all add: HandshakeReq_ok_def valid_utf8_def writable_def NewSession_def)
  ultimately show ?thesis
    using handshake_agreement [of ?req "NewSession []" "NewSession []" "[]" "Some (\<lambda>r. hrKeyPassword r = ''pw'')"]
    unfolding d by (auto simp: NewSession_def)
qed

text \<open>
  Authentication cannot be bypassed. Whatever bytes the peer sent, the server returns a
  request only when \<^verbatim>\<open>verify\<close> is set and accepted it, the request is what the first frame
  decodes to, and the one frame written is the positive acknowledgement; in every other
  case it has written nothing or exactly one negative acknowledgement.
\<close>

theorem server_handshake_sound:
  "case ServerHandshakeVerify s verify of
     (Inr req, s') \<Rightarrow>
       (\<exists>v. verify = Some v \<and> v req) \<and>
       (\<exists>m rest. ReadMessage (sIn s) = Inr (m, rest) \<and> mType m = MsgHandshake
                 \<and> DecodeControl HandshakeReq_parse m = Inr req \<and> sIn s' = rest) \<and>
       sOut s' = sOut s @ frame_of (control_message MsgHandshakeAck
                    (HandshakeAck_json \<lparr>haOK = True, haMessage = []\<rparr>))
   | (Inl e, s') \<Rightarrow>
       sOut s' = sOut s \<or>
       sOut s' = sOut s @ frame_of (control_message MsgHandshakeAck
                    (HandshakeAck_json \<lparr>haOK = False, haMessage = invalid_key\<rparr>))"
  by (rule handshake_result_sound)

end
