(* ===== verification/StreamTable.thy ===== *)
theory StreamTable
  imports StarSession "HOL-Library.AList"
begin

text \<open>
  The server's stream table, \<^verbatim>\<open>internal/handler/star/streamtable.go\<close>. A Go map is an
  association list with distinct keys. A \<^verbatim>\<open>*StreamEntry\<close> is shared by the table and by the
  connections opened on the stream, and only its two atomic counters change: the entry is a
  record of its constant fields with the number of the cell that holds the counters, and the
  table carries the cells. A session is named by its reference.
\<close>

section \<open>State\<close>

type_synonym sess_ref = nat

record StreamEntry =
  seAssignID :: u32
  seClientProxyName :: string
  seStreamId :: string
  seClient :: sess_ref
  seSince :: nat
  seCell :: nat

record StreamStat =
  stAssignID :: u32
  stClientProxyName :: string
  stStreamId :: string
  stSince :: nat
  stInBytes :: u64
  stOutBytes :: u64

record StreamTable =
  stSeq :: u32
  byID :: "(u32 \<times> StreamEntry) list"
  byStreamID :: "(string \<times> StreamEntry) list"
  cells :: "(u64 \<times> u64) list"

section \<open>Operations\<close>

definition streamKey :: "string \<Rightarrow> string \<Rightarrow> string" where
  "streamKey clientProxyName streamId = clientProxyName @ ''/'' @ streamId"

definition NewStreamTable :: StreamTable where
  "NewStreamTable = \<lparr>stSeq = 0, byID = [], byStreamID = [], cells = []\<rparr>"

definition already_registered :: "string \<Rightarrow> string" where
  "already_registered key = ''stream '' @ key @ '' already registered''"

definition Assign ::
    "nat \<Rightarrow> sess_ref \<Rightarrow> RegisterStreamReq \<Rightarrow> StreamTable \<Rightarrow> (string + u32) \<times> StreamTable" where
  "Assign now client req t =
     (let key = streamKey (rrClientProxyName req) (rrStreamId req) in
      if map_of (byStreamID t) key \<noteq> None then (Inl (already_registered key), t)
      else let seq = stSeq t + 1;
               entry = \<lparr>seAssignID = seq, seClientProxyName = rrClientProxyName req,
                        seStreamId = rrStreamId req, seClient = client, seSince = now,
                        seCell = length (cells t)\<rparr>
           in (Inr seq, t\<lparr>stSeq := seq, byID := AList.update seq entry (byID t),
                          byStreamID := AList.update key entry (byStreamID t),
                          cells := cells t @ [(0, 0)]\<rparr>))"

definition Get :: "u32 \<Rightarrow> StreamTable \<Rightarrow> StreamEntry option" where
  "Get assignID t = map_of (byID t) assignID"

definition GetByName :: "string \<Rightarrow> string \<Rightarrow> StreamTable \<Rightarrow> StreamEntry option" where
  "GetByName clientProxyName streamId t = map_of (byStreamID t) (streamKey clientProxyName streamId)"

definition FindByClientProxy :: "string \<Rightarrow> StreamTable \<Rightarrow> StreamEntry list" where
  "FindByClientProxy clientProxyName t =
     sort_by seAssignID (filter (\<lambda>e. seClientProxyName e = clientProxyName) (map snd (byID t)))"

definition entry_key :: "StreamEntry \<Rightarrow> string" where
  "entry_key e = streamKey (seClientProxyName e) (seStreamId e)"

definition Remove :: "u32 \<Rightarrow> StreamTable \<Rightarrow> StreamTable" where
  "Remove assignID t =
     (case map_of (byID t) assignID of
        None \<Rightarrow> t
      | Some e \<Rightarrow> t\<lparr>byID := AList.delete assignID (byID t),
                    byStreamID := AList.delete (entry_key e) (byStreamID t)\<rparr>)"

text \<open>
  The loop of \<^verbatim>\<open>RemoveByClient\<close> over the entries of \<^verbatim>\<open>byID\<close>; deleting the visited key while
  ranging does not affect the entries still to come.
\<close>

fun remove_loop :: "sess_ref \<Rightarrow> (u32 \<times> StreamEntry) list \<Rightarrow> StreamTable \<Rightarrow> nat \<Rightarrow> StreamTable \<times> nat" where
  "remove_loop client [] t removed = (t, removed)"
| "remove_loop client ((i, e) # es) t removed =
     (if seClient e = client
      then remove_loop client es
             (t\<lparr>byID := AList.delete i (byID t), byStreamID := AList.delete (entry_key e) (byStreamID t)\<rparr>)
             (removed + 1)
      else remove_loop client es t removed)"

definition RemoveByClient :: "sess_ref \<Rightarrow> StreamTable \<Rightarrow> StreamTable \<times> nat" where
  "RemoveByClient client t = remove_loop client (byID t) t 0"

definition Len :: "StreamTable \<Rightarrow> nat" where
  "Len t = length (byID t)"

definition stat_of :: "StreamTable \<Rightarrow> StreamEntry \<Rightarrow> StreamStat" where
  "stat_of t e =
     \<lparr>stAssignID = seAssignID e, stClientProxyName = seClientProxyName e, stStreamId = seStreamId e,
      stSince = seSince e, stInBytes = fst (cells t ! seCell e), stOutBytes = snd (cells t ! seCell e)\<rparr>"

definition Snapshot :: "StreamTable \<Rightarrow> StreamStat list" where
  "Snapshot t = sort_by stAssignID (map (stat_of t \<circ> snd) (byID t))"

text \<open>The atomic additions of the data paths to an entry's counters.\<close>

definition add_in_bytes :: "StreamEntry \<Rightarrow> nat \<Rightarrow> StreamTable \<Rightarrow> StreamTable" where
  "add_in_bytes e n t =
     t\<lparr>cells := (cells t)[seCell e := (fst (cells t ! seCell e) + word_of_nat n, snd (cells t ! seCell e))]\<rparr>"

definition add_out_bytes :: "StreamEntry \<Rightarrow> nat \<Rightarrow> StreamTable \<Rightarrow> StreamTable" where
  "add_out_bytes e n t =
     t\<lparr>cells := (cells t)[seCell e := (fst (cells t ! seCell e), snd (cells t ! seCell e) + word_of_nat n)]\<rparr>"

section \<open>The invariant\<close>

text \<open>
  The two indexes hold the same entries, each under its own id and its own key; ids are
  positive and at most the last id given out.
\<close>

definition table_wf :: "StreamTable \<Rightarrow> bool" where
  "table_wf t \<longleftrightarrow>
     distinct (map fst (byID t)) \<and> distinct (map fst (byStreamID t))
     \<and> (\<forall>(i, e) \<in> set (byID t). seAssignID e = i \<and> map_of (byStreamID t) (entry_key e) = Some e
           \<and> seCell e < length (cells t))
     \<and> (\<forall>(k, e) \<in> set (byStreamID t). entry_key e = k \<and> map_of (byID t) (seAssignID e) = Some e)"

definition ids_bounded :: "StreamTable \<Rightarrow> bool" where
  "ids_bounded t \<longleftrightarrow> (\<forall>i \<in> fst ` set (byID t). 0 < i \<and> i \<le> stSeq t)"

declare map_of_eq_Some_iff [simp del] Some_eq_map_of_iff [simp del]

lemma table_wfI:
  assumes "distinct (map fst (byID t))" "distinct (map fst (byStreamID t))"
    "\<And>i e. map_of (byID t) i = Some e \<Longrightarrow> seAssignID e = i" 
    "\<And>i e. map_of (byID t) i = Some e \<Longrightarrow> map_of (byStreamID t) (entry_key e) = Some e"
    "\<And>i e. map_of (byID t) i = Some e \<Longrightarrow> seCell e < length (cells t)"
    "\<And>k e. map_of (byStreamID t) k = Some e \<Longrightarrow> entry_key e = k"
    "\<And>k e. map_of (byStreamID t) k = Some e \<Longrightarrow> map_of (byID t) (seAssignID e) = Some e"
  shows "table_wf t"
  using assms unfolding table_wf_def by (auto dest: map_of_is_SomeI [rotated])

lemma table_wfD:
  assumes "table_wf t"
  shows "distinct (map fst (byID t))" "distinct (map fst (byStreamID t))"
    "map_of (byID t) i = Some e \<Longrightarrow> seAssignID e = i" 
    "map_of (byID t) i = Some e \<Longrightarrow> map_of (byStreamID t) (entry_key e) = Some e"
    "map_of (byID t) i = Some e \<Longrightarrow> seCell e < length (cells t)"
    "map_of (byStreamID t) k = Some e \<Longrightarrow> entry_key e = k"
    "map_of (byStreamID t) k = Some e \<Longrightarrow> map_of (byID t) (seAssignID e) = Some e"
  using assms unfolding table_wf_def by (auto dest!: map_of_SomeD)

lemma ids_boundedD: "ids_bounded t \<Longrightarrow> map_of (byID t) i = Some e \<Longrightarrow> 0 < i \<and> i \<le> stSeq t"
  unfolding ids_bounded_def by (force dest!: map_of_SomeD)

lemma table_wf_New [simp]: "table_wf NewStreamTable" "ids_bounded NewStreamTable"
  by (simp_all add: table_wf_def ids_bounded_def NewStreamTable_def)

lemmas alist_simps [table_simps] = update_conv' delete_conv' distinct_update distinct_delete

lemma entry_key_new:
  "entry_key \<lparr>seAssignID = i, seClientProxyName = p, seStreamId = s, seClient = c, seSince = n, seCell = l\<rparr>
   = streamKey p s"
  by (simp add: entry_key_def)

lemma Assign_wf:
  assumes wf: "table_wf t" and fresh: "map_of (byID t) (stSeq t + 1) = None"
  shows "table_wf (snd (Assign now c req t))"
proof (cases "map_of (byStreamID t) (streamKey (rrClientProxyName req) (rrStreamId req))")
  case (Some e)
  with wf show ?thesis by (simp add: Assign_def Let_def)
next
  case None
  note wfd = table_wfD [OF wf]
  have old: "map_of (byID t) i = Some e \<Longrightarrow> entry_key e \<noteq> streamKey (rrClientProxyName req) (rrStreamId req)"
    "map_of (byStreamID t) k = Some e \<Longrightarrow> seAssignID e \<noteq> stSeq t + 1" for i k e
    using None fresh wfd(4,7) by fastforce+
  show ?thesis
    by (rule table_wfI)
      (use None old wfd in \<open>auto simp: Assign_def Let_def table_simps entry_key_new
          intro: less_SucI split: if_splits\<close>)
qed

lemma seq_fresh:
  assumes "ids_bounded t" "stSeq t \<noteq> - 1"
  shows "map_of (byID t) (stSeq t + 1) = None"
proof (rule ccontr)
  assume "map_of (byID t) (stSeq t + 1) \<noteq> None"
  then obtain e where "map_of (byID t) (stSeq t + 1) = Some e" by blast
  then have "stSeq t + 1 \<le> stSeq t" using ids_boundedD [OF assms(1)] by blast
  with word_inc_bounds(2) [OF assms(2)] show False by simp
qed

lemma Assign_bounded:
  assumes "ids_bounded t" "stSeq t \<noteq> - 1"
  shows "ids_bounded (snd (Assign now c req t))"
proof -
  note inc = word_inc_bounds [OF assms(2)]
  have "\<forall>i \<in> fst ` set (AList.update (stSeq t + 1) e (byID t)). 0 < i \<and> i \<le> stSeq t + 1" for e
    unfolding AList.dom_update using assms(1) inc by (auto simp: ids_bounded_def)
  with assms(1) show ?thesis by (simp add: Assign_def Let_def ids_bounded_def)
qed

lemma Remove_wf: "table_wf t \<Longrightarrow> table_wf (Remove i t)"
proof (cases "map_of (byID t) i")
  case (Some e)
  assume wf: "table_wf t"
  note wfd = table_wfD [OF wf]
  have key: "map_of (byID t) j = Some d \<Longrightarrow> j \<noteq> i \<Longrightarrow> entry_key d \<noteq> entry_key e" for j d
    using wfd(3,4) Some by (metis option.inject)
  have ids: "map_of (byStreamID t) k = Some d \<Longrightarrow> k \<noteq> entry_key e \<Longrightarrow> seAssignID d \<noteq> i" for k d
    using wfd(6,7) Some by (metis option.inject)
  show ?thesis
    using Some wfd
    by (intro table_wfI) (auto simp: Remove_def table_simps key ids split: if_splits)
qed (simp add: Remove_def)

lemma Remove_bounded: "ids_bounded t \<Longrightarrow> ids_bounded (Remove i t)"
  by (auto simp: Remove_def ids_bounded_def AList.delete_eq split: option.splits)

text \<open>One turn of the loop is \<^verbatim>\<open>Remove\<close> of an entry that is in the table.\<close>

lemma Remove_present:
  "map_of (byID t) i = Some e \<Longrightarrow>
     t\<lparr>byID := AList.delete i (byID t), byStreamID := AList.delete (entry_key e) (byStreamID t)\<rparr> = Remove i t"
  by (simp add: Remove_def)

lemma map_of_Remove: "map_of (byID (Remove i t)) j = (if j = i then None else map_of (byID t) j)"
  by (simp add: Remove_def table_simps split: option.split)

lemma remove_loop_spec:
  assumes "table_wf t" "ids_bounded t" "distinct (map fst es)"
    "\<And>i e. (i, e) \<in> set es \<Longrightarrow> map_of (byID t) i = Some e"
  shows "table_wf (fst (remove_loop c es t n)) \<and> ids_bounded (fst (remove_loop c es t n))
    \<and> stSeq (fst (remove_loop c es t n)) = stSeq t \<and> cells (fst (remove_loop c es t n)) = cells t
    \<and> snd (remove_loop c es t n) = n + length (filter (\<lambda>(i, e). seClient e = c) es)
    \<and> map_of (byID (fst (remove_loop c es t n))) =
        (\<lambda>j. if \<exists>e. (j, e) \<in> set es \<and> seClient e = c then None else map_of (byID t) j)"
  using assms
proof (induction es arbitrary: t n)
  case Nil
  then show ?case by simp
next
  case (Cons ie es)
  obtain i e where ie: "ie = (i, e)" by force
  have here: "map_of (byID t) i = Some e" using Cons.prems(4) ie by simp
  have other: "(j, d) \<in> set es \<Longrightarrow> j \<noteq> i" for j d
    using Cons.prems(3) ie by (force simp: image_iff)
  show ?case
  proof (cases "seClient e = c")
    case True
    let ?t = "Remove i t"
    have "table_wf ?t" "ids_bounded ?t" "distinct (map fst es)"
      using Cons.prems by (simp_all add: Remove_wf Remove_bounded)
    moreover have "(j, d) \<in> set es \<Longrightarrow> map_of (byID ?t) j = Some d" for j d
      using Cons.prems(4) other by (simp add: map_of_Remove)
    moreover have "stSeq ?t = stSeq t" "cells ?t = cells t" by (simp_all add: Remove_def split: option.split)
    ultimately show ?thesis
      using Cons.IH [of ?t "n + 1"] True by (auto simp: ie Remove_present [OF here] map_of_Remove fun_eq_iff)
  next
    case False
    then show ?thesis using Cons.IH [of t n] Cons.prems by (auto simp: ie fun_eq_iff)
  qed
qed

lemma RemoveByClient_spec:
  assumes "table_wf t" "ids_bounded t"
  shows "table_wf (fst (RemoveByClient c t))" "ids_bounded (fst (RemoveByClient c t))"
    "stSeq (fst (RemoveByClient c t)) = stSeq t" "cells (fst (RemoveByClient c t)) = cells t"
    "snd (RemoveByClient c t) = length (filter (\<lambda>(i, e). seClient e = c) (byID t))"
    "map_of (byID (fst (RemoveByClient c t))) j =
       (case map_of (byID t) j of Some e \<Rightarrow> if seClient e = c then None else Some e | None \<Rightarrow> None)"
proof -
  have mem: "(i, e) \<in> set (byID t) \<longleftrightarrow> map_of (byID t) i = Some e" for i e
    using table_wfD(1) [OF assms(1)] by (simp add: map_of_eq_Some_iff)
  note spec = remove_loop_spec [OF assms table_wfD(1) [OF assms(1)], of c 0]
  show "table_wf (fst (RemoveByClient c t))" "ids_bounded (fst (RemoveByClient c t))"
    "stSeq (fst (RemoveByClient c t)) = stSeq t" "cells (fst (RemoveByClient c t)) = cells t"
    "snd (RemoveByClient c t) = length (filter (\<lambda>(i, e). seClient e = c) (byID t))"
    using spec mem by (simp_all add: RemoveByClient_def)
  show "map_of (byID (fst (RemoveByClient c t))) j =
       (case map_of (byID t) j of Some e \<Rightarrow> if seClient e = c then None else Some e | None \<Rightarrow> None)"
    using spec mem by (auto simp: RemoveByClient_def split: option.split)
qed

section \<open>The contract of a stream registry\<close>

text \<open>
  What the hub and the control listener rely on: lookups by id and by name see the same
  entries, a new stream gets an id that is not in use, and removal by id or by session
  takes away exactly the entries it names.
\<close>

locale stream_registry =
  fixes inv :: "'t \<Rightarrow> bool" and ready :: "'t \<Rightarrow> bool"
    and get :: "u32 \<Rightarrow> 't \<Rightarrow> StreamEntry option"
    and by_name :: "string \<Rightarrow> string \<Rightarrow> 't \<Rightarrow> StreamEntry option"
    and assign :: "sess_ref \<Rightarrow> RegisterStreamReq \<Rightarrow> 't \<Rightarrow> (string + u32) \<times> 't"
    and remove :: "u32 \<Rightarrow> 't \<Rightarrow> 't" and drop_client :: "sess_ref \<Rightarrow> 't \<Rightarrow> 't"
  assumes get_id: "inv t \<Longrightarrow> get i t = Some e \<Longrightarrow> seAssignID e = i"
    and name_get: "inv t \<Longrightarrow>
      by_name p s t = Some e \<longleftrightarrow> get (seAssignID e) t = Some e \<and> entry_key e = streamKey p s"
    and assign_dup: "by_name (rrClientProxyName req) (rrStreamId req) t \<noteq> None \<Longrightarrow>
      \<exists>msg. assign c req t = (Inl msg, t)"
    and assign_new: "inv t \<Longrightarrow> ready t \<Longrightarrow> by_name (rrClientProxyName req) (rrStreamId req) t = None \<Longrightarrow>
      \<exists>i e t'. assign c req t = (Inr i, t') \<and> inv t' \<and> get i t = None \<and> seClient e = c
        \<and> seClientProxyName e = rrClientProxyName req \<and> seStreamId e = rrStreamId req
        \<and> (\<forall>j. get j t' = (if j = i then Some e else get j t))"
    and remove_inv: "inv t \<Longrightarrow> inv (remove i t)"
    and remove_get: "inv t \<Longrightarrow> get j (remove i t) = (if j = i then None else get j t)"
    and drop_inv: "inv t \<Longrightarrow> inv (drop_client c t)"
    and drop_get: "inv t \<Longrightarrow> get j (drop_client c t) =
      (case get j t of Some e \<Rightarrow> if seClient e = c then None else Some e | None \<Rightarrow> None)"
begin

lemma name_unique:
  "inv t \<Longrightarrow> get i t = Some e \<Longrightarrow> get j t = Some d \<Longrightarrow> entry_key e = entry_key d \<Longrightarrow> e = d"
  by (metis entry_key_def get_id name_get option.inject)

lemma remove_by_name:
  assumes "inv t"
  shows "by_name p s (remove i t) =
     (case by_name p s t of Some e \<Rightarrow> if seAssignID e = i then None else Some e | None \<Rightarrow> None)"
  using assms by (intro option_filter_eqI) (auto simp: name_get remove_inv remove_get)

lemma drop_by_name:
  assumes "inv t"
  shows "by_name p s (drop_client c t) =
     (case by_name p s t of Some e \<Rightarrow> if seClient e = c then None else Some e | None \<Rightarrow> None)"
  using assms
  by (intro option_filter_eqI) (auto simp: name_get drop_inv drop_get split: option.splits if_splits)

lemma assign_by_name:
  assumes "inv t" "ready t" "by_name (rrClientProxyName req) (rrStreamId req) t = None"
  shows "\<exists>i e t'. assign c req t = (Inr i, t') \<and> inv t' \<and> get i t' = Some e \<and> seClient e = c
     \<and> by_name (rrClientProxyName req) (rrStreamId req) t' = Some e
     \<and> (\<forall>p s d. by_name p s t = Some d \<longrightarrow> by_name p s t' = Some d)"
proof -
  obtain i e t' where a: "assign c req t = (Inr i, t')" "inv t'" "get i t = None" "seClient e = c"
      "seClientProxyName e = rrClientProxyName req" "seStreamId e = rrStreamId req"
      "\<And>j. get j t' = (if j = i then Some e else get j t)"
    using assign_new [OF assms, of c] by blast
  have "seAssignID e = i" using get_id [OF a(2), of i e] a(7) by simp
  then have "by_name (rrClientProxyName req) (rrStreamId req) t' = Some e"
    using a by (simp add: name_get entry_key_def)
  moreover have "by_name p s t = Some d \<Longrightarrow> by_name p s t' = Some d" for p s d
    using assms(1) a by (auto simp: name_get)
  ultimately show ?thesis using a by auto
qed

end

lemma Assign_new_get:
  assumes "GetByName (rrClientProxyName req) (rrStreamId req) t = None"
  shows "\<exists>t'. Assign now c req t = (Inr (stSeq t + 1), t') \<and> stSeq t' = stSeq t + 1
     \<and> (\<forall>j. Get j t' = (if j = stSeq t + 1
          then Some \<lparr>seAssignID = stSeq t + 1, seClientProxyName = rrClientProxyName req,
                 seStreamId = rrStreamId req, seClient = c, seSince = now, seCell = length (cells t)\<rparr>
          else Get j t))"
  using assms by (simp add: Assign_def GetByName_def Get_def Let_def table_simps)

interpretation tbl: stream_registry "\<lambda>t. table_wf t \<and> ids_bounded t" "\<lambda>t. stSeq t \<noteq> - 1"
  Get GetByName "Assign now" Remove "\<lambda>c t. fst (RemoveByClient c t)"
  for now
proof unfold_locales
  fix t i e assume "table_wf t \<and> ids_bounded t" "Get i t = Some e"
  then show "seAssignID e = i" unfolding Get_def using table_wfD(3) by blast
next
  fix t p s e assume wf: "table_wf t \<and> ids_bounded t"
  show "GetByName p s t = Some e \<longleftrightarrow> Get (seAssignID e) t = Some e \<and> entry_key e = streamKey p s"
    unfolding GetByName_def Get_def using wf table_wfD(4,6,7) by metis
next
  fix req :: RegisterStreamReq and t c assume "GetByName (rrClientProxyName req) (rrStreamId req) t \<noteq> None"
  then show "\<exists>msg. Assign now c req t = (Inl msg, t)" by (simp add: GetByName_def Assign_def Let_def)
next
  fix req :: RegisterStreamReq and t c
  assume t: "table_wf t \<and> ids_bounded t" "stSeq t \<noteq> - 1"
    "GetByName (rrClientProxyName req) (rrStreamId req) t = None"
  then have "map_of (byID t) (stSeq t + 1) = None" by (simp add: seq_fresh)
  with t Assign_new_get [OF t(3), of now c] Assign_wf [of t now c req] Assign_bounded [of t now c req]
  show "\<exists>i e t'. Assign now c req t = (Inr i, t') \<and> (table_wf t' \<and> ids_bounded t') \<and> Get i t = None
      \<and> seClient e = c \<and> seClientProxyName e = rrClientProxyName req \<and> seStreamId e = rrStreamId req
      \<and> (\<forall>j. Get j t' = (if j = i then Some e else Get j t))"
    by (auto simp: Get_def)
next
  fix t i assume "table_wf t \<and> ids_bounded t"
  then show "table_wf (Remove i t) \<and> ids_bounded (Remove i t)" by (simp add: Remove_wf Remove_bounded)
next
  fix t i j show "Get j (Remove i t) = (if j = i then None else Get j t)"
    by (simp add: Get_def map_of_Remove)
next
  fix t c assume "table_wf t \<and> ids_bounded t"
  then show "table_wf (fst (RemoveByClient c t)) \<and> ids_bounded (fst (RemoveByClient c t))"
    by (simp add: RemoveByClient_spec)
next
  fix t j c assume "table_wf t \<and> ids_bounded t"
  then show "Get j (fst (RemoveByClient c t)) =
      (case Get j t of Some e \<Rightarrow> if seClient e = c then None else Some e | None \<Rightarrow> None)"
    by (simp add: Get_def RemoveByClient_spec)
qed

section \<open>Reachable tables\<close>

text \<open>\<open>table_run n t\<close>: some sequence of operations on a new table gave out \<open>n\<close> ids and left \<open>t\<close>.\<close>

inductive table_run :: "nat \<Rightarrow> StreamTable \<Rightarrow> bool" where
  run_new: "table_run 0 NewStreamTable"
| run_assign: "table_run n t \<Longrightarrow> Assign now c req t = (Inr i, t') \<Longrightarrow> table_run (Suc n) t'"
| run_refused: "table_run n t \<Longrightarrow> Assign now c req t = (Inl msg, t') \<Longrightarrow> table_run n t'"
| run_remove: "table_run n t \<Longrightarrow> table_run n (Remove i t)"
| run_drop: "table_run n t \<Longrightarrow> table_run n (fst (RemoveByClient c t))"
| run_in: "table_run n t \<Longrightarrow> table_run n (add_in_bytes e k t)"
| run_out: "table_run n t \<Longrightarrow> table_run n (add_out_bytes e k t)"

lemma counters_wf [simp]:
  "table_wf (add_in_bytes e n t) = table_wf t" "table_wf (add_out_bytes e n t) = table_wf t"
  "ids_bounded (add_in_bytes e n t) = ids_bounded t" "ids_bounded (add_out_bytes e n t) = ids_bounded t"
  "stSeq (add_in_bytes e n t) = stSeq t" "stSeq (add_out_bytes e n t) = stSeq t"
  by (simp_all add: add_in_bytes_def add_out_bytes_def table_wf_def ids_bounded_def)

lemma stSeq_Remove [simp]: "stSeq (Remove i t) = stSeq t"
  by (simp add: Remove_def split: option.split)

lemma Assign_result:
  "Assign now c req t = (Inr i, t') \<Longrightarrow> i = stSeq t + 1 \<and> stSeq t' = stSeq t + 1"
  "Assign now c req t = (Inl msg, t') \<Longrightarrow> t' = t"
  by (auto simp: Assign_def Let_def split: if_splits)

lemma of_nat_u32_neq: "n + 1 < 2 ^ 32 \<Longrightarrow> (word_of_nat n :: u32) \<noteq> - 1"
proof
  assume n: "n + 1 < 2 ^ 32" and "(word_of_nat n :: u32) = - 1"
  then have "unat (word_of_nat n :: u32) = unat (- 1 :: u32)" by simp
  with n show False by (simp add: unat_of_nat unsigned_minus_1_eq_mask mask_eq_exp_minus_1)
qed

lemma table_run_inv:
  "table_run n t \<Longrightarrow> n < 2 ^ 32 \<Longrightarrow> table_wf t \<and> ids_bounded t \<and> stSeq t = word_of_nat n"
proof (induction rule: table_run.induct)
  case (run_assign n t now c req i t')
  then have IH: "table_wf t" "ids_bounded t" "stSeq t = word_of_nat n" by simp_all
  moreover have nomax: "stSeq t \<noteq> - 1" using of_nat_u32_neq [of n] run_assign.prems IH(3) by simp
  moreover have "t' = snd (Assign now c req t)" using run_assign.hyps by simp
  moreover have "stSeq t' = word_of_nat (Suc n)"
    using Assign_result(1) [OF run_assign.hyps(2)] IH(3) by simp
  ultimately show ?case using seq_fresh [OF IH(2) nomax] by (simp add: Assign_wf Assign_bounded)
next
  case (run_refused n t now c req msg t')
  then show ?case using Assign_result(2) [OF run_refused.hyps(2)] by simp
qed (simp_all add: NewStreamTable_def [THEN arg_cong [of _ _ stSeq]] Remove_wf Remove_bounded RemoveByClient_spec)

section \<open>Properties\<close>

text \<open>
  C23: The two indexes of the stream table stay consistent. After any sequence of
  registrations, removals, disconnects and counter updates that gave out fewer than 2^32
  ids, a stream is found by name exactly when it is found by its own id and has that
  name, the entry found under an id carries that id, and no two streams share a key.
\<close>

theorem table_indexes_agree:
  assumes "table_run n t" "n < 2 ^ 32"
  shows "(GetByName p s t = Some e \<longleftrightarrow> Get (seAssignID e) t = Some e \<and> entry_key e = streamKey p s)
     \<and> (Get i t = Some e \<longrightarrow> seAssignID e = i \<and> 0 < i \<and> unat i \<le> n)
     \<and> (Get i t = Some e \<longrightarrow> Get j t = Some d \<longrightarrow> entry_key e = entry_key d \<longrightarrow> e = d)"
proof (intro conjI impI)
  have inv: "table_wf t \<and> ids_bounded t" and seq: "stSeq t = word_of_nat n"
    using table_run_inv [OF assms] by simp_all
  show "GetByName p s t = Some e \<longleftrightarrow> Get (seAssignID e) t = Some e \<and> entry_key e = streamKey p s"
    by (rule tbl.name_get [OF inv])
  show "Get i t = Some e \<Longrightarrow> seAssignID e = i" "Get i t = Some e \<Longrightarrow> 0 < i" "Get i t = Some e \<Longrightarrow> unat i \<le> n"
    using inv seq assms(2) ids_boundedD [of t i e] tbl.get_id [OF inv]
    by (auto simp: Get_def word_le_nat_alt unat_of_nat)
  show "Get i t = Some e \<Longrightarrow> Get j t = Some d \<Longrightarrow> entry_key e = entry_key d \<Longrightarrow> e = d"
    by (rule tbl.name_unique [OF inv])
qed

definition demo_table :: StreamTable where
  "demo_table = snd (Assign 5 1 \<lparr>rrClientProxyName = ''home'', rrStreamId = ''ssh''\<rparr> NewStreamTable)"

lemma demo_table_run: "table_run 1 demo_table"
proof -
  have "Assign 5 1 \<lparr>rrClientProxyName = ''home'', rrStreamId = ''ssh''\<rparr> NewStreamTable = (Inr 1, demo_table)"
    by (simp add: demo_table_def Assign_def NewStreamTable_def Let_def)
  with run_assign [OF run_new] show ?thesis by simp
qed

theorem table_indexes_agree_witness:
  "\<exists>e. GetByName ''home'' ''ssh'' demo_table = Some e \<and> Get (seAssignID e) demo_table = Some e"
proof -
  obtain e where e: "GetByName ''home'' ''ssh'' demo_table = Some e"
    by (simp add: demo_table_def Assign_def NewStreamTable_def Let_def GetByName_def)
  moreover have "Get (seAssignID e) demo_table = Some e"
    using table_indexes_agree [OF demo_table_run, where p = "''home''" and s = "''ssh''" and e = e] e by simp
  ultimately show ?thesis by blast
qed

text \<open>
  Ids are never reused. While fewer than 2^32 ids were given out, a registration either
  is refused because a live stream has the same key and changes nothing, or returns the id
  one above all earlier ones, under which nothing was registered; the new stream is found
  by its id and by its name and belongs to the registering session, and every other stream is
  found as before.
\<close>

theorem assign_fresh:
  assumes "table_run n t" "n + 1 < 2 ^ 32"
  shows "case GetByName (rrClientProxyName req) (rrStreamId req) t of
      Some d \<Rightarrow> Assign now c req t
                  = (Inl (already_registered (streamKey (rrClientProxyName req) (rrStreamId req))), t)
    | None \<Rightarrow> (\<exists>e t'. Assign now c req t = (Inr (word_of_nat (n + 1)), t')
          \<and> Get (word_of_nat (n + 1)) t = None \<and> Get (word_of_nat (n + 1)) t' = Some e
          \<and> GetByName (rrClientProxyName req) (rrStreamId req) t' = Some e \<and> seClient e = c
          \<and> (\<forall>j. j \<noteq> word_of_nat (n + 1) \<longrightarrow> Get j t' = Get j t)
          \<and> (\<forall>p s d. GetByName p s t = Some d \<longrightarrow> GetByName p s t' = Some d))"
proof (cases "GetByName (rrClientProxyName req) (rrStreamId req) t")
  case None
  have inv: "table_wf t \<and> ids_bounded t" and seq: "stSeq t = word_of_nat n" "stSeq t \<noteq> - 1"
    using table_run_inv [OF assms(1)] of_nat_u32_neq [OF assms(2)] assms(2) by simp_all
  obtain e t' where a: "Assign now c req t = (Inr (stSeq t + 1), t')"
    "Get (stSeq t + 1) t' = Some e" "seClient e = c"
    "GetByName (rrClientProxyName req) (rrStreamId req) t' = Some e"
    "\<forall>p s d. GetByName p s t = Some d \<longrightarrow> GetByName p s t' = Some d"
    using tbl.assign_by_name [OF inv seq(2) None, of now c] Assign_result(1) by metis
  moreover have "\<forall>j. j \<noteq> stSeq t + 1 \<longrightarrow> Get j t' = Get j t"
    using Assign_new_get [OF None, of now c] a(1) by auto
  moreover have "Get (stSeq t + 1) t = None" using seq_fresh inv seq(2) by (simp add: Get_def)
  moreover have "stSeq t + 1 = word_of_nat (n + 1)" by (simp add: seq(1))
  ultimately show ?thesis using None by auto
next
  case (Some d)
  then show ?thesis by (simp add: GetByName_def Assign_def Let_def)
qed

theorem assign_fresh_witness:
  "\<exists>e t'. Assign 6 2 \<lparr>rrClientProxyName = ''home'', rrStreamId = ''web''\<rparr> demo_table = (Inr 2, t')
     \<and> GetByName ''home'' ''web'' t' = Some e \<and> seClient e = 2"
proof -
  have "GetByName ''home'' ''web'' demo_table = None"
    by (simp add: demo_table_def Assign_def NewStreamTable_def Let_def GetByName_def streamKey_def)
  with assign_fresh [OF demo_table_run, where now = 6 and c = 2
      and req = "\<lparr>rrClientProxyName = ''home'', rrStreamId = ''web''\<rparr>"]
  show ?thesis by auto
qed

text \<open>
  When a control session disconnects, \<^verbatim>\<open>RemoveByClient\<close> removes exactly its streams: none
  is left under its id or its name, every other session's stream is found as before, and
  the returned count is the number of streams removed.
\<close>

theorem disconnect_removes_streams:
  assumes "table_run n t" "n < 2 ^ 32" "RemoveByClient c t = (t', k)"
  shows "Get i t' = (case Get i t of Some e \<Rightarrow> if seClient e = c then None else Some e | None \<Rightarrow> None)
     \<and> GetByName p s t' =
           (case GetByName p s t of Some e \<Rightarrow> if seClient e = c then None else Some e | None \<Rightarrow> None)
     \<and> k = card {i. \<exists>e. Get i t = Some e \<and> seClient e = c}"
proof (intro conjI)
  have inv: "table_wf t \<and> ids_bounded t" using table_run_inv [OF assms(1,2)] by simp
  have t': "t' = fst (RemoveByClient c t)" using assms(3) by simp
  show "Get i t' = (case Get i t of Some e \<Rightarrow> if seClient e = c then None else Some e | None \<Rightarrow> None)"
    unfolding t' by (rule tbl.drop_get [OF inv])
  show "GetByName p s t' =
           (case GetByName p s t of Some e \<Rightarrow> if seClient e = c then None else Some e | None \<Rightarrow> None)"
    unfolding t' by (rule tbl.drop_by_name [OF inv])
  let ?es = "filter (\<lambda>(i, e). seClient e = c) (byID t)"
  have dist: "distinct (map fst (byID t))" using inv table_wfD(1) by blast
  then have mem: "Get i t = Some e \<longleftrightarrow> (i, e) \<in> set (byID t)" for i e
    by (simp add: Get_def map_of_eq_Some_iff)
  have "{i. \<exists>e. Get i t = Some e \<and> seClient e = c} = set (map fst ?es)"
    unfolding mem by force
  moreover have "card (set (map fst ?es)) = length ?es"
    using distinct_card [of "map fst ?es"] dist by (simp add: distinct_map_filter)
  moreover have "k = length ?es" using RemoveByClient_spec(5) [of t c] inv assms(3) by simp
  ultimately show "k = card {i. \<exists>e. Get i t = Some e \<and> seClient e = c}" by simp
qed

theorem disconnect_removes_streams_witness:
  "\<exists>t'. RemoveByClient 1 demo_table = (t', 1) \<and> GetByName ''home'' ''ssh'' t' = None"
proof -
  obtain t' k where r: "RemoveByClient 1 demo_table = (t', k)" by force
  then have "k = 1"
    by (auto simp: RemoveByClient_def demo_table_def Assign_def NewStreamTable_def Let_def)
  moreover have "GetByName ''home'' ''ssh'' t' = None"
    using disconnect_removes_streams [OF demo_table_run _ r, where p = "''home''" and s = "''ssh''"]
    by (simp add: demo_table_def Assign_def NewStreamTable_def Let_def GetByName_def)
  ultimately show ?thesis using r by simp
qed

text \<open>
  Two different registrations can have the same key: the separator may occur in a name, so
  the second of these two is refused although neither name nor stream id is in use.
\<close>

lemma stream_key_collision:
  assumes "Assign n1 c1 \<lparr>rrClientProxyName = ''a/b'', rrStreamId = ''c''\<rparr> NewStreamTable = (r, t)"
  shows "\<exists>msg. Assign n2 c2 \<lparr>rrClientProxyName = ''a'', rrStreamId = ''b/c''\<rparr> t = (Inl msg, t)"
  using assms by (auto simp: Assign_def NewStreamTable_def Let_def streamKey_def)

end
