(* ===== verification/Window.thy ===== *)
theory Window
  imports StarMessage
begin

text \<open>
  The per-connection send window, \<^verbatim>\<open>protocol/star/window.go\<close>. \<^verbatim>\<open>Acquire\<close> loops over a
  section under the mutex (\<open>acquire_turn\<close>) and a wait on a fresh channel; \<^verbatim>\<open>Release\<close> and
  \<^verbatim>\<open>Close\<close> are one section each and then signal the channels they took from \<^verbatim>\<open>notify\<close>. The
  relation \<open>wstep\<close> interleaves any number of callers: its steps are the sections, the
  wake-ups and the cancellations of a context. Channels are numbered in the order they are
  made. The \<^verbatim>\<open>int64\<close> counter is an \<open>int\<close>; \<open>window_limit\<close> gives the range it stays in.
\<close>

section \<open>State and operations\<close>

type_synonym chan_id = nat

record Window =
  outstanding :: int
  wLimit :: int
  wClosed :: bool
  notify :: "chan_id list"

definition DefaultStreamWindow :: int where "DefaultStreamWindow = 262144"

definition NewWindow :: "int \<Rightarrow> Window" where
  "NewWindow limit = \<lparr>outstanding = 0, wLimit = limit, wClosed = False, notify = []\<rparr>"

text \<open>\<^verbatim>\<open>Close\<close> and \<^verbatim>\<open>Release\<close> return the channels to signal.\<close>

definition Window_Close :: "Window \<Rightarrow> Window \<times> chan_id list" where
  "Window_Close w = (w\<lparr>wClosed := True, notify := []\<rparr>, notify w)"

definition min64 :: "int \<Rightarrow> int \<Rightarrow> int" where
  "min64 a b = (if a < b then a else b)"

datatype turn = TurnClosed | TurnDone | TurnMore int | TurnWait

definition acquire_turn :: "int \<Rightarrow> chan_id \<Rightarrow> Window \<Rightarrow> turn \<times> Window" where
  "acquire_turn n ch w =
     (if wClosed w then (TurnClosed, w)
      else if outstanding w + min64 n (wLimit w) \<le> wLimit w then
        (let tk = min64 n (wLimit w); w' = w\<lparr>outstanding := outstanding w + tk\<rparr> in
         if n - tk \<le> 0 then (TurnDone, w') else (TurnMore (n - tk), w'))
      else (TurnWait, w\<lparr>notify := notify w @ [ch]\<rparr>))"

definition Release :: "int \<Rightarrow> Window \<Rightarrow> Window \<times> chan_id list" where
  "Release n w = (w\<lparr>outstanding := outstanding w - n, notify := []\<rparr>, notify w)"

text \<open>
  One caller alone, from a window state in which it never has to wait: the loop of
  \<^verbatim>\<open>Acquire\<close> with a bound on its turns. \<open>None\<close> is a call that is still waiting or looping.
\<close>

fun acquire_alone :: "nat \<Rightarrow> int \<Rightarrow> Window \<Rightarrow> (bool \<times> Window) option" where
  "acquire_alone 0 n w = None"
| "acquire_alone (Suc f) n w =
     (case acquire_turn n 0 w of
        (TurnClosed, w') \<Rightarrow> Some (False, w')
      | (TurnDone, w') \<Rightarrow> Some (True, w')
      | (TurnMore n', w') \<Rightarrow> acquire_alone f n' w'
      | (TurnWait, w') \<Rightarrow> None)"

section \<open>Concurrent callers\<close>

type_synonym pid = nat

text \<open>
  A caller is outside, about to enter the locked section (with its total and the bytes left to
  go), blocked on its channel, or has returned (\<open>True\<close>: nil, \<open>False\<close>: an error).
\<close>

datatype pstate =
    Outside
  | Entering int int
  | Blocked chan_id int int
  | Returned bool int

record wsys =
  win :: Window
  next_chan :: nat
  signalled :: "chan_id set"
  procs :: "pid \<Rightarrow> pstate"
  got :: "pid \<Rightarrow> int"
  sum_acquired :: int
  sum_released :: int

definition winit :: "int \<Rightarrow> wsys" where
  "winit limit = \<lparr>win = NewWindow limit, next_chan = 0, signalled = {}, procs = (\<lambda>_. Outside),
     got = (\<lambda>_. 0), sum_acquired = 0, sum_released = 0\<rparr>"

inductive wstep :: "wsys \<Rightarrow> wsys \<Rightarrow> bool" where
  call: "procs s p = Outside \<or> (\<exists>b N. procs s p = Returned b N) \<Longrightarrow> 0 \<le> n \<Longrightarrow>
     wstep s (s\<lparr>procs := (procs s)(p := Entering n n), got := (got s)(p := 0)\<rparr>)"
| fail: "procs s p = Entering N n \<Longrightarrow> acquire_turn n ch (win s) = (TurnClosed, w) \<Longrightarrow>
     wstep s (s\<lparr>win := w, procs := (procs s)(p := Returned False N)\<rparr>)"
| finish: "procs s p = Entering N n \<Longrightarrow> acquire_turn n ch (win s) = (TurnDone, w) \<Longrightarrow>
     wstep s (s\<lparr>win := w, procs := (procs s)(p := Returned True N),
                got := (got s)(p := got s p + (outstanding w - outstanding (win s))),
                sum_acquired := sum_acquired s + (outstanding w - outstanding (win s))\<rparr>)"
| again: "procs s p = Entering N n \<Longrightarrow> acquire_turn n ch (win s) = (TurnMore m, w) \<Longrightarrow>
     wstep s (s\<lparr>win := w, procs := (procs s)(p := Entering N m),
                got := (got s)(p := got s p + (outstanding w - outstanding (win s))),
                sum_acquired := sum_acquired s + (outstanding w - outstanding (win s))\<rparr>)"
| block: "procs s p = Entering N n \<Longrightarrow> acquire_turn n (next_chan s) (win s) = (TurnWait, w) \<Longrightarrow>
     wstep s (s\<lparr>win := w, next_chan := next_chan s + 1, procs := (procs s)(p := Blocked (next_chan s) N n)\<rparr>)"
| wake: "procs s p = Blocked ch N n \<Longrightarrow> ch \<in> signalled s \<Longrightarrow>
     wstep s (s\<lparr>signalled := signalled s - {ch}, procs := (procs s)(p := Entering N n)\<rparr>)"
| cancel: "procs s p = Blocked ch N n \<Longrightarrow>
     wstep s (s\<lparr>procs := (procs s)(p := Returned False N)\<rparr>)"
| release: "0 \<le> k \<Longrightarrow> Release k (win s) = (w, chs) \<Longrightarrow>
     wstep s (s\<lparr>win := w, signalled := signalled s \<union> set chs, sum_released := sum_released s + k\<rparr>)"
| close: "Window_Close (win s) = (w, chs) \<Longrightarrow>
     wstep s (s\<lparr>win := w, signalled := signalled s \<union> set chs\<rparr>)"

inductive wreach :: "int \<Rightarrow> wsys \<Rightarrow> bool" for limit :: int where
  init: "wreach limit (winit limit)"
| step: "wreach limit s \<Longrightarrow> wstep s s' \<Longrightarrow> wreach limit s'"

section \<open>Invariants\<close>

text \<open>
  The window: conservation of bytes, the limit, and the channels: those waiting in
  \<^verbatim>\<open>notify\<close> are distinct, older than the next one, and not yet signalled, so the send that
  signals one never blocks on its buffer of one.
\<close>

definition win_inv :: "int \<Rightarrow> wsys \<Rightarrow> bool" where
  "win_inv limit s \<longleftrightarrow>
     wLimit (win s) = limit
     \<and> outstanding (win s) = sum_acquired s - sum_released s
     \<and> outstanding (win s) \<le> limit \<and> 0 \<le> sum_acquired s \<and> 0 \<le> sum_released s
     \<and> distinct (notify (win s)) \<and> set (notify (win s)) \<inter> signalled s = {}
     \<and> (\<forall>ch \<in> set (notify (win s)) \<union> signalled s. ch < next_chan s)"

text \<open>The callers: what each has taken so far, and why a blocked one is blocked.\<close>

definition proc_inv :: "wsys \<Rightarrow> pid \<Rightarrow> bool" where
  "proc_inv s p =
     (case procs s p of
        Outside \<Rightarrow> True
      | Entering N n \<Rightarrow> got s p = N - n \<and> 0 \<le> n
      | Blocked ch N n \<Rightarrow>
          got s p = N - n \<and> 0 \<le> n \<and> ch < next_chan s
          \<and> (ch \<in> signalled s \<or>
             ch \<in> set (notify (win s)) \<and> \<not> wClosed (win s)
             \<and> wLimit (win s) < outstanding (win s) + min64 n (wLimit (win s)))
      | Returned ok N \<Rightarrow> ok \<longrightarrow> got s p = N)"

definition chans_apart :: "wsys \<Rightarrow> bool" where
  "chans_apart s \<longleftrightarrow>
     (\<forall>p q ch N n M m. procs s p = Blocked ch N n \<longrightarrow> procs s q = Blocked ch M m \<longrightarrow> p = q)"

lemma acquire_turn_cases:
  assumes "acquire_turn n ch w = (r, w')"
  obtains (closed) "r = TurnClosed" "w' = w" "wClosed w"
    | (fin) "r = TurnDone" "\<not> wClosed w" "w' = w\<lparr>outstanding := outstanding w + min64 n (wLimit w)\<rparr>"
        "outstanding w' \<le> wLimit w" "n \<le> min64 n (wLimit w)"
    | (more) "r = TurnMore (n - min64 n (wLimit w))" "\<not> wClosed w"
        "w' = w\<lparr>outstanding := outstanding w + min64 n (wLimit w)\<rparr>"
        "outstanding w' \<le> wLimit w" "min64 n (wLimit w) < n"
    | (wait) "r = TurnWait" "\<not> wClosed w" "w' = w\<lparr>notify := notify w @ [ch]\<rparr>"
        "wLimit w < outstanding w + min64 n (wLimit w)"
  using assms that by (auto simp: acquire_turn_def Let_def split: if_splits)

lemma min64_bounds: "0 \<le> n \<Longrightarrow> 0 \<le> b \<Longrightarrow> 0 \<le> min64 n b" "min64 n b \<le> n" "min64 n b \<le> b"
  by (auto simp: min64_def)

lemma win_inv_step:
  assumes "wstep s s'" "win_inv limit s" "\<And>p. proc_inv s p" "0 \<le> limit"
  shows "win_inv limit s'"
  using assms
proof (induction rule: wstep.induct)
  case (finish s p N n ch w)
  then have "0 \<le> n" by (auto simp: proc_inv_def dest: meta_spec [of _ p])
  with finish show ?case
    by (auto elim!: acquire_turn_cases simp: win_inv_def min64_bounds)
next
  case (again s p N n ch m w)
  then have "0 \<le> n" by (auto simp: proc_inv_def dest: meta_spec [of _ p])
  with again show ?case
    by (auto elim!: acquire_turn_cases simp: win_inv_def min64_bounds)
next
  case (block s p N n w)
  then show ?case by (auto elim!: acquire_turn_cases simp: win_inv_def intro: less_SucI)
qed (auto elim!: acquire_turn_cases simp: win_inv_def Release_def Window_Close_def)

lemma chans_apart_step:
  assumes "wstep s s'" "chans_apart s" "\<And>p. proc_inv s p"
  shows "chans_apart s'"
  using assms
proof (induction rule: wstep.induct)
  case (block s p N n w)
  have "procs s q = Blocked ch M m \<Longrightarrow> ch < next_chan s" for q ch M m
    using block.prems(2) [of q] by (simp add: proc_inv_def)
  with block show ?case by (fastforce simp: chans_apart_def)
qed (auto simp: chans_apart_def split: if_splits)

lemma proc_inv_step:
  assumes "wstep s s'" "win_inv limit s" "\<And>p. proc_inv s p" "chans_apart s" "0 \<le> limit"
  shows "proc_inv s' q"
  using assms
proof (induction rule: wstep.induct)
  case (call s p n)
  then show ?case by (auto simp: proc_inv_def split: pstate.splits dest: meta_spec [of _ q])
next
  case (fail s p N n ch w)
  then show ?case
    by (auto elim!: acquire_turn_cases simp: proc_inv_def split: pstate.splits dest: meta_spec [of _ q])
next
  case (finish s p N n ch w)
  then have n: "0 \<le> n" "got s p = N - n" by (auto simp: proc_inv_def dest: meta_spec [of _ p])
  then have "0 \<le> min64 n (wLimit (win s))"
    using finish.prems by (simp add: win_inv_def min64_bounds)
  with finish n min64_bounds(2) [of n "wLimit (win s)"] show ?case
    by (auto elim!: acquire_turn_cases simp: proc_inv_def split: pstate.splits dest!: meta_spec [of _ q])
next
  case (again s p N n ch m w)
  then have n: "0 \<le> n" "got s p = N - n" by (auto simp: proc_inv_def dest: meta_spec [of _ p])
  then have "0 \<le> min64 n (wLimit (win s))"
    using again.prems by (simp add: win_inv_def min64_bounds)
  with again n show ?case
    by (auto elim!: acquire_turn_cases simp: proc_inv_def split: pstate.splits dest!: meta_spec [of _ q])
next
  case (block s p N n w)
  then have n: "0 \<le> n" "got s p = N - n" by (auto simp: proc_inv_def dest: meta_spec [of _ p])
  with block show ?case
    by (auto elim!: acquire_turn_cases simp: proc_inv_def split: pstate.splits dest!: meta_spec [of _ q])
next
  case (wake s p ch N n)
  then have n: "0 \<le> n" "got s p = N - n" by (auto simp: proc_inv_def dest: meta_spec [of _ p])
  have "procs s q = Blocked c M m \<Longrightarrow> q \<noteq> p \<Longrightarrow> c \<noteq> ch" for c M m
    using wake by (auto simp: chans_apart_def)
  with wake n show ?case
    by (auto simp: proc_inv_def split: pstate.splits dest!: meta_spec [of _ q])
next
  case (cancel s p ch N n)
  then show ?case by (auto simp: proc_inv_def split: pstate.splits dest!: meta_spec [of _ q])
next
  case (release k s w chs)
  then show ?case
    by (auto simp: proc_inv_def Release_def split: pstate.splits dest!: meta_spec [of _ q])
next
  case (close s w chs)
  then show ?case
    by (auto simp: proc_inv_def Window_Close_def split: pstate.splits dest!: meta_spec [of _ q])
qed

lemma wreach_inv:
  assumes "wreach limit s" "0 \<le> limit"
  shows "win_inv limit s \<and> chans_apart s \<and> (\<forall>p. proc_inv s p)"
  using assms
proof (induction rule: wreach.induct)
  case init
  then show ?case by (simp add: winit_def win_inv_def chans_apart_def proc_inv_def NewWindow_def)
next
  case (step s s')
  then have IH: "win_inv limit s" "chans_apart s" "\<And>p. proc_inv s p" by simp_all
  show ?case
    using win_inv_step [OF step.hyps(2) IH(1,3) step.prems] chans_apart_step [OF step.hyps(2) IH(2,3)]
      proc_inv_step [OF step.hyps(2) IH(1,3,2) step.prems] by simp
qed

lemma acquire_alone_credit:
  assumes "0 < wLimit w" "0 \<le> n" "\<not> wClosed w" "outstanding w + n \<le> wLimit w" "nat (n div wLimit w) < f"
  shows "acquire_alone f n w = Some (True, w\<lparr>outstanding := outstanding w + n\<rparr>)"
  using assms
proof (induction f arbitrary: n w)
  case 0
  then show ?case by simp
next
  case (Suc f)
  show ?case
  proof (cases "n \<le> wLimit w")
    case True
    then have "min64 n (wLimit w) = n" by (simp add: min64_def)
    with Suc.prems show ?thesis by (simp add: acquire_turn_def Let_def)
  next
    case False
    then have m: "min64 n (wLimit w) = wLimit w" by (simp add: min64_def)
    let ?w = "w\<lparr>outstanding := outstanding w + wLimit w\<rparr>"
    have "n div wLimit w = (n - wLimit w) div wLimit w + 1"
      using div_add_self2 [of "wLimit w" "n - wLimit w"] Suc.prems(1) by simp
    moreover have "0 \<le> (n - wLimit w) div wLimit w"
      using Suc.prems(1) False by (simp add: pos_imp_zdiv_nonneg_iff)
    ultimately have "nat ((n - wLimit w) div wLimit w) < f" using Suc.prems(5) by simp
    then have "acquire_alone f (n - wLimit w) ?w
         = Some (True, ?w\<lparr>outstanding := outstanding ?w + (n - wLimit w)\<rparr>)"
      using Suc.prems False by (intro Suc.IH) simp_all
    moreover have "acquire_turn n 0 w = (TurnMore (n - wLimit w), ?w)"
      using Suc.prems False m by (simp add: acquire_turn_def Let_def)
    ultimately show ?thesis by simp
  qed
qed

section \<open>Properties\<close>


text \<open>
  C24: No wake-up is lost. Whenever the window is closed or has room for what a blocked
  \<^verbatim>\<open>Acquire\<close> wants next, its channel has already been signalled, so the caller can go on:
  it is never left waiting for a signal that will not come.
\<close>

theorem window_no_lost_wakeup:
  assumes "wreach limit s" "0 \<le> limit" "procs s p = Blocked ch N n"
    and "wClosed (win s) \<or> outstanding (win s) + min64 n limit \<le> limit"
  shows "ch \<in> signalled s \<and> (\<exists>s'. wstep s s' \<and> procs s' p = Entering N n)"
proof -
  have "win_inv limit s" "proc_inv s p" using wreach_inv [OF assms(1,2)] by simp_all
  with assms(3,4) have "ch \<in> signalled s" by (auto simp: proc_inv_def win_inv_def)
  moreover from this have "wstep s (s\<lparr>signalled := signalled s - {ch}, procs := (procs s)(p := Entering N n)\<rparr>)"
    by (rule wake [OF assms(3)])
  moreover have "procs (s\<lparr>signalled := signalled s - {ch}, procs := (procs s)(p := Entering N n)\<rparr>) p = Entering N n"
    by simp
  ultimately show ?thesis by blast
qed

text \<open>The example of both witnesses: a full window of 4, a second caller that waits, a release.\<close>

definition demo_blocked :: wsys where
  "demo_blocked = \<lparr>win = \<lparr>outstanding = 4, wLimit = 4, wClosed = False, notify = [0]\<rparr>, next_chan = 1,
     signalled = {}, procs = (\<lambda>_. Outside)(0 := Returned True 4, 1 := Blocked 0 3 3),
     got = (\<lambda>_. 0)(0 := 4, 1 := 0), sum_acquired = 4, sum_released = 0\<rparr>"

definition demo_released :: wsys where
  "demo_released = demo_blocked\<lparr>win := \<lparr>outstanding = 0, wLimit = 4, wClosed = False, notify = []\<rparr>,
     signalled := {0}, sum_released := 4\<rparr>"

lemma demo_blocked_reach: "wreach 4 demo_blocked"
proof -
  let ?s1 = "(winit 4)\<lparr>procs := (\<lambda>_. Outside)(0 := Entering 4 4), got := (\<lambda>_. 0)(0 := 0)\<rparr>"
  let ?w4 = "\<lparr>outstanding = 4, wLimit = 4, wClosed = False, notify = []\<rparr>"
  let ?s2 = "?s1\<lparr>win := ?w4, procs := (\<lambda>_. Outside)(0 := Returned True 4), got := (\<lambda>_. 0)(0 := 4),
     sum_acquired := 4\<rparr>"
  let ?s3 = "?s2\<lparr>procs := (\<lambda>_. Outside)(0 := Returned True 4, 1 := Entering 3 3), got := (\<lambda>_. 0)(0 := 4, 1 := 0)\<rparr>"
  have "wreach 4 ?s1"
    using wreach.step [OF wreach.init call [of "winit 4" 0 4]] by (simp add: winit_def)
  moreover have "wstep ?s1 ?s2"
    using finish [of ?s1 0 4 4 0 ?w4] by (simp add: acquire_turn_def min64_def winit_def NewWindow_def Let_def)
  ultimately have "wreach 4 ?s2" by (rule wreach.step)
  moreover have "wstep ?s2 ?s3" using call [of ?s2 1 3] by (simp add: winit_def)
  ultimately have "wreach 4 ?s3" by (rule wreach.step)
  moreover have "wstep ?s3 demo_blocked"
    using block [of ?s3 1 3 3 "?w4\<lparr>notify := [0]\<rparr>"]
    by (simp add: acquire_turn_def min64_def winit_def demo_blocked_def Let_def fun_upd_twist)
  ultimately show ?thesis by (rule wreach.step)
qed

lemma demo_released_reach: "wreach 4 demo_released"
proof -
  have "wstep demo_blocked demo_released"
    using release [of 4 demo_blocked "\<lparr>outstanding = 0, wLimit = 4, wClosed = False, notify = []\<rparr>" "[0]"]
    by (simp add: demo_blocked_def demo_released_def Release_def)
  with demo_blocked_reach show ?thesis by (rule wreach.step)
qed


theorem window_no_lost_wakeup_witness:
  "\<exists>s'. wstep demo_released s' \<and> procs s' 1 = Entering 3 3"
  using window_no_lost_wakeup [OF demo_released_reach, of 1 0 3 3]
  by (simp add: demo_released_def demo_blocked_def min64_def)

text \<open>
  C12: \<^verbatim>\<open>Acquire\<close> terminates. When the credit covers the request (even one larger than the
  window, taken in parts), the loop ends after at most \<open>n div limit + 1\<close> turns, returns nil
  and has taken exactly \<open>n\<close> bytes.
\<close>

theorem acquire_terminates:
  assumes "0 < wLimit w" "0 \<le> n" "\<not> wClosed w" "outstanding w + n \<le> wLimit w"
  shows "acquire_alone (nat (n div wLimit w) + 1) n w = Some (True, w\<lparr>outstanding := outstanding w + n\<rparr>)"
  using assms by (intro acquire_alone_credit) simp_all

theorem acquire_terminates_witness:
  "acquire_alone 3 10 \<lparr>outstanding = - 8, wLimit = 4, wClosed = False, notify = []\<rparr>
     = Some (True, \<lparr>outstanding = 2, wLimit = 4, wClosed = False, notify = []\<rparr>)"
  using acquire_terminates [of "\<lparr>outstanding = - 8, wLimit = 4, wClosed = False, notify = []\<rparr>" 10]
  by (simp add: numeral_3_eq_3 del: acquire_alone.simps)

end
