(* ===== verification/StreamAdapter.thy ===== *)
theory StreamAdapter
  imports StarSession "HOL-Library.AList"
begin

text \<open>
  Stream connections and their hub, \<^verbatim>\<open>protocol/star/adapter.go\<close>. A \<^verbatim>\<open>StreamConn\<close> turns the data
  and close frames of one connection id into a byte stream: the read loop delivers frames
  into a bounded queue, \<^verbatim>\<open>Read\<close> drains it. A \<^verbatim>\<open>select\<close> with several ready cases is resolved by
  an argument, and a call that blocks is a result of its own. Connections and ack channels
  are shared by reference, so the hub keeps them in two heaps.
\<close>

section \<open>Stream connections\<close>

definition streamFeedCap :: nat where "streamFeedCap = 32"
definition writeChunk :: nat where "writeChunk = 65536"

record feedItem =
  fiData :: bytes
  fiHalf :: bool
  fiFull :: bool

record StreamConn =
  scConnID :: u32
  scFeed :: "feedItem list"
  scClosed :: bool
  scClosedErr :: "ioerr option"
  scReadEOF :: bool
  scWriteHalf :: bool
  scPending :: bytes

definition newStreamConn :: "u32 \<Rightarrow> StreamConn" where
  "newStreamConn connID = \<lparr>scConnID = connID, scFeed = [], scClosed = False, scClosedErr = None,
     scReadEOF = False, scWriteHalf = False, scPending = []\<rparr>"

datatype read_result =
    RGot bytes
  | RErr ioerr
  | RBlock

text \<open>
  \<^verbatim>\<open>Read\<close> with a buffer of \<open>n\<close> bytes, once nothing is pending: \<open>recv\<close> takes the next queued frame
  (also after a local close, which first drains the queue), empty frames are skipped, a
  close frame ends the read direction.
\<close>

fun read_feed :: "nat \<Rightarrow> feedItem list \<Rightarrow> StreamConn \<Rightarrow> read_result \<times> StreamConn" where
  "read_feed n [] sc =
     (if scClosed sc
      then (case scClosedErr sc of Some e \<Rightarrow> RErr e | None \<Rightarrow> RGot [], sc\<lparr>scFeed := []\<rparr>)
      else (RBlock, sc\<lparr>scFeed := []\<rparr>))"
| "read_feed n (it # q) sc =
     (if fiFull it \<or> fiHalf it then (RErr EOF, sc\<lparr>scFeed := q, scReadEOF := True\<rparr>)
      else if fiData it = [] then read_feed n q sc
      else (RGot (take n (fiData it)), sc\<lparr>scFeed := q, scPending := drop n (fiData it)\<rparr>))"

definition StreamConn_Read :: "nat \<Rightarrow> StreamConn \<Rightarrow> read_result \<times> StreamConn" where
  "StreamConn_Read n sc =
     (if scReadEOF sc then (RErr EOF, sc)
      else if scPending sc \<noteq> [] then (RGot (take n (scPending sc)), sc\<lparr>scPending := drop n (scPending sc)\<rparr>)
      else read_feed n (scFeed sc) sc)"

text \<open>The loop of \<^verbatim>\<open>Write\<close> from offset \<open>off\<close>: the bytes written and the error, if any.\<close>

function write_loop :: "u32 \<Rightarrow> bytes \<Rightarrow> nat \<Rightarrow> Session \<Rightarrow> (nat \<times> msgerr option) \<times> Session" where
  "write_loop connID p off s =
     (if off < length p then
        (case Send s (mk_msg MsgData connID (take writeChunk (drop off p))) of
           (Inl e, s') \<Rightarrow> ((off, Some e), s')
         | (Inr _, s') \<Rightarrow> write_loop connID p (off + writeChunk) s')
      else ((length p, None), s))"
  by pat_completeness auto
termination
  by (relation "measure (\<lambda>(_, p, off, _). length p - off)") (auto simp: writeChunk_def)

declare write_loop.simps [simp del]

definition StreamConn_Write :: "StreamConn \<Rightarrow> bytes \<Rightarrow> Session \<Rightarrow> (nat \<times> msgerr option) \<times> Session" where
  "StreamConn_Write sc p s =
     (if scClosed sc then ((0, Some (MsgIO ErrClosed)), s) else write_loop (scConnID sc) p 0 s)"

definition CloseWrite :: "StreamConn \<Rightarrow> Session \<Rightarrow> (msgerr + unit) \<times> StreamConn \<times> Session" where
  "CloseWrite sc s =
     (if scWriteHalf sc then (Inr (), sc, s)
      else let (r, s') = Send s (HalfClose (scConnID sc)) in (r, sc\<lparr>scWriteHalf := True\<rparr>, s'))"

definition markClosed :: "ioerr \<Rightarrow> StreamConn \<Rightarrow> StreamConn" where
  "markClosed err sc = (if scClosed sc then sc else sc\<lparr>scClosed := True, scClosedErr := Some err\<rparr>)"

definition StreamConn_Close :: "StreamConn \<Rightarrow> Session \<Rightarrow> (msgerr + unit) \<times> StreamConn \<times> Session" where
  "StreamConn_Close sc s =
     (let sc' = markClosed ErrClosed sc; (r, s') = Send s (mk_msg MsgStreamClose (scConnID sc) []) in
      (r, sc', s'))"

text \<open>
  \<^verbatim>\<open>deliver\<close>: \<open>None\<close> when it blocks (queue full, connection open). When the queue has room and
  the connection is closed both cases are ready and \<open>lose\<close> says which one is taken.
\<close>

definition deliver :: "bool \<Rightarrow> feedItem \<Rightarrow> StreamConn \<Rightarrow> StreamConn option" where
  "deliver lose it sc =
     (if length (scFeed sc) < streamFeedCap \<and> \<not> (scClosed sc \<and> lose)
      then Some (sc\<lparr>scFeed := scFeed sc @ [it]\<rparr>)
      else if scClosed sc then Some sc
      else None)"

definition data_item :: "bytes \<Rightarrow> feedItem" where
  "data_item d = \<lparr>fiData = d, fiHalf = False, fiFull = False\<rparr>"

definition close_item :: "Message \<Rightarrow> feedItem" where
  "close_item m = \<lparr>fiData = [], fiHalf = IsHalfClose m, fiFull = \<not> IsHalfClose m\<rparr>"

section \<open>The hub\<close>

type_synonym ref = nat

record StreamHub =
  hConns :: "(u32 \<times> ref) list"
  hAcks :: "(u32 \<times> ref) list"
  hConnSeq :: u32
  hDead :: bool
  hOnRemove :: bool
  hRemoved :: "u32 list"
  hConnHeap :: "StreamConn list"
  hAckHeap :: "ConnOpenAck option list"

text \<open>\<open>hOnRemove\<close> says that a callback is set, \<open>hRemoved\<close> lists the ids it was called with.\<close>

definition NewStreamHub :: "bool \<Rightarrow> StreamHub" where
  "NewStreamHub cb = \<lparr>hConns = [], hAcks = [], hConnSeq = 0, hDead = False, hOnRemove = cb,
     hRemoved = [], hConnHeap = [], hAckHeap = []\<rparr>"

definition NewStreamConn :: "u32 \<Rightarrow> StreamHub \<Rightarrow> ref option \<times> StreamHub" where
  "NewStreamConn connID h =
     (if hDead h then (None, h)
      else (Some (length (hConnHeap h)),
            h\<lparr>hConnHeap := hConnHeap h @ [newStreamConn connID],
              hConns := AList.update connID (length (hConnHeap h)) (hConns h)\<rparr>))"

definition hub_remove :: "u32 \<Rightarrow> StreamHub \<Rightarrow> StreamHub" where
  "hub_remove connID h =
     (let h' = h\<lparr>hConns := AList.delete connID (hConns h), hAcks := AList.delete connID (hAcks h)\<rparr> in
      if map_of (hConns h) connID \<noteq> None \<and> hOnRemove h
      then h'\<lparr>hRemoved := hRemoved h @ [connID]\<rparr> else h')"

text \<open>
  \<^verbatim>\<open>OpenStream\<close> up to its wait: register the connection and the ack channel under the next
  id, then send the request. The second part takes what the wait ended with: an
  acknowledgement, or \<open>None\<close> for the timeout or cancellation.
\<close>

datatype openerr = HubClosed | OpenSend msgerr | OpenRejected string | OpenTimeout

definition OpenStream_send ::
    "u32 \<Rightarrow> StreamHub \<Rightarrow> Session \<Rightarrow> (openerr + u32 \<times> ref \<times> ref) \<times> StreamHub \<times> Session" where
  "OpenStream_send streamID h s =
     (if hDead h then (Inl HubClosed, h, s)
      else let connID = hConnSeq h + 1; r = length (hConnHeap h); a = length (hAckHeap h);
               h1 = h\<lparr>hConnSeq := connID,
                      hAckHeap := hAckHeap h @ [None], hAcks := AList.update connID a (hAcks h),
                      hConnHeap := hConnHeap h @ [newStreamConn connID],
                      hConns := AList.update connID r (hConns h)\<rparr> in
        case SendControl s MsgConnOpen (ConnOpenReq_json \<lparr>orStreamID = streamID, orConnID = connID\<rparr>) of
          (Inl e, s') \<Rightarrow> (Inl (OpenSend e), hub_remove connID h1, s')
        | (Inr _, s') \<Rightarrow> (Inr (connID, r, a), h1, s'))"

definition OpenStream_wait ::
    "u32 \<Rightarrow> ref \<Rightarrow> ConnOpenAck option \<Rightarrow> StreamHub \<Rightarrow> (openerr + ref) \<times> StreamHub" where
  "OpenStream_wait connID r ack h =
     (case ack of
        Some k \<Rightarrow> if oaOK k then (Inr r, h) else (Inl (OpenRejected (oaMessage k)), hub_remove connID h)
      | None \<Rightarrow> (Inl OpenTimeout, hub_remove connID h))"

definition hub_deliver :: "bool \<Rightarrow> feedItem \<Rightarrow> ref \<Rightarrow> StreamHub \<Rightarrow> StreamHub option" where
  "hub_deliver lose it r h =
     map_option (\<lambda>sc. h\<lparr>hConnHeap := (hConnHeap h)[r := sc]\<rparr>) (deliver lose it (hConnHeap h ! r))"

text \<open>\<^verbatim>\<open>Feed\<close>: whether the frame was consumed and the new hub, \<open>None\<close> when delivery blocks.\<close>

definition Feed :: "bool \<Rightarrow> Message \<Rightarrow> StreamHub \<Rightarrow> (bool \<times> StreamHub) option" where
  "Feed lose msg h =
     (if mType msg = MsgData then
        (case map_of (hConns h) (mStreamID msg) of
           Some r \<Rightarrow> map_option (Pair True) (hub_deliver lose (data_item (mPayload msg)) r h)
         | None \<Rightarrow> Some (False, h))
      else if mType msg = MsgStreamClose then
        (case map_of (hConns h) (mStreamID msg) of
           Some r \<Rightarrow> map_option (Pair True)
                       (hub_deliver lose (close_item msg) r (hub_remove (mStreamID msg) h))
         | None \<Rightarrow> Some (False, h))
      else if mType msg = MsgConnOpenAck then
        (case DecodeControl ConnOpenAck_parse msg of
           Inl e \<Rightarrow> Some (True, h)
         | Inr ack \<Rightarrow>
             (case map_of (hAcks h) (oaConnID ack) of
                Some a \<Rightarrow> Some (True, h\<lparr>hAcks := AList.delete (oaConnID ack) (hAcks h),
                                        hAckHeap := (hAckHeap h)[a := Some ack]\<rparr>)
              | None \<Rightarrow> Some (False, h)))
      else Some (False, h))"

definition session_closed_ack :: ConnOpenAck where
  "session_closed_ack = \<lparr>oaConnID = 0, oaOK = False, oaMessage = ''session closed''\<rparr>"

definition SessionClosed :: "StreamHub \<Rightarrow> StreamHub" where
  "SessionClosed h =
     (if hDead h then h
      else h\<lparr>hDead := True, hConns := [], hAcks := [],
             hConnHeap := fold (\<lambda>r heap. heap[r := markClosed EOF (heap ! r)]) (map snd (hConns h)) (hConnHeap h),
             hAckHeap := fold (\<lambda>a heap. heap[a := Some session_closed_ack]) (map snd (hAcks h)) (hAckHeap h)\<rparr>)"

definition hub_Remove :: "u32 \<Rightarrow> StreamHub \<Rightarrow> StreamHub" where
  "hub_Remove connID h =
     (case map_of (hConns h) connID of
        None \<Rightarrow> h
      | Some r \<Rightarrow> (let h' = hub_remove connID h in
                   h'\<lparr>hConnHeap := (hConnHeap h')[r := markClosed ErrClosed (hConnHeap h' ! r)]\<rparr>))"

section \<open>Byte pipes\<close>

text \<open>
  The contract of a pipe of bytes: what was put in and not yet taken out is its content, a
  put appends, a get removes from the front. A run of puts and gets is evaluated by
  \<open>pipe_run\<close>; it stops at a put that the pipe does not accept.
\<close>

datatype pipe_op = PPut bytes | PGet nat

fun pipe_run :: "(bytes \<Rightarrow> 'c \<Rightarrow> 'c option) \<Rightarrow> (nat \<Rightarrow> 'c \<Rightarrow> bytes \<times> 'c) \<Rightarrow> pipe_op list \<Rightarrow> 'c
    \<Rightarrow> bytes \<times> bytes \<times> 'c" where
  "pipe_run put get [] c = ([], [], c)"
| "pipe_run put get (PPut d # ops) c =
     (case put d c of
        None \<Rightarrow> ([], [], c)
      | Some c' \<Rightarrow> (let (ins, outs, z) = pipe_run put get ops c' in (d @ ins, outs, z)))"
| "pipe_run put get (PGet n # ops) c =
     (let (d, c') = get n c; (ins, outs, z) = pipe_run put get ops c' in (ins, d @ outs, z))"

locale byte_pipe =
  fixes usable :: "'c \<Rightarrow> bool" and content :: "'c \<Rightarrow> bytes"
    and put :: "bytes \<Rightarrow> 'c \<Rightarrow> 'c option" and get :: "nat \<Rightarrow> 'c \<Rightarrow> bytes \<times> 'c"
  assumes put_content: "usable c \<Longrightarrow> put d c = Some c' \<Longrightarrow> usable c' \<and> content c' = content c @ d"
    and get_content: "usable c \<Longrightarrow> get n c = (d, c') \<Longrightarrow> usable c' \<and> content c = d @ content c'"
    and get_progress: "usable c \<Longrightarrow> 0 < n \<Longrightarrow> content c \<noteq> [] \<Longrightarrow> fst (get n c) \<noteq> []"
begin

lemma run_fifo:
  "usable c \<Longrightarrow> pipe_run put get ops c = (ins, outs, z) \<Longrightarrow> usable z \<and> content c @ ins = outs @ content z"
proof (induction ops arbitrary: c ins outs)
  case Nil
  then show ?case by auto
next
  case (Cons op ops)
  show ?case
  proof (cases op)
    case (PPut d)
    show ?thesis
    proof (cases "put d c")
      case None
      with Cons.prems PPut show ?thesis by auto
    next
      case (Some c')
      with Cons.prems PPut obtain ins' where "pipe_run put get ops c' = (ins', outs, z)" "ins = d @ ins'"
        by (auto split: prod.splits)
      with Cons.IH [of c' ins' outs] put_content [OF Cons.prems(1) Some] show ?thesis by simp
    qed
  next
    case (PGet n)
    obtain d c' where g: "get n c = (d, c')" by force
    with Cons.prems PGet obtain outs' where "pipe_run put get ops c' = (ins, outs', z)" "outs = d @ outs'"
      by (auto split: prod.splits)
    with Cons.IH [of c' ins outs'] get_content [OF Cons.prems(1) g] show ?thesis by simp
  qed
qed

lemma drain:
  assumes "usable c" "length (content c) \<le> k"
  shows "\<exists>z. pipe_run put get (replicate k (PGet (Suc m))) c = ([], content c, z) \<and> usable z \<and> content z = []"
  using assms
proof (induction k arbitrary: c)
  case 0
  then show ?case by simp
next
  case (Suc k)
  obtain d c' where g: "get (Suc m) c = (d, c')" by force
  note c' = get_content [OF Suc.prems(1) g]
  have "content c \<noteq> [] \<Longrightarrow> d \<noteq> []" using get_progress [OF Suc.prems(1), of "Suc m"] g by simp
  with c' Suc.prems(2) have "length (content c') \<le> k"
    by (cases "content c = []"; cases d) auto
  with Suc.IH [of c'] c' g show ?case by auto
qed

end

section \<open>A stream connection is a byte pipe\<close>

definition is_close :: "feedItem \<Rightarrow> bool" where
  "is_close it \<longleftrightarrow> fiFull it \<or> fiHalf it"

text \<open>The bytes that reads will still return before the read direction ends.\<close>

definition sc_content :: "StreamConn \<Rightarrow> bytes" where
  "sc_content sc =
     (if scReadEOF sc then []
      else scPending sc @ concat (map fiData (takeWhile (\<lambda>it. \<not> is_close it) (scFeed sc))))"

definition sc_usable :: "StreamConn \<Rightarrow> bool" where
  "sc_usable sc \<longleftrightarrow> \<not> scClosed sc \<and> \<not> scReadEOF sc \<and> list_all (\<lambda>it. \<not> is_close it) (scFeed sc)"

definition sc_put :: "bytes \<Rightarrow> StreamConn \<Rightarrow> StreamConn option" where
  "sc_put d sc = deliver False (data_item d) sc"

definition got_bytes :: "read_result \<Rightarrow> bytes" where
  "got_bytes r = (case r of RGot d \<Rightarrow> d | _ \<Rightarrow> [])"

definition sc_get :: "nat \<Rightarrow> StreamConn \<Rightarrow> bytes \<times> StreamConn" where
  "sc_get n sc = (let (r, sc') = StreamConn_Read n sc in (got_bytes r, sc'))"

lemma data_item_simps [simp]: "fiData (data_item d) = d" "\<not> is_close (data_item d)"
  by (simp_all add: data_item_def is_close_def)

lemma is_close_close_item [simp]: "is_close (close_item m)"
  by (simp add: close_item_def is_close_def)

text \<open>What a read from the queue does, for any queue.\<close>

lemma read_feed_spec:
  assumes "read_feed n q sc = (r, sc')" "scPending sc = []"
  shows "sc_content (sc\<lparr>scFeed := q\<rparr>) = got_bytes r @ sc_content sc' \<or> scReadEOF sc"
    and "scClosed sc' = scClosed sc"
    and "r = RErr e \<Longrightarrow> sc_content (sc\<lparr>scFeed := q\<rparr>) = [] \<and> (scReadEOF sc' \<or> scClosed sc)"
    and "list_all (\<lambda>it. \<not> is_close it) q \<Longrightarrow>
           scReadEOF sc' = scReadEOF sc \<and> list_all (\<lambda>it. \<not> is_close it) (scFeed sc')"
  using assms
  by (induction n q sc arbitrary: r sc' rule: read_feed.induct)
    (auto simp: sc_content_def got_bytes_def is_close_def split: if_splits option.splits)

lemma read_feed_progress:
  assumes "0 < n" "\<not> scReadEOF sc" "scPending sc = []" "sc_content (sc\<lparr>scFeed := q\<rparr>) \<noteq> []"
  shows "got_bytes (fst (read_feed n q sc)) \<noteq> []"
  using assms
proof (induction q)
  case Nil
  then show ?case by (simp add: sc_content_def)
next
  case (Cons it q)
  show ?case
  proof (cases "is_close it")
    case True
    with Cons.prems show ?thesis by (simp add: sc_content_def)
  next
    case False
    then have f: "\<not> fiFull it" "\<not> fiHalf it" by (simp_all add: is_close_def)
    show ?thesis
    proof (cases "fiData it = []")
      case True
      with Cons.prems False have "sc_content (sc\<lparr>scFeed := q\<rparr>) \<noteq> []" by (simp add: sc_content_def)
      with Cons.IH Cons.prems f True show ?thesis by simp
    next
      case False
      with Cons.prems(1) f show ?thesis by (simp add: got_bytes_def)
    qed
  qed
qed

lemma StreamConn_Read_spec:
  assumes "StreamConn_Read n sc = (r, sc')"
  shows "sc_content sc = got_bytes r @ sc_content sc'"
    and "scClosed sc' = scClosed sc"
    and "r = RErr e \<Longrightarrow> sc_content sc = [] \<and> (scReadEOF sc' \<or> scClosed sc)"
    and "sc_usable sc \<Longrightarrow> sc_usable sc'"
proof -
  consider (eof) "scReadEOF sc" | (pend) "\<not> scReadEOF sc" "scPending sc \<noteq> []"
    | (feed) "\<not> scReadEOF sc" "scPending sc = []" by blast
  then have "sc_content sc = got_bytes r @ sc_content sc' \<and> scClosed sc' = scClosed sc
      \<and> (r = RErr e \<longrightarrow> sc_content sc = [] \<and> (scReadEOF sc' \<or> scClosed sc)) \<and> (sc_usable sc \<longrightarrow> sc_usable sc')"
  proof cases
    case eof
    with assms show ?thesis by (auto simp: StreamConn_Read_def sc_content_def got_bytes_def)
  next
    case pend
    with assms show ?thesis
      by (auto simp: StreamConn_Read_def sc_content_def got_bytes_def sc_usable_def)
  next
    case feed
    then have "read_feed n (scFeed sc) sc = (r, sc')" using assms by (simp add: StreamConn_Read_def)
    note spec = read_feed_spec [OF this feed(2)]
    have "sc\<lparr>scFeed := scFeed sc\<rparr> = sc" by simp
    with spec feed show ?thesis by (auto simp: sc_usable_def)
  qed
  then show "sc_content sc = got_bytes r @ sc_content sc'" "scClosed sc' = scClosed sc"
    "r = RErr e \<Longrightarrow> sc_content sc = [] \<and> (scReadEOF sc' \<or> scClosed sc)" "sc_usable sc \<Longrightarrow> sc_usable sc'"
    by blast+
qed

lemma takeWhile_True [simp]: "takeWhile (\<lambda>x. True) xs = xs"
  by (induction xs) simp_all

lemma takeWhile_all: "list_all P xs \<Longrightarrow> takeWhile P xs = xs"
  by (induction xs) simp_all

lemma deliver_content:
  assumes "deliver lose it sc = Some sc'" "sc_usable sc"
  shows "sc_content sc' = sc_content sc @ (if is_close it then [] else fiData it)"
    and "\<not> is_close it \<Longrightarrow> sc_usable sc'"
  using assms
  by (auto simp: deliver_def sc_content_def sc_usable_def takeWhile_all takeWhile_append list_all_iff
           split: if_splits)

interpretation sc: byte_pipe sc_usable sc_content sc_put sc_get
proof unfold_locales
  fix c d c' assume "sc_usable c" "sc_put d c = Some c'"
  then show "sc_usable c' \<and> sc_content c' = sc_content c @ d"
    using deliver_content [of False "data_item d" c c'] by (simp add: sc_put_def)
next
  fix c n d c' assume u: "sc_usable c" and "sc_get n c = (d, c')"
  then obtain r where r: "StreamConn_Read n c = (r, c')" "d = got_bytes r"
    by (auto simp: sc_get_def split: prod.splits)
  with u StreamConn_Read_spec [OF r(1)] show "sc_usable c' \<and> sc_content c = d @ sc_content c'" by simp
next
  fix c :: StreamConn and n :: nat
  assume u: "sc_usable c" "0 < n" "sc_content c \<noteq> []"
  show "fst (sc_get n c) \<noteq> []"
  proof (cases "scPending c = []")
    case True
    with u have "got_bytes (fst (read_feed n (scFeed c) c)) \<noteq> []"
      by (intro read_feed_progress) (simp_all add: sc_usable_def)
    with True u show ?thesis by (auto simp: sc_get_def StreamConn_Read_def sc_usable_def split: prod.splits)
  next
    case False
    with u show ?thesis by (simp add: sc_get_def StreamConn_Read_def sc_usable_def got_bytes_def)
  qed
qed

section \<open>Writing\<close>

text \<open>The frames that a write of \<open>p\<close> is cut into.\<close>

function chunks :: "bytes \<Rightarrow> bytes list" where
  "chunks p = (if p = [] then [] else take writeChunk p # chunks (drop writeChunk p))"
  by pat_completeness auto
termination
  by (relation "measure length") (auto simp: writeChunk_def)

declare chunks.simps [simp del]

lemma concat_chunks [simp]: "concat (chunks p) = p"
  by (induction p rule: chunks.induct) (subst chunks.simps, simp)

lemma chunks_small: "c \<in> set (chunks p) \<Longrightarrow> c \<noteq> [] \<and> length c \<le> writeChunk"
  by (induction p rule: chunks.induct) (subst (asm) chunks.simps, auto simp: writeChunk_def split: if_splits)

definition data_frames :: "u32 \<Rightarrow> bytes \<Rightarrow> Message list" where
  "data_frames connID p = map (mk_msg MsgData connID) (chunks p)"

lemma fits_data: "length c \<le> writeChunk \<Longrightarrow> fits (mk_msg MsgData i c)"
  by (simp add: fits_def mk_msg_def writeChunk_def MaxPayloadSize_def)

lemma write_loop_writable:
  assumes "writable s"
  shows "write_loop connID p off s =
     ((length p, None), s\<lparr>sOut := sOut s @ concat (map frame_of (data_frames connID (drop off p)))\<rparr>)"
  using assms
proof (induction connID p off s rule: write_loop.induct)
  case (1 connID p off s)
  show ?case
  proof (cases "off < length p")
    case True
    let ?m = "mk_msg MsgData connID (take writeChunk (drop off p))"
    have "Send s ?m = (Inr (), s\<lparr>sOut := sOut s @ frame_of ?m\<rparr>)"
      using "1.prems" by (simp add: fits_data)
    moreover have "data_frames connID (drop off p) = ?m # data_frames connID (drop (off + writeChunk) p)"
      using True by (subst data_frames_def, subst chunks.simps) (simp add: data_frames_def add.commute)
    ultimately show ?thesis
      using 1 True by (subst write_loop.simps) simp
  next
    case False
    then show ?thesis by (subst write_loop.simps) (simp add: data_frames_def chunks.simps)
  qed
qed

lemma length_chunks: "length p \<le> k * writeChunk \<Longrightarrow> length (chunks p) \<le> k"
proof (induction k arbitrary: p)
  case 0
  then show ?case by (simp add: chunks.simps)
next
  case (Suc k)
  then show ?case by (subst chunks.simps) simp
qed

text \<open>Delivering frames into a connection with room for them.\<close>

lemma pipe_run_puts:
  assumes "\<not> scClosed sc" "length (scFeed sc) + length cs \<le> streamFeedCap"
    "pipe_run sc_put sc_get ops (sc\<lparr>scFeed := scFeed sc @ map data_item cs\<rparr>) = (ins, outs, z)"
  shows "pipe_run sc_put sc_get (map PPut cs @ ops) sc = (concat cs @ ins, outs, z)"
  using assms
proof (induction cs arbitrary: sc)
  case Nil
  then show ?case by simp
next
  case (Cons c cs)
  let ?sc = "sc\<lparr>scFeed := scFeed sc @ [data_item c]\<rparr>"
  have "sc_put c sc = Some ?sc"
    using Cons.prems by (simp add: sc_put_def deliver_def)
  moreover have "pipe_run sc_put sc_get (map PPut cs @ ops) ?sc = (concat cs @ ins, outs, z)"
    using Cons.prems by (intro Cons.IH) simp_all
  ultimately show ?case by simp
qed

section \<open>The hub's invariant\<close>

text \<open>Every registered id has a connection of its own, with that id.\<close>

definition hub_wf :: "StreamHub \<Rightarrow> bool" where
  "hub_wf h \<longleftrightarrow>
     distinct (map fst (hConns h)) \<and> distinct (map snd (hConns h))
     \<and> (\<forall>(i, r) \<in> set (hConns h). r < length (hConnHeap h) \<and> scConnID (hConnHeap h ! r) = i)
     \<and> distinct (map fst (hAcks h)) \<and> distinct (map snd (hAcks h))
     \<and> (\<forall>(i, a) \<in> set (hAcks h). a < length (hAckHeap h))
     \<and> (hDead h \<longrightarrow> hConns h = [] \<and> hAcks h = [])"

lemma hub_wf_New: "hub_wf (NewStreamHub cb)"
  by (simp add: hub_wf_def NewStreamHub_def)

lemma update_new_ref:
  fixes n :: nat
  assumes "\<forall>(i, r) \<in> set al. r < n" "distinct (map fst al)" "distinct (map snd al)"
  shows "distinct (map fst (AList.update k n al)) \<and> distinct (map snd (AList.update k n al))
     \<and> (\<forall>(i, r) \<in> set (AList.update k n al). (i, r) = (k, n) \<or> i \<noteq> k \<and> (i, r) \<in> set al)"
  using assms
proof (induction al)
  case Nil
  then show ?case by simp
next
  case (Cons p al)
  obtain i r where p: "p = (i, r)" by force
  have u: "set (map fst (AList.update k n al)) = insert k (set (map fst al))"
    by (simp add: AList.dom_update)
  have r: "r \<notin> snd ` set (AList.update k n al)" if "r \<noteq> n"
    using Cons.IH Cons.prems that by (force simp: p)
  show ?case
  proof (cases "i = k")
    case True
    have "n \<notin> snd ` set al"
    proof
      assume "n \<in> snd ` set al"
      then obtain i' where "(i', n) \<in> set al" by auto
      then show False using bspec [OF Cons.prems(1), of "(i', n)"] by simp
    qed
    moreover have "i' \<noteq> k" if "(i', r') \<in> set al" for i' r'
      using Cons.prems(2) that True by (force simp: p)
    ultimately show ?thesis using Cons.prems True by (auto simp: p)
  next
    case False
    with Cons.IH Cons.prems u r show ?thesis by (auto simp: p)
  qed
qed

lemma delete_sub: "set (AList.delete k al) \<subseteq> set al"
  "distinct (map fst al) \<Longrightarrow> distinct (map fst (AList.delete k al))"
  "distinct (map snd al) \<Longrightarrow> distinct (map snd (AList.delete k al))"
  by (auto simp: AList.delete_eq distinct_map_filter)

lemma hub_wf_remove: "hub_wf h \<Longrightarrow> hub_wf (hub_remove i h)"
  using delete_sub [where k = i and al = "hConns h"] delete_sub [where k = i and al = "hAcks h"]
  by (auto simp: hub_wf_def hub_remove_def Let_def)

lemma hub_wf_heap:
  assumes "hub_wf h" "scConnID sc = scConnID (hConnHeap h ! r)"
  shows "hub_wf (h\<lparr>hConnHeap := (hConnHeap h)[r := sc]\<rparr>)"
  using assms by (cases "r < length (hConnHeap h)") (auto simp: hub_wf_def nth_list_update)

lemma deliver_id: "deliver lose it sc = Some sc' \<Longrightarrow> scConnID sc' = scConnID sc"
  by (auto simp: deliver_def split: if_splits)

lemma hub_wf_deliver: "hub_wf h \<Longrightarrow> hub_deliver lose it r h = Some h' \<Longrightarrow> hub_wf h'"
  by (auto simp: hub_deliver_def intro: hub_wf_heap dest: deliver_id)

lemma hub_wf_NewStreamConn: "hub_wf h \<Longrightarrow> hub_wf (snd (NewStreamConn i h))"
  using update_new_ref [of "hConns h" "length (hConnHeap h)" i]
  by (fastforce simp: NewStreamConn_def hub_wf_def nth_append newStreamConn_def)

lemma hub_wf_send: "hub_wf h \<Longrightarrow> OpenStream_send sid h s = (r, h', s') \<Longrightarrow> hub_wf h'"
proof -
  assume wf: "hub_wf h" and o: "OpenStream_send sid h s = (r, h', s')"
  let ?h1 = "h\<lparr>hConnSeq := hConnSeq h + 1,
      hAckHeap := hAckHeap h @ [None], hAcks := AList.update (hConnSeq h + 1) (length (hAckHeap h)) (hAcks h),
      hConnHeap := hConnHeap h @ [newStreamConn (hConnSeq h + 1)],
      hConns := AList.update (hConnSeq h + 1) (length (hConnHeap h)) (hConns h)\<rparr>"
  have "\<not> hDead h \<Longrightarrow> hub_wf ?h1"
    using wf update_new_ref [of "hConns h" "length (hConnHeap h)" "hConnSeq h + 1"]
      update_new_ref [of "hAcks h" "length (hAckHeap h)" "hConnSeq h + 1"]
    by (fastforce simp: hub_wf_def nth_append newStreamConn_def)
  with wf o hub_wf_remove show ?thesis
    by (auto simp: OpenStream_send_def Let_def split: if_splits sum.splits prod.splits)
qed

lemma hub_wf_wait: "hub_wf h \<Longrightarrow> OpenStream_wait i r ack h = (x, h') \<Longrightarrow> hub_wf h'"
  by (auto simp: OpenStream_wait_def hub_wf_remove split: option.splits if_splits)

lemma hub_wf_Feed: "hub_wf h \<Longrightarrow> Feed lose m h = Some (b, h') \<Longrightarrow> hub_wf h'"
proof -
  assume wf: "hub_wf h" and f: "Feed lose m h = Some (b, h')"
  have ack: "hub_wf (h\<lparr>hAcks := AList.delete i (hAcks h), hAckHeap := (hAckHeap h)[a := v]\<rparr>)" for i a v
    using wf delete_sub [where k = i and al = "hAcks h"] by (auto simp: hub_wf_def)
  show ?thesis
    using wf f ack hub_wf_deliver hub_wf_deliver [OF hub_wf_remove [OF wf]]
    by (auto simp: Feed_def split: if_splits option.splits sum.splits)
qed

lemma markClosed_simps [simp]: "scConnID (markClosed e sc) = scConnID sc" "scClosed (markClosed e sc)"
  by (auto simp: markClosed_def)

lemma mark_nth:
  "r < length heap \<Longrightarrow> scClosed (heap[a := markClosed e (heap ! a)] ! r) \<longleftrightarrow> r = a \<or> scClosed (heap ! r)"
  by (cases "a < length heap") (auto simp: nth_list_update)

lemma fold_mark:
  "length (fold (\<lambda>r heap. heap[r := markClosed e (heap ! r)]) rs heap) = length heap"
  "r < length heap \<Longrightarrow> r \<in> set rs \<Longrightarrow>
     scClosed (fold (\<lambda>r heap. heap[r := markClosed e (heap ! r)]) rs heap ! r)"
  "r < length heap \<Longrightarrow> scClosed (heap ! r) \<Longrightarrow>
     scClosed (fold (\<lambda>r heap. heap[r := markClosed e (heap ! r)]) rs heap ! r)"
  by (induction rs arbitrary: heap) (auto simp: mark_nth)

lemma hub_wf_closed: "hub_wf h \<Longrightarrow> hub_wf (SessionClosed h)"
  by (auto simp: hub_wf_def SessionClosed_def)

lemma hub_wf_Remove: "hub_wf h \<Longrightarrow> hub_wf (hub_Remove i h)"
  by (auto simp: hub_Remove_def Let_def intro: hub_wf_heap hub_wf_remove split: option.splits)

section \<open>Properties\<close>

text \<open>
  C7: A stream connection keeps the byte stream intact. For any sequence of delivered data
  frames and reads with any buffer sizes on a new connection, the bytes read followed by
  the bytes still queued are exactly the bytes delivered, in order.
\<close>

theorem stream_conn_fifo:
  assumes "pipe_run sc_put sc_get ops (newStreamConn connID) = (ins, outs, sc)"
  shows "ins = outs @ sc_content sc"
proof -
  have "sc_usable (newStreamConn connID)" "sc_content (newStreamConn connID) = []"
    by (simp_all add: newStreamConn_def sc_usable_def sc_content_def)
  with sc.run_fifo [OF _ assms] show ?thesis by simp
qed

theorem stream_conn_fifo_witness:
  "pipe_run sc_put sc_get [PPut [1, 2, 3], PGet 2, PPut [], PPut [4], PGet 5, PGet 5] (newStreamConn 9)
     = ([1, 2, 3, 4], [1, 2, 3, 4], newStreamConn 9)
   \<and> [1, 2, 3, 4] = [1, 2, 3, 4] @ sc_content (newStreamConn 9)"
proof -
  have "pipe_run sc_put sc_get [PPut [1, 2, 3], PGet 2, PPut [], PPut [4], PGet 5, PGet 5] (newStreamConn 9)
     = ([1, 2, 3, 4], [1, 2, 3, 4], newStreamConn 9)"
    by (simp add: sc_put_def sc_get_def deliver_def newStreamConn_def StreamConn_Read_def data_item_def
        got_bytes_def streamFeedCap_def)
  with stream_conn_fifo [OF this] show ?thesis by blast
qed

text \<open>
  The end of a stream is reported only after its data. When \<^verbatim>\<open>Read\<close> returns an error, every
  byte delivered before the close frame (or before the local close) has been read, and the
  error is the end of the read direction or the local close; a successful read returns the
  next bytes of the stream.
\<close>

theorem read_error_drained:
  "case StreamConn_Read n sc of
     (RErr e, sc') \<Rightarrow> sc_content sc = [] \<and> (scReadEOF sc' \<or> scClosed sc)
   | (RGot d, sc') \<Rightarrow> sc_content sc = d @ sc_content sc'
   | (RBlock, sc') \<Rightarrow> sc_content sc = sc_content sc'"
proof (cases "StreamConn_Read n sc")
  case (Pair r sc')
  show ?thesis
    using StreamConn_Read_spec [OF Pair] Pair by (cases r) (auto simp: got_bytes_def)
qed

text \<open>
  A write crosses the tunnel unchanged. On a session that accepts writes, \<^verbatim>\<open>Write\<close> of any
  bytes reports all of them written and emits data frames of at most 64 KiB for the
  connection's id; the peer's read loop gets exactly these frames, and delivering them into
  a stream connection that has room makes the reads return the bytes written.
\<close>

theorem write_crosses_tunnel:
  assumes "writable s" "\<not> scClosed src" "length p \<le> streamFeedCap * writeChunk"
  shows "\<exists>frames s'. StreamConn_Write src p s = ((length p, None), s')
     \<and> sOut s' = sOut s @ concat (map frame_of frames)
     \<and> read_all (concat (map frame_of frames)) = (frames, MsgIO EOF)
     \<and> list_all (\<lambda>m. mType m = MsgData \<and> mStreamID m = scConnID src \<and> length (mPayload m) \<le> writeChunk) frames
     \<and> (\<exists>sc. pipe_run sc_put sc_get (map (PPut \<circ> mPayload) frames @ replicate (length p) (PGet (Suc k)))
           (newStreamConn (scConnID src)) = (p, p, sc))"
proof -
  define frames where "frames = data_frames (scConnID src) p"
  have small: "list_all (\<lambda>m. mType m = MsgData \<and> mStreamID m = scConnID src \<and> length (mPayload m) \<le> writeChunk) frames"
    using chunks_small [of _ p] by (auto simp: frames_def data_frames_def list_all_iff mk_msg_def)
  have fit: "list_all (\<lambda>m. length (mPayload m) \<le> MaxPayloadSize) frames"
    using chunks_small [of _ p] fits_data
    by (fastforce simp: frames_def data_frames_def list_all_iff fits_def)
  have "read_all (concat (map frame_of frames)) = (frames, MsgIO EOF)"
    using read_all_frames [OF fit, of "[]"] by (simp add: frame_of_def [abs_def])
  moreover have "StreamConn_Write src p s = ((length p, None), s\<lparr>sOut := sOut s @ concat (map frame_of frames)\<rparr>)"
    using assms write_loop_writable [of s "scConnID src" p 0] by (simp add: StreamConn_Write_def frames_def)
  moreover have "\<exists>sc. pipe_run sc_put sc_get (map (PPut \<circ> mPayload) frames @ replicate (length p) (PGet (Suc k)))
           (newStreamConn (scConnID src)) = (p, p, sc)"
  proof -
    let ?new = "newStreamConn (scConnID src)"
    let ?full = "?new\<lparr>scFeed := scFeed ?new @ map data_item (chunks p)\<rparr>"
    have "sc_usable ?full" "sc_content ?full = p"
      by (simp_all add: newStreamConn_def sc_usable_def sc_content_def list_all_iff takeWhile_map comp_def)
    then obtain z where "pipe_run sc_put sc_get (replicate (length p) (PGet (Suc k))) ?full = ([], p, z)"
      using sc.drain [of ?full "length p" k] by auto
    moreover have "\<not> scClosed ?new" "length (scFeed ?new) + length (chunks p) \<le> streamFeedCap"
      using length_chunks [OF assms(3)] by (simp_all add: newStreamConn_def)
    ultimately have "pipe_run sc_put sc_get (map PPut (chunks p) @ replicate (length p) (PGet (Suc k))) ?new
        = (concat (chunks p) @ [], p, z)"
      by (intro pipe_run_puts)
    moreover have "map (PPut \<circ> mPayload) frames = map PPut (chunks p)"
      by (simp add: frames_def data_frames_def mk_msg_def)
    ultimately show ?thesis by auto
  qed
  ultimately show ?thesis using small by (intro exI [of _ frames] exI [of _ "s\<lparr>sOut := sOut s @ concat (map frame_of frames)\<rparr>"]) simp
qed

theorem write_crosses_tunnel_witness:
  "\<exists>frames s'. StreamConn_Write (newStreamConn 5) [1, 2, 3] (NewSession []) = ((3, None), s')
     \<and> read_all (concat (map frame_of frames)) = (frames, MsgIO EOF)"
  using write_crosses_tunnel [of "NewSession []" "newStreamConn 5" "[1, 2, 3]" 0]
  by (auto simp: writable_def NewSession_def newStreamConn_def streamFeedCap_def writeChunk_def)

text \<open>\<open>hub_run h\<close>: the hub can be left in state \<open>h\<close> by its operations and by the users of its connections.\<close>

inductive hub_run :: "StreamHub \<Rightarrow> bool" where
  hub_new: "hub_run (NewStreamHub cb)"
| hub_accept: "hub_run h \<Longrightarrow> hub_run (snd (NewStreamConn i h))"
| hub_open: "hub_run h \<Longrightarrow> OpenStream_send sid h s = (r, h', s') \<Longrightarrow> hub_run h'"
| hub_opened: "hub_run h \<Longrightarrow> OpenStream_wait i r ack h = (x, h') \<Longrightarrow> hub_run h'"
| hub_feed: "hub_run h \<Longrightarrow> Feed lose m h = Some (b, h') \<Longrightarrow> hub_run h'"
| hub_gone: "hub_run h \<Longrightarrow> hub_run (hub_Remove i h)"
| hub_dead: "hub_run h \<Longrightarrow> hub_run (SessionClosed h)"
| hub_user: "hub_run h \<Longrightarrow> scConnID sc = scConnID (hConnHeap h ! r) \<Longrightarrow>
     hub_run (h\<lparr>hConnHeap := (hConnHeap h)[r := sc]\<rparr>)"

lemma hub_run_wf: "hub_run h \<Longrightarrow> hub_wf h"
  by (induction rule: hub_run.induct)
    (blast intro: hub_wf_New hub_wf_NewStreamConn hub_wf_send hub_wf_wait hub_wf_Feed hub_wf_Remove
      hub_wf_closed hub_wf_heap)+

lemma hub_refs:
  assumes "hub_wf h" "map_of (hConns h) i = Some r"
  shows "r < length (hConnHeap h)" "scConnID (hConnHeap h ! r) = i"
    "map_of (hConns h) j = Some r \<Longrightarrow> j = i"
proof -
  have ids: "q < length (hConnHeap h) \<and> scConnID (hConnHeap h ! q) = k" if "map_of (hConns h) k = Some q" for k q
    using assms(1) map_of_SomeD [OF that] by (auto simp: hub_wf_def)
  show "r < length (hConnHeap h)" "scConnID (hConnHeap h ! r) = i" using ids [OF assms(2)] by simp_all
  show "map_of (hConns h) j = Some r \<Longrightarrow> j = i" using ids [OF assms(2)] ids [of j r] by simp
qed

text \<open>
  Streams on one session are isolated. In every reachable hub, feeding a data or close
  frame for an id reaches the connection registered under exactly that id, appends the
  frame at the end of its queue, and changes no other connection; a frame for an
  unregistered id is not consumed and changes nothing.
\<close>

theorem hub_feed_isolated:
  assumes "hub_run h" "mType m = MsgData \<or> mType m = MsgStreamClose" "Feed lose m h = Some (b, h')"
  shows "case map_of (hConns h) (mStreamID m) of
      None \<Rightarrow> \<not> b \<and> h' = h
    | Some r \<Rightarrow> b \<and> scConnID (hConnHeap h ! r) = mStreamID m
        \<and> (\<forall>q. q \<noteq> r \<longrightarrow> hConnHeap h' ! q = hConnHeap h ! q)
        \<and> (scClosed (hConnHeap h ! r) \<or>
           scFeed (hConnHeap h' ! r) = scFeed (hConnHeap h ! r)
             @ [if mType m = MsgData then data_item (mPayload m) else close_item m])
        \<and> (\<forall>j. j \<noteq> mStreamID m \<longrightarrow> map_of (hConns h') j = map_of (hConns h) j)"
proof (cases "map_of (hConns h) (mStreamID m)")
  case None
  with assms(2,3) show ?thesis by (auto simp: Feed_def MsgData_def MsgStreamClose_def)
next
  case (Some r)
  note refs = hub_refs [OF hub_run_wf [OF assms(1)] Some]
  define it where "it = (if mType m = MsgData then data_item (mPayload m) else close_item m)"
  define h0 where "h0 = (if mType m = MsgData then h else hub_remove (mStreamID m) h)"
  have h0: "hConnHeap h0 = hConnHeap h" "j \<noteq> mStreamID m \<Longrightarrow> map_of (hConns h0) j = map_of (hConns h) j" for j
    by (auto simp: h0_def hub_remove_def Let_def delete_conv')
  have "b \<and> hub_deliver lose it r h0 = Some h'"
    using assms(2,3) Some by (auto simp: Feed_def it_def h0_def MsgData_def MsgStreamClose_def)
  then obtain sc where b: b and d: "deliver lose it (hConnHeap h ! r) = Some sc"
    and h': "h' = h0\<lparr>hConnHeap := (hConnHeap h)[r := sc]\<rparr>"
    by (auto simp: hub_deliver_def h0)
  have "scClosed (hConnHeap h ! r) \<or> scFeed sc = scFeed (hConnHeap h ! r) @ [it]"
    using d by (auto simp: deliver_def split: if_splits)
  with refs b h0 show ?thesis
    by (simp add: Some h' it_def [symmetric])
qed

text \<open>The hub of the witnesses: one accepted connection with id 7.\<close>

definition demo_hub :: StreamHub where
  "demo_hub = snd (NewStreamConn 7 (NewStreamHub False))"

lemma demo_hub_run: "hub_run demo_hub"
  unfolding demo_hub_def by (rule hub_accept [OF hub_new])

theorem hub_feed_isolated_witness:
  "\<exists>b h'. Feed False (mk_msg MsgData 7 [1]) demo_hub = Some (b, h') \<and> b
     \<and> scFeed (hConnHeap h' ! 0) = [data_item [1]]"
proof -
  obtain b h' where f: "Feed False (mk_msg MsgData 7 [1]) demo_hub = Some (b, h')"
    by (simp add: Feed_def demo_hub_def NewStreamConn_def NewStreamHub_def mk_msg_def hub_deliver_def
        deliver_def newStreamConn_def streamFeedCap_def)
  with hub_feed_isolated [OF demo_hub_run _ f] show ?thesis
    by (auto simp: demo_hub_def NewStreamConn_def NewStreamHub_def mk_msg_def newStreamConn_def)
qed

lemma closed_read_not_blocked: "scClosed sc \<Longrightarrow> fst (read_feed n q sc) \<noteq> RBlock"
  by (induction n q sc rule: read_feed.induct) (auto split: option.splits)

lemma list_update_nth: "a < length heap \<Longrightarrow> heap[b := v] ! a = (if a = b then v else heap ! a)"
  by (cases "b < length heap") (auto simp: nth_list_update)

lemma fold_set:
  "length (fold (\<lambda>a heap. heap[a := v]) as heap) = length heap"
  "a < length heap \<Longrightarrow> a \<in> set as \<or> heap ! a = v \<Longrightarrow> fold (\<lambda>a heap. heap[a := v]) as heap ! a = v"
  by (induction as arbitrary: heap) (auto simp: list_update_nth)

text \<open>
  A lost session leaves nobody waiting. After \<^verbatim>\<open>SessionClosed\<close> in any reachable hub every
  connection that was registered is closed, so no read of it blocks, every pending
  \<^verbatim>\<open>OpenStream\<close> has a negative acknowledgement to read, and no further stream can be opened
  or accepted.
\<close>

theorem session_closed_unblocks:
  assumes "hub_run h"
  shows "(\<forall>i r. map_of (hConns h) i = Some r \<longrightarrow>
       scClosed (hConnHeap (SessionClosed h) ! r)
       \<and> (\<forall>n. fst (StreamConn_Read n (hConnHeap (SessionClosed h) ! r)) \<noteq> RBlock))
     \<and> (\<forall>i a. map_of (hAcks h) i = Some a \<longrightarrow> hAckHeap (SessionClosed h) ! a = Some session_closed_ack)
     \<and> fst (NewStreamConn j (SessionClosed h)) = None
     \<and> OpenStream_send sid (SessionClosed h) s = (Inl HubClosed, SessionClosed h, s)"
proof (intro conjI)
  have wf: "hub_wf h" using hub_run_wf [OF assms] .
  have dead: "hDead (SessionClosed h)" by (simp add: SessionClosed_def)
  show "\<forall>i r. map_of (hConns h) i = Some r \<longrightarrow>
       scClosed (hConnHeap (SessionClosed h) ! r)
       \<and> (\<forall>n. fst (StreamConn_Read n (hConnHeap (SessionClosed h) ! r)) \<noteq> RBlock)"
  proof (intro allI impI)
    fix i r assume m: "map_of (hConns h) i = Some r"
    then have "r \<in> set (map snd (hConns h))" by (force dest: map_of_SomeD)
    moreover have "\<not> hDead h" using wf m by (auto simp: hub_wf_def)
    ultimately have "scClosed (hConnHeap (SessionClosed h) ! r)"
      using hub_refs(1) [OF wf m] fold_mark(2) [of r "hConnHeap h" "map snd (hConns h)" EOF]
      by (simp add: SessionClosed_def)
    then show "scClosed (hConnHeap (SessionClosed h) ! r)
       \<and> (\<forall>n. fst (StreamConn_Read n (hConnHeap (SessionClosed h) ! r)) \<noteq> RBlock)"
      by (auto simp: StreamConn_Read_def closed_read_not_blocked)
  qed
  show "\<forall>i a. map_of (hAcks h) i = Some a \<longrightarrow> hAckHeap (SessionClosed h) ! a = Some session_closed_ack"
  proof (intro allI impI)
    fix i a assume m: "map_of (hAcks h) i = Some a"
    then have "a \<in> set (map snd (hAcks h))" by (force dest: map_of_SomeD)
    moreover have "\<not> hDead h" "a < length (hAckHeap h)" using wf map_of_SomeD [OF m] by (auto simp: hub_wf_def)
    ultimately show "hAckHeap (SessionClosed h) ! a = Some session_closed_ack"
      using fold_set(2) [of a "hAckHeap h" "map snd (hAcks h)" "Some session_closed_ack"]
      by (simp add: SessionClosed_def)
  qed
  show "fst (NewStreamConn j (SessionClosed h)) = None"
    "OpenStream_send sid (SessionClosed h) s = (Inl HubClosed, SessionClosed h, s)"
    using dead by (simp_all add: NewStreamConn_def OpenStream_send_def)
qed

theorem session_closed_unblocks_witness:
  "scClosed (hConnHeap (SessionClosed demo_hub) ! 0)
   \<and> fst (StreamConn_Read 1 (hConnHeap (SessionClosed demo_hub) ! 0)) \<noteq> RBlock"
proof -
  have "map_of (hConns demo_hub) 7 = Some 0"
    by (simp add: demo_hub_def NewStreamConn_def NewStreamHub_def)
  with session_closed_unblocks [OF demo_hub_run] show ?thesis by blast
qed

end
