(* ===== verification/CtrlHub.thy ===== *)
theory CtrlHub
  imports StreamTable StreamAdapter Window
begin

text \<open>
  The hub between the control listener and the proxy listeners,
  \<^verbatim>\<open>internal/handler/star/ctrl_hub.go\<close>. A \<^verbatim>\<open>*ConnEntry\<close> is shared by the hub's map and by the
  goroutines that pump one external connection, so entries live in a heap and the map holds
  references; entries removed from the map keep their place in the heap. The hub also
  carries the stream table and the control sessions that messages are sent on. \<^verbatim>\<open>OpenConn\<close> is
  split where it waits: \<open>OpenConn_send\<close> runs up to the wait for the acknowledgement,
  \<open>OpenConn_wait\<close> continues with the acknowledgement or the timeout.
\<close>

section \<open>State\<close>

definition openConnTimeout :: nat where "openConnTimeout = 10"
definition downlinkQueue :: nat where "downlinkQueue = 256"

record ConnEntry =
  ceConnID :: u32
  ceStreamID :: u32
  ceClientProxyName :: string
  ceStreamId :: string
  ceClient :: sess_ref
  ceStream :: "StreamEntry option"
  ceOpenedAt :: nat
  ceSink :: "bytes list"
  ceDone :: bool
  ceRemoteClosed :: bool
  ceRecvPending :: int
  ceSendWin :: "Window option"

record CtrlHub =
  chStreams :: StreamTable
  chConns :: "(u32 \<times> ref) list"
  chAcks :: "(u32 \<times> ref) list"
  chConnSeq :: u32
  chHeap :: "ConnEntry list"
  chAckHeap :: "ConnOpenAck option list"
  chSess :: "sess_ref \<Rightarrow> Session"

record ConnStat =
  csConnID :: u32
  csStreamAssignID :: u32
  csClientProxyName :: string
  csStreamId :: string
  csOpenedAt :: nat

definition NewCtrlHub :: "(sess_ref \<Rightarrow> Session) \<Rightarrow> CtrlHub" where
  "NewCtrlHub sess = \<lparr>chStreams = NewStreamTable, chConns = [], chAcks = [], chConnSeq = 0,
     chHeap = [], chAckHeap = [], chSess = sess\<rparr>"

section \<open>Entries\<close>

definition ConnEntry_close :: "ConnEntry \<Rightarrow> ConnEntry" where
  "ConnEntry_close e = e\<lparr>ceDone := True, ceSendWin := map_option (fst \<circ> Window_Close) (ceSendWin e)\<rparr>"

definition markRemoteClosed :: "ConnEntry \<Rightarrow> ConnEntry" where
  "markRemoteClosed e = e\<lparr>ceRemoteClosed := True\<rparr>"

text \<open>One turn of \<^verbatim>\<open>AcquireSend\<close>; \<open>None\<close> as window means no flow control.\<close>

definition AcquireSend :: "nat \<Rightarrow> chan_id \<Rightarrow> ConnEntry \<Rightarrow> turn \<times> ConnEntry" where
  "AcquireSend n ch e =
     (case ceSendWin e of
        None \<Rightarrow> (TurnDone, e)
      | Some w \<Rightarrow> (let (r, w') = acquire_turn (int n) ch w in (r, e\<lparr>ceSendWin := Some w'\<rparr>)))"

definition hub_send :: "sess_ref \<Rightarrow> Message \<Rightarrow> CtrlHub \<Rightarrow> (msgerr + unit) \<times> CtrlHub" where
  "hub_send c m h =
     (let (r, s) = Send (chSess h c) m in (r, h\<lparr>chSess := (chSess h)(c := s)\<rparr>))"

definition upd_entry :: "ref \<Rightarrow> (ConnEntry \<Rightarrow> ConnEntry) \<Rightarrow> CtrlHub \<Rightarrow> CtrlHub" where
  "upd_entry r f h = h\<lparr>chHeap := (chHeap h)[r := f (chHeap h ! r)]\<rparr>"

definition releaseBatch :: int where "releaseBatch = 65536"

text \<open>
  \<^verbatim>\<open>ReleaseRecv\<close>: the compare-and-swap loop ends in its first turn when no other goroutine
  changes the counter in between, which is the case of the one pump per connection.
\<close>

definition ReleaseRecv :: "ref \<Rightarrow> nat \<Rightarrow> CtrlHub \<Rightarrow> CtrlHub" where
  "ReleaseRecv r n h =
     (let e = chHeap h ! r; pending = ceRecvPending e + int n in
      if pending < releaseBatch then upd_entry r (\<lambda>e. e\<lparr>ceRecvPending := pending\<rparr>) h
      else snd (hub_send (ceClient e) (mk_msg MsgWindowUpdate (ceConnID e) [])
                 (upd_entry r (\<lambda>e. e\<lparr>ceRecvPending := pending - releaseBatch\<rparr>) h)))"

section \<open>Connections\<close>

definition removeConn :: "u32 \<Rightarrow> CtrlHub \<Rightarrow> CtrlHub" where
  "removeConn connID h =
     (let h' = h\<lparr>chConns := AList.delete connID (chConns h)\<rparr> in
      case map_of (chConns h) connID of
        None \<Rightarrow> h'
      | Some r \<Rightarrow> upd_entry r ConnEntry_close h')"

definition new_entry :: "u32 \<Rightarrow> nat \<Rightarrow> StreamEntry \<Rightarrow> ConnEntry" where
  "new_entry connID now entry =
     \<lparr>ceConnID = connID, ceStreamID = seAssignID entry, ceClientProxyName = seClientProxyName entry,
      ceStreamId = seStreamId entry, ceClient = seClient entry, ceStream = Some entry, ceOpenedAt = now,
      ceSink = [], ceDone = False, ceRemoteClosed = False, ceRecvPending = 0,
      ceSendWin = Some (NewWindow DefaultStreamWindow)\<rparr>"

datatype connerr = ConnSend msgerr | ConnRejected string | ConnTimeout

definition conn_fail :: "u32 \<Rightarrow> ref \<Rightarrow> CtrlHub \<Rightarrow> CtrlHub" where
  "conn_fail connID r h = upd_entry r ConnEntry_close (removeConn connID h)"

definition OpenConn_send :: "nat \<Rightarrow> StreamEntry \<Rightarrow> CtrlHub \<Rightarrow> (connerr + u32 \<times> ref \<times> ref) \<times> CtrlHub" where
  "OpenConn_send now entry h =
     (let connID = chConnSeq h + 1; r = length (chHeap h); a = length (chAckHeap h);
          h1 = h\<lparr>chConnSeq := connID,
                 chAckHeap := chAckHeap h @ [None], chAcks := AList.update connID a (chAcks h),
                 chHeap := chHeap h @ [new_entry connID now entry],
                 chConns := AList.update connID r (chConns h)\<rparr>;
          payload = bytes_of_string (ConnOpenReq_json \<lparr>orStreamID = seAssignID entry, orConnID = connID\<rparr>) in
      case hub_send (seClient entry) (mk_msg MsgConnOpen (seAssignID entry) payload) h1 of
        (Inl e, h2) \<Rightarrow> (Inl (ConnSend e), conn_fail connID r h2)
      | (Inr _, h2) \<Rightarrow> (Inr (connID, r, a), h2))"

definition OpenConn_wait :: "u32 \<Rightarrow> ref \<Rightarrow> ConnOpenAck option \<Rightarrow> CtrlHub \<Rightarrow> (connerr + ref) \<times> CtrlHub" where
  "OpenConn_wait connID r ack h =
     (case ack of
        Some k \<Rightarrow> if oaOK k then (Inr r, h) else (Inl (ConnRejected (oaMessage k)), conn_fail connID r h)
      | None \<Rightarrow> (Inl ConnTimeout, conn_fail connID r h))"

definition WindowRelease :: "u32 \<Rightarrow> u32 \<Rightarrow> CtrlHub \<Rightarrow> CtrlHub" where
  "WindowRelease connID delta h =
     (case map_of (chConns h) connID of
        None \<Rightarrow> h
      | Some r \<Rightarrow> upd_entry r (\<lambda>e. e\<lparr>ceSendWin := map_option (\<lambda>w. fst (Release (uint delta) w)) (ceSendWin e)\<rparr>) h)"

text \<open>
  \<^verbatim>\<open>Downlink\<close>: \<open>None\<close> when it blocks. The byte counter of the stream is bumped first. With a
  full queue and \<^verbatim>\<open>Done\<close> closed the data is refused; when both cases of the \<^verbatim>\<open>select\<close> are ready
  \<open>lose\<close> says which is taken.
\<close>

definition Downlink :: "bool \<Rightarrow> u32 \<Rightarrow> bytes \<Rightarrow> CtrlHub \<Rightarrow> (bool \<times> CtrlHub) option" where
  "Downlink lose connID payload h =
     (case map_of (chConns h) connID of
        None \<Rightarrow> Some (False, h)
      | Some r \<Rightarrow>
          (let e = chHeap h ! r;
               h1 = (case ceStream e of
                       None \<Rightarrow> h
                     | Some st \<Rightarrow> h\<lparr>chStreams := add_out_bytes st (length payload) (chStreams h)\<rparr>) in
           if length (ceSink e) < downlinkQueue \<and> \<not> (ceDone e \<and> lose)
           then Some (True, upd_entry r (\<lambda>e. e\<lparr>ceSink := ceSink e @ [payload]\<rparr>) h1)
           else if ceDone e then Some (False, h1)
           else None))"

definition DeliverConnAck :: "ConnOpenAck \<Rightarrow> CtrlHub \<Rightarrow> CtrlHub" where
  "DeliverConnAck ack h =
     (let h' = h\<lparr>chAcks := AList.delete (oaConnID ack) (chAcks h)\<rparr> in
      case map_of (chAcks h) (oaConnID ack) of
        None \<Rightarrow> h'
      | Some a \<Rightarrow> h'\<lparr>chAckHeap := (chAckHeap h)[a := Some ack]\<rparr>)"

definition ClientClosed :: "u32 \<Rightarrow> CtrlHub \<Rightarrow> bool \<times> CtrlHub" where
  "ClientClosed connID h =
     (let h' = h\<lparr>chConns := AList.delete connID (chConns h)\<rparr> in
      case map_of (chConns h) connID of
        None \<Rightarrow> (False, h')
      | Some r \<Rightarrow> (True, upd_entry r markRemoteClosed h'))"

definition CloseConn :: "u32 \<Rightarrow> bool \<Rightarrow> CtrlHub \<Rightarrow> bool \<times> CtrlHub" where
  "CloseConn connID tell h =
     (let h' = h\<lparr>chConns := AList.delete connID (chConns h)\<rparr> in
      case map_of (chConns h) connID of
        None \<Rightarrow> (False, h')
      | Some r \<Rightarrow>
          (let h1 = upd_entry r ConnEntry_close h' in
           (True, if tell then snd (hub_send (ceClient (chHeap h ! r)) (mk_msg MsgStreamClose connID []) h1)
                  else h1)))"

definition HasConn :: "u32 \<Rightarrow> CtrlHub \<Rightarrow> bool" where
  "HasConn connID h = (map_of (chConns h) connID \<noteq> None)"

definition owned_conn :: "sess_ref \<Rightarrow> CtrlHub \<Rightarrow> ref \<Rightarrow> bool" where
  "owned_conn sess h r =
     (case Get (ceStreamID (chHeap h ! r)) (chStreams h) of
        Some entry \<Rightarrow> seClient entry = sess
      | None \<Rightarrow> False)"

definition CloseConnsByClient :: "sess_ref \<Rightarrow> CtrlHub \<Rightarrow> CtrlHub \<times> nat" where
  "CloseConnsByClient sess h =
     (let closing = filter (\<lambda>(i, r). owned_conn sess h r) (chConns h);
          h1 = h\<lparr>chConns := filter (\<lambda>(i, r). \<not> owned_conn sess h r) (chConns h)\<rparr> in
      (fold (\<lambda>(i, r). upd_entry r ConnEntry_close) closing h1, length closing))"

definition ConnCount :: "CtrlHub \<Rightarrow> nat" where
  "ConnCount h = length (chConns h)"

definition conn_stat :: "ConnEntry \<Rightarrow> ConnStat" where
  "conn_stat e = \<lparr>csConnID = ceConnID e, csStreamAssignID = ceStreamID e,
     csClientProxyName = ceClientProxyName e, csStreamId = ceStreamId e, csOpenedAt = ceOpenedAt e\<rparr>"

definition SnapshotConns :: "CtrlHub \<Rightarrow> ConnStat list" where
  "SnapshotConns h = sort_by csConnID (map (\<lambda>(i, r). conn_stat (chHeap h ! r)) (chConns h))"

section \<open>The invariant\<close>

text \<open>
  Every registered id has an entry of its own that carries the id and is live: not done,
  not closed by the client, its window open. Ids are at most the last one given out.
\<close>

definition live :: "ConnEntry \<Rightarrow> bool" where
  "live e \<longleftrightarrow> \<not> ceDone e \<and> \<not> ceRemoteClosed e
     \<and> (case ceSendWin e of Some w \<Rightarrow> \<not> wClosed w | None \<Rightarrow> True)"

definition ctrl_wf :: "CtrlHub \<Rightarrow> bool" where
  "ctrl_wf h \<longleftrightarrow>
     distinct (map fst (chConns h)) \<and> distinct (map snd (chConns h))
     \<and> (\<forall>(i, r) \<in> set (chConns h). r < length (chHeap h) \<and> ceConnID (chHeap h ! r) = i
           \<and> live (chHeap h ! r) \<and> 0 < i \<and> i \<le> chConnSeq h)"

lemma ctrl_wf_New: "ctrl_wf (NewCtrlHub sess)"
  by (simp add: ctrl_wf_def NewCtrlHub_def)

lemma ctrl_wf_frame [simp]:
  "ctrl_wf (h\<lparr>chSess := s\<rparr>) = ctrl_wf h" "ctrl_wf (h\<lparr>chStreams := t\<rparr>) = ctrl_wf h"
  "ctrl_wf (h\<lparr>chAcks := a\<rparr>) = ctrl_wf h" "ctrl_wf (h\<lparr>chAckHeap := b\<rparr>) = ctrl_wf h"
  by (simp_all add: ctrl_wf_def)

lemma hub_send_frame [simp]:
  "ctrl_wf (snd (hub_send c m h)) = ctrl_wf h" "chConns (snd (hub_send c m h)) = chConns h"
  "chHeap (snd (hub_send c m h)) = chHeap h" "chStreams (snd (hub_send c m h)) = chStreams h"
  "chConnSeq (snd (hub_send c m h)) = chConnSeq h"
  by (simp_all add: hub_send_def split: prod.split)

lemma upd_entry_frame [simp]:
  "chConns (upd_entry r f h) = chConns h" "chStreams (upd_entry r f h) = chStreams h"
  "chConnSeq (upd_entry r f h) = chConnSeq h" "length (chHeap (upd_entry r f h)) = length (chHeap h)"
  "chSess (upd_entry r f h) = chSess h" "chAcks (upd_entry r f h) = chAcks h"
  "chAckHeap (upd_entry r f h) = chAckHeap h"
  by (simp_all add: upd_entry_def)

lemma upd_entry_nth:
  "q < length (chHeap h) \<Longrightarrow> chHeap (upd_entry r f h) ! q = (if q = r then f (chHeap h ! r) else chHeap h ! q)"
  by (simp add: upd_entry_def list_update_nth)

lemma upd_entry_other: "q \<noteq> r \<Longrightarrow> chHeap (upd_entry r f h) ! q = chHeap h ! q"
  by (simp add: upd_entry_def)

lemma ctrl_wfD:
  assumes "ctrl_wf h" "map_of (chConns h) i = Some r"
  shows "r < length (chHeap h)" "ceConnID (chHeap h ! r) = i" "live (chHeap h ! r)"
    "0 < i" "i \<le> chConnSeq h" "map_of (chConns h) j = Some r \<Longrightarrow> j = i"
proof -
  have all: "q < length (chHeap h) \<and> ceConnID (chHeap h ! q) = k \<and> live (chHeap h ! q) \<and> 0 < k \<and> k \<le> chConnSeq h"
    if "map_of (chConns h) k = Some q" for k q
    using assms(1) map_of_SomeD [OF that] by (auto simp: ctrl_wf_def)
  from all [OF assms(2)] show "r < length (chHeap h)" "ceConnID (chHeap h ! r) = i" "live (chHeap h ! r)"
    "0 < i" "i \<le> chConnSeq h" by simp_all
  show "map_of (chConns h) j = Some r \<Longrightarrow> j = i" using all [OF assms(2)] all [of j r] by simp
qed

lemma ctrl_wf_upd:
  assumes "ctrl_wf h"
    and "\<And>i. (i, r) \<in> set (chConns h) \<Longrightarrow> ceConnID (f (chHeap h ! r)) = ceConnID (chHeap h ! r) \<and> live (f (chHeap h ! r))"
  shows "ctrl_wf (upd_entry r f h)"
proof -
  have "q < length (chHeap h) \<and> ceConnID (chHeap (upd_entry r f h) ! q) = i
      \<and> live (chHeap (upd_entry r f h) ! q) \<and> 0 < i \<and> i \<le> chConnSeq h"
    if "(i, q) \<in> set (chConns h)" for i q
    using assms that by (cases "q = r") (fastforce simp: ctrl_wf_def upd_entry_nth)+
  with assms(1) show ?thesis by (auto simp: ctrl_wf_def)
qed

lemma ctrl_wf_sub:
  assumes "ctrl_wf h"
  shows "ctrl_wf (h\<lparr>chConns := filter P (chConns h)\<rparr>)"
  using assms by (auto simp: ctrl_wf_def distinct_map_filter)

lemma delete_unregisters:
  assumes "ctrl_wf h" "map_of (chConns h) i = Some r"
  shows "(j, r) \<notin> set (AList.delete i (chConns h))"
proof
  assume "(j, r) \<in> set (AList.delete i (chConns h))"
  then have "(j, r) \<in> set (chConns h)" "j \<noteq> i" by (auto simp: AList.delete_eq)
  moreover have "distinct (map fst (chConns h))" using assms(1) by (simp add: ctrl_wf_def)
  ultimately show False using ctrl_wfD(6) [OF assms, of j] by (simp add: map_of_eq_Some_iff)
qed

lemma ctrl_wf_drop: "ctrl_wf h \<Longrightarrow> ctrl_wf (h\<lparr>chConns := AList.delete i (chConns h)\<rparr>)"
  unfolding AList.delete_eq by (rule ctrl_wf_sub)

text \<open>Unregistering an id and then changing its entry at will keeps the invariant.\<close>

lemma ctrl_wf_drop_upd:
  assumes "ctrl_wf h" "map_of (chConns h) i = Some r"
  shows "ctrl_wf (upd_entry r f (h\<lparr>chConns := AList.delete i (chConns h)\<rparr>))"
  using delete_unregisters [OF assms] by (intro ctrl_wf_upd ctrl_wf_drop) (simp_all add: assms)

lemma ctrl_wf_removeConn: "ctrl_wf h \<Longrightarrow> ctrl_wf (removeConn i h)"
  by (simp add: removeConn_def Let_def ctrl_wf_drop ctrl_wf_drop_upd split: option.split)

lemma removeConn_conns [simp]: "chConns (removeConn i h) = AList.delete i (chConns h)"
  by (simp add: removeConn_def Let_def split: option.split)

lemma ctrl_wf_conn_fail:
  assumes "ctrl_wf h" "map_of (chConns h) i = Some r \<or> (\<forall>j. (j, r) \<notin> set (chConns h))"
  shows "ctrl_wf (conn_fail i r h)"
  unfolding conn_fail_def
proof (rule ctrl_wf_upd [OF ctrl_wf_removeConn [OF assms(1)]])
  fix j assume "(j, r) \<in> set (chConns (removeConn i h))"
  moreover have "(j, r) \<notin> set (AList.delete i (chConns h))"
    using assms(2) delete_unregisters [OF assms(1)] delete_sub(1) [of i "chConns h"] by blast
  ultimately show "ceConnID (ConnEntry_close (chHeap (removeConn i h) ! r)) = ceConnID (chHeap (removeConn i h) ! r)
      \<and> live (ConnEntry_close (chHeap (removeConn i h) ! r))" by simp
qed

lemma live_new_entry [simp]: "live (new_entry i now st)" "ceConnID (new_entry i now st) = i"
  by (simp_all add: live_def new_entry_def NewWindow_def)

lemma ctrl_wf_register:
  assumes "ctrl_wf h" "chConnSeq h \<noteq> - 1"
  shows "ctrl_wf (h\<lparr>chConnSeq := chConnSeq h + 1, chAckHeap := ah, chAcks := ak,
      chHeap := chHeap h @ [new_entry (chConnSeq h + 1) now st],
      chConns := AList.update (chConnSeq h + 1) (length (chHeap h)) (chConns h)\<rparr>)"
proof -
  have pre: "\<forall>(i, r) \<in> set (chConns h). r < length (chHeap h)" "distinct (map fst (chConns h))"
    "distinct (map snd (chConns h))"
    using assms(1) by (auto simp: ctrl_wf_def)
  note u = update_new_ref [OF pre, of "chConnSeq h + 1"]
  have old: "r < length (chHeap h) \<and> ceConnID (chHeap h ! r) = i \<and> live (chHeap h ! r) \<and> 0 < i \<and> i \<le> chConnSeq h + 1"
    if "(i, r) \<in> set (chConns h)" for i r
    using assms(1) that word_inc_bounds(3) [OF assms(2)] by (auto simp: ctrl_wf_def)
  show ?thesis
    using u old word_inc_bounds(1) [OF assms(2)] unfolding ctrl_wf_def
    by (fastforce simp: nth_append)
qed

lemma ctrl_wf_OpenConn_send:
  assumes "ctrl_wf h" "chConnSeq h \<noteq> - 1" "OpenConn_send now st h = (x, h')"
  shows "ctrl_wf h' \<and> chConnSeq h' = chConnSeq h + 1"
proof -
  let ?i = "chConnSeq h + 1"
  let ?h1 = "h\<lparr>chConnSeq := ?i, chAckHeap := chAckHeap h @ [None],
      chAcks := AList.update ?i (length (chAckHeap h)) (chAcks h),
      chHeap := chHeap h @ [new_entry ?i now st],
      chConns := AList.update ?i (length (chHeap h)) (chConns h)\<rparr>"
  let ?m = "mk_msg MsgConnOpen (seAssignID st)
      (bytes_of_string (ConnOpenReq_json \<lparr>orStreamID = seAssignID st, orConnID = ?i\<rparr>))"
  define h2 where "h2 = snd (hub_send (seClient st) ?m ?h1)"
  have wf2: "ctrl_wf h2" using ctrl_wf_register [OF assms(1,2)] by (simp add: h2_def)
  have reg: "map_of (chConns h2) ?i = Some (length (chHeap h))" by (simp add: h2_def update_conv')
  have "chConnSeq h2 = ?i" by (simp add: h2_def)
  moreover have "h' = h2 \<or> h' = conn_fail ?i (length (chHeap h)) h2"
    using assms(3) by (auto simp: OpenConn_send_def Let_def h2_def split: prod.splits sum.splits)
  moreover have "chConnSeq (conn_fail ?i (length (chHeap h)) h2) = chConnSeq h2"
    by (simp add: conn_fail_def removeConn_def Let_def split: option.split)
  ultimately show ?thesis using wf2 ctrl_wf_conn_fail [OF wf2] reg by auto
qed

lemma ctrl_wf_OpenConn_wait:
  assumes "ctrl_wf h" "ceConnID (chHeap h ! r) = i" "OpenConn_wait i r ack h = (x, h')"
  shows "ctrl_wf h'"
proof -
  have "map_of (chConns h) i = Some r \<or> (\<forall>j. (j, r) \<notin> set (chConns h))"
    using assms(1,2) by (force simp: ctrl_wf_def map_of_eq_Some_iff)
  with assms show ?thesis
    by (auto simp: OpenConn_wait_def ctrl_wf_conn_fail split: option.splits if_splits)
qed

lemma ctrl_wf_ClientClosed: "ctrl_wf h \<Longrightarrow> ctrl_wf (snd (ClientClosed i h))"
  by (simp add: ClientClosed_def Let_def ctrl_wf_drop ctrl_wf_drop_upd split: option.split)

lemma ctrl_wf_CloseConn: "ctrl_wf h \<Longrightarrow> ctrl_wf (snd (CloseConn i tell h))"
  by (simp add: CloseConn_def Let_def ctrl_wf_drop ctrl_wf_drop_upd split: option.split)

lemma live_release: "live e \<Longrightarrow>
  live (e\<lparr>ceSendWin := map_option (\<lambda>w. fst (Release k w)) (ceSendWin e)\<rparr>)"
  by (cases "ceSendWin e") (simp_all add: live_def Release_def)

lemma ctrl_wf_live: "ctrl_wf h \<Longrightarrow> (i, r) \<in> set (chConns h) \<Longrightarrow> live (chHeap h ! r)"
  by (force simp: ctrl_wf_def)

lemma ctrl_wf_WindowRelease: "ctrl_wf h \<Longrightarrow> ctrl_wf (WindowRelease i d h)"
  by (auto simp: WindowRelease_def live_release ctrl_wf_live intro!: ctrl_wf_upd split: option.split)

lemma live_sink [simp]: "live (e\<lparr>ceSink := q\<rparr>) = live e" "live (e\<lparr>ceRecvPending := n\<rparr>) = live e"
  by (simp_all add: live_def)

lemma ctrl_wf_Downlink: "ctrl_wf h \<Longrightarrow> Downlink lose i p h = Some (b, h') \<Longrightarrow> ctrl_wf h'"
  by (auto simp: Downlink_def Let_def ctrl_wf_live intro!: ctrl_wf_upd split: option.splits if_splits)

lemma ctrl_wf_DeliverConnAck: "ctrl_wf h \<Longrightarrow> ctrl_wf (DeliverConnAck ack h)"
  by (simp add: DeliverConnAck_def Let_def split: option.split)

lemma ctrl_wf_ReleaseRecv: "ctrl_wf h \<Longrightarrow> ctrl_wf (ReleaseRecv r n h)"
  by (auto simp: ReleaseRecv_def Let_def ctrl_wf_live intro!: ctrl_wf_upd)

text \<open>Closing a list of entries.\<close>

lemma fold_close:
  "chConns (fold (\<lambda>(i, r). upd_entry r ConnEntry_close) cl h) = chConns h"
  "chStreams (fold (\<lambda>(i, r). upd_entry r ConnEntry_close) cl h) = chStreams h"
  "chConnSeq (fold (\<lambda>(i, r). upd_entry r ConnEntry_close) cl h) = chConnSeq h"
  "length (chHeap (fold (\<lambda>(i, r). upd_entry r ConnEntry_close) cl h)) = length (chHeap h)"
  "q \<notin> snd ` set cl \<Longrightarrow> chHeap (fold (\<lambda>(i, r). upd_entry r ConnEntry_close) cl h) ! q = chHeap h ! q"
  by (induction cl arbitrary: h) (auto simp: upd_entry_other)

lemma fold_close_done:
  "q < length (chHeap h) \<Longrightarrow> q \<in> snd ` set cl \<or> ceDone (chHeap h ! q) \<Longrightarrow>
     ceDone (chHeap (fold (\<lambda>(i, r). upd_entry r ConnEntry_close) cl h) ! q)"
proof (induction cl arbitrary: h)
  case Nil
  then show ?case by simp
next
  case (Cons ir cl)
  obtain i r where ir: "ir = (i, r)" by force
  have "q \<in> snd ` set cl \<or> ceDone (chHeap (upd_entry r ConnEntry_close h) ! q)"
    using Cons.prems by (auto simp: ir upd_entry_nth ConnEntry_close_def)
  with Cons.IH [of "upd_entry r ConnEntry_close h"] Cons.prems(1) show ?case by (simp add: ir)
qed

lemma CloseConnsByClient_conns:
  "chConns (fst (CloseConnsByClient c h)) = filter (\<lambda>(i, r). \<not> owned_conn c h r) (chConns h)"
  "chStreams (fst (CloseConnsByClient c h)) = chStreams h"
  "chConnSeq (fst (CloseConnsByClient c h)) = chConnSeq h"
  by (simp_all add: CloseConnsByClient_def Let_def fold_close)

lemma CloseConnsByClient_heap:
  assumes "ctrl_wf h" "(i, r) \<in> set (chConns h)"
  shows "if owned_conn c h r then ceDone (chHeap (fst (CloseConnsByClient c h)) ! r)
         else chHeap (fst (CloseConnsByClient c h)) ! r = chHeap h ! r"
proof (cases "owned_conn c h r")
  case True
  have "r < length (chHeap h)" using assms by (auto simp: ctrl_wf_def)
  moreover have "r \<in> snd ` set (filter (\<lambda>(i, r). owned_conn c h r) (chConns h))"
    using assms(2) True by force
  ultimately show ?thesis
    using True by (simp add: CloseConnsByClient_def Let_def fold_close_done)
next
  case False
  then have "r \<notin> snd ` set (filter (\<lambda>(i, r). owned_conn c h r) (chConns h))" by auto
  with False show ?thesis by (simp add: CloseConnsByClient_def Let_def fold_close)
qed

lemma ctrl_wf_CloseConnsByClient:
  assumes "ctrl_wf h"
  shows "ctrl_wf (fst (CloseConnsByClient c h))"
proof -
  let ?h = "fst (CloseConnsByClient c h)"
  have "length (chHeap ?h) = length (chHeap h)" by (simp add: CloseConnsByClient_def Let_def fold_close)
  moreover have "chHeap ?h ! r = chHeap h ! r" if "(i, r) \<in> set (chConns ?h)" for i r
    using that CloseConnsByClient_heap [OF assms, of i r c] by (auto simp: CloseConnsByClient_conns)
  moreover have "ctrl_wf (h\<lparr>chConns := chConns ?h\<rparr>)"
    using ctrl_wf_sub [OF assms] by (simp add: CloseConnsByClient_conns)
  ultimately show ?thesis
    by (fastforce simp: ctrl_wf_def CloseConnsByClient_conns)
qed

section \<open>Reachable hubs\<close>

text \<open>
  \<open>ctrl_run n h\<close>: operations of the hub, of its stream table, of the pumps and of the sessions
  lead to \<open>h\<close>, with \<open>n\<close> connection ids given out.
\<close>

inductive ctrl_run :: "nat \<Rightarrow> CtrlHub \<Rightarrow> bool" where
  c_new: "ctrl_run 0 (NewCtrlHub sess)"
| c_open: "ctrl_run n h \<Longrightarrow> OpenConn_send now st h = (x, h') \<Longrightarrow> ctrl_run (Suc n) h'"
| c_opened: "ctrl_run n h \<Longrightarrow> ceConnID (chHeap h ! r) = i \<Longrightarrow> OpenConn_wait i r ack h = (x, h') \<Longrightarrow> ctrl_run n h'"
| c_window: "ctrl_run n h \<Longrightarrow> ctrl_run n (WindowRelease i d h)"
| c_data: "ctrl_run n h \<Longrightarrow> Downlink lose i p h = Some (b, h') \<Longrightarrow> ctrl_run n h'"
| c_ack: "ctrl_run n h \<Longrightarrow> ctrl_run n (DeliverConnAck ack h)"
| c_half: "ctrl_run n h \<Longrightarrow> ctrl_run n (snd (ClientClosed i h))"
| c_close: "ctrl_run n h \<Longrightarrow> ctrl_run n (snd (CloseConn i tell h))"
| c_gone: "ctrl_run n h \<Longrightarrow> ctrl_run n (fst (CloseConnsByClient c h))"
| c_recv: "ctrl_run n h \<Longrightarrow> ctrl_run n (ReleaseRecv r k h)"
| c_acquire: "ctrl_run n h \<Longrightarrow> ctrl_run n (upd_entry r (\<lambda>e. snd (AcquireSend k ch e)) h)"
| c_pump: "ctrl_run n h \<Longrightarrow> ctrl_run n (upd_entry r (\<lambda>e. e\<lparr>ceSink := tl (ceSink e)\<rparr>) h)"
| c_streams: "ctrl_run n h \<Longrightarrow> ctrl_run n (h\<lparr>chStreams := t\<rparr>)"
| c_sess: "ctrl_run n h \<Longrightarrow> ctrl_run n (h\<lparr>chSess := s\<rparr>)"

lemma acquire_turn_open: "\<not> wClosed w \<Longrightarrow> \<not> wClosed (snd (acquire_turn n ch w))"
  by (simp add: acquire_turn_def Let_def)

lemma AcquireSend_live:
  "live e \<Longrightarrow> live (snd (AcquireSend k ch e))" "ceConnID (snd (AcquireSend k ch e)) = ceConnID e"
proof -
  show "ceConnID (snd (AcquireSend k ch e)) = ceConnID e"
    by (cases "ceSendWin e") (simp_all add: AcquireSend_def split: prod.split)
  show "live e \<Longrightarrow> live (snd (AcquireSend k ch e))"
  proof (cases "ceSendWin e")
    case (Some w)
    assume "live e"
    then show ?thesis using acquire_turn_open [of w "int k" ch] Some
      by (cases "acquire_turn (int k) ch w") (simp add: AcquireSend_def live_def)
  qed (simp add: AcquireSend_def)
qed

lemma seq_frame [simp]:
  "chConnSeq (WindowRelease i d h) = chConnSeq h" "chConnSeq (DeliverConnAck ack h) = chConnSeq h"
  "chConnSeq (snd (ClientClosed i h)) = chConnSeq h" "chConnSeq (snd (CloseConn i tell h)) = chConnSeq h"
  "chConnSeq (ReleaseRecv r k h) = chConnSeq h" "chConnSeq (removeConn i h) = chConnSeq h"
  "chConnSeq (conn_fail i r h) = chConnSeq h"
  by (simp_all add: WindowRelease_def DeliverConnAck_def ClientClosed_def CloseConn_def ReleaseRecv_def
      removeConn_def conn_fail_def Let_def split: option.split)

lemma seq_Downlink: "Downlink lose i p h = Some (b, h') \<Longrightarrow> chConnSeq h' = chConnSeq h"
  by (auto simp: Downlink_def Let_def split: option.splits if_splits)

lemma seq_wait: "OpenConn_wait i r ack h = (x, h') \<Longrightarrow> chConnSeq h' = chConnSeq h"
  by (auto simp: OpenConn_wait_def split: option.splits if_splits)

lemma ctrl_run_wf:
  "ctrl_run n h \<Longrightarrow> n < 2 ^ 32 \<Longrightarrow> ctrl_wf h \<and> chConnSeq h = word_of_nat n"
proof (induction rule: ctrl_run.induct)
  case (c_open n h now st x h')
  then have "chConnSeq h \<noteq> - 1" using of_nat_u32_neq [of n] by simp
  with c_open ctrl_wf_OpenConn_send [of h now st x h'] show ?case by simp
next
  case (c_acquire n h r k ch)
  then show ?case by (auto simp: AcquireSend_live ctrl_wf_live intro!: ctrl_wf_upd)
next
  case (c_pump n h r)
  then show ?case by (auto simp: ctrl_wf_live intro!: ctrl_wf_upd)
next
  case (c_data n h lose i p b h')
  then show ?case by (auto simp: seq_Downlink intro: ctrl_wf_Downlink)
next
  case (c_opened n h r i ack x h')
  then show ?case using ctrl_wf_OpenConn_wait [of h r i ack x h'] seq_wait [of i r ack h x h'] by simp
qed (simp_all add: ctrl_wf_New ctrl_wf_WindowRelease ctrl_wf_DeliverConnAck ctrl_wf_ClientClosed
    ctrl_wf_CloseConn ctrl_wf_CloseConnsByClient ctrl_wf_ReleaseRecv CloseConnsByClient_conns NewCtrlHub_def
    ctrl_wf_def [of "NewCtrlHub _", unfolded NewCtrlHub_def])

section \<open>Properties\<close>


text \<open>A stream entry and a hub with one open connection on it.\<close>

definition demo_stream :: StreamEntry where
  "demo_stream = \<lparr>seAssignID = 1, seClientProxyName = ''home'', seStreamId = ''ssh'', seClient = 1,
     seSince = 5, seCell = 0\<rparr>"

definition demo_ctrl :: CtrlHub where
  "demo_ctrl = snd (OpenConn_send 9 demo_stream ((NewCtrlHub (\<lambda>_. NewSession []))\<lparr>chStreams := demo_table\<rparr>))"

lemma demo_ctrl_run: "ctrl_run 1 demo_ctrl"
  unfolding demo_ctrl_def using c_open [OF c_streams [OF c_new]] by (metis One_nat_def prod.collapse)

lemma demo_fits: "fits (mk_msg MsgConnOpen a (bytes_of_string (ConnOpenReq_json \<lparr>orStreamID = x, orConnID = y\<rparr>)))"
proof -
  have "fits (control_message MsgConnOpen (ConnOpenReq_json \<lparr>orStreamID = x, orConnID = y\<rparr>))"
    unfolding ConnOpenReq_json_def
    using length_print_u32 [of x] length_print_u32 [of y] by (intro fits_object) (simp add: MaxPayloadSize_def)
  then show ?thesis by (simp add: fits_def mk_msg_def)
qed

lemma demo_ctrl_conns: "chConns demo_ctrl = [(1, 0)]" "chHeap demo_ctrl = [new_entry 1 9 demo_stream]"
  "chStreams demo_ctrl = demo_table"
  using demo_fits
  by (simp_all add: demo_ctrl_def OpenConn_send_def Let_def NewCtrlHub_def hub_send_def demo_stream_def
      writable_def NewSession_def)


text \<open>
  Data from a client reaches the right external connection, in order. \<^verbatim>\<open>Downlink\<close> of a
  registered id appends the payload at the end of that connection's queue (it waits when
  the queue of 256 is full, and never drops), adds its length to the outgoing counter of
  the connection's stream and changes nothing else; for an unknown id it returns false
  and changes nothing.
\<close>

theorem downlink_ordered:
  assumes "ctrl_run n h" "n < 2 ^ 32"
  shows "case map_of (chConns h) i of
      None \<Rightarrow> Downlink lose i p h = Some (False, h)
    | Some r \<Rightarrow>
        (if length (ceSink (chHeap h ! r)) < downlinkQueue then
           Downlink lose i p h = Some (True,
             h\<lparr>chStreams := (case ceStream (chHeap h ! r) of
                               Some st \<Rightarrow> add_out_bytes st (length p) (chStreams h)
                             | None \<Rightarrow> chStreams h),
               chHeap := (chHeap h)[r := (chHeap h ! r)\<lparr>ceSink := ceSink (chHeap h ! r) @ [p]\<rparr>]\<rparr>)
         else Downlink lose i p h = None)"
proof (cases "map_of (chConns h) i")
  case None
  then show ?thesis by (simp add: Downlink_def)
next
  case (Some r)
  have "ctrl_wf h" using ctrl_run_wf [OF assms] by simp
  then have "\<not> ceDone (chHeap h ! r)" using ctrl_wfD(3) [OF _ Some] by (simp add: live_def)
  with Some show ?thesis
    by (simp add: Downlink_def Let_def upd_entry_def split: option.split)
qed

theorem downlink_ordered_witness:
  "\<exists>h'. Downlink False 1 [7] demo_ctrl = Some (True, h') \<and> ceSink (chHeap h' ! 0) = [[7]]"
  using downlink_ordered [OF demo_ctrl_run, where i = 1 and lose = False and p = "[7]"]
  by (simp add: demo_ctrl_conns downlinkQueue_def new_entry_def)

text \<open>
  A disconnect closes the client's connections. \<^verbatim>\<open>CloseConnsByClient\<close> unregisters and marks
  done exactly the connections whose stream is registered and belongs to the session,
  returns their number, and leaves every other connection registered and untouched.
\<close>

theorem close_conns_by_client:
  assumes "ctrl_run n h" "n < 2 ^ 32" "CloseConnsByClient c h = (h', k)"
  shows "(map_of (chConns h') i = Some r \<longleftrightarrow> map_of (chConns h) i = Some r \<and> \<not> owned_conn c h r)
     \<and> (map_of (chConns h) i = Some r \<longrightarrow>
          (if owned_conn c h r then ceDone (chHeap h' ! r) else chHeap h' ! r = chHeap h ! r))
     \<and> k + ConnCount h' = ConnCount h"
proof -
  have wf: "ctrl_wf h" using ctrl_run_wf [OF assms(1,2)] by simp
  have h': "h' = fst (CloseConnsByClient c h)" using assms(3) by simp
  have dist: "distinct (map fst (chConns h))" "distinct (map fst (chConns h'))"
    using wf ctrl_wf_CloseConnsByClient [OF wf] by (simp_all add: ctrl_wf_def h')
  have k: "k = length (filter (\<lambda>(i, r). owned_conn c h r) (chConns h))"
    using assms(3) by (simp add: CloseConnsByClient_def Let_def)
  have "k + length (chConns h') = length (chConns h)"
    using sum_length_filter_compl [of "\<lambda>(i, r). owned_conn c h r" "chConns h"]
    by (simp add: k h' CloseConnsByClient_conns case_prod_unfold)
  moreover have "map_of (chConns h') i = Some r \<longleftrightarrow> map_of (chConns h) i = Some r \<and> \<not> owned_conn c h r"
    using dist by (auto simp: map_of_eq_Some_iff) (auto simp: h' CloseConnsByClient_conns)
  moreover have "map_of (chConns h) i = Some r \<Longrightarrow>
      if owned_conn c h r then ceDone (chHeap h' ! r) else chHeap h' ! r = chHeap h ! r"
    using CloseConnsByClient_heap [OF wf] h' by (auto dest!: map_of_SomeD)
  ultimately show ?thesis by (simp add: ConnCount_def)
qed

theorem close_conns_by_client_witness:
  "\<exists>h'. CloseConnsByClient 1 demo_ctrl = (h', 1) \<and> map_of (chConns h') 1 = None \<and> ceDone (chHeap h' ! 0)"
proof -
  obtain h' k where c: "CloseConnsByClient 1 demo_ctrl = (h', k)" by force
  have own: "owned_conn 1 demo_ctrl 0"
    by (simp add: owned_conn_def demo_ctrl_conns new_entry_def demo_stream_def Get_def demo_table_def
        Assign_def NewStreamTable_def Let_def)
  note cl = close_conns_by_client [OF demo_ctrl_run _ c]
  have "map_of (chConns h') 1 = Some q \<Longrightarrow> False" for q
    using cl [of 1 q] own by (auto simp: demo_ctrl_conns)
  then have "map_of (chConns h') 1 = None" by (cases "map_of (chConns h') 1") auto
  moreover have "ceDone (chHeap h' ! 0)" using cl [of 1 0] own by (simp add: demo_ctrl_conns)
  moreover have "k = 1" using c own by (simp add: CloseConnsByClient_def Let_def demo_ctrl_conns)
  ultimately show ?thesis using c by simp
qed

text \<open>
  A stream that its client unregisters first takes its connections out of reach of the
  cleanup: after the stream is removed, the disconnect leaves the connection registered.
\<close>

lemma removed_stream_leaks_conn:
  "HasConn 1 (fst (CloseConnsByClient 1 (demo_ctrl\<lparr>chStreams := Remove 1 (chStreams demo_ctrl)\<rparr>)))"
  by (simp add: HasConn_def CloseConnsByClient_conns owned_conn_def demo_ctrl_conns new_entry_def
      demo_stream_def Get_def map_of_Remove)

text \<open>
  Receive credit is batched. \<^verbatim>\<open>ReleaseRecv\<close> of at most a batch of 64 KiB sends one window
  update exactly when the pending bytes reach a batch, keeps the remainder below a batch
  and loses no byte; the update it sends has an empty payload, which the receiving side's
  \<^verbatim>\<open>DecodeControl\<close> refuses.
\<close>

theorem release_recv_batches:
  assumes "r < length (chHeap h)" "0 \<le> ceRecvPending (chHeap h ! r)"
    "ceRecvPending (chHeap h ! r) < releaseBatch" "int n \<le> releaseBatch"
    "writable (chSess h (ceClient (chHeap h ! r)))"
  shows "\<exists>sent. let e = chHeap h ! r; e' = chHeap (ReleaseRecv r n h) ! r in
     0 \<le> ceRecvPending e' \<and> ceRecvPending e' < releaseBatch
     \<and> ceRecvPending e' + releaseBatch * int (length sent) = ceRecvPending e + int n
     \<and> length sent \<le> 1
     \<and> sOut (chSess (ReleaseRecv r n h) (ceClient e)) = sOut (chSess h (ceClient e)) @ concat (map frame_of sent)
     \<and> list_all (\<lambda>m. mType m = MsgWindowUpdate \<and> mStreamID m = ceConnID e
           \<and> DecodeControl WindowUpdate_parse m = Inl (EmptyPayload MsgWindowUpdate)) sent"
proof (cases "ceRecvPending (chHeap h ! r) + int n < releaseBatch")
  case True
  then show ?thesis
    using assms by (intro exI [of _ "[]"]) (simp add: ReleaseRecv_def Let_def upd_entry_nth)
next
  case False
  let ?e = "chHeap h ! r"
  let ?m = "mk_msg MsgWindowUpdate (ceConnID ?e) []"
  have fit: "fits ?m" by (simp add: fits_def mk_msg_def)
  have "mType ?m = MsgWindowUpdate \<and> mStreamID ?m = ceConnID ?e
      \<and> DecodeControl WindowUpdate_parse ?m = Inl (EmptyPayload MsgWindowUpdate)"
    by (simp add: mk_msg_def DecodeControl_def)
  with False fit show ?thesis
    using assms
    by (intro exI [of _ "[?m]"])
      (simp add: ReleaseRecv_def Let_def upd_entry_nth releaseBatch_def, simp add: hub_send_def)
qed

theorem release_recv_batches_witness:
  "ceRecvPending (chHeap (ReleaseRecv 0 10 demo_ctrl) ! 0) < releaseBatch"
proof -
  have "writable (chSess demo_ctrl 1)"
    using demo_fits
    by (simp add: demo_ctrl_def OpenConn_send_def Let_def NewCtrlHub_def hub_send_def demo_stream_def
        writable_def NewSession_def)
  then show ?thesis
    using release_recv_batches [of 0 demo_ctrl 10]
    by (auto simp: demo_ctrl_conns new_entry_def releaseBatch_def demo_stream_def Let_def)
qed

end
