(* ===== verification/CtrlProxy.thy ===== *)
theory CtrlProxy
  imports CtrlHub
begin

text \<open>
  The control listener, \<^verbatim>\<open>internal/handler/star/ctrlproxy.go\<close>, with the configuration structs it
  reads (\<^verbatim>\<open>config/star.go\<close>). \<^verbatim>\<open>handleConn\<close> is split at its blocking points: \<open>ctrl_accept\<close> is the
  handshake and the registration of the client, \<open>ctrl_dispatch\<close> one turn of the read loop,
  \<open>ctrl_disconnect\<close> the deferred cleanup. Sessions are named by references; the server
  keeps, for each, the \<^verbatim>\<open>StreamHub\<close> of the connections its client dialled.
\<close>

section \<open>Configuration structs\<close>

record ClientProxy =
  cpClientProxyName :: string
  cpStreamId :: string
  cpAddr :: string
  cpTransport :: string
  cpKeyPassword :: string

record ConnectItem =
  ciProxyName :: string
  ciBridgeName :: string
  ciClientProxyName :: string
  ciStreamId :: string

record Settings =
  setCtrlProxyName :: string
  setProxyName :: string
  setKeyPassword :: string
  setAdminPassword :: string
  setTLS :: bool
  setCertFile :: string
  setKeyFile :: string
  setTarget :: string
  setInCodec :: string
  setConnect :: "ConnectItem list"
  setClientProxy :: "ClientProxy list"
  setDNSZones :: "(string \<times> (string \<times> string) list) list"
  setDNSUpstreams :: "string list"

definition no_settings :: Settings where
  "no_settings = \<lparr>setCtrlProxyName = [], setProxyName = [], setKeyPassword = [], setAdminPassword = [],
     setTLS = False, setCertFile = [], setKeyFile = [], setTarget = [], setInCodec = [], setConnect = [],
     setClientProxy = [], setDNSZones = [], setDNSUpstreams = []\<rparr>"

section \<open>State\<close>

record clientInfo =
  ciName :: string
  ciIdentity :: string
  ciRemote :: string
  ciSince :: nat

record ClientInfo =
  infoName :: string
  infoIdentity :: string
  infoRemote :: string
  infoSince :: nat
  infoStreams :: nat

record CtrlProxyServer =
  psSettings :: Settings
  psHub :: CtrlHub
  psClients :: "(sess_ref \<times> clientInfo) list"
  psFeeds :: "sess_ref \<Rightarrow> StreamHub"

definition NewCtrlProxyServer :: "Settings \<Rightarrow> CtrlHub \<Rightarrow> CtrlProxyServer" where
  "NewCtrlProxyServer st hub =
     \<lparr>psSettings = st, psHub = hub, psClients = [], psFeeds = (\<lambda>_. NewStreamHub False)\<rparr>"

section \<open>Credentials and administration\<close>

fun client_creds :: "ClientProxy list \<Rightarrow> (string \<times> string) list \<Rightarrow> (string \<times> string) list" where
  "client_creds [] m = m"
| "client_creds (cp # cps) m =
     client_creds cps (if cpKeyPassword cp \<noteq> [] then AList.update (cpKeyPassword cp) (cpClientProxyName cp) m else m)"

definition creds :: "Settings \<Rightarrow> (string \<times> string) list" where
  "creds st =
     (let m = client_creds (setClientProxy st) [] in
      if setKeyPassword st \<noteq> [] then AList.update (setKeyPassword st) [] m else m)"

definition ClientProxies :: "CtrlProxyServer \<Rightarrow> ClientProxy list" where
  "ClientProxies s = setClientProxy (psSettings s)"

definition same_client_proxy :: "string \<Rightarrow> string \<Rightarrow> ClientProxy \<Rightarrow> bool" where
  "same_client_proxy name sid cp \<longleftrightarrow> cpClientProxyName cp = name \<and> cpStreamId cp = sid"

definition AddClientProxy :: "ClientProxy \<Rightarrow> CtrlProxyServer \<Rightarrow> bool \<times> CtrlProxyServer" where
  "AddClientProxy cp s =
     (let l = setClientProxy (psSettings s) in
      if list_ex (same_client_proxy (cpClientProxyName cp) (cpStreamId cp)) l then (False, s)
      else (True, s\<lparr>psSettings := (psSettings s)\<lparr>setClientProxy := l @ [cp]\<rparr>\<rparr>))"

fun remove_first :: "('a \<Rightarrow> bool) \<Rightarrow> 'a list \<Rightarrow> bool \<times> 'a list" where
  "remove_first p [] = (False, [])"
| "remove_first p (x # xs) =
     (if p x then (True, xs) else let (b, ys) = remove_first p xs in (b, x # ys))"

definition RemoveClientProxy :: "string \<Rightarrow> string \<Rightarrow> CtrlProxyServer \<Rightarrow> bool \<times> CtrlProxyServer" where
  "RemoveClientProxy name sid s =
     (let (b, l) = remove_first (same_client_proxy name sid) (setClientProxy (psSettings s)) in
      if b then (True, s\<lparr>psSettings := (psSettings s)\<lparr>setClientProxy := l\<rparr>\<rparr>) else (False, s))"

definition Clients :: "CtrlProxyServer \<Rightarrow> ClientInfo list" where
  "Clients s =
     map (\<lambda>(c, i). \<lparr>infoName = ciName i, infoIdentity = ciIdentity i, infoRemote = ciRemote i, infoSince = ciSince i,
                    infoStreams = length (FindByClientProxy (ciIdentity i) (chStreams (psHub s)))\<rparr>) (psClients s)"

definition close_session :: "sess_ref \<Rightarrow> CtrlHub \<Rightarrow> CtrlHub" where
  "close_session c h = h\<lparr>chSess := (chSess h)(c := Session_Close (chSess h c))\<rparr>"

definition Kick :: "string \<Rightarrow> CtrlProxyServer \<Rightarrow> nat \<times> CtrlProxyServer" where
  "Kick name s =
     (let targets = map fst (filter (\<lambda>(c, i). ciIdentity i = name) (psClients s)) in
      (length targets, s\<lparr>psHub := fold close_session targets (psHub s)\<rparr>))"

section \<open>Sessions\<close>

text \<open>Go's \<^verbatim>\<open>%q\<close> for ASCII text; bytes from 0x80 on are passed through.\<close>

definition quote_char :: "char \<Rightarrow> string" where
  "quote_char c =
     (if c = ch_quote \<or> c = ch_bslash then [ch_bslash, c]
      else if c = CHR 0x07 then [ch_bslash, CHR ''a'']
      else if c = CHR 0x08 then [ch_bslash, CHR ''b'']
      else if c = CHR 0x0C then [ch_bslash, CHR ''f'']
      else if c = CHR 0x0A then [ch_bslash, CHR ''n'']
      else if c = CHR 0x0D then [ch_bslash, CHR ''r'']
      else if c = CHR 0x09 then [ch_bslash, CHR ''t'']
      else if c = CHR 0x0B then [ch_bslash, CHR ''v'']
      else if (of_char c :: nat) < 32 \<or> c = CHR 0x7F
      then [ch_bslash, CHR ''x'', hexd (of_char c div 16), hexd (of_char c mod 16)]
      else [c])"

definition go_quote :: "string \<Rightarrow> string" where
  "go_quote s = ch_quote # concat (map quote_char s) @ [ch_quote]"

definition not_allowed :: "string \<Rightarrow> string" where
  "not_allowed name = ''clientProxyName '' @ go_quote name @ '' not allowed for this credential''"

definition verify_creds :: "Settings \<Rightarrow> HandshakeReq \<Rightarrow> bool" where
  "verify_creds st r = (map_of (creds st) (hrKeyPassword r) \<noteq> None)"

definition ctrl_accept :: "sess_ref \<Rightarrow> string \<Rightarrow> nat \<Rightarrow> CtrlProxyServer \<Rightarrow> bool \<times> CtrlProxyServer" where
  "ctrl_accept c remote now s =
     (let h = psHub s; (r, se) = ServerHandshakeVerify (chSess h c) (Some (verify_creds (psSettings s))) in
      case r of
        Inl e \<Rightarrow> (False, s\<lparr>psHub := h\<lparr>chSess := (chSess h)(c := Session_Close se)\<rparr>\<rparr>)
      | Inr req \<Rightarrow>
          (let identity = the (map_of (creds (psSettings s)) (hrKeyPassword req));
               info = \<lparr>ciName = hrClientName req, ciIdentity = identity, ciRemote = remote, ciSince = now\<rparr> in
           (True, s\<lparr>psHub := h\<lparr>chSess := (chSess h)(c := se)\<rparr>,
                    psClients := AList.update c info (psClients s),
                    psFeeds := (psFeeds s)(c := NewStreamHub False)\<rparr>)))"

definition assign_for ::
    "string \<Rightarrow> nat \<Rightarrow> sess_ref \<Rightarrow> RegisterStreamReq \<Rightarrow> StreamTable \<Rightarrow> (string + u32) \<times> StreamTable" where
  "assign_for identity now c r t =
     (if identity \<noteq> [] \<and> rrClientProxyName r \<noteq> identity
      then (Inl (not_allowed (rrClientProxyName r)), t)
      else Assign now c r t)"

definition send_on :: "sess_ref \<Rightarrow> Message \<Rightarrow> CtrlProxyServer \<Rightarrow> CtrlProxyServer" where
  "send_on c m s = s\<lparr>psHub := snd (hub_send c m (psHub s))\<rparr>"

definition client_ack :: "u32 \<Rightarrow> bool \<Rightarrow> string \<Rightarrow> Message" where
  "client_ack i b reason =
     control_message MsgClientConnAck (ClientConnAck_json \<lparr>caConnID = i, caOK = b, caMessage = reason\<rparr>)"

text \<open>
  \<^verbatim>\<open>handleClientConnReq\<close> up to the goroutine it starts: the new server state and, when the
  request is accepted, the target to dial and the reference of the stream connection.
\<close>

definition handleClientConnReq ::
    "sess_ref \<Rightarrow> string \<Rightarrow> Message \<Rightarrow> CtrlProxyServer \<Rightarrow> (string \<times> ref) option \<times> CtrlProxyServer" where
  "handleClientConnReq c identity msg s =
     (case DecodeControl ClientConnReq_parse msg of
        Inl e \<Rightarrow> (None, s)
      | Inr creq \<Rightarrow>
          (let fail = (\<lambda>reason. (None, send_on c (client_ack (crConnID creq) False reason) s));
               name = crClientProxyName creq; sid = crStreamId creq in
           if identity \<noteq> [] \<and> name \<noteq> identity then fail (not_allowed name)
           else if GetByName name sid (chStreams (psHub s)) = None
           then fail (''unknown stream '' @ name @ ''/'' @ sid)
           else let target = (case find (same_client_proxy name sid) (setClientProxy (psSettings s)) of
                                Some cp \<Rightarrow> cpAddr cp | None \<Rightarrow> []) in
             if target = [] then fail ''stream has no target address''
             else case NewStreamConn (crConnID creq) (psFeeds s c) of
               (None, f) \<Rightarrow> fail ''session closing''
             | (Some r, f) \<Rightarrow>
                 (Some (target, r),
                  send_on c (client_ack (crConnID creq) True []) (s\<lparr>psFeeds := (psFeeds s)(c := f)\<rparr>))))"

text \<open>The part of the dispatch that the hub handles, once the feed did not consume the frame.\<close>

definition dispatch_hub ::
    "bool \<Rightarrow> nat \<Rightarrow> sess_ref \<Rightarrow> string \<Rightarrow> Message \<Rightarrow> CtrlProxyServer \<Rightarrow> CtrlProxyServer option" where
  "dispatch_hub lose now c identity msg s =
     (let h = psHub s; t = mType msg; setH = (\<lambda>h'. s\<lparr>psHub := h'\<rparr>) in
      if t = MsgRegisterStream then
        (let (r, se, tbl) = ServerRegisterStream (chSess h c) msg (chStreams h) (Some (assign_for identity now c)) in
         Some (setH (h\<lparr>chSess := (chSess h)(c := se), chStreams := tbl\<rparr>)))
      else if t = MsgConnOpenAck then
        (case DecodeControl ConnOpenAck_parse msg of
           Inl e \<Rightarrow> Some s
         | Inr ack \<Rightarrow> Some (setH (DeliverConnAck ack h)))
      else if t = MsgPing then
        Some (send_on c (mk_msg MsgPong (mStreamID msg) (mPayload msg)) s)
      else if t = MsgData then
        map_option (\<lambda>(b, h'). setH h') (Downlink lose (mStreamID msg) (mPayload msg) h)
      else if t = MsgStreamClose then
        (if \<not> IsHalfClose msg then
           (if HasConn (mStreamID msg) h then Some (setH (snd (CloseConn (mStreamID msg) False h)))
            else Some (setH (h\<lparr>chStreams := Remove (mStreamID msg) (chStreams h)\<rparr>)))
         else Some (setH (snd (ClientClosed (mStreamID msg) h))))
      else if t = MsgWindowUpdate then
        (case DecodeControl WindowUpdate_parse msg of
           Inl e \<Rightarrow> Some s
         | Inr wu \<Rightarrow> Some (setH (WindowRelease (wuConnID wu) (wuDelta wu) h)))
      else if t = MsgClientConnReq then Some (snd (handleClientConnReq c identity msg s))
      else Some s)"

definition ctrl_dispatch ::
    "bool \<Rightarrow> nat \<Rightarrow> sess_ref \<Rightarrow> string \<Rightarrow> Message \<Rightarrow> CtrlProxyServer \<Rightarrow> CtrlProxyServer option" where
  "ctrl_dispatch lose now c identity msg s =
     (if mType msg = MsgData \<or> mType msg = MsgStreamClose then
        (case Feed lose msg (psFeeds s c) of
           None \<Rightarrow> None
         | Some (True, f) \<Rightarrow> Some (s\<lparr>psFeeds := (psFeeds s)(c := f)\<rparr>)
         | Some (False, f) \<Rightarrow> dispatch_hub lose now c identity msg (s\<lparr>psFeeds := (psFeeds s)(c := f)\<rparr>))
      else dispatch_hub lose now c identity msg s)"

definition ctrl_disconnect :: "sess_ref \<Rightarrow> CtrlProxyServer \<Rightarrow> CtrlProxyServer" where
  "ctrl_disconnect c s =
     (let h1 = fst (CloseConnsByClient c (psHub s));
          h2 = h1\<lparr>chStreams := fst (RemoveByClient c (chStreams h1))\<rparr> in
      s\<lparr>psClients := AList.delete c (psClients s), psHub := close_session c h2,
        psFeeds := (psFeeds s)(c := SessionClosed (psFeeds s c))\<rparr>)"

section \<open>Reachable servers\<close>

text \<open>What the proxy listeners and the pumps do with the hub.\<close>

inductive proxy_op :: "CtrlHub \<Rightarrow> CtrlHub \<Rightarrow> bool" where
  o_open: "OpenConn_send now st h = (x, h') \<Longrightarrow> proxy_op h h'"
| o_opened: "ceConnID (chHeap h ! r) = i \<Longrightarrow> OpenConn_wait i r ack h = (x, h') \<Longrightarrow> proxy_op h h'"
| o_close: "proxy_op h (snd (CloseConn i tell h))"
| o_recv: "proxy_op h (ReleaseRecv r k h)"
| o_acquire: "proxy_op h (upd_entry r (\<lambda>e. snd (AcquireSend k ch e)) h)"
| o_pump: "proxy_op h (upd_entry r (\<lambda>e. e\<lparr>ceSink := tl (ceSink e)\<rparr>) h)"
| o_send: "proxy_op h (snd (hub_send c m h))"
| o_count: "proxy_op h (h\<lparr>chStreams := add_in_bytes st n (chStreams h)\<rparr>)"

text \<open>
  \<open>cp_run auth k s\<close>: after \<open>k\<close> steps of sessions, administrators and proxies the server is in
  state \<open>s\<close>; \<open>auth\<close> records the identity that each session obtained in its handshake.
\<close>

inductive cp_run :: "(sess_ref \<rightharpoonup> string) \<Rightarrow> nat \<Rightarrow> CtrlProxyServer \<Rightarrow> bool" where
  p_new: "cp_run Map.empty 0 (NewCtrlProxyServer st (NewCtrlHub sess))"
| p_accept: "cp_run auth k s \<Longrightarrow> auth c = None \<Longrightarrow> ctrl_accept c remote now s = (True, s') \<Longrightarrow>
     map_of (psClients s') c = Some info \<Longrightarrow> cp_run (auth(c \<mapsto> ciIdentity info)) (Suc k) s'"
| p_refuse: "cp_run auth k s \<Longrightarrow> auth c = None \<Longrightarrow> ctrl_accept c remote now s = (False, s') \<Longrightarrow> cp_run auth (Suc k) s'"
| p_message: "cp_run auth k s \<Longrightarrow> map_of (psClients s) c = Some info \<Longrightarrow>
     ctrl_dispatch lose now c (ciIdentity info) msg s = Some s' \<Longrightarrow> cp_run auth (Suc k) s'"
| p_disconnect: "cp_run auth k s \<Longrightarrow> cp_run auth (Suc k) (ctrl_disconnect c s)"
| p_add: "cp_run auth k s \<Longrightarrow> cp_run auth (Suc k) (snd (AddClientProxy cp s))"
| p_remove: "cp_run auth k s \<Longrightarrow> cp_run auth (Suc k) (snd (RemoveClientProxy name sid s))"
| p_kick: "cp_run auth k s \<Longrightarrow> cp_run auth (Suc k) (snd (Kick name s))"
| p_proxy: "cp_run auth k s \<Longrightarrow> proxy_op (psHub s) h \<Longrightarrow> cp_run auth (Suc k) (s\<lparr>psHub := h\<rparr>)"

section \<open>Who may own a stream\<close>

definition allowed :: "(sess_ref \<rightharpoonup> string) \<Rightarrow> StreamEntry \<Rightarrow> bool" where
  "allowed auth e \<longleftrightarrow>
     (case auth (seClient e) of Some identity \<Rightarrow> identity = [] \<or> identity = seClientProxyName e | None \<Rightarrow> False)"

definition entries :: "StreamTable \<Rightarrow> StreamEntry set" where
  "entries t = snd ` set (byID t) \<union> snd ` set (byStreamID t)"

lemma set_update_sub: "snd ` set (AList.update k v al) \<subseteq> insert v (snd ` set al)"
  by (induction al) auto

lemma entries_Assign:
  "entries (snd (Assign now c req t)) \<subseteq> entries t \<union> {e. seClient e = c \<and> seClientProxyName e = rrClientProxyName req}"
proof (cases "map_of (byStreamID t) (streamKey (rrClientProxyName req) (rrStreamId req))")
  case (Some e)
  then show ?thesis by (simp add: Assign_def Let_def)
next
  case None
  define e where "e = \<lparr>seAssignID = stSeq t + 1, seClientProxyName = rrClientProxyName req,
      seStreamId = rrStreamId req, seClient = c, seSince = now, seCell = length (cells t)\<rparr>"
  have "entries (snd (Assign now c req t)) \<subseteq> insert e (entries t)"
    using None set_update_sub [of "stSeq t + 1" e "byID t"]
      set_update_sub [of "streamKey (rrClientProxyName req) (rrStreamId req)" e "byStreamID t"]
    unfolding entries_def Assign_def Let_def e_def [symmetric] by auto
  then show ?thesis by (auto simp: e_def)
qed

lemma entries_Remove: "entries (Remove i t) \<subseteq> entries t"
  by (auto simp: entries_def Remove_def AList.delete_eq split: option.splits)

lemma entries_remove_loop: "entries (fst (remove_loop c es t n)) \<subseteq> entries t"
proof (induction es arbitrary: t n)
  case Nil
  then show ?case by simp
next
  case (Cons p es)
  obtain i e where p: "p = (i, e)" by force
  let ?t = "t\<lparr>byID := AList.delete i (byID t), byStreamID := AList.delete (entry_key e) (byStreamID t)\<rparr>"
  have "entries ?t \<subseteq> entries t" by (auto simp: entries_def AList.delete_eq)
  with Cons.IH [of ?t "n + 1"] Cons.IH [of t n] show ?case by (auto simp: p)
qed

lemma entries_counters [simp]: "entries (add_out_bytes e n t) = entries t" "entries (add_in_bytes e n t) = entries t"
  by (simp_all add: entries_def add_out_bytes_def add_in_bytes_def)

lemma entries_Get: "Get i t = Some e \<Longrightarrow> e \<in> entries t" "GetByName p s t = Some e \<Longrightarrow> e \<in> entries t"
  by (force simp: Get_def GetByName_def entries_def dest!: map_of_SomeD)+

section \<open>The invariant\<close>

text \<open>
  The stream table after a step is the old one, or one operation away from it, and new
  entries belong to the session of the step under a name its identity allows.
\<close>

definition table_next :: "(sess_ref \<rightharpoonup> string) \<Rightarrow> StreamTable \<Rightarrow> StreamTable \<Rightarrow> bool" where
  "table_next auth t t' \<longleftrightarrow>
     (\<forall>n. table_run n t \<longrightarrow> table_run n t' \<or> table_run (Suc n) t')
     \<and> entries t' \<subseteq> entries t \<union> {e. allowed auth e}"

lemma table_next_refl [simp]: "table_next auth t t"
  by (simp add: table_next_def)

lemma table_next_assign:
  assumes "auth c = Some identity"
  shows "table_next auth t (snd (assign_for identity now c req t))"
proof (cases "identity \<noteq> [] \<and> rrClientProxyName req \<noteq> identity")
  case True
  then show ?thesis by (simp add: assign_for_def)
next
  case False
  have "entries (snd (Assign now c req t)) \<subseteq> entries t \<union> {e. allowed auth e}"
    using entries_Assign [of now c req t] False assms by (auto simp: allowed_def)
  moreover have "table_run n t \<Longrightarrow> table_run n (snd (Assign now c req t)) \<or> table_run (Suc n) (snd (Assign now c req t))" for n
    by (cases "Assign now c req t"; cases "fst (Assign now c req t)")
      (auto dest: run_assign run_refused)
  ultimately show ?thesis using False by (auto simp: table_next_def assign_for_def)
qed

lemma table_next_simple:
  "table_next auth t (Remove i t)" "table_next auth t (fst (RemoveByClient c t))"
  "table_next auth t (add_out_bytes e n t)" "table_next auth t (add_in_bytes e n t)"
  using entries_Remove [of i t] entries_remove_loop [of c "byID t" t 0]
  by (auto simp: table_next_def RemoveByClient_def intro: run_remove run_in run_out
      run_drop [unfolded RemoveByClient_def])

lemma ServerRegisterStream_table:
  assumes "ServerRegisterStream se msg t (Some f) = (r, se', t')" "mType msg = MsgRegisterStream"
    "DecodeControl RegisterStreamReq_parse msg = Inr req" "f req t = (x, t1)"
  shows "t' = t1"
  using assms
  by (cases x) (auto simp: ServerRegisterStream_def Let_def split: prod.splits sum.splits if_splits)

lemma table_next_register:
  assumes "auth c = Some identity"
    "ServerRegisterStream se msg t (Some (assign_for identity now c)) = (r, se', t')"
  shows "table_next auth t t'"
proof (cases "mType msg \<noteq> MsgRegisterStream")
  case True
  with assms(2) show ?thesis by (simp add: ServerRegisterStream_def)
next
  case ty: False
  show ?thesis
  proof (cases "DecodeControl RegisterStreamReq_parse msg")
    case (Inl e)
    with assms(2) ty show ?thesis by (simp add: ServerRegisterStream_def)
  next
    case (Inr req)
    obtain x t1 where a: "assign_for identity now c req t = (x, t1)" by force
    have "t' = t1" using ServerRegisterStream_table [OF assms(2) _ Inr a] ty by simp
    with table_next_assign [of auth c identity t now req, OF assms(1)] a show ?thesis by simp
  qed
qed

definition hub_next :: "CtrlHub \<Rightarrow> CtrlHub \<Rightarrow> bool" where
  "hub_next h h' \<longleftrightarrow> (\<forall>m. ctrl_run m h \<longrightarrow> ctrl_run m h' \<or> ctrl_run (Suc m) h')"

lemma hub_nextI: "(\<And>m. ctrl_run m h \<Longrightarrow> ctrl_run m h') \<Longrightarrow> hub_next h h'"
  by (simp add: hub_next_def)

lemma hub_next_refl [simp]: "hub_next h h"
  by (simp add: hub_next_def)

lemma ctrl_run_frame:
  "ctrl_run m h \<Longrightarrow> ctrl_run m (snd (hub_send c msg h))"
  "ctrl_run m h \<Longrightarrow> ctrl_run m (close_session c h)"
  "ctrl_run m h \<Longrightarrow> ctrl_run m (h\<lparr>chSess := f, chStreams := t\<rparr>)"
  by (auto simp: hub_send_def close_session_def intro: c_sess c_streams split: prod.split)

lemma streams_frame [simp]:
  "chStreams (close_session c h) = chStreams h" "chStreams (DeliverConnAck ack h) = chStreams h"
  "chStreams (snd (CloseConn i tell h)) = chStreams h" "chStreams (snd (ClientClosed i h)) = chStreams h"
  "chStreams (WindowRelease i d h) = chStreams h" "chStreams (ReleaseRecv r k h) = chStreams h"
  "chStreams (removeConn i h) = chStreams h" "chStreams (conn_fail i r h) = chStreams h"
  by (simp_all add: close_session_def DeliverConnAck_def CloseConn_def ClientClosed_def WindowRelease_def
      ReleaseRecv_def removeConn_def conn_fail_def Let_def split: option.split)

lemma streams_Downlink:
  "Downlink lose i p h = Some (b, h') \<Longrightarrow> table_next auth (chStreams h) (chStreams h')"
  by (auto simp: Downlink_def Let_def table_next_simple split: option.splits if_splits)

text \<open>What one dispatched message does to the hub, the table and the list of clients.\<close>

lemma send_on_frame [simp]:
  "psClients (send_on c m s) = psClients s" "chStreams (psHub (send_on c m s)) = chStreams (psHub s)"
  "psSettings (send_on c m s) = psSettings s"
  by (simp_all add: send_on_def)

lemma hub_next_send_on: "hub_next (psHub s) (psHub (send_on c m s))"
  by (auto simp: send_on_def intro: hub_nextI ctrl_run_frame)

lemma handleClientConnReq_frame:
  "psClients (snd (handleClientConnReq c identity msg s)) = psClients s
   \<and> chStreams (psHub (snd (handleClientConnReq c identity msg s))) = chStreams (psHub s)
   \<and> hub_next (psHub s) (psHub (snd (handleClientConnReq c identity msg s)))"
proof -
  have f: "hub_next (psHub s) (psHub (send_on c m (s\<lparr>psFeeds := g\<rparr>)))" for m g
    using hub_next_send_on [of "s\<lparr>psFeeds := g\<rparr>" c m] by simp
  show ?thesis
    by (auto simp: handleClientConnReq_def Let_def hub_next_send_on f split: sum.split prod.split option.split)
qed

lemma dispatch_hub_next:
  assumes "dispatch_hub lose now c identity msg s = Some s'" "auth c = Some identity"
  shows "psClients s' = psClients s" "hub_next (psHub s) (psHub s')"
    "table_next auth (chStreams (psHub s)) (chStreams (psHub s'))"
proof -
  have reg: "table_next auth t t'"
    if "ServerRegisterStream se msg t (Some (assign_for identity now c)) = (r, se', t')" for se t r se' t'
    using table_next_register [of auth c identity, OF assms(2) that] .
  have dl: "hub_next (psHub s) h'" if "Downlink lose i p (psHub s) = Some (b, h')" for i p b h'
    using that by (intro hub_nextI) (rule c_data)
  note hubs = hub_nextI [OF c_ack] hub_nextI [OF c_close] hub_nextI [OF c_half] hub_nextI [OF c_window]
    hub_nextI [OF c_streams] hub_nextI [OF ctrl_run_frame(3)]
  note frame = handleClientConnReq_frame [of c identity msg s]
  show "psClients s' = psClients s" "hub_next (psHub s) (psHub s')"
    "table_next auth (chStreams (psHub s)) (chStreams (psHub s'))"
    using assms(1) frame
    unfolding dispatch_hub_def Let_def
    by (auto simp: hubs hub_next_send_on table_next_simple split: if_splits sum.splits prod.splits
        dest: reg dl streams_Downlink)
qed

lemma ctrl_dispatch_next:
  assumes "ctrl_dispatch lose now c identity msg s = Some s'" "auth c = Some identity"
  shows "psClients s' = psClients s" "hub_next (psHub s) (psHub s')"
    "table_next auth (chStreams (psHub s)) (chStreams (psHub s'))"
proof -
  have "(\<exists>f. s' = s\<lparr>psFeeds := f\<rparr>) \<or> dispatch_hub lose now c identity msg s = Some s'
      \<or> (\<exists>f. dispatch_hub lose now c identity msg (s\<lparr>psFeeds := f\<rparr>) = Some s')"
    using assms(1) by (auto simp: ctrl_dispatch_def split: if_splits option.splits bool.splits)
  then consider f where "s' = s\<lparr>psFeeds := f\<rparr>" | "dispatch_hub lose now c identity msg s = Some s'"
    | f where "dispatch_hub lose now c identity msg (s\<lparr>psFeeds := f\<rparr>) = Some s'" by blast
  then have "psClients s' = psClients s \<and> hub_next (psHub s) (psHub s')
      \<and> table_next auth (chStreams (psHub s)) (chStreams (psHub s'))"
  proof cases
    case 1
    then show ?thesis by simp
  next
    case 2
    from dispatch_hub_next [where auth = auth, OF this assms(2)] show ?thesis by simp
  next
    case (3 f)
    from dispatch_hub_next [where auth = auth, OF this assms(2)] show ?thesis by simp
  qed
  then show "psClients s' = psClients s" "hub_next (psHub s) (psHub s')"
    "table_next auth (chStreams (psHub s)) (chStreams (psHub s'))" by blast+
qed

lemma proxy_op_next: "proxy_op h h' \<Longrightarrow> hub_next h h' \<and> table_next auth (chStreams h) (chStreams h')"
proof (induction rule: proxy_op.induct)
  case (o_open now st h x h')
  then have "chStreams h' = chStreams h"
    by (auto simp: OpenConn_send_def Let_def hub_send_def split: prod.splits sum.splits)
  with o_open show ?case by (auto simp: hub_next_def intro: c_open)
next
  case (o_opened h r i ack x h')
  then have "chStreams h' = chStreams h"
    by (auto simp: OpenConn_wait_def split: option.splits if_splits)
  with o_opened show ?case by (auto simp: hub_next_def intro: c_opened)
qed (auto simp: hub_next_def table_next_simple intro: c_close c_recv c_acquire c_pump ctrl_run_frame c_streams)

definition cp_inv :: "(sess_ref \<rightharpoonup> string) \<Rightarrow> nat \<Rightarrow> CtrlProxyServer \<Rightarrow> bool" where
  "cp_inv auth k s \<longleftrightarrow>
     (\<exists>m \<le> k. ctrl_run m (psHub s)) \<and> (\<exists>n \<le> k. table_run n (chStreams (psHub s)))
     \<and> (\<forall>c info. map_of (psClients s) c = Some info \<longrightarrow> auth c = Some (ciIdentity info))
     \<and> (\<forall>e \<in> entries (chStreams (psHub s)). allowed auth e)"

lemma cp_inv_next:
  assumes "cp_inv auth k s" "hub_next (psHub s) (psHub s')"
    "table_next auth (chStreams (psHub s)) (chStreams (psHub s'))"
    "\<And>c info. map_of (psClients s') c = Some info \<Longrightarrow> map_of (psClients s) c = Some info"
  shows "cp_inv auth (Suc k) s'"
proof -
  obtain m n where "m \<le> k" "ctrl_run m (psHub s)" "n \<le> k" "table_run n (chStreams (psHub s))"
    using assms(1) by (auto simp: cp_inv_def)
  then have "\<exists>m \<le> Suc k. ctrl_run m (psHub s')" "\<exists>n \<le> Suc k. table_run n (chStreams (psHub s'))"
    using assms(2,3) unfolding hub_next_def table_next_def by (meson Suc_le_mono le_SucI)+
  with assms show ?thesis unfolding cp_inv_def table_next_def by blast
qed

lemma fold_close_session:
  "chStreams (fold close_session cs h) = chStreams h" "ctrl_run m h \<Longrightarrow> ctrl_run m (fold close_session cs h)"
  by (induction cs arbitrary: h) (auto intro: ctrl_run_frame)

lemma ctrl_accept_frame:
  assumes "ctrl_accept c remote now s = (b, s')"
  shows "hub_next (psHub s) (psHub s')" "chStreams (psHub s') = chStreams (psHub s)"
    "\<And>d. d \<noteq> c \<Longrightarrow> map_of (psClients s') d = map_of (psClients s) d"
    "\<not> b \<Longrightarrow> psClients s' = psClients s"
  using assms
  by (auto simp: ctrl_accept_def Let_def update_conv' intro!: hub_nextI c_sess split: prod.splits sum.splits)

lemma cp_run_inv: "cp_run auth k s \<Longrightarrow> cp_inv auth k s"
proof (induction rule: cp_run.induct)
  case (p_new st sess)
  have "ctrl_run 0 (NewCtrlHub sess)" "table_run 0 NewStreamTable" by (rule c_new, rule run_new)
  then show ?case
    by (auto simp: cp_inv_def NewCtrlProxyServer_def NewCtrlHub_def entries_def NewStreamTable_def)
next
  case (p_accept auth k s c remote now s' info)
  note fr = ctrl_accept_frame [OF p_accept.hyps(3)]
  let ?auth = "auth(c \<mapsto> ciIdentity info)"
  have "allowed ?auth e" if "allowed auth e" for e
    using that p_accept.hyps(2) by (auto simp: allowed_def split: option.splits)
  moreover have "map_of (psClients s') d = Some i \<Longrightarrow> ?auth d = Some (ciIdentity i)" for d i
    using p_accept fr(3) [of d] by (cases "d = c") (auto simp: cp_inv_def)
  moreover obtain m n where "m \<le> k" "ctrl_run m (psHub s)" "n \<le> k" "table_run n (chStreams (psHub s))"
    using p_accept.IH by (auto simp: cp_inv_def)
  then have "\<exists>m \<le> Suc k. ctrl_run m (psHub s')" "\<exists>n \<le> Suc k. table_run n (chStreams (psHub s'))"
    using fr(1,2) unfolding hub_next_def by (metis Suc_le_mono le_SucI)+
  ultimately show ?case
    using p_accept.IH unfolding cp_inv_def fr(2) by (blast del: conjI intro!: conjI)
next
  case (p_refuse auth k s c remote now s')
  with ctrl_accept_frame [OF p_refuse.hyps(3)] show ?case by (intro cp_inv_next [of auth k s]) auto
next
  case (p_message auth k s c info lose now msg s')
  then have "auth c = Some (ciIdentity info)" by (auto simp: cp_inv_def)
  with p_message ctrl_dispatch_next [where auth = auth, OF p_message.hyps(3)] show ?case by (intro cp_inv_next [of auth k s]) auto
next
  case (p_disconnect auth k s c)
  have "hub_next (psHub s) (psHub (ctrl_disconnect c s))"
    by (auto simp: ctrl_disconnect_def Let_def intro!: hub_nextI ctrl_run_frame(2) c_streams c_gone)
  moreover have "table_next auth (chStreams (psHub s)) (chStreams (psHub (ctrl_disconnect c s)))"
    by (simp add: ctrl_disconnect_def Let_def CloseConnsByClient_conns table_next_simple)
  moreover have "map_of (psClients (ctrl_disconnect c s)) d = Some i \<Longrightarrow> map_of (psClients s) d = Some i" for d i
    by (auto simp: ctrl_disconnect_def Let_def delete_conv' split: if_splits)
  ultimately show ?case using p_disconnect.IH by (intro cp_inv_next [of auth k s])
next
  case (p_add auth k s cp)
  then show ?case by (intro cp_inv_next [of auth k s]) (auto simp: AddClientProxy_def Let_def split: if_splits)
next
  case (p_remove auth k s name sid)
  then show ?case by (intro cp_inv_next [of auth k s]) (auto simp: RemoveClientProxy_def Let_def split: prod.splits if_splits)
next
  case (p_kick auth k s name)
  then show ?case
    by (intro cp_inv_next [of auth k s]) (auto simp: Kick_def Let_def fold_close_session intro: hub_nextI)
next
  case (p_proxy auth k s h)
  with proxy_op_next [OF p_proxy.hyps(2)] show ?case by (intro cp_inv_next [of auth k s]) auto
qed

section \<open>Credentials\<close>

lemma client_creds_lookup:
  "map_of (client_creds cps m) pw =
     (case find (\<lambda>cp. cpKeyPassword cp = pw \<and> pw \<noteq> []) (rev cps) of
        Some cp \<Rightarrow> Some (cpClientProxyName cp)
      | None \<Rightarrow> map_of m pw)"
proof (induction cps arbitrary: m)
  case Nil
  then show ?case by simp
next
  case (Cons cp cps)
  have app: "find P (xs @ [x]) = (case find P xs of Some y \<Rightarrow> Some y | None \<Rightarrow> if P x then Some x else None)"
    for P and xs :: "ClientProxy list" and x
    by (induction xs) auto
  show ?case by (auto simp: Cons.IH app update_conv' split: option.split)
qed

lemma find_never [simp]: "find (\<lambda>x. False) xs = None"
  by (induction xs) simp_all

lemma find_some_iff: "(find P xs \<noteq> None) = (\<exists>x \<in> set xs. P x)"
  by (auto simp: find_None_iff)

lemma creds_lookup:
  "map_of (creds st) pw =
     (if pw = [] then None
      else if pw = setKeyPassword st then Some []
      else map_option cpClientProxyName (find (\<lambda>cp. cpKeyPassword cp = pw) (rev (setClientProxy st))))"
  by (auto simp: creds_def Let_def client_creds_lookup update_conv' split: option.split)

section \<open>Properties\<close>


text \<open>
  What a password gives. A handshake is accepted exactly for a non-empty password that is
  the administrator's or that of a configured client; the administrator's wins and gives
  the unrestricted identity, otherwise the identity is the name of the last configured
  client with this password.
\<close>

theorem password_identity:
  "map_of (creds st) pw =
     (if pw = [] then None
      else if pw = setKeyPassword st then Some []
      else map_option cpClientProxyName (find (\<lambda>cp. cpKeyPassword cp = pw) (rev (setClientProxy st))))
   \<and> (verify_creds st r \<longleftrightarrow>
        hrKeyPassword r \<noteq> [] \<and>
        (hrKeyPassword r = setKeyPassword st \<or> hrKeyPassword r \<in> cpKeyPassword ` set (setClientProxy st)))"
proof (intro conjI)
  show "map_of (creds st) pw =
     (if pw = [] then None
      else if pw = setKeyPassword st then Some []
      else map_option cpClientProxyName (find (\<lambda>cp. cpKeyPassword cp = pw) (rev (setClientProxy st))))"
    by (rule creds_lookup)
  show "verify_creds st r \<longleftrightarrow>
        hrKeyPassword r \<noteq> [] \<and>
        (hrKeyPassword r = setKeyPassword st \<or> hrKeyPassword r \<in> cpKeyPassword ` set (setClientProxy st))"
    using find_some_iff [of "\<lambda>cp. cpKeyPassword cp = hrKeyPassword r" "rev (setClientProxy st)"]
    by (auto simp: verify_creds_def creds_lookup) (metis image_eqI)
qed

text \<open>
  An accepted client is who its password says. When \<^verbatim>\<open>handleConn\<close> accepts a connection, the
  first frame was a handshake whose password the credentials list, the client is
  registered under the identity that goes with it, and its feed starts empty; when it
  refuses, the list of clients is unchanged and the session is closed.
\<close>

theorem accept_registers_identity:
  "case ctrl_accept c remote now s of
     (True, s') \<Rightarrow>
       \<exists>m rest req info. ReadMessage (sIn (chSess (psHub s) c)) = Inr (m, rest) \<and> mType m = MsgHandshake
         \<and> DecodeControl HandshakeReq_parse m = Inr req
         \<and> map_of (creds (psSettings s)) (hrKeyPassword req) = Some (ciIdentity info)
         \<and> map_of (psClients s') c = Some info \<and> ciName info = hrClientName req
         \<and> psFeeds s' c = NewStreamHub False
   | (False, s') \<Rightarrow> psClients s' = psClients s \<and> sClosed (chSess (psHub s') c)"
proof -
  let ?se = "chSess (psHub s) c" and ?v = "Some (verify_creds (psSettings s))"
  obtain r se where h: "ServerHandshakeVerify ?se ?v = (r, se)" by force
  show ?thesis
  proof (cases r)
    case (Inl e)
    with h show ?thesis by (simp add: ctrl_accept_def Let_def Session_Close_def)
  next
    case (Inr req)
    with h have sound: "verify_creds (psSettings s) req"
      "\<exists>m rest. ReadMessage (sIn ?se) = Inr (m, rest) \<and> mType m = MsgHandshake
          \<and> DecodeControl HandshakeReq_parse m = Inr req"
      using handshake_result_sound [of ?se ?v] by auto
    then obtain identity where "map_of (creds (psSettings s)) (hrKeyPassword req) = Some identity"
      by (auto simp: verify_creds_def)
    with h Inr sound show ?thesis
      by (auto simp: ctrl_accept_def Let_def update_conv')
  qed
qed


text \<open>
  Frames are not checked against the session they came on: a full close that any client
  sends with the id of another client's connection closes that connection.
\<close>

lemma foreign_close_closes_conn:
  assumes "map_of (hConns (psFeeds s c)) i = None" "HasConn i (psHub s)"
    "ctrl_dispatch lose now c identity (mk_msg MsgStreamClose i []) s = Some s'"
  shows "\<not> HasConn i (psHub s')"
proof -
  have nh: "\<not> IsHalfClose (mk_msg MsgStreamClose i [])" by (simp add: IsHalfClose_def mk_msg_def FlagHalfClose_def)
  have "Feed lose (mk_msg MsgStreamClose i []) (psFeeds s c) = Some (False, psFeeds s c)"
    using assms(1) by (simp add: Feed_def mk_msg_def)
  with assms(2,3) nh have "psHub s' = snd (CloseConn i False (psHub s))"
    by (auto simp: ctrl_dispatch_def dispatch_hub_def Let_def mk_msg_def msg_type_defs)
  then show ?thesis
    by (simp add: HasConn_def CloseConn_def Let_def delete_conv' split: option.split)
qed

text \<open>
  After a client's half-close the connection is out of the hub's map: window updates of the
  client no longer reach it, late data is refused, and the final close does not notify the
  client.
\<close>

lemma half_close_forgets_conn:
  "let h' = snd (ClientClosed i h) in
     WindowRelease i d h' = h' \<and> Downlink lose i p h' = Some (False, h')
     \<and> fst (CloseConn i True h') = False \<and> chSess (snd (CloseConn i True h')) = chSess h"
  by (simp add: ClientClosed_def CloseConn_def WindowRelease_def Downlink_def Let_def delete_conv'
      split: option.split)

section \<open>An example run\<close>

text \<open>A client with the administrator's password connects and registers a stream.\<close>

definition demo_req :: HandshakeReq where
  "demo_req = \<lparr>hrVersion = 1, hrClientName = ''nas'', hrKeyPassword = ''root''\<rparr>"

definition demo_hello :: Message where
  "demo_hello = control_message MsgHandshake (HandshakeReq_json demo_req)"

definition demo_register :: Message where
  "demo_register = control_message MsgRegisterStream
     (RegisterStreamReq_json \<lparr>rrClientProxyName = ''home'', rrStreamId = ''ssh''\<rparr>)"

definition demo_server :: CtrlProxyServer where
  "demo_server = NewCtrlProxyServer (no_settings\<lparr>setKeyPassword := ''root''\<rparr>)
     (NewCtrlHub (\<lambda>_. NewSession (frame_of demo_hello)))"

lemma demo_hello_fits: "fits demo_hello"
proof -
  have "print_int 1 = ''1''" by code_simp
  then show ?thesis
    by (simp add: demo_hello_def demo_req_def HandshakeReq_json_def omit_empty_def fits_object MaxPayloadSize_def)
qed

lemma demo_accept:
  "\<exists>s1 info. ctrl_accept 1 ''peer'' 3 demo_server = (True, s1) \<and> map_of (psClients s1) 1 = Some info
     \<and> ciIdentity info = [] \<and> chStreams (psHub s1) = NewStreamTable"
proof -
  let ?v = "Some (verify_creds (psSettings demo_server))"
  have ok: "verify_creds (psSettings demo_server) demo_req"
    by (simp add: verify_creds_def creds_def client_creds.simps no_settings_def demo_req_def demo_server_def
        NewCtrlProxyServer_def)
  have "HandshakeReq_ok demo_req" by (simp add: demo_req_def HandshakeReq_ok_def valid_utf8_def)
  then have "fst (ServerHandshakeVerify (NewSession (frame_of demo_hello)) ?v) = Inr demo_req"
    using ServerHandshakeVerify_frame [of "NewSession (frame_of demo_hello)" demo_req "[]" ?v] ok demo_hello_fits
    by (simp add: demo_hello_def NewSession_def writable_def)
  then obtain se where "ServerHandshakeVerify (NewSession (frame_of demo_hello)) ?v = (Inr demo_req, se)"
    by (metis prod.collapse)
  then show ?thesis
    by (simp add: ctrl_accept_def demo_server_def NewCtrlProxyServer_def NewCtrlHub_def Let_def update_conv'
        creds_lookup demo_req_def no_settings_def)
qed

lemma demo_run:
  "\<exists>auth s e. cp_run auth 2 s \<and> GetByName ''home'' ''ssh'' (chStreams (psHub s)) = Some e \<and> seClient e = 1"
proof -
  obtain s1 info where s1: "ctrl_accept 1 ''peer'' 3 demo_server = (True, s1)"
    "map_of (psClients s1) 1 = Some info" "ciIdentity info = []" "chStreams (psHub s1) = NewStreamTable"
    using demo_accept by blast
  have run1: "cp_run (Map.empty(1 \<mapsto> ciIdentity info)) 1 s1"
    using p_accept [OF p_new _ s1(1) [unfolded demo_server_def] s1(2)] by simp
  let ?req = "\<lparr>rrClientProxyName = ''home'', rrStreamId = ''ssh''\<rparr>"
  have "RegisterStreamReq_ok ?req" by (simp add: RegisterStreamReq_ok_def valid_utf8_def)
  then have dec: "DecodeControl RegisterStreamReq_parse demo_register = Inr ?req"
    unfolding demo_register_def by (rule reg_req.decode_message)
  obtain t1 where t1: "assign_for [] 4 1 ?req NewStreamTable = (Inr 1, t1)"
    "t1 = snd (Assign 4 1 ?req NewStreamTable)"
    by (simp add: assign_for_def Assign_def NewStreamTable_def Let_def)
  have ty: "mType demo_register = MsgRegisterStream" by (simp add: demo_register_def)
  obtain r se where reg: "ServerRegisterStream (chSess (psHub s1) 1) demo_register NewStreamTable (Some (assign_for [] 4 1))
      = (r, se, t1)"
    using ServerRegisterStream_table [where f = "assign_for [] 4 1", OF _ ty dec t1(1)] by (metis prod_cases3)
  let ?s2 = "s1\<lparr>psHub := (psHub s1)\<lparr>chSess := (chSess (psHub s1))(1 := se), chStreams := t1\<rparr>\<rparr>"
  have "ctrl_dispatch False 4 1 (ciIdentity info) demo_register s1 = Some ?s2"
    using ty reg s1(3,4) by (simp add: ctrl_dispatch_def dispatch_hub_def msg_type_defs Let_def)
  with run1 s1(2) have "cp_run (Map.empty(1 \<mapsto> ciIdentity info)) 2 ?s2"
    using p_message [of _ 1 s1 1 info] by (simp add: numeral_2_eq_2)
  moreover have "\<exists>e. GetByName ''home'' ''ssh'' (chStreams (psHub ?s2)) = Some e \<and> seClient e = 1"
    by (simp add: t1(2) GetByName_def Assign_def NewStreamTable_def Let_def)
  ultimately show ?thesis by blast
qed



end
