(* ===== verification/CtrlClient.thy ===== *)
theory CtrlClient
  imports StreamAdapter Window
begin

text \<open>
  The client side of the control channel, \<^verbatim>\<open>protocol/star/ctrlclient.go\<close>. A connection to an
  intranet service, its send window and its write queue are created together and shared
  with the two pump goroutines, so they are one heap object and the three maps
  \<^verbatim>\<open>conns\<close>, \<^verbatim>\<open>connsWin\<close>, \<^verbatim>\<open>connsQ\<close> hold references. \<^verbatim>\<open>Run\<close> is its dispatch of one message; the
  pumps are steps; \<^verbatim>\<open>DialIntranet\<close> is split at its wait. \<^verbatim>\<open>LocalDialer\<close> is a parameter: it
  gives the error text or the write behaviour of the new connection.
\<close>

section \<open>State\<close>

definition uplinkChunk :: nat where "uplinkChunk = 32768"
definition connQueueCap :: nat where "connQueueCap = 32"

text \<open>
  \<open>lcQ\<close> is the write queue; an empty payload is Go's nil, the sentinel of a half-close.
  \<open>lcWErr\<close> says that writes to the intranet connection fail, \<open>lcHalf\<close> that it supports
  \<^verbatim>\<open>CloseWrite\<close> (otherwise the half-close is silently ignored).
\<close>

record LocalConn =
  lcOut :: bytes
  lcWriteClosed :: bool
  lcClosed :: bool
  lcWErr :: bool
  lcHalf :: bool
  lcWin :: Window
  lcQ :: "bytes list"
  lcQClosed :: bool

record CtrlClient =
  ccSess :: Session
  ccStreams :: "(string \<times> u32) list"
  ccStreamIDs :: "(u32 \<times> string) list"
  ccPairs :: "string list"
  ccConns :: "(u32 \<times> ref) list"
  ccConnsWin :: "(u32 \<times> ref) list"
  ccConnsQ :: "(u32 \<times> ref) list"
  ccHeap :: "LocalConn list"
  ccDialConns :: "(u32 \<times> ref) list"
  ccDialAcks :: "(u32 \<times> ref) list"
  ccDialSeq :: u32
  ccDialHeap :: "StreamConn list"
  ccAckHeap :: "ClientConnAck option list"
  ccClosed :: bool

definition new_client :: "Session \<Rightarrow> CtrlClient" where
  "new_client s = \<lparr>ccSess = s, ccStreams = [], ccStreamIDs = [], ccPairs = [], ccConns = [], ccConnsWin = [],
     ccConnsQ = [], ccHeap = [], ccDialConns = [], ccDialAcks = [], ccDialSeq = 0, ccDialHeap = [],
     ccAckHeap = [], ccClosed = False\<rparr>"

section \<open>Dialling\<close>

datatype dialerr = DialHandshake hserr | DialRejected string | DialRegister string hserr | DialStreamRejected string string

definition pair_key :: "string \<Rightarrow> string \<Rightarrow> string" where
  "pair_key clientProxyName streamId = clientProxyName @ [CHR 0x00] @ streamId"

fun register_all :: "RegisterStreamReq list \<Rightarrow> CtrlClient \<Rightarrow> dialerr option \<times> CtrlClient" where
  "register_all [] c = (None, c)"
| "register_all (st # sts) c =
     (case ClientRegisterStream (ccSess c) st of
        (Inl e, s) \<Rightarrow> (Some (DialRegister (rrStreamId st) e), c\<lparr>ccSess := Session_Close s\<rparr>)
      | (Inr rack, s) \<Rightarrow>
          if \<not> raOK rack
          then (Some (DialStreamRejected (rrStreamId st) (raMessage rack)), c\<lparr>ccSess := Session_Close s\<rparr>)
          else register_all sts
                 (c\<lparr>ccSess := s,
                    ccStreams := AList.update (rrStreamId st) (raAssignID rack) (ccStreams c),
                    ccStreamIDs := AList.update (raAssignID rack) (rrStreamId st) (ccStreamIDs c),
                    ccPairs := List.insert (pair_key (rrClientProxyName st) (rrStreamId st)) (ccPairs c)\<rparr>))"

text \<open>\<^verbatim>\<open>DialCtrlTLS\<close> after the connection is established.\<close>

definition DialCtrl :: "Session \<Rightarrow> HandshakeReq \<Rightarrow> RegisterStreamReq list \<Rightarrow> dialerr option \<times> CtrlClient" where
  "DialCtrl s req streams =
     (case ClientHandshake s req of
        (Inl e, s') \<Rightarrow> (Some (DialHandshake e), new_client (Session_Close s'))
      | (Inr ack, s') \<Rightarrow>
          if \<not> haOK ack then (Some (DialRejected (haMessage ack)), new_client (Session_Close s'))
          else register_all streams (new_client s'))"

definition StreamID :: "string \<Rightarrow> CtrlClient \<Rightarrow> u32 option" where
  "StreamID streamId c = map_of (ccStreams c) streamId"

definition Streams :: "CtrlClient \<Rightarrow> (string \<times> u32) list" where
  "Streams c = ccStreams c"

definition client_send :: "Message \<Rightarrow> CtrlClient \<Rightarrow> (msgerr + unit) \<times> CtrlClient" where
  "client_send m c = (let (r, s) = Send (ccSess c) m in (r, c\<lparr>ccSess := s\<rparr>))"

definition SendData :: "u32 \<Rightarrow> bytes \<Rightarrow> CtrlClient \<Rightarrow> (msgerr + unit) \<times> CtrlClient" where
  "SendData streamID payload c = client_send (mk_msg MsgData streamID payload) c"

definition CloseStream :: "u32 \<Rightarrow> CtrlClient \<Rightarrow> (msgerr + unit) \<times> CtrlClient" where
  "CloseStream streamID c = client_send (mk_msg MsgStreamClose streamID []) c"

text \<open>One tick of \<^verbatim>\<open>StartKeepAlive\<close>; \<open>False\<close> when the goroutine ends.\<close>

definition keepalive_tick :: "CtrlClient \<Rightarrow> bool \<times> CtrlClient" where
  "keepalive_tick c =
     (if ccClosed c then (False, c)
      else case client_send (mk_msg MsgPing CtrlStreamID []) c of
             (Inl e, c') \<Rightarrow> (False, c')
           | (Inr _, c') \<Rightarrow> (True, c'))"

definition hasStream :: "u32 \<Rightarrow> CtrlClient \<Rightarrow> bool" where
  "hasStream streamID c = (map_of (ccStreamIDs c) streamID \<noteq> None)"

definition client_Close :: "CtrlClient \<Rightarrow> CtrlClient" where
  "client_Close c = c\<lparr>ccSess := Session_Close (ccSess c)\<rparr>"

section \<open>Intranet connections\<close>

definition upd_local :: "ref \<Rightarrow> (LocalConn \<Rightarrow> LocalConn) \<Rightarrow> CtrlClient \<Rightarrow> CtrlClient" where
  "upd_local r f c = c\<lparr>ccHeap := (ccHeap c)[r := f (ccHeap c ! r)]\<rparr>"

definition new_local :: "bool \<times> bool \<Rightarrow> LocalConn" where
  "new_local k = \<lparr>lcOut = [], lcWriteClosed = False, lcClosed = False, lcWErr = fst k, lcHalf = snd k,
     lcWin = NewWindow DefaultStreamWindow, lcQ = [], lcQClosed = False\<rparr>"

definition shut_local :: "LocalConn \<Rightarrow> LocalConn" where
  "shut_local l = l\<lparr>lcWin := fst (Window_Close (lcWin l)), lcQClosed := True, lcClosed := True\<rparr>"

definition closeConn :: "u32 \<Rightarrow> bool \<Rightarrow> CtrlClient \<Rightarrow> CtrlClient" where
  "closeConn connID tell c =
     (let c1 = c\<lparr>ccConns := AList.delete connID (ccConns c), ccConnsWin := AList.delete connID (ccConnsWin c),
                 ccConnsQ := AList.delete connID (ccConnsQ c)\<rparr> in
      case map_of (ccConns c) connID of
        None \<Rightarrow> c1
      | Some r \<Rightarrow>
          (let c2 = upd_local r shut_local c1 in
           if tell then snd (client_send (mk_msg MsgStreamClose connID []) c2) else c2))"

text \<open>Enqueue for the write pump; \<open>None\<close> when the queue of 32 is full and the call blocks.\<close>

definition enqueue :: "bytes \<Rightarrow> ref \<Rightarrow> CtrlClient \<Rightarrow> CtrlClient option" where
  "enqueue d r c =
     (if length (lcQ (ccHeap c ! r)) < connQueueCap then Some (upd_local r (\<lambda>l. l\<lparr>lcQ := lcQ l @ [d]\<rparr>) c)
      else None)"

definition halfCloseConn :: "u32 \<Rightarrow> CtrlClient \<Rightarrow> CtrlClient option" where
  "halfCloseConn connID c =
     (case map_of (ccConnsQ c) connID of
        None \<Rightarrow> Some c
      | Some r \<Rightarrow> enqueue [] r c)"

text \<open>One turn of the write pump of connection \<open>connID\<close>: \<open>None\<close> when it waits or has ended.\<close>

definition write_pump :: "u32 \<Rightarrow> ref \<Rightarrow> CtrlClient \<Rightarrow> CtrlClient option" where
  "write_pump connID r c =
     (case lcQ (ccHeap c ! r) of
        [] \<Rightarrow> None
      | d # q \<Rightarrow>
          (let c1 = upd_local r (\<lambda>l. l\<lparr>lcQ := q\<rparr>) c in
           if d = [] then Some (upd_local r (\<lambda>l. l\<lparr>lcWriteClosed := lcWriteClosed l \<or> lcHalf l\<rparr>) c1)
           else if lcWErr (ccHeap c ! r) \<or> lcClosed (ccHeap c ! r) \<or> lcWriteClosed (ccHeap c ! r) then Some (closeConn connID True c1)
           else let c2 = upd_local r (\<lambda>l. l\<lparr>lcOut := lcOut l @ d\<rparr>) c1;
                    wu = \<lparr>wuConnID = connID, wuDelta = word_of_nat (length d)\<rparr> in
                Some (snd (client_send (control_message MsgWindowUpdate (WindowUpdate_json wu)) c2))))"

datatype read_event = ReadSome bytes | ReadEOF bytes | ReadFail bytes

fun event_data :: "read_event \<Rightarrow> bytes" where
  "event_data (ReadSome d) = d"
| "event_data (ReadEOF d) = d"
| "event_data (ReadFail d) = d"

datatype pump_result = PumpMore | PumpEnd | PumpWait

text \<open>
  One turn of \<^verbatim>\<open>pumpUplink\<close> after a read that gave the event: the window's credit is taken,
  the data sent, then the end of the stream handled. \<open>PumpWait\<close>: the window has no room. A
  read gives at most \<^verbatim>\<open>uplinkChunk\<close> bytes, less than the window, so a turn never takes a part.
\<close>

definition pump_finish :: "u32 \<Rightarrow> read_event \<Rightarrow> CtrlClient \<Rightarrow> pump_result \<times> CtrlClient" where
  "pump_finish connID ev c =
     (case ev of
        ReadSome d \<Rightarrow> (PumpMore, c)
      | ReadEOF d \<Rightarrow> (PumpEnd, snd (client_send (HalfClose connID) c))
      | ReadFail d \<Rightarrow> (PumpEnd, closeConn connID True c))"

definition pumpUplink :: "chan_id \<Rightarrow> u32 \<Rightarrow> ref \<Rightarrow> read_event \<Rightarrow> CtrlClient \<Rightarrow> pump_result \<times> CtrlClient" where
  "pumpUplink ch connID r ev c =
     (let d = event_data ev in
      if d = [] then pump_finish connID ev c
      else case acquire_turn (int (length d)) ch (lcWin (ccHeap c ! r)) of
        (TurnDone, w) \<Rightarrow>
          (case SendData connID d (upd_local r (\<lambda>l. l\<lparr>lcWin := w\<rparr>) c) of
             (Inl e, c1) \<Rightarrow> (PumpEnd, closeConn connID True c1)
           | (Inr _, c1) \<Rightarrow> pump_finish connID ev c1)
      | (TurnClosed, w) \<Rightarrow> (PumpEnd, c)
      | (_, w) \<Rightarrow> (PumpWait, upd_local r (\<lambda>l. l\<lparr>lcWin := w\<rparr>) c))"

definition unknown_stream :: "u32 \<Rightarrow> string" where
  "unknown_stream i = ''unknown stream '' @ print_nat (unat i)"

text \<open>\<^verbatim>\<open>handleConnOpen\<close>: \<open>dialer\<close> is \<^verbatim>\<open>LocalDialer\<close>, \<open>errText\<close> the text of its error with the stream id quoted.\<close>

definition handleConnOpen ::
    "(string \<Rightarrow> string + bool \<times> bool) option \<Rightarrow> (string \<Rightarrow> string \<Rightarrow> string) \<Rightarrow> Message \<Rightarrow> CtrlClient \<Rightarrow> CtrlClient" where
  "handleConnOpen dialer errText msg c =
     (case DecodeControl ConnOpenReq_parse msg of
        Inl e \<Rightarrow> c
      | Inr req \<Rightarrow>
          (let (reason, conn) =
             (case map_of (ccStreamIDs c) (orStreamID req) of
                None \<Rightarrow> (unknown_stream (orStreamID req), None)
              | Some streamId \<Rightarrow>
                  (case dialer of
                     None \<Rightarrow> (''local dialer not set'', None)
                   | Some f \<Rightarrow>
                       (case f streamId of
                          Inl err \<Rightarrow> (errText streamId err, None)
                        | Inr k \<Rightarrow> ([], Some k))));
               ack = \<lparr>oaConnID = orConnID req, oaOK = (conn \<noteq> None), oaMessage = reason\<rparr> in
           case client_send (control_message MsgConnOpenAck (ConnOpenAck_json ack)) c of
             (Inl e, c1) \<Rightarrow> c1
           | (Inr _, c1) \<Rightarrow>
               (case conn of
                  None \<Rightarrow> c1
                | Some k \<Rightarrow>
                    (let r = length (ccHeap c1) in
                     c1\<lparr>ccHeap := ccHeap c1 @ [new_local k],
                        ccConns := AList.update (orConnID req) r (ccConns c1),
                        ccConnsWin := AList.update (orConnID req) r (ccConnsWin c1),
                        ccConnsQ := AList.update (orConnID req) r (ccConnsQ c1)\<rparr>))))"

section \<open>Dialled connections\<close>

definition removeDialConn :: "u32 \<Rightarrow> CtrlClient \<Rightarrow> CtrlClient" where
  "removeDialConn connID c = c\<lparr>ccDialConns := AList.delete connID (ccDialConns c)\<rparr>"

definition dial_cleanup :: "u32 \<Rightarrow> CtrlClient \<Rightarrow> CtrlClient" where
  "dial_cleanup connID c =
     c\<lparr>ccDialConns := AList.delete connID (ccDialConns c), ccDialAcks := AList.delete connID (ccDialAcks c)\<rparr>"

datatype intraerr = NotRegistered | IdsExhausted | IntraSend msgerr | IntraRejected string | IntraTimeout

unbundle bit_operations_syntax

definition DialIntranet_send ::
    "string \<Rightarrow> string \<Rightarrow> CtrlClient \<Rightarrow> (intraerr + u32 \<times> ref \<times> ref) \<times> CtrlClient" where
  "DialIntranet_send name sid c =
     (if pair_key name sid \<notin> set (ccPairs c) then (Inl NotRegistered, c)
      else if ccDialSeq c \<ge> 0x7fffffff then (Inl IdsExhausted, c)
      else let seq = ccDialSeq c + 1; connID = 0x80000000 OR seq;
               r = length (ccDialHeap c); a = length (ccAckHeap c);
               c1 = c\<lparr>ccDialSeq := seq,
                      ccDialHeap := ccDialHeap c @ [newStreamConn connID],
                      ccDialConns := AList.update connID r (ccDialConns c),
                      ccAckHeap := ccAckHeap c @ [None],
                      ccDialAcks := AList.update connID a (ccDialAcks c)\<rparr> in
        case client_send (control_message MsgClientConnReq
               (ClientConnReq_json \<lparr>crConnID = connID, crClientProxyName = name, crStreamId = sid\<rparr>)) c1 of
          (Inl e, c2) \<Rightarrow> (Inl (IntraSend e), dial_cleanup connID c2)
        | (Inr _, c2) \<Rightarrow> (Inr (connID, r, a), c2))"

definition DialIntranet_wait ::
    "u32 \<Rightarrow> ref \<Rightarrow> ClientConnAck option \<Rightarrow> CtrlClient \<Rightarrow> (intraerr + ref) \<times> CtrlClient" where
  "DialIntranet_wait connID r ack c =
     (case ack of
        Some k \<Rightarrow> if caOK k then (Inr r, c) else (Inl (IntraRejected (caMessage k)), dial_cleanup connID c)
      | None \<Rightarrow> (Inl IntraTimeout, dial_cleanup connID c))"

section \<open>The read loop\<close>

datatype run_result =
    RunMore CtrlClient
  | RunExit msgerr CtrlClient
  | RunBlocked

definition dial_deliver :: "bool \<Rightarrow> feedItem \<Rightarrow> ref \<Rightarrow> CtrlClient \<Rightarrow> CtrlClient option" where
  "dial_deliver lose it r c =
     map_option (\<lambda>sc. c\<lparr>ccDialHeap := (ccDialHeap c)[r := sc]\<rparr>) (deliver lose it (ccDialHeap c ! r))"

definition or_blocked :: "CtrlClient option \<Rightarrow> run_result" where
  "or_blocked x = (case x of Some c \<Rightarrow> RunMore c | None \<Rightarrow> RunBlocked)"

definition run_dispatch ::
    "(string \<Rightarrow> string + bool \<times> bool) option \<Rightarrow> (string \<Rightarrow> string \<Rightarrow> string) \<Rightarrow> bool \<Rightarrow> Message \<Rightarrow> CtrlClient \<Rightarrow> run_result" where
  "run_dispatch dialer errText lose msg c =
     (let t = mType msg; i = mStreamID msg in
      if t = MsgConnOpen then RunMore (handleConnOpen dialer errText msg c)
      else if t = MsgData then
        (case map_of (ccDialConns c) i of
           Some r \<Rightarrow> or_blocked (dial_deliver lose (data_item (mPayload msg)) r c)
         | None \<Rightarrow>
             (case map_of (ccConnsQ c) i of
                None \<Rightarrow> RunMore c
              | Some r \<Rightarrow> or_blocked (enqueue (mPayload msg) r c)))
      else if t = MsgStreamClose then
        (case map_of (ccDialConns c) i of
           Some r \<Rightarrow> or_blocked (map_option (removeDialConn i) (dial_deliver lose (close_item msg) r c))
         | None \<Rightarrow>
             if IsHalfClose msg then or_blocked (halfCloseConn i c)
             else RunMore (closeConn i False c))
      else if t = MsgPing then
        (case client_send (mk_msg MsgPong i (mPayload msg)) c of
           (Inl e, c1) \<Rightarrow> RunExit e c1
         | (Inr _, c1) \<Rightarrow> RunMore c1)
      else if t = MsgWindowUpdate then
        (case DecodeControl WindowUpdate_parse msg of
           Inl e \<Rightarrow> RunMore c
         | Inr wu \<Rightarrow>
             (case map_of (ccConnsWin c) (wuConnID wu) of
                None \<Rightarrow> RunMore c
              | Some r \<Rightarrow> RunMore (upd_local r (\<lambda>l. l\<lparr>lcWin := fst (Release (uint (wuDelta wu)) (lcWin l))\<rparr>) c)))
      else if t = MsgClientConnAck then
        (case DecodeControl ClientConnAck_parse msg of
           Inl e \<Rightarrow> RunMore c
         | Inr ack \<Rightarrow>
             (case map_of (ccDialAcks c) (caConnID ack) of
                None \<Rightarrow> RunMore c
              | Some a \<Rightarrow> RunMore (c\<lparr>ccDialAcks := AList.delete (caConnID ack) (ccDialAcks c),
                                     ccAckHeap := (ccAckHeap c)[a := Some ack]\<rparr>)))
      else RunMore c)"

definition closeAllConns :: "CtrlClient \<Rightarrow> CtrlClient" where
  "closeAllConns c =
     (let c1 = fold (\<lambda>(i, r). upd_local r (\<lambda>l. l\<lparr>lcClosed := True\<rparr>)) (ccConns c) (c\<lparr>ccConns := []\<rparr>);
          c2 = c1\<lparr>ccDialConns := [],
                  ccDialHeap := fold (\<lambda>(i, r) h. h[r := markClosed EOF (h ! r)]) (ccDialConns c) (ccDialHeap c1)\<rparr> in
      fold (\<lambda>(i, r). upd_local r (\<lambda>l. l\<lparr>lcWin := fst (Window_Close (lcWin l))\<rparr>)) (ccConnsWin c)
        (c2\<lparr>ccConnsWin := []\<rparr>))"

text \<open>The deferred part of \<^verbatim>\<open>Run\<close>.\<close>

definition run_exit :: "CtrlClient \<Rightarrow> CtrlClient" where
  "run_exit c = closeAllConns (c\<lparr>ccClosed := True\<rparr>)"

section \<open>The invariant\<close>

definition local_live :: "LocalConn \<Rightarrow> bool" where
  "local_live l \<longleftrightarrow> \<not> lcClosed l \<and> \<not> lcQClosed l \<and> \<not> wClosed (lcWin l)"

definition client_wf :: "CtrlClient \<Rightarrow> bool" where
  "client_wf c \<longleftrightarrow>
     ccConnsWin c = ccConns c \<and> ccConnsQ c = ccConns c
     \<and> distinct (map fst (ccConns c)) \<and> distinct (map snd (ccConns c))
     \<and> (\<forall>(i, r) \<in> set (ccConns c). r < length (ccHeap c) \<and> local_live (ccHeap c ! r))"

definition dial_wf :: "CtrlClient \<Rightarrow> bool" where
  "dial_wf c \<longleftrightarrow>
     ccDialSeq c \<le> 0x7fffffff
     \<and> distinct (map fst (ccDialConns c)) \<and> distinct (map snd (ccDialConns c))
     \<and> (\<forall>(i, r) \<in> set (ccDialConns c). r < length (ccDialHeap c) \<and> scConnID (ccDialHeap c ! r) = i)
     \<and> (\<forall>i \<in> fst ` set (ccDialConns c) \<union> fst ` set (ccDialAcks c).
          0x80000000 < i \<and> i \<le> 0x80000000 + ccDialSeq c)"

lemma client_wf_frame [simp]:
  "client_wf (c\<lparr>ccSess := s\<rparr>) = client_wf c" "dial_wf (c\<lparr>ccSess := s\<rparr>) = dial_wf c"
  "dial_wf (upd_local r f c) = dial_wf c"
  by (simp_all add: client_wf_def dial_wf_def upd_local_def)

lemma client_send_frame [simp]:
  "client_wf (snd (client_send m c)) = client_wf c" "dial_wf (snd (client_send m c)) = dial_wf c"
  "ccHeap (snd (client_send m c)) = ccHeap c" "ccConns (snd (client_send m c)) = ccConns c"
  "ccConnsQ (snd (client_send m c)) = ccConnsQ c" "ccConnsWin (snd (client_send m c)) = ccConnsWin c"
  by (simp_all add: client_send_def split: prod.split)

lemma client_send_state: "client_send m c = (x, c') \<Longrightarrow> \<exists>s. c' = c\<lparr>ccSess := s\<rparr>"
  by (auto simp: client_send_def split: prod.splits)

lemma upd_local_frame [simp]:
  "ccConns (upd_local r f c) = ccConns c" "ccConnsQ (upd_local r f c) = ccConnsQ c"
  "ccConnsWin (upd_local r f c) = ccConnsWin c" "length (ccHeap (upd_local r f c)) = length (ccHeap c)"
  "ccSess (upd_local r f c) = ccSess c"
  by (simp_all add: upd_local_def)

lemma upd_local_nth:
  "q < length (ccHeap c) \<Longrightarrow> ccHeap (upd_local r f c) ! q = (if q = r then f (ccHeap c ! r) else ccHeap c ! q)"
  by (simp add: upd_local_def list_update_nth)

lemma client_wf_upd:
  assumes "client_wf c" "local_live (ccHeap c ! r) \<Longrightarrow> local_live (f (ccHeap c ! r))"
  shows "client_wf (upd_local r f c)"
proof -
  have "q < length (ccHeap c) \<and> local_live (ccHeap (upd_local r f c) ! q)" if "(i, q) \<in> set (ccConns c)" for i q
    using assms that by (cases "q = r") (fastforce simp: client_wf_def upd_local_nth)+
  with assms(1) show ?thesis by (auto simp: client_wf_def)
qed

lemma client_wf_drop_upd:
  assumes "client_wf c" "map_of (ccConns c) i = Some r"
  shows "client_wf (upd_local r f (c\<lparr>ccConns := AList.delete i (ccConns c), ccConnsWin := AList.delete i (ccConnsWin c),
      ccConnsQ := AList.delete i (ccConnsQ c)\<rparr>))"
proof -
  let ?al = "AList.delete i (ccConns c)"
  have wf: "distinct (map fst (ccConns c))" "distinct (map snd (ccConns c))"
    "ccConnsWin c = ccConns c" "ccConnsQ c = ccConns c"
    using assms(1) by (simp_all add: client_wf_def)
  have "q < length (ccHeap c) \<and> q \<noteq> r \<and> local_live (ccHeap c ! q)" if m: "(j, q) \<in> set ?al" for j q
  proof -
    have jq: "(j, q) \<in> set (ccConns c)" "j \<noteq> i" using m by (auto simp: AList.delete_eq)
    have "(i, r) \<in> set (ccConns c)" using assms(2) by (rule map_of_SomeD)
    with jq wf(2) have "q \<noteq> r" by (metis Pair_inject distinct_map inj_onD snd_conv)
    with jq assms(1) show ?thesis by (auto simp: client_wf_def)
  qed
  then show ?thesis
    using delete_sub(2,3) [of "ccConns c" i] wf by (auto simp: client_wf_def upd_local_nth)
qed

lemma client_wf_drop:
  assumes "client_wf c"
  shows "client_wf (c\<lparr>ccConns := AList.delete i (ccConns c), ccConnsWin := AList.delete i (ccConnsWin c),
      ccConnsQ := AList.delete i (ccConnsQ c)\<rparr>)"
  using assms delete_sub [where k = i and al = "ccConns c"] by (auto simp: client_wf_def)

lemma closeConn_wf: "client_wf c \<Longrightarrow> client_wf (closeConn i tell c)" "dial_wf c \<Longrightarrow> dial_wf (closeConn i tell c)"
proof -
  show "client_wf c \<Longrightarrow> client_wf (closeConn i tell c)"
    by (simp add: closeConn_def Let_def client_wf_drop client_wf_drop_upd split: option.split)
  have "dial_wf c \<Longrightarrow> dial_wf (c\<lparr>ccConns := a, ccConnsWin := b, ccConnsQ := d\<rparr>)" for a b d
    by (simp add: dial_wf_def)
  then show "dial_wf c \<Longrightarrow> dial_wf (closeConn i tell c)"
    by (simp add: closeConn_def Let_def split: option.split)
qed

lemma enqueue_wf:
  "client_wf c \<Longrightarrow> enqueue d r c = Some c' \<Longrightarrow> client_wf c'"
  "dial_wf c \<Longrightarrow> enqueue d r c = Some c' \<Longrightarrow> dial_wf c'"
  by (auto simp: enqueue_def local_live_def intro!: client_wf_upd split: if_splits)

lemma write_pump_wf:
  assumes "client_wf c" "dial_wf c" "write_pump i r c = Some c'"
  shows "client_wf c' \<and> dial_wf c'"
proof -
  have u: "client_wf (upd_local r f c0)" if "client_wf c0" "\<And>l. local_live (f l) = local_live l" for f c0
    using that by (intro client_wf_upd) simp_all
  show ?thesis
    using assms
    by (auto simp: write_pump_def Let_def local_live_def intro!: u closeConn_wf split: list.splits if_splits)
qed

lemma pump_wf:
  assumes "client_wf c" "dial_wf c" "pumpUplink ch i r ev c = (x, c')"
  shows "client_wf c' \<and> dial_wf c'"
proof -
  have fin: "client_wf (snd (pump_finish i ev c0)) \<and> dial_wf (snd (pump_finish i ev c0))"
    if "client_wf c0" "dial_wf c0" for c0
    using that by (auto simp: pump_finish_def closeConn_wf split: read_event.split)
  have win: "client_wf (upd_local r (\<lambda>l. l\<lparr>lcWin := w\<rparr>) c)" "dial_wf (upd_local r (\<lambda>l. l\<lparr>lcWin := w\<rparr>) c)"
    if "acquire_turn n k (lcWin (ccHeap c ! r)) = (y, w)" for n k y w
  proof -
    have "wClosed w = wClosed (lcWin (ccHeap c ! r))"
      using that by (auto simp: acquire_turn_def Let_def split: if_splits)
    then show "client_wf (upd_local r (\<lambda>l. l\<lparr>lcWin := w\<rparr>) c)"
      using assms(1) by (intro client_wf_upd) (auto simp: local_live_def)
  qed (simp add: assms)
  have sd: "client_wf (snd (SendData i d (upd_local r (\<lambda>l. l\<lparr>lcWin := w\<rparr>) c)))
      \<and> dial_wf (snd (SendData i d (upd_local r (\<lambda>l. l\<lparr>lcWin := w\<rparr>) c)))"
    if "acquire_turn n k (lcWin (ccHeap c ! r)) = (y, w)" for n k y w d
    using win [OF that] by (simp add: SendData_def)
  show ?thesis
  proof (cases "event_data ev = []")
    case True
    with assms fin [OF assms(1,2)] show ?thesis by (auto simp: pumpUplink_def Let_def)
  next
    case False
    obtain y w where a: "acquire_turn (int (length (event_data ev))) ch (lcWin (ccHeap c ! r)) = (y, w)" by force
    obtain z c1 where s: "SendData i (event_data ev) (upd_local r (\<lambda>l. l\<lparr>lcWin := w\<rparr>) c) = (z, c1)" by force
    have c1: "client_wf c1" "dial_wf c1" using sd [OF a, of "event_data ev"] s by simp_all
    have "c' = c \<or> c' = closeConn i True c1 \<or> c' = snd (pump_finish i ev c1) \<or> c' = upd_local r (\<lambda>l. l\<lparr>lcWin := w\<rparr>) c"
      using assms(3) False a s
      by (cases y; cases z) (auto simp: pumpUplink_def Let_def)
    then show ?thesis using assms(1,2) c1 fin [OF c1] closeConn_wf [of c1] win [OF a] by auto
  qed
qed

lemma high_or:
  fixes q :: u32
  assumes "q \<le> 0x7fffffff"
  shows "0x80000000 OR q = 0x80000000 + q" "unat (0x80000000 + q) = 2 ^ 31 + unat q"
proof -
  have u: "unat q < 2 ^ 31" using assms by (simp add: word_le_nat_alt)
  then have "\<not> bit (unat q) 31" by (simp add: bit_iff_odd)
  then have "\<not> bit q 31" by (simp add: bit_unsigned_iff)
  moreover have "bit (0x80000000 :: u32) n \<longleftrightarrow> n = 31" for n
    using bit_exp_iff [of 31 n, where ?'a = u32] by auto
  ultimately show "0x80000000 OR q = 0x80000000 + q"
    by (intro disjunctive_add [symmetric]) auto
  show "unat (0x80000000 + q) = 2 ^ 31 + unat q"
    using u by (simp add: unat_word_ariths)
qed

lemma dial_wfI:
  assumes "ccDialSeq c \<le> 0x7fffffff" "distinct (map fst (ccDialConns c))" "distinct (map snd (ccDialConns c))"
    "\<And>i r. (i, r) \<in> set (ccDialConns c) \<Longrightarrow> r < length (ccDialHeap c) \<and> scConnID (ccDialHeap c ! r) = i"
    "\<And>i. i \<in> fst ` set (ccDialConns c) \<union> fst ` set (ccDialAcks c) \<Longrightarrow> 0x80000000 < i \<and> i \<le> 0x80000000 + ccDialSeq c"
  shows "dial_wf c"
  unfolding dial_wf_def using assms by (intro conjI ballI) auto

lemma client_wfI:
  assumes "ccConnsWin c = ccConns c" "ccConnsQ c = ccConns c" "distinct (map fst (ccConns c))" "distinct (map snd (ccConns c))"
    "\<And>i r. (i, r) \<in> set (ccConns c) \<Longrightarrow> r < length (ccHeap c) \<and> local_live (ccHeap c ! r)"
  shows "client_wf c"
  unfolding client_wf_def using assms by (intro conjI ballI) auto

lemma dial_wf_sub:
  assumes "dial_wf c" "fst ` set acks \<subseteq> fst ` set (ccDialAcks c)"
  shows "dial_wf (c\<lparr>ccDialConns := AList.delete i (ccDialConns c), ccDialAcks := acks\<rparr>)"
proof -
  let ?al = "AList.delete i (ccDialConns c)"
  have m: "(j, r) \<in> set (ccDialConns c)" if "(j, r) \<in> set ?al" for j r
    using that by (simp add: AList.delete_eq)
  have ids: "0x80000000 < j \<and> j \<le> 0x80000000 + ccDialSeq c" if "j \<in> fst ` set ?al \<union> fst ` set acks" for j
  proof -
    have "j \<in> fst ` set (ccDialConns c) \<union> fst ` set (ccDialAcks c)"
      using that m assms(2) by force
    then show ?thesis using assms(1) unfolding dial_wf_def by (elim conjE bspec)
  qed
  have refs: "r < length (ccDialHeap c) \<and> scConnID (ccDialHeap c ! r) = j" if "(j, r) \<in> set ?al" for j r
    using m [OF that] assms(1) unfolding dial_wf_def by auto
  have d: "distinct (map fst ?al)" "distinct (map snd ?al)" "ccDialSeq c \<le> 0x7fffffff"
    using assms(1) delete_sub(2,3) [where k = i and al = "ccDialConns c"] unfolding dial_wf_def by simp_all
  show ?thesis by (rule dial_wfI) (use d refs ids in simp_all)
qed

lemma dial_cleanup_wf: "dial_wf c \<Longrightarrow> dial_wf (dial_cleanup i c)" "client_wf (dial_cleanup i c) = client_wf c"
proof -
  have "fst ` set (AList.delete i (ccDialAcks c)) \<subseteq> fst ` set (ccDialAcks c)"
    by (auto simp: AList.delete_eq)
  then show "dial_wf c \<Longrightarrow> dial_wf (dial_cleanup i c)"
    unfolding dial_cleanup_def by (rule dial_wf_sub [rotated])
qed (simp add: dial_cleanup_def client_wf_def)

lemma dial_register_wf:
  assumes "dial_wf c" "ccDialSeq c < 0x7fffffff"
  defines "i \<equiv> 0x80000000 OR (ccDialSeq c + 1)"
  shows "dial_wf (c\<lparr>ccDialSeq := ccDialSeq c + 1,
      ccDialHeap := ccDialHeap c @ [newStreamConn i],
      ccDialConns := AList.update i (length (ccDialHeap c)) (ccDialConns c),
      ccAckHeap := ah, ccDialAcks := AList.update i a (ccDialAcks c)\<rparr>)"
proof -
  have nm: "ccDialSeq c \<noteq> - 1" using assms(2) by auto
  have un: "unat (ccDialSeq c + 1) = unat (ccDialSeq c) + 1" by (rule unat_inc [OF nm])
  have le: "ccDialSeq c + 1 \<le> 0x7fffffff" "ccDialSeq c \<le> 0x7fffffff"
    using assms(2) un by (simp_all add: word_le_nat_alt word_less_nat_alt)
  have i: "i = 0x80000000 + (ccDialSeq c + 1)" "unat i = 2 ^ 31 + unat (ccDialSeq c) + 1"
    using high_or [OF le(1)] un by (simp_all add: i_def)
  have old: "0x80000000 < j \<and> j \<le> 0x80000000 + (ccDialSeq c + 1)"
    if "0x80000000 < j \<and> j \<le> 0x80000000 + ccDialSeq c" for j
    using that high_or(2) [OF le(1)] high_or(2) [OF le(2)] un by (auto simp: word_le_nat_alt)
  have new: "0x80000000 < i \<and> i \<le> 0x80000000 + (ccDialSeq c + 1)"
    using i by (simp add: word_less_nat_alt)
  have pre: "\<forall>(j, r) \<in> set (ccDialConns c). r < length (ccDialHeap c)" "distinct (map fst (ccDialConns c))"
    "distinct (map snd (ccDialConns c))"
    using assms(1) by (auto simp: dial_wf_def)
  note u = update_new_ref [OF pre, of i]
  have refs: "r < length (ccDialHeap c @ [newStreamConn i]) \<and> scConnID ((ccDialHeap c @ [newStreamConn i]) ! r) = j"
    if "(j, r) \<in> set (AList.update i (length (ccDialHeap c)) (ccDialConns c))" for j r
    using u that assms(1) by (fastforce simp: dial_wf_def nth_append newStreamConn_def)
  have ids: "0x80000000 < j \<and> j \<le> 0x80000000 + (ccDialSeq c + 1)"
    if "j \<in> fst ` set (AList.update i (length (ccDialHeap c)) (ccDialConns c)) \<union> fst ` set (AList.update i a (ccDialAcks c))" for j
  proof -
    have "j = i \<or> j \<in> fst ` set (ccDialConns c) \<union> fst ` set (ccDialAcks c)"
      using that unfolding AList.dom_update by blast
    moreover have "\<forall>j \<in> fst ` set (ccDialConns c) \<union> fst ` set (ccDialAcks c).
        0x80000000 < j \<and> j \<le> 0x80000000 + ccDialSeq c"
      using assms(1) by (simp add: dial_wf_def)
    ultimately show ?thesis using new old by blast
  qed
  show ?thesis by (rule dial_wfI) (use u refs ids le(1) in simp_all)
qed

lemma DialIntranet_send_wf:
  assumes "client_wf c" "dial_wf c" "DialIntranet_send name sid c = (x, c')"
  shows "client_wf c' \<and> dial_wf c'"
proof (cases "pair_key name sid \<notin> set (ccPairs c) \<or> ccDialSeq c \<ge> 0x7fffffff")
  case True
  with assms show ?thesis by (auto simp: DialIntranet_send_def split: if_splits)
next
  case False
  let ?i = "0x80000000 OR (ccDialSeq c + 1)"
  let ?c1 = "c\<lparr>ccDialSeq := ccDialSeq c + 1,
      ccDialHeap := ccDialHeap c @ [newStreamConn ?i],
      ccDialConns := AList.update ?i (length (ccDialHeap c)) (ccDialConns c),
      ccAckHeap := ccAckHeap c @ [None], ccDialAcks := AList.update ?i (length (ccAckHeap c)) (ccDialAcks c)\<rparr>"
  have d: "dial_wf ?c1" using dial_register_wf [OF assms(2)] False by (simp add: not_le)
  have w: "client_wf ?c1" using assms(1) by (simp add: client_wf_def)
  have "\<exists>m. c' = snd (client_send m ?c1) \<or> c' = dial_cleanup ?i (snd (client_send m ?c1))"
    using assms(3) False
    by (auto simp: DialIntranet_send_def Let_def split: prod.splits sum.splits) (metis snd_conv)+
  then obtain m where "c' = snd (client_send m ?c1) \<or> c' = dial_cleanup ?i (snd (client_send m ?c1))" by blast
  with d w show ?thesis using dial_cleanup_wf by auto
qed

lemma DialIntranet_wait_wf:
  "client_wf c \<Longrightarrow> dial_wf c \<Longrightarrow> DialIntranet_wait i r k c = (x, c') \<Longrightarrow> client_wf c' \<and> dial_wf c'"
  by (auto simp: DialIntranet_wait_def dial_cleanup_wf split: option.splits if_splits)

lemma conn_added_wf:
  assumes "client_wf c"
  shows "client_wf (c\<lparr>ccHeap := ccHeap c @ [new_local k],
      ccConns := AList.update i (length (ccHeap c)) (ccConns c),
      ccConnsWin := AList.update i (length (ccHeap c)) (ccConnsWin c),
      ccConnsQ := AList.update i (length (ccHeap c)) (ccConnsQ c)\<rparr>)"
proof -
  have pre: "\<forall>(j, r) \<in> set (ccConns c). r < length (ccHeap c)" "distinct (map fst (ccConns c))"
    "distinct (map snd (ccConns c))" "ccConnsWin c = ccConns c" "ccConnsQ c = ccConns c"
    using assms by (auto simp: client_wf_def)
  note u = update_new_ref [OF pre(1-3), of i]
  have "local_live (new_local k)" by (simp add: new_local_def local_live_def NewWindow_def)
  moreover have "r < length (ccHeap c) \<and> local_live (ccHeap c ! r)" if "(j, r) \<in> set (ccConns c)" for j r
    using assms that by (auto simp: client_wf_def)
  ultimately have "r < length (ccHeap c @ [new_local k]) \<and> local_live ((ccHeap c @ [new_local k]) ! r)"
    if "(j, r) \<in> set (AList.update i (length (ccHeap c)) (ccConns c))" for j r
    using u that by (fastforce simp: nth_append)
  then show ?thesis by (intro client_wfI) (use u pre in simp_all)
qed

lemma handleConnOpen_cases:
  "(\<exists>s. handleConnOpen dialer et m c = c\<lparr>ccSess := s\<rparr>)
   \<or> (\<exists>s k i. handleConnOpen dialer et m c =
        (let c1 = c\<lparr>ccSess := s\<rparr> in c1\<lparr>ccHeap := ccHeap c1 @ [new_local k],
          ccConns := AList.update i (length (ccHeap c1)) (ccConns c1),
          ccConnsWin := AList.update i (length (ccHeap c1)) (ccConnsWin c1),
          ccConnsQ := AList.update i (length (ccHeap c1)) (ccConnsQ c1)\<rparr>))"
proof (cases "DecodeControl ConnOpenReq_parse m")
  case (Inl e)
  then have "handleConnOpen dialer et m c = c\<lparr>ccSess := ccSess c\<rparr>" by (simp add: handleConnOpen_def)
  then show ?thesis by blast
next
  case (Inr req)
  let ?X = "case map_of (ccStreamIDs c) (orStreamID req) of
                None \<Rightarrow> (unknown_stream (orStreamID req), None)
              | Some streamId \<Rightarrow>
                  (case dialer of
                     None \<Rightarrow> (''local dialer not set'', None)
                   | Some f \<Rightarrow>
                       (case f streamId of
                          Inl err \<Rightarrow> (et streamId err, None)
                        | Inr k \<Rightarrow> ([], Some k)))"
  obtain reason conn where x: "?X = (reason, conn)" by force
  obtain y c1 where y: "client_send (control_message MsgConnOpenAck
      (ConnOpenAck_json \<lparr>oaConnID = orConnID req, oaOK = (conn \<noteq> None), oaMessage = reason\<rparr>)) c = (y, c1)" by force
  from client_send_state [OF y] obtain s where s: "c1 = c\<lparr>ccSess := s\<rparr>" by blast
  note st = handleConnOpen_def [of dialer et m c] Inr x y s
  show ?thesis
  proof (cases "\<exists>u k. y = Inr u \<and> conn = Some k")
    case True
    with st show ?thesis by (intro disjI2 exI [of _ s] exI [of _ "the conn"] exI [of _ "orConnID req"]) (auto simp: Let_def)
  next
    case False
    with st have "handleConnOpen dialer et m c = c\<lparr>ccSess := s\<rparr>" by (cases y; cases conn) auto
    then show ?thesis by blast
  qed
qed

lemma dial_wf_conns [simp]:
  "dial_wf (c\<lparr>ccHeap := h, ccConns := a, ccConnsWin := b, ccConnsQ := d\<rparr>) = dial_wf c"
  by (simp add: dial_wf_def)

lemma handleConnOpen_wf:
  assumes "client_wf c" "dial_wf c"
  shows "client_wf (handleConnOpen dialer et m c) \<and> dial_wf (handleConnOpen dialer et m c)"
  using handleConnOpen_cases [of dialer et m c] assms conn_added_wf [of "c\<lparr>ccSess := s\<rparr>" for s]
  by (auto simp: Let_def)

lemma client_deliver_id: "deliver lose it sc = Some sc' \<Longrightarrow> scConnID sc' = scConnID sc"
  by (auto simp: deliver_def split: if_splits)

lemma dial_heap_wf:
  assumes "dial_wf c" "scConnID sc = scConnID (ccDialHeap c ! r)"
  shows "dial_wf (c\<lparr>ccDialHeap := (ccDialHeap c)[r := sc]\<rparr>)"
proof -
  have "q < length (ccDialHeap c) \<and> scConnID ((ccDialHeap c)[r := sc] ! q) = j" if "(j, q) \<in> set (ccDialConns c)" for j q
    using assms that by (cases "q = r") (auto simp: dial_wf_def)
  then show ?thesis by (intro dial_wfI) (use assms(1) in \<open>auto simp: dial_wf_def\<close>)
qed

lemma dial_deliver_wf:
  assumes "dial_deliver lose it r c = Some c'"
  shows "client_wf c \<Longrightarrow> client_wf c'" "dial_wf c \<Longrightarrow> dial_wf c'" "dial_wf c \<Longrightarrow> dial_wf (removeDialConn i c')"
    "client_wf c \<Longrightarrow> client_wf (removeDialConn i c')"
proof -
  obtain sc where sc: "deliver lose it (ccDialHeap c ! r) = Some sc" "c' = c\<lparr>ccDialHeap := (ccDialHeap c)[r := sc]\<rparr>"
    using assms by (auto simp: dial_deliver_def)
  then show "client_wf c \<Longrightarrow> client_wf c'" "client_wf c \<Longrightarrow> client_wf (removeDialConn i c')"
    by (simp_all add: client_wf_def removeDialConn_def)
  show d: "dial_wf c \<Longrightarrow> dial_wf c'" using dial_heap_wf client_deliver_id sc by simp
  show "dial_wf c \<Longrightarrow> dial_wf (removeDialConn i c')"
    using dial_wf_sub [OF d, of "ccDialAcks c'" i] by (simp add: removeDialConn_def)
qed

lemma ack_wf: "dial_wf c \<Longrightarrow> dial_wf (c\<lparr>ccDialAcks := AList.delete i (ccDialAcks c), ccAckHeap := h\<rparr>)"
  "client_wf c \<Longrightarrow> client_wf (c\<lparr>ccDialAcks := AList.delete i (ccDialAcks c), ccAckHeap := h\<rparr>)"
  by (auto simp: dial_wf_def client_wf_def AList.delete_eq)

lemma or_blocked_More: "or_blocked x = RunMore c' \<longleftrightarrow> x = Some c'"
  by (simp add: or_blocked_def split: option.split)

lemma run_dispatch_wf:
  assumes wf: "client_wf c" "dial_wf c" and st: "run_dispatch dialer et lose m c = RunMore c'"
  shows "client_wf c' \<and> dial_wf c'"
proof -
  have rel: "client_wf (upd_local r (\<lambda>l. l\<lparr>lcWin := fst (Release d (lcWin l))\<rparr>) c)" for r d
    using wf(1) by (intro client_wf_upd) (auto simp: local_live_def Release_def Let_def split: if_splits)
  have half: "client_wf c1 \<and> dial_wf c1" if "halfCloseConn i c = Some c1" for i c1
    using that wf enqueue_wf by (auto simp: halfCloseConn_def split: option.splits)
  have send: "client_wf c1 \<and> dial_wf c1" if "client_send k c = (x, c1)" for k x c1
    using client_send_state [OF that] wf by auto
  consider "mType m = MsgConnOpen" | "mType m = MsgData" | "mType m = MsgStreamClose" | "mType m = MsgPing"
    | "mType m = MsgWindowUpdate" | "mType m = MsgClientConnAck"
    | "mType m \<notin> {MsgConnOpen, MsgData, MsgStreamClose, MsgPing, MsgWindowUpdate, MsgClientConnAck}" by blast
  then show ?thesis
  proof cases
    case 1 with st wf handleConnOpen_wf show ?thesis by (auto simp: run_dispatch_def)
  next
    case 2
    with st have "(\<exists>r. dial_deliver lose (data_item (mPayload m)) r c = Some c')
        \<or> (\<exists>r. enqueue (mPayload m) r c = Some c') \<or> c' = c"
      by (auto simp: run_dispatch_def msg_type_defs Let_def or_blocked_More split: option.splits)
    with wf show ?thesis by (elim disjE exE) (use dial_deliver_wf(1,2) enqueue_wf in \<open>blast+\<close>)
  next
    case 3
    show ?thesis
    proof (cases "map_of (ccDialConns c) (mStreamID m)")
      case None
      with st 3 have "halfCloseConn (mStreamID m) c = Some c' \<or> c' = closeConn (mStreamID m) False c"
        by (simp add: run_dispatch_def msg_type_defs Let_def or_blocked_More split: if_splits)
      with half wf closeConn_wf [of c] show ?thesis by blast
    next
      case (Some r)
      with st 3 obtain c1 where "dial_deliver lose (close_item m) r c = Some c1" "c' = removeDialConn (mStreamID m) c1"
        by (auto simp: run_dispatch_def msg_type_defs Let_def or_blocked_More)
      with dial_deliver_wf(3,4) wf show ?thesis by blast
    qed
  next
    case 4 with st send show ?thesis
      by (auto simp: run_dispatch_def msg_type_defs Let_def split: prod.splits sum.splits)
  next
    case 5 with st wf rel show ?thesis
      by (auto simp: run_dispatch_def msg_type_defs Let_def split: option.splits sum.splits)
  next
    case 6 with st wf ack_wf show ?thesis
      by (auto simp: run_dispatch_def msg_type_defs Let_def split: option.splits sum.splits)
  next
    case 7 with st wf show ?thesis by (auto simp: run_dispatch_def)
  qed
qed

section \<open>Reachable clients\<close>

text \<open>
  A client from a successful dial until its read loop ends: messages in any order, turns of the
  pumps, dials, and use of the dialled connections and of the session by their owners (\<open>cl_use\<close>:
  reads and closes change the connection but not its id, writes change the session).
\<close>

inductive cl_run :: "CtrlClient \<Rightarrow> bool" where
  cl_dial: "DialCtrl s req streams = (None, c) \<Longrightarrow> cl_run c"
| cl_message: "cl_run c \<Longrightarrow> run_dispatch dialer et lose m c = RunMore c' \<Longrightarrow> cl_run c'"
| cl_write: "cl_run c \<Longrightarrow> write_pump i r c = Some c' \<Longrightarrow> cl_run c'"
| cl_pump: "cl_run c \<Longrightarrow> pumpUplink ch i r ev c = (x, c') \<Longrightarrow> cl_run c'"
| cl_open: "cl_run c \<Longrightarrow> DialIntranet_send name sid c = (y, c') \<Longrightarrow> cl_run c'"
| cl_wait: "cl_run c \<Longrightarrow> DialIntranet_wait i r k c = (z, c') \<Longrightarrow> cl_run c'"
| cl_use: "cl_run c \<Longrightarrow> scConnID sc = scConnID (ccDialHeap c ! r) \<Longrightarrow>
     cl_run (c\<lparr>ccDialHeap := (ccDialHeap c)[r := sc], ccSess := s'\<rparr>)"

lemma register_all_frame:
  "register_all sts c = (None, c') \<Longrightarrow>
     ccConns c' = ccConns c \<and> ccConnsWin c' = ccConnsWin c \<and> ccConnsQ c' = ccConnsQ c \<and> ccHeap c' = ccHeap c
     \<and> ccDialConns c' = ccDialConns c \<and> ccDialAcks c' = ccDialAcks c \<and> ccDialSeq c' = ccDialSeq c
     \<and> ccDialHeap c' = ccDialHeap c \<and> ccClosed c' = ccClosed c"
  by (induction sts arbitrary: c) (fastforce split: prod.splits sum.splits if_splits)+

lemma DialCtrl_wf: "DialCtrl s req streams = (None, c) \<Longrightarrow> client_wf c \<and> dial_wf c"
  by (auto simp: DialCtrl_def client_wf_def dial_wf_def new_client_def dest!: register_all_frame
      split: prod.splits sum.splits if_splits)

lemma cl_run_wf: "cl_run c \<Longrightarrow> client_wf c \<and> dial_wf c"
proof (induction rule: cl_run.induct)
  case (cl_use c sc r s')
  then have "dial_wf (c\<lparr>ccDialHeap := (ccDialHeap c)[r := sc]\<rparr>)" by (intro dial_heap_wf) simp_all
  with cl_use show ?case by (simp add: client_wf_def dial_wf_def)
next
  case (cl_dial s req streams c)
  then show ?case by (rule DialCtrl_wf)
next
  case (cl_message c dialer et lose m c')
  then show ?case using run_dispatch_wf by blast
next
  case (cl_write c i r c')
  then show ?case using write_pump_wf by blast
next
  case (cl_pump c ch i r ev x c')
  then show ?case using pump_wf by blast
next
  case (cl_open c name sid y c')
  then show ?case using DialIntranet_send_wf by blast
next
  case (cl_wait c i r k z c')
  then show ?case using DialIntranet_wait_wf by blast
qed

lemma register_all_streams:
  "register_all sts c = (None, c') \<Longrightarrow>
     set (ccPairs c) \<subseteq> set (ccPairs c') \<and> dom (map_of (ccStreams c)) \<subseteq> dom (map_of (ccStreams c'))
     \<and> (\<forall>st \<in> set sts. pair_key (rrClientProxyName st) (rrStreamId st) \<in> set (ccPairs c')
          \<and> StreamID (rrStreamId st) c' \<noteq> None)"
proof (induction sts arbitrary: c)
  case Nil
  then show ?case by simp
next
  case (Cons st sts)
  obtain rack s where r: "ClientRegisterStream (ccSess c) st = (Inr rack, s)" "raOK rack"
    using Cons.prems by (auto split: prod.splits sum.splits if_splits)
  let ?c1 = "c\<lparr>ccSess := s,
                    ccStreams := AList.update (rrStreamId st) (raAssignID rack) (ccStreams c),
                    ccStreamIDs := AList.update (raAssignID rack) (rrStreamId st) (ccStreamIDs c),
                    ccPairs := List.insert (pair_key (rrClientProxyName st) (rrStreamId st)) (ccPairs c)\<rparr>"
  have IH: "set (ccPairs ?c1) \<subseteq> set (ccPairs c')" "dom (map_of (ccStreams ?c1)) \<subseteq> dom (map_of (ccStreams c'))"
     "\<forall>st \<in> set sts. pair_key (rrClientProxyName st) (rrStreamId st) \<in> set (ccPairs c')
          \<and> StreamID (rrStreamId st) c' \<noteq> None"
    using Cons.IH [of ?c1] Cons.prems r by simp_all
  then have "rrStreamId st \<in> dom (map_of (ccStreams c'))" by (auto simp: update_conv')
  moreover have "dom (map_of (ccStreams c)) \<subseteq> dom (map_of (ccStreams ?c1))"
    by (auto simp: update_conv' split: if_splits)
  ultimately show ?case using IH subset_trans [OF _ IH(2)] by (auto simp: StreamID_def)
qed

lemma register_all_error: "register_all sts c = (Some e, c') \<Longrightarrow> sClosed (ccSess c')"
  by (induction sts arbitrary: c) (fastforce simp: Session_Close_def split: prod.splits sum.splits if_splits)+

text \<open>A dial either registers every stream or closes the session.\<close>

lemma DialCtrl_outcome:
  "case DialCtrl s req streams of
     (None, c) \<Rightarrow> \<forall>st \<in> set streams. pair_key (rrClientProxyName st) (rrStreamId st) \<in> set (ccPairs c)
                    \<and> StreamID (rrStreamId st) c \<noteq> None
   | (Some e, c) \<Rightarrow> sClosed (ccSess c)"
  using register_all_streams register_all_error
  by (fastforce simp: DialCtrl_def new_client_def Session_Close_def split: prod.splits sum.splits if_splits option.splits)

section \<open>Dialled connections\<close>

lemma delete_update_fresh: "k \<notin> fst ` set al \<Longrightarrow> AList.delete k (AList.update k v al) = al"
  by (induction al) auto

lemma dial_fresh:
  assumes "dial_wf c" "ccDialSeq c < 0x7fffffff"
  defines "i \<equiv> 0x80000000 OR (ccDialSeq c + 1)"
  shows "i \<notin> fst ` set (ccDialConns c) \<union> fst ` set (ccDialAcks c)" "unat i = 2 ^ 31 + unat (ccDialSeq c) + 1"
proof -
  have nm: "ccDialSeq c \<noteq> - 1" using assms(2) by auto
  have un: "unat (ccDialSeq c + 1) = unat (ccDialSeq c) + 1" by (rule unat_inc [OF nm])
  have le: "ccDialSeq c + 1 \<le> 0x7fffffff" "ccDialSeq c \<le> 0x7fffffff"
    using assms(2) un by (simp_all add: word_le_nat_alt word_less_nat_alt)
  have i: "unat i = 2 ^ 31 + unat (ccDialSeq c) + 1" using high_or [OF le(1)] un by (simp add: i_def)
  then show "unat i = 2 ^ 31 + unat (ccDialSeq c) + 1" .
  have "\<not> i \<le> 0x80000000 + ccDialSeq c" using i high_or(2) [OF le(2)] by (simp add: word_le_nat_alt)
  then show "i \<notin> fst ` set (ccDialConns c) \<union> fst ` set (ccDialAcks c)"
    using assms(1) unfolding dial_wf_def by blast
qed

text \<open>
  Numbering of dialled connections. A successful dial of a reachable client uses a
  connection id of the upper half of the id space that no dialled connection or pending
  acknowledgement holds, one above the last (the counter never wraps: at the end of the range the
  dial fails instead); the new connection is registered under it and exactly one
  \<^verbatim>\<open>ClientConnReq\<close> naming it is written. A failed dial leaves both tables as they were, and
  nothing is written for a pair that was not registered or when the ids have run out.
\<close>

theorem dial_ids_fresh:
  assumes "cl_run c"
  shows "case DialIntranet_send name sid c of
     (Inr (i, r, a), c') \<Rightarrow>
        pair_key name sid \<in> set (ccPairs c)
        \<and> unat i = 2 ^ 31 + unat (ccDialSeq c) + 1 \<and> unat (ccDialSeq c') = unat (ccDialSeq c) + 1
        \<and> i \<notin> fst ` set (ccDialConns c) \<union> fst ` set (ccDialAcks c)
        \<and> map_of (ccDialConns c') i = Some r \<and> ccDialHeap c' ! r = newStreamConn i \<and> map_of (ccDialAcks c') i = Some a
        \<and> sOut (ccSess c') = sOut (ccSess c) @ frame_of (control_message MsgClientConnReq
            (ClientConnReq_json \<lparr>crConnID = i, crClientProxyName = name, crStreamId = sid\<rparr>))
   | (Inl e, c') \<Rightarrow>
        ccDialConns c' = ccDialConns c \<and> ccDialAcks c' = ccDialAcks c \<and> sOut (ccSess c') = sOut (ccSess c)
        \<and> (e = NotRegistered \<longleftrightarrow> pair_key name sid \<notin> set (ccPairs c))
        \<and> (e = IdsExhausted \<longleftrightarrow> pair_key name sid \<in> set (ccPairs c) \<and> unat (ccDialSeq c) = 2 ^ 31 - 1)"
proof (cases "pair_key name sid \<notin> set (ccPairs c) \<or> ccDialSeq c \<ge> 0x7fffffff")
  case True
  have "ccDialSeq c \<le> 0x7fffffff" using cl_run_wf [OF assms] by (simp add: dial_wf_def)
  with True show ?thesis by (auto simp: DialIntranet_send_def word_le_nat_alt)
next
  case False
  then have lt: "ccDialSeq c < 0x7fffffff" by (simp add: not_le)
  have wf: "dial_wf c" using cl_run_wf [OF assms] by simp
  let ?i = "0x80000000 OR (ccDialSeq c + 1)"
  let ?m = "control_message MsgClientConnReq
      (ClientConnReq_json \<lparr>crConnID = ?i, crClientProxyName = name, crStreamId = sid\<rparr>)"
  note fr = dial_fresh [OF wf lt]
  have un: "unat (ccDialSeq c + 1) = unat (ccDialSeq c) + 1" using lt by (intro unat_inc) auto
  have ne: "unat (ccDialSeq c) \<noteq> 2 ^ 31 - 1" using lt by (auto simp: word_less_nat_alt)
  show ?thesis
  proof (cases rule: Send_cases [of ?m "ccSess c"])
    case sent
    then show ?thesis
      using False fr un
      by (simp add: DialIntranet_send_def Let_def client_send_def update_conv' nth_append)
  next
    case (failed e)
    then show ?thesis
      using False fr ne
      by (simp add: DialIntranet_send_def Let_def client_send_def dial_cleanup_def delete_update_fresh)
  qed
qed

section \<open>Data through the pumps\<close>

definition window_update_frame :: "u32 \<Rightarrow> bytes \<Rightarrow> bytes" where
  "window_update_frame i d = frame_of (control_message MsgWindowUpdate
     (WindowUpdate_json \<lparr>wuConnID = i, wuDelta = word_of_nat (length d)\<rparr>))"

lemma window_update_fits: "fits (control_message MsgWindowUpdate (WindowUpdate_json w))"
  unfolding WindowUpdate_json_def
  using length_print_u32 [of "wuConnID w"] length_print_u32 [of "wuDelta w"]
  by (intro fits_object) (simp add: MaxPayloadSize_def)

text \<open>Turns of one connection's write pump until its queue is empty.\<close>

fun drain_queue :: "nat \<Rightarrow> u32 \<Rightarrow> ref \<Rightarrow> CtrlClient \<Rightarrow> CtrlClient" where
  "drain_queue 0 i r c = c"
| "drain_queue (Suc n) i r c = (case write_pump i r c of None \<Rightarrow> c | Some c' \<Rightarrow> drain_queue n i r c')"

lemma write_pump_chunk:
  assumes "r < length (ccHeap c)" "lcQ (ccHeap c ! r) = d # q" "d \<noteq> []" "writable (ccSess c)"
    "\<not> lcWErr (ccHeap c ! r)" "\<not> lcClosed (ccHeap c ! r)" "\<not> lcWriteClosed (ccHeap c ! r)"
  shows "write_pump i r c =
     Some (c\<lparr>ccHeap := (ccHeap c)[r := (ccHeap c ! r)\<lparr>lcQ := q, lcOut := lcOut (ccHeap c ! r) @ d\<rparr>],
             ccSess := (ccSess c)\<lparr>sOut := sOut (ccSess c) @ window_update_frame i d\<rparr>\<rparr>)"
  using assms window_update_fits
  by (simp add: write_pump_def Let_def upd_local_def client_send_def window_update_frame_def)

lemma drain_data:
  assumes "r < length (ccHeap c)" "lcQ (ccHeap c ! r) = ds @ q" "[] \<notin> set ds" "writable (ccSess c)"
    "\<not> lcWErr (ccHeap c ! r)" "\<not> lcClosed (ccHeap c ! r)" "\<not> lcWriteClosed (ccHeap c ! r)"
  shows "drain_queue (length ds + n) i r c =
     drain_queue n i r (c\<lparr>ccHeap := (ccHeap c)[r := (ccHeap c ! r)\<lparr>lcQ := q, lcOut := lcOut (ccHeap c ! r) @ concat ds\<rparr>],
       ccSess := (ccSess c)\<lparr>sOut := sOut (ccSess c) @ concat (map (window_update_frame i) ds)\<rparr>\<rparr>)"
  using assms
proof (induction ds arbitrary: c)
  case Nil
  then show ?case by (auto simp: list_update_id intro!: arg_cong [where f = "drain_queue n i r"])
next
  case (Cons d ds)
  let ?c1 = "c\<lparr>ccHeap := (ccHeap c)[r := (ccHeap c ! r)\<lparr>lcQ := ds @ q, lcOut := lcOut (ccHeap c ! r) @ d\<rparr>],
             ccSess := (ccSess c)\<lparr>sOut := sOut (ccSess c) @ window_update_frame i d\<rparr>\<rparr>"
  have "write_pump i r c = Some ?c1" using Cons.prems by (intro write_pump_chunk) auto
  with Cons.IH [of ?c1] Cons.prems show ?case by simp
qed

text \<open>
  The write half is closed only after the data. When the queue of an intranet connection
  holds the chunks \<open>ds\<close> and then the half-close sentinel, the write pump writes all the chunks in
  order, closes the write half afterwards, empties the queue, and gives back the credit of each
  chunk by exactly one \<^verbatim>\<open>WindowUpdate\<close> in the same order.
\<close>

theorem half_close_after_data:
  assumes "r < length (ccHeap c)" "lcQ (ccHeap c ! r) = ds @ [[]]" "[] \<notin> set ds" "writable (ccSess c)"
    "\<not> lcWErr (ccHeap c ! r)" "\<not> lcClosed (ccHeap c ! r)" "\<not> lcWriteClosed (ccHeap c ! r)" "lcHalf (ccHeap c ! r)"
  shows "drain_queue (length ds + 1) i r c =
     c\<lparr>ccHeap := (ccHeap c)[r := (ccHeap c ! r)\<lparr>lcQ := [], lcOut := lcOut (ccHeap c ! r) @ concat ds, lcWriteClosed := True\<rparr>],
       ccSess := (ccSess c)\<lparr>sOut := sOut (ccSess c) @ concat (map (window_update_frame i) ds)\<rparr>\<rparr>"
proof -
  let ?c1 = "c\<lparr>ccHeap := (ccHeap c)[r := (ccHeap c ! r)\<lparr>lcQ := [[]], lcOut := lcOut (ccHeap c ! r) @ concat ds\<rparr>],
       ccSess := (ccSess c)\<lparr>sOut := sOut (ccSess c) @ concat (map (window_update_frame i) ds)\<rparr>\<rparr>"
  have "drain_queue (length ds + 1) i r c = drain_queue 1 i r ?c1"
    by (rule drain_data) (use assms in auto)
  also have "\<dots> = c\<lparr>ccHeap := (ccHeap c)[r := (ccHeap c ! r)\<lparr>lcQ := [], lcOut := lcOut (ccHeap c ! r) @ concat ds, lcWriteClosed := True\<rparr>],
       ccSess := (ccSess c)\<lparr>sOut := sOut (ccSess c) @ concat (map (window_update_frame i) ds)\<rparr>\<rparr>"
    using assms(1,8) by (cases c; cases "ccHeap c ! r") (simp add: write_pump_def Let_def upd_local_def)
  finally show ?thesis .
qed

definition demo_local :: "bytes list \<Rightarrow> LocalConn" where
  "demo_local q = (new_local (False, True))\<lparr>lcQ := q\<rparr>"

theorem half_close_after_data_witness:
  "lcOut (ccHeap (drain_queue 3 7 0 ((new_client (NewSession []))\<lparr>ccHeap := [demo_local [[1, 2], [3], []]]\<rparr>)) ! 0) = [1, 2, 3]"
proof -
  let ?c = "(new_client (NewSession []))\<lparr>ccHeap := [demo_local [[1, 2], [3], []]]\<rparr>"
  have "drain_queue (length [[1, 2], [3 :: byte]] + 1) 7 0 ?c =
     ?c\<lparr>ccHeap := (ccHeap ?c)[0 := (ccHeap ?c ! 0)\<lparr>lcQ := [], lcOut := lcOut (ccHeap ?c ! 0) @ concat [[1, 2], [3]], lcWriteClosed := True\<rparr>],
       ccSess := (ccSess ?c)\<lparr>sOut := sOut (ccSess ?c) @ concat (map (window_update_frame 7) [[1, 2], [3]])\<rparr>\<rparr>"
    by (rule half_close_after_data) (simp_all add: demo_local_def new_local_def new_client_def NewSession_def writable_def)
  then show ?thesis
    by (simp add: numeral_3_eq_3 new_client_def demo_local_def new_local_def)
qed

text \<open>
  The uplink pump keeps the send window. For a read of at most \<^verbatim>\<open>uplinkChunk\<close> bytes on an
  open connection with a writable session, a turn either takes exactly the chunk's credit,
  stays within the limit and writes exactly one data frame with the chunk, or has no room,
  takes no credit and writes nothing.
\<close>

theorem uplink_keeps_window:
  assumes "r < length (ccHeap c)" "d \<noteq> []" "length d \<le> uplinkChunk" "writable (ccSess c)"
    "wLimit (lcWin (ccHeap c ! r)) = DefaultStreamWindow" "\<not> wClosed (lcWin (ccHeap c ! r))"
    "pumpUplink ch i r (ReadSome d) c = (x, c')"
  defines "w \<equiv> lcWin (ccHeap c ! r)" and "w' \<equiv> lcWin (ccHeap c' ! r)"
  shows "x = PumpMore \<and> outstanding w' = outstanding w + int (length d) \<and> outstanding w' \<le> wLimit w
         \<and> sOut (ccSess c') = sOut (ccSess c) @ frame_of (mk_msg MsgData i d)
       \<or> x = PumpWait \<and> outstanding w + int (length d) > wLimit w \<and> outstanding w' = outstanding w \<and> ch \<in> set (notify w')
         \<and> ccSess c' = ccSess c"
proof -
  have m: "min64 (int (length d)) (wLimit w) = int (length d)"
    using assms(3,5) by (simp add: min64_def w_def uplinkChunk_def DefaultStreamWindow_def)
  have f: "fits (mk_msg MsgData i d)"
    using assms(3) by (simp add: fits_def mk_msg_def uplinkChunk_def MaxPayloadSize_def)
  show ?thesis
  proof (cases "outstanding w + int (length d) \<le> wLimit w")
    case True
    then have "acquire_turn (int (length d)) ch w = (TurnDone, w\<lparr>outstanding := outstanding w + int (length d)\<rparr>)"
      using assms(6) m by (simp add: acquire_turn_def w_def Let_def)
    then have "x = PumpMore \<and> c' = c\<lparr>ccHeap := (ccHeap c)[r := (ccHeap c ! r)\<lparr>lcWin := w\<lparr>outstanding := outstanding w + int (length d)\<rparr>\<rparr>],
        ccSess := (ccSess c)\<lparr>sOut := sOut (ccSess c) @ frame_of (mk_msg MsgData i d)\<rparr>\<rparr>"
      using assms(2,4,7) f
      by (auto simp: pumpUplink_def pump_finish_def SendData_def client_send_def upd_local_def w_def [symmetric])
    with True assms(1) show ?thesis by (simp add: w'_def)
  next
    case False
    then have "acquire_turn (int (length d)) ch w = (TurnWait, w\<lparr>notify := notify w @ [ch]\<rparr>)"
      using assms(6) m by (simp add: acquire_turn_def w_def)
    then have "x = PumpWait \<and> c' = c\<lparr>ccHeap := (ccHeap c)[r := (ccHeap c ! r)\<lparr>lcWin := w\<lparr>notify := notify w @ [ch]\<rparr>\<rparr>]\<rparr>"
      using assms(2,7) by (auto simp: pumpUplink_def upd_local_def w_def [symmetric])
    with False assms(1) show ?thesis by (simp add: w'_def)
  qed
qed

theorem uplink_keeps_window_witness:
  "\<exists>c'. pumpUplink 0 7 0 (ReadSome [1, 2, 3]) ((new_client (NewSession []))\<lparr>ccHeap := [demo_local []]\<rparr>) = (PumpMore, c')
     \<and> outstanding (lcWin (ccHeap c' ! 0)) = 3 \<and> sOut (ccSess c') = frame_of (mk_msg MsgData 7 [1, 2, 3])"
proof -
  let ?c = "(new_client (NewSession []))\<lparr>ccHeap := [demo_local []]\<rparr>"
  obtain x c' where p: "pumpUplink 0 7 0 (ReadSome [1, 2, 3]) ?c = (x, c')" by force
  have "x = PumpMore \<and> outstanding (lcWin (ccHeap c' ! 0)) = 3 \<and> sOut (ccSess c') = frame_of (mk_msg MsgData 7 [1, 2, 3])"
    using uplink_keeps_window [OF _ _ _ _ _ _ p]
    by (simp add: demo_local_def new_local_def new_client_def NewSession_def writable_def NewWindow_def
        uplinkChunk_def DefaultStreamWindow_def)
  with p show ?thesis by blast
qed

section \<open>The end of the read loop\<close>

lemma fold_upd_local:
  assumes "\<And>l. P (f l)" "q < length (ccHeap c)" "q \<in> snd ` set al \<or> P (ccHeap c ! q)"
  shows "P (ccHeap (fold (\<lambda>(i, r). upd_local r f) al c) ! q)"
  using assms(2,3)
proof (induction al arbitrary: c)
  case (Cons p al)
  obtain i r where p: "p = (i, r)" by force
  have "P (ccHeap (fold (\<lambda>(i, r). upd_local r f) al (upd_local r f c)) ! q)"
    by (rule Cons.IH) (use Cons.prems p assms(1) in \<open>auto simp: upd_local_nth\<close>)
  then show ?case by (simp add: p)
qed simp

lemma fold_upd_local_frame [simp]:
  "length (ccHeap (fold (\<lambda>(i, r). upd_local r f) al c)) = length (ccHeap c)"
  "ccConns (fold (\<lambda>(i, r). upd_local r f) al c) = ccConns c"
  "ccConnsWin (fold (\<lambda>(i, r). upd_local r f) al c) = ccConnsWin c"
  "ccDialConns (fold (\<lambda>(i, r). upd_local r f) al c) = ccDialConns c"
  "ccDialHeap (fold (\<lambda>(i, r). upd_local r f) al c) = ccDialHeap c"
  "ccClosed (fold (\<lambda>(i, r). upd_local r f) al c) = ccClosed c"
  by (induction al arbitrary: c) (auto simp: upd_local_def)

lemma fold_markClosed:
  fixes h :: "StreamConn list"
  assumes "q < length h" "q \<in> snd ` set al \<or> scClosed (h ! q)"
  shows "scClosed (fold (\<lambda>(i, r) h. h[r := markClosed e (h ! r)]) al h ! q)"
  using assms
proof (induction al arbitrary: h)
  case (Cons p al)
  obtain i r where p: "p = (i, r)" by force
  have "scClosed (fold (\<lambda>(i, r) h. h[r := markClosed e (h ! r)]) al (h[r := markClosed e (h ! r)]) ! q)"
    by (rule Cons.IH; cases "q = r") (use Cons.prems p in \<open>auto simp: markClosed_def\<close>)
  then show ?case by (simp add: p)
qed simp

lemma closed_keep_fold:
  "q < length (ccHeap c) \<Longrightarrow> lcClosed (ccHeap c ! q) \<Longrightarrow>
   lcClosed (ccHeap (fold (\<lambda>(i, r). upd_local r (\<lambda>l. l\<lparr>lcWin := g l\<rparr>)) al c) ! q)"
proof (induction al arbitrary: c)
  case (Cons p al)
  obtain i r where p: "p = (i, r)" by force
  have "lcClosed (ccHeap (fold (\<lambda>(i, r). upd_local r (\<lambda>l. l\<lparr>lcWin := g l\<rparr>)) al (upd_local r (\<lambda>l. l\<lparr>lcWin := g l\<rparr>) c)) ! q)"
    by (rule Cons.IH) (use Cons.prems in \<open>auto simp: upd_local_nth\<close>)
  then show ?case by (simp add: p)
qed simp

lemma run_exit_closes:
  assumes "client_wf c" "dial_wf c"
  shows "(i, r) \<in> set (ccConns c) \<Longrightarrow> lcClosed (ccHeap (run_exit c) ! r) \<and> wClosed (lcWin (ccHeap (run_exit c) ! r))"
    "(i, r) \<in> set (ccDialConns c) \<Longrightarrow> scClosed (ccDialHeap (run_exit c) ! r)"
    "ccConns (run_exit c) = [] \<and> ccConnsWin (run_exit c) = [] \<and> ccDialConns (run_exit c) = [] \<and> ccClosed (run_exit c)"
proof -
  let ?c0 = "c\<lparr>ccClosed := True\<rparr>"
  let ?c1 = "fold (\<lambda>(i, r). upd_local r (\<lambda>l. l\<lparr>lcClosed := True\<rparr>)) (ccConns c) (?c0\<lparr>ccConns := []\<rparr>)"
  let ?c2 = "?c1\<lparr>ccDialConns := [],
      ccDialHeap := fold (\<lambda>(i, r) h. h[r := markClosed EOF (h ! r)]) (ccDialConns c) (ccDialHeap ?c1), ccConnsWin := []\<rparr>"
  let ?w = "\<lambda>l. l\<lparr>lcWin := fst (Window_Close (lcWin l))\<rparr>"
  have ex: "run_exit c = fold (\<lambda>(i, r). upd_local r ?w) (ccConnsWin c) ?c2"
    by (simp add: run_exit_def closeAllConns_def Let_def)
  show "ccConns (run_exit c) = [] \<and> ccConnsWin (run_exit c) = [] \<and> ccDialConns (run_exit c) = [] \<and> ccClosed (run_exit c)"
    unfolding ex by simp
  show "scClosed (ccDialHeap (run_exit c) ! r)" if "(i, r) \<in> set (ccDialConns c)"
  proof -
    have "r < length (ccDialHeap c)" "r \<in> snd ` set (ccDialConns c)"
      using that assms(2) image_eqI [OF _ that, of r snd] by (auto simp: dial_wf_def)
    then show ?thesis unfolding ex by (simp add: fold_markClosed)
  qed
  show "lcClosed (ccHeap (run_exit c) ! r) \<and> wClosed (lcWin (ccHeap (run_exit c) ! r))" if m: "(i, r) \<in> set (ccConns c)"
  proof -
    have r: "r < length (ccHeap c)" "r \<in> snd ` set (ccConns c)" "r \<in> snd ` set (ccConnsWin c)"
      using m assms(1) image_eqI [OF _ m, of r snd] by (auto simp: client_wf_def)
    have "lcClosed (ccHeap ?c1 ! r)" 
      by (rule fold_upd_local [where P = lcClosed]) (use r in simp_all)
    then have "lcClosed (ccHeap (run_exit c) ! r)" unfolding ex by (intro closed_keep_fold) (use r(1) in simp_all)
    moreover have "wClosed (lcWin (ccHeap (run_exit c) ! r))" unfolding ex
      by (rule fold_upd_local [where P = "\<lambda>l. wClosed (lcWin l)"]) (use r in \<open>simp_all add: Window_Close_def\<close>)
    ultimately show ?thesis by simp
  qed
qed


section \<open>A concrete client\<close>

lemma ClientRegisterStream_frame:
  assumes "sIn s = frame_of (control_message MsgRegisterStreamAck (RegisterStreamAck_json ack)) @ rest"
    "fits (control_message MsgRegisterStreamAck (RegisterStreamAck_json ack))" "RegisterStreamAck_ok ack"
    "fits (control_message MsgRegisterStream (RegisterStreamReq_json req))" "writable s"
  shows "ClientRegisterStream s req =
     (Inr ack, clearDeadline (deadline registerTimeout s)\<lparr>sIn := rest,
        sOut := sOut s @ frame_of (control_message MsgRegisterStream (RegisterStreamReq_json req))\<rparr>)"
proof -
  let ?s = "(deadline registerTimeout s)\<lparr>sOut := sOut s @ frame_of (control_message MsgRegisterStream (RegisterStreamReq_json req))\<rparr>"
  have "expect MsgRegisterStreamAck ?s =
      (Inr (control_message MsgRegisterStreamAck (RegisterStreamAck_json ack)), ?s\<lparr>sIn := rest\<rparr>)"
    using assms by (intro expect_frame) simp_all
  with assms show ?thesis
    by (simp add: ClientRegisterStream_def Let_def SendControl_def reg_ack.decode_message)
      (simp add: clearDeadline_def deadline_def)
qed

definition demo_ssh :: RegisterStreamReq where
  "demo_ssh = \<lparr>rrClientProxyName = ''home'', rrStreamId = ''ssh''\<rparr>"
definition demo_greeting :: HandshakeReq where
  "demo_greeting = \<lparr>hrVersion = 1, hrClientName = ''rainc'', hrKeyPassword = ''pw''\<rparr>"
definition demo_rack :: RegisterStreamAck where
  "demo_rack = \<lparr>raOK = True, raStreamId = ''ssh'', raAssignID = 1, raMessage = []\<rparr>"
definition demo_conn :: Session where
  "demo_conn = NewSession (frame_of (control_message MsgHandshakeAck (HandshakeAck_json \<lparr>haOK = True, haMessage = []\<rparr>))
     @ frame_of (control_message MsgRegisterStreamAck (RegisterStreamAck_json demo_rack)))"

lemma demo_dialled:
  "\<exists>c. DialCtrl demo_conn demo_greeting [demo_ssh] = (None, c) \<and> writable (ccSess c) \<and> ccDialSeq c = 0
     \<and> pair_key ''home'' ''ssh'' \<in> set (ccPairs c) \<and> map_of (ccStreamIDs c) 1 = Some ''ssh'' \<and> ccConns c = []"
proof -
  have "print_int 1 = ''1''" by code_simp
  then have f1: "fits (control_message MsgHandshake (HandshakeReq_json demo_greeting))"
    by (simp add: demo_greeting_def HandshakeReq_json_def omit_empty_def fits_object MaxPayloadSize_def)
  have f2: "fits (control_message MsgRegisterStream (RegisterStreamReq_json demo_ssh))"
    by (simp add: demo_ssh_def RegisterStreamReq_json_def omit_empty_def fits_object MaxPayloadSize_def)
  have f3: "fits (control_message MsgRegisterStreamAck (RegisterStreamAck_json demo_rack))"
    using length_print_u32 [of 1]
    by (simp add: demo_rack_def RegisterStreamAck_json_def omit_empty_def fits_object MaxPayloadSize_def)
  have ok: "RegisterStreamAck_ok demo_rack" by (simp add: demo_rack_def RegisterStreamAck_ok_def valid_utf8_def)
  have dv: "default_version demo_greeting = demo_greeting" by (simp add: demo_greeting_def default_version_def)
  obtain s1 where h: "ClientHandshake demo_conn demo_greeting = (Inr \<lparr>haOK = True, haMessage = []\<rparr>, s1)"
    "writable s1" "sIn s1 = frame_of (control_message MsgRegisterStreamAck (RegisterStreamAck_json demo_rack))"
    using ClientHandshake_frame [of demo_conn "\<lparr>haOK = True, haMessage = []\<rparr>"
        "frame_of (control_message MsgRegisterStreamAck (RegisterStreamAck_json demo_rack))" demo_greeting] f1 dv
    by (simp add: demo_conn_def NewSession_def writable_def clearDeadline_def deadline_def)
  obtain s2 where "ClientRegisterStream s1 demo_ssh = (Inr demo_rack, s2)" "writable s2"
    using ClientRegisterStream_frame [of s1 demo_rack "[]" demo_ssh] h f2 f3 ok by simp
  with h show ?thesis
    by (simp add: DialCtrl_def new_client_def demo_rack_def demo_ssh_def)
qed

theorem dial_ids_fresh_witness:
  "\<exists>c i r a c'. cl_run c \<and> DialIntranet_send ''home'' ''ssh'' c = (Inr (i, r, a), c') \<and> i = 0x80000001
     \<and> map_of (ccDialConns c') i = Some r"
proof -
  obtain c where c: "DialCtrl demo_conn demo_greeting [demo_ssh] = (None, c)" "writable (ccSess c)" "ccDialSeq c = 0"
    "pair_key ''home'' ''ssh'' \<in> set (ccPairs c)"
    using demo_dialled by blast
  have run: "cl_run c" by (rule cl_dial [OF c(1)])
  let ?m = "\<lambda>i. control_message MsgClientConnReq
      (ClientConnReq_json \<lparr>crConnID = i, crClientProxyName = ''home'', crStreamId = ''ssh''\<rparr>)"
  have "fits (?m i)" for i
    unfolding ClientConnReq_json_def using length_print_u32 [of i] by (intro fits_object) (simp add: MaxPayloadSize_def)
  then obtain i r a c' where d: "DialIntranet_send ''home'' ''ssh'' c = (Inr (i, r, a), c')"
    using c by (simp add: DialIntranet_send_def Let_def client_send_def)
  have u: "unat i = 2 ^ 31 + 1" "map_of (ccDialConns c') i = Some r"
    using dial_ids_fresh [OF run, of "''home''" "''ssh''"] d c(3) by simp_all
  then have "i = 0x80000001" by (simp add: word_unat_eq_iff)
  with run d u(2) show ?thesis by blast
qed

lemma demo_opened:
  "\<exists>c. cl_run c \<and> map_of (ccConns c) 9 = Some 0"
proof -
  obtain c where c: "DialCtrl demo_conn demo_greeting [demo_ssh] = (None, c)" "writable (ccSess c)"
    "map_of (ccStreamIDs c) 1 = Some ''ssh''" "ccConns c = []"
    using demo_dialled by blast
  let ?m = "control_message MsgConnOpen (ConnOpenReq_json \<lparr>orStreamID = 1, orConnID = 9\<rparr>)"
  let ?d = "Some (\<lambda>_. Inr (False, True)) :: (string \<Rightarrow> string + bool \<times> bool) option"
  have run: "cl_run c" by (rule cl_dial [OF c(1)])
  have h: "ccHeap c = []"
    using c(1) by (auto simp: DialCtrl_def new_client_def dest!: register_all_frame split: prod.splits sum.splits if_splits)
  have dec: "DecodeControl ConnOpenReq_parse ?m = Inr \<lparr>orStreamID = 1, orConnID = 9\<rparr>"
    by (rule open_req.decode_message) (simp add: ConnOpenReq_ok_def)
  have "fits (control_message MsgConnOpenAck (ConnOpenAck_json \<lparr>oaConnID = 9, oaOK = True, oaMessage = []\<rparr>))"
    using length_print_u32 [of 9]
    by (simp add: ConnOpenAck_json_def omit_empty_def fits_object MaxPayloadSize_def)
  then have "map_of (ccConns (handleConnOpen ?d (\<lambda>_ e. e) ?m c)) 9 = Some 0"
    using c dec h by (simp add: handleConnOpen_def Let_def client_send_def ex_bool_eq)
  moreover have "run_dispatch ?d (\<lambda>_ e. e) False ?m c = RunMore (handleConnOpen ?d (\<lambda>_ e. e) ?m c)"
    by (simp add: run_dispatch_def)
  ultimately show ?thesis using cl_message [OF run] by blast
qed


end
