(* ===== verification/Routing.thy ===== *)
theory Routing
  imports CtrlProxy
begin

text \<open>
  The two rule tables of the server: \<^verbatim>\<open>ConnectTable\<close> (\<^verbatim>\<open>internal/star/starserver/connecttable.go\<close>),
  which routes a proxy listener to client streams, and \<^verbatim>\<open>Router\<close> (\<^verbatim>\<open>internal/router/router.go\<close>),
  first match in declaration order with a round-robin cursor per rule, over the connection
  metadata of \<^verbatim>\<open>pkg/rainnet/conn.go\<close>. Both tables refuse duplicates and are edited at run time; that
  contract is the locale \<open>rule_table\<close>, interpreted on each of them.
\<close>

section \<open>The connect table\<close>

type_synonym ConnectTable = "(string \<times> ConnectItem list) list"

definition NewConnectTable :: ConnectTable where "NewConnectTable = []"

definition sameConnectRule :: "ConnectItem \<Rightarrow> ConnectItem \<Rightarrow> bool" where
  "sameConnectRule a b \<longleftrightarrow> ciProxyName a = ciProxyName b \<and> ciClientProxyName a = ciClientProxyName b
     \<and> ciStreamId a = ciStreamId b"

definition For :: "string \<Rightarrow> ConnectTable \<Rightarrow> ConnectItem list" where
  "For p t = (case map_of t p of Some l \<Rightarrow> l | None \<Rightarrow> [])"

definition ConnectTable_Add :: "ConnectItem \<Rightarrow> ConnectTable \<Rightarrow> bool \<times> ConnectTable" where
  "ConnectTable_Add rule t =
     (if (\<exists>x \<in> set (For (ciProxyName rule) t). sameConnectRule x rule) then (False, t)
      else (True, AList.update (ciProxyName rule) (For (ciProxyName rule) t @ [rule]) t))"

fun ConnectTable_Seed :: "ConnectItem list \<Rightarrow> ConnectTable \<Rightarrow> ConnectTable" where
  "ConnectTable_Seed [] t = t"
| "ConnectTable_Seed (r # rs) t =
     (let list = For (ciProxyName r) t; dup = (\<exists>x \<in> set list. sameConnectRule x r) in
      ConnectTable_Seed rs (if dup then t else AList.update (ciProxyName r) (list @ [r]) t))"

definition ConnectTable_Remove :: "string \<Rightarrow> string \<Rightarrow> string \<Rightarrow> ConnectTable \<Rightarrow> bool \<times> ConnectTable" where
  "ConnectTable_Remove p c s t =
     (let (b, l) = remove_first (\<lambda>x. ciClientProxyName x = c \<and> ciStreamId x = s) (For p t) in
      if b then (True, AList.update p l t) else (False, t))"

definition ConnectTable_All :: "ConnectTable \<Rightarrow> (string \<times> ConnectItem list) list" where
  "ConnectTable_All t = t"

section \<open>The router\<close>

record Meta =
  metaID :: string
  metaListener :: string
  metaRemote :: string
  metaIdentity :: string
  metaTarget :: string

record Rule =
  ruIngress :: string
  ruIdentity :: string
  ruTarget :: string
  ruDialer :: string
  ruStreams :: "string list"

record Decision =
  deDialer :: string
  deStream :: string
  deRule :: Rule

record Router =
  roRules :: "Rule list"
  roCursors :: "(nat \<times> nat) list"

definition NewRouter :: Router where "NewRouter = \<lparr>roRules = [], roCursors = []\<rparr>"

definition sameRule :: "Rule \<Rightarrow> Rule \<Rightarrow> bool" where
  "sameRule a b \<longleftrightarrow> ruIngress a = ruIngress b \<and> ruIdentity a = ruIdentity b \<and> ruTarget a = ruTarget b
     \<and> ruDialer a = ruDialer b \<and> length (ruStreams a) = length (ruStreams b)
     \<and> (\<forall>i < length (ruStreams a). ruStreams a ! i = ruStreams b ! i)"

definition Router_Add :: "Rule \<Rightarrow> Router \<Rightarrow> bool \<times> Router" where
  "Router_Add rule r =
     (if (\<exists>x \<in> set (roRules r). sameRule x rule) then (False, r) else (True, r\<lparr>roRules := roRules r @ [rule]\<rparr>))"

fun Router_Seed :: "Rule list \<Rightarrow> Router \<Rightarrow> Router" where
  "Router_Seed [] r = r"
| "Router_Seed (x # xs) r = Router_Seed xs (snd (Router_Add x r))"

text \<open>\<^verbatim>\<open>Remove\<close> drops the cursor of the removed index; the cursors behind it keep their old index.\<close>

fun rule_index :: "('a \<Rightarrow> bool) \<Rightarrow> 'a list \<Rightarrow> nat option" where
  "rule_index p [] = None"
| "rule_index p (x # xs) = (if p x then Some 0 else map_option Suc (rule_index p xs))"

definition Router_Remove :: "Rule \<Rightarrow> Router \<Rightarrow> bool \<times> Router" where
  "Router_Remove rule r =
     (case rule_index (\<lambda>x. sameRule x rule) (roRules r) of
        None \<Rightarrow> (False, r)
      | Some i \<Rightarrow> (True, r\<lparr>roRules := take i (roRules r) @ drop (i + 1) (roRules r),
                            roCursors := AList.delete i (roCursors r)\<rparr>))"

definition Rules :: "Router \<Rightarrow> Rule list" where "Rules r = roRules r"

definition ruleMatches :: "Rule \<Rightarrow> Meta \<Rightarrow> bool" where
  "ruleMatches rule m \<longleftrightarrow> (ruIngress rule = [] \<or> ruIngress rule = metaListener m)
     \<and> (ruIdentity rule = [] \<or> ruIdentity rule = metaIdentity m)
     \<and> (ruTarget rule = [] \<or> ruTarget rule = metaTarget m)"

definition cursor :: "nat \<Rightarrow> Router \<Rightarrow> nat" where
  "cursor i r = (case map_of (roCursors r) i of Some c \<Rightarrow> c | None \<Rightarrow> 0)"

definition Match :: "Meta \<Rightarrow> Router \<Rightarrow> Decision option \<times> Router" where
  "Match m r =
     (case rule_index (\<lambda>x. ruleMatches x m) (roRules r) of
        None \<Rightarrow> (None, r)
      | Some i \<Rightarrow>
          (let rule = roRules r ! i; n = length (ruStreams rule) in
           if n > 0 then
             (Some \<lparr>deDialer = ruDialer rule, deStream = ruStreams rule ! (cursor i r mod n), deRule = rule\<rparr>,
              r\<lparr>roCursors := AList.update i ((cursor i r + 1) mod n) (roCursors r)\<rparr>)
           else (Some \<lparr>deDialer = ruDialer rule, deStream = [], deRule = rule\<rparr>, r)))"

section \<open>The contract of a rule table\<close>

text \<open>
  \<open>view k t\<close> is the list of the rules under key \<open>k\<close> in declaration order; \<open>ok\<close> is the
  invariant the laws rest on.
\<close>

datatype 'r rule_op = AddRule 'r | DelRule 'r

fun rule_run :: "('r \<Rightarrow> 't \<Rightarrow> bool \<times> 't) \<Rightarrow> ('r \<Rightarrow> 't \<Rightarrow> bool \<times> 't) \<Rightarrow> 'r rule_op list \<Rightarrow> 't \<Rightarrow> 't" where
  "rule_run add del [] t = t"
| "rule_run add del (AddRule r # ops) t = rule_run add del ops (snd (add r t))"
| "rule_run add del (DelRule r # ops) t = rule_run add del ops (snd (del r t))"

definition rules_apart :: "('r \<Rightarrow> 'r \<Rightarrow> bool) \<Rightarrow> 'r list \<Rightarrow> bool" where
  "rules_apart same xs \<longleftrightarrow> sorted_wrt (\<lambda>x y. \<not> same x y) xs"

locale rule_table =
  fixes same :: "'r \<Rightarrow> 'r \<Rightarrow> bool" and key :: "'r \<Rightarrow> 'k" and view :: "'k \<Rightarrow> 't \<Rightarrow> 'r list"
    and add :: "'r \<Rightarrow> 't \<Rightarrow> bool \<times> 't" and del :: "'r \<Rightarrow> 't \<Rightarrow> bool \<times> 't" and ok :: "'t \<Rightarrow> bool"
  assumes same_equiv: "same x x" "same x y \<Longrightarrow> same y x" "same x y \<Longrightarrow> same y z \<Longrightarrow> same x z"
    and same_key: "same x y \<Longrightarrow> key x = key y"
    and view_key: "ok t \<Longrightarrow> x \<in> set (view k t) \<Longrightarrow> key x = k"
    and add_ok: "ok t \<Longrightarrow> ok (snd (add r t))"
    and del_ok: "ok t \<Longrightarrow> ok (snd (del r t))"
    and add_dup: "ok t \<Longrightarrow> \<exists>x \<in> set (view (key r) t). same x r \<Longrightarrow> add r t = (False, t)"
    and add_new: "ok t \<Longrightarrow> \<forall>x \<in> set (view (key r) t). \<not> same x r \<Longrightarrow>
        fst (add r t) \<and> view k (snd (add r t)) = (if k = key r then view k t @ [r] else view k t)"
    and del_none: "ok t \<Longrightarrow> \<forall>x \<in> set (view (key r) t). \<not> same x r \<Longrightarrow> del r t = (False, t)"
    and del_some: "ok t \<Longrightarrow> view (key r) t = xs @ x # ys \<Longrightarrow> same x r \<Longrightarrow> \<forall>y \<in> set xs. \<not> same y r \<Longrightarrow>
        fst (del r t) \<and> view k (snd (del r t)) = (if k = key r then xs @ ys else view k t)"
begin

lemma apart_append: "rules_apart same xs \<Longrightarrow> \<forall>x \<in> set xs. \<not> same x r \<Longrightarrow> rules_apart same (xs @ [r])"
  by (auto simp: rules_apart_def sorted_wrt_append)

lemma add_apart:
  assumes "ok t" "rules_apart same (view k t)"
  shows "rules_apart same (view k (snd (add r t)))"
proof (cases "\<exists>x \<in> set (view (key r) t). same x r")
  case True
  then show ?thesis using add_dup [OF assms(1) True] assms(2) by simp
next
  case False
  then show ?thesis using add_new [OF assms(1), of r k] assms(2) apart_append [of "view k t" r] by auto
qed

lemma del_split:
  assumes "\<exists>x \<in> set zs. same x r"
  obtains xs x ys where "zs = xs @ x # ys" "same x r" "\<forall>y \<in> set xs. \<not> same y r"
  using split_list_first_prop [of zs "\<lambda>x. same x r"] assms by blast

lemma del_apart:
  assumes "ok t" "rules_apart same (view k t)"
  shows "rules_apart same (view k (snd (del r t)))"
proof (cases "\<exists>x \<in> set (view (key r) t). same x r")
  case True
  obtain xs x ys where s: "view (key r) t = xs @ x # ys" "same x r" "\<forall>y \<in> set xs. \<not> same y r"
    using del_split [OF True] by blast
  then show ?thesis using del_some [OF assms(1) s, of k] assms(2) by (auto simp: rules_apart_def sorted_wrt_append)
next
  case False
  then show ?thesis using del_none [OF assms(1), of r] assms(2) by simp
qed

lemma run_apart: "ok t \<Longrightarrow> rules_apart same (view k t) \<Longrightarrow> ok (rule_run add del ops t) \<and> rules_apart same (view k (rule_run add del ops t))"
proof (induction ops arbitrary: t)
  case (Cons op ops)
  then show ?case by (cases op) (simp_all add: add_ok del_ok add_apart del_apart)
qed simp

text \<open>A removal really removes: no equal rule is left, every other rule keeps its place.\<close>

lemma del_effect:
  assumes "ok t" "rules_apart same (view (key r) t)"
  shows "view (key r) (snd (del r t)) = filter (\<lambda>x. \<not> same x r) (view (key r) t)"
proof (cases "\<exists>x \<in> set (view (key r) t). same x r")
  case True
  obtain xs x ys where s: "view (key r) t = xs @ x # ys" "same x r" "\<forall>y \<in> set xs. \<not> same y r"
    using del_split [OF True] by blast
  have "\<not> same y r" if "y \<in> set ys" for y
  proof
    assume "same y r"
    then have "same x y" using same_equiv(2,3) s(2) by blast
    with that assms(2) show False unfolding rules_apart_def s(1) by (auto simp: sorted_wrt_append)
  qed
  then have "filter (\<lambda>x. \<not> same x r) ys = ys" "filter (\<lambda>x. \<not> same x r) xs = xs"
    using s(3) by (simp_all add: filter_id_conv)
  then show ?thesis using del_some [OF assms(1) s, of "key r"] s(1,2) by simp
next
  case False
  then show ?thesis using del_none [OF assms(1), of r] by (simp add: filter_id_conv)
qed

lemma add_del:
  assumes "ok t" "\<forall>x \<in> set (view (key r) t). \<not> same x r"
  shows "view k (snd (del r (snd (add r t)))) = view k t"
proof -
  have v: "view (key r) (snd (add r t)) = view (key r) t @ r # []" using add_new [OF assms, of "key r"] by simp
  show ?thesis
    using del_some [OF add_ok [OF assms(1)] v same_equiv(1) assms(2), of k] add_new [OF assms, of k]
    by (simp split: if_splits)
qed

end

section \<open>Interpretations\<close>

lemma remove_first_split: "\<forall>y \<in> set xs. \<not> p y \<Longrightarrow> p x \<Longrightarrow> remove_first p (xs @ x # ys) = (True, xs @ ys)"
  by (induction xs) simp_all

lemma remove_first_none: "\<forall>y \<in> set zs. \<not> p y \<Longrightarrow> remove_first p zs = (False, zs)"
  by (induction zs) simp_all

lemma rule_index_split: "\<forall>y \<in> set xs. \<not> p y \<Longrightarrow> p x \<Longrightarrow> rule_index p (xs @ x # ys) = Some (length xs)"
  by (induction xs) simp_all

lemma rule_index_Some:
  "rule_index p xs = Some i \<Longrightarrow> i < length xs \<and> p (xs ! i) \<and> (\<forall>j < i. \<not> p (xs ! j))"
proof (induction xs arbitrary: i)
  case (Cons x xs)
  show ?case
  proof (cases "p x")
    case False
    with Cons obtain k where k: "rule_index p xs = Some k" "i = Suc k" by auto
    with Cons.IH [OF k(1)] False show ?thesis by (auto simp: less_Suc_eq_0_disj)
  qed (use Cons in simp)
qed simp

lemma rule_index_None: "rule_index p xs = None \<longleftrightarrow> (\<forall>x \<in> set xs. \<not> p x)"
  by (induction xs) auto

lemma For_update [simp]: "For p (AList.update q l t) = (if p = q then l else For p t)"
  by (simp add: For_def update_conv')

definition table_keys_ok :: "ConnectTable \<Rightarrow> bool" where
  "table_keys_ok t \<longleftrightarrow> (\<forall>p. \<forall>x \<in> set (For p t). ciProxyName x = p)"

definition connect_del :: "ConnectItem \<Rightarrow> ConnectTable \<Rightarrow> bool \<times> ConnectTable" where
  "connect_del r = ConnectTable_Remove (ciProxyName r) (ciClientProxyName r) (ciStreamId r)"

lemma connect_del_same:
  assumes "table_keys_ok t"
  shows "connect_del r t =
     (let (b, l) = remove_first (\<lambda>x. sameConnectRule x r) (For (ciProxyName r) t) in
      if b then (True, AList.update (ciProxyName r) l t) else (False, t))"
proof -
  have rf: "remove_first p l = remove_first q l" if "\<forall>x \<in> set l. p x = q x" for p q and l :: "ConnectItem list"
    using that by (induction l) simp_all
  have "\<forall>x \<in> set (For (ciProxyName r) t). (ciClientProxyName x = ciClientProxyName r \<and> ciStreamId x = ciStreamId r)
      = sameConnectRule x r"
    using assms by (auto simp: table_keys_ok_def sameConnectRule_def)
  then have "remove_first (\<lambda>x. ciClientProxyName x = ciClientProxyName r \<and> ciStreamId x = ciStreamId r) (For (ciProxyName r) t)
      = remove_first (\<lambda>x. sameConnectRule x r) (For (ciProxyName r) t)" by (rule rf)
  then show ?thesis by (simp add: connect_del_def ConnectTable_Remove_def)
qed

lemma remove_first_sub: "set (snd (remove_first p l)) \<subseteq> set l"
  by (induction l) (auto split: prod.splits)

interpretation ct: rule_table sameConnectRule ciProxyName For ConnectTable_Add connect_del table_keys_ok
proof unfold_locales
  fix t r k xs x ys
  assume ok: "table_keys_ok t"
  show "table_keys_ok (snd (ConnectTable_Add r t))"
    using ok by (simp add: table_keys_ok_def ConnectTable_Add_def)
  obtain b l where bl: "remove_first (\<lambda>x. ciClientProxyName x = ciClientProxyName r \<and> ciStreamId x = ciStreamId r)
      (For (ciProxyName r) t) = (b, l)" by force
  have "set l \<subseteq> set (For (ciProxyName r) t)"
    using remove_first_sub [of "\<lambda>x. ciClientProxyName x = ciClientProxyName r \<and> ciStreamId x = ciStreamId r"
        "For (ciProxyName r) t"] unfolding bl by simp
  then show "table_keys_ok (snd (connect_del r t))"
    using ok by (auto simp: table_keys_ok_def connect_del_def ConnectTable_Remove_def bl)
  show "x \<in> set (For k t) \<Longrightarrow> ciProxyName x = k" using ok by (simp add: table_keys_ok_def)
  show "\<exists>x \<in> set (For (ciProxyName r) t). sameConnectRule x r \<Longrightarrow> ConnectTable_Add r t = (False, t)"
    by (simp add: ConnectTable_Add_def)
  show "fst (ConnectTable_Add r t) \<and>
      For k (snd (ConnectTable_Add r t)) = (if k = ciProxyName r then For k t @ [r] else For k t)"
    if "\<forall>x \<in> set (For (ciProxyName r) t). \<not> sameConnectRule x r"
    using that by (auto simp: ConnectTable_Add_def)
  show "connect_del r t = (False, t)" if "\<forall>x \<in> set (For (ciProxyName r) t). \<not> sameConnectRule x r"
    using that by (simp add: connect_del_same [OF ok] remove_first_none)
  show "fst (connect_del r t) \<and> For k (snd (connect_del r t)) = (if k = ciProxyName r then xs @ ys else For k t)"
    if "For (ciProxyName r) t = xs @ x # ys" "sameConnectRule x r" "\<forall>y \<in> set xs. \<not> sameConnectRule y r"
    using that by (simp add: connect_del_same [OF ok] remove_first_split)
qed (auto simp: sameConnectRule_def)

lemma sameRule_eq: "sameRule a b \<longleftrightarrow> a = b"
  by (cases a; cases b) (auto simp: sameRule_def list_eq_iff_nth_eq)

interpretation rt: rule_table sameRule "\<lambda>_. ()" "\<lambda>_. roRules" Router_Add Router_Remove "\<lambda>_. True"
proof unfold_locales
  fix t r xs x ys and k :: unit
  show "fst (Router_Remove r t) \<and> roRules (snd (Router_Remove r t)) = (if k = () then xs @ ys else roRules t)"
    if "roRules t = xs @ x # ys" "sameRule x r" "\<forall>y \<in> set xs. \<not> sameRule y r"
    using that by (simp add: Router_Remove_def rule_index_split)
  show "Router_Remove r t = (False, t)" if "\<forall>x \<in> set (roRules t). \<not> sameRule x r"
    using that by (simp add: Router_Remove_def rule_index_None [THEN iffD2])
qed (auto simp: sameRule_eq Router_Add_def)

section \<open>Properties\<close>

lemma Seed_run: "ConnectTable_Seed rs t = rule_run ConnectTable_Add connect_del (map AddRule rs) t"
  by (induction rs arbitrary: t) (simp_all add: ConnectTable_Add_def Let_def)

lemma Router_Seed_run: "Router_Seed rs r = rule_run Router_Add Router_Remove (map AddRule rs) r"
  by (induction rs arbitrary: r) simp_all

lemma rule_run_append: "rule_run add del (xs @ ys) t = rule_run add del ys (rule_run add del xs t)"
  by (induction add del xs t rule: rule_run.induct) simp_all

text \<open>
  Both rule tables hold each rule at most once, after a start-up seed and any sequence of
  run-time additions and removals; adding a rule that is not there puts it last, removing it
  again restores the lists, and removing a rule keeps the order of all others.
\<close>

theorem rules_unique:
  fixes seed :: "ConnectItem list" and rseed :: "Rule list" and ops :: "ConnectItem rule_op list" and rops :: "Rule rule_op list"
  defines "t \<equiv> rule_run ConnectTable_Add connect_del ops (ConnectTable_Seed seed NewConnectTable)"
    and "r \<equiv> rule_run Router_Add Router_Remove rops (Router_Seed rseed NewRouter)"
  shows "rules_apart sameConnectRule (For p t) \<and> distinct (Rules r)
     \<and> (\<forall>x \<in> set (For p t). ciProxyName x = p)
     \<and> For (ciProxyName x) (snd (connect_del x t)) = filter (\<lambda>y. \<not> sameConnectRule y x) (For (ciProxyName x) t)
     \<and> Rules (snd (Router_Remove y r)) = filter (\<lambda>z. z \<noteq> y) (Rules r)
     \<and> (if \<exists>z \<in> set (For (ciProxyName x) t). sameConnectRule z x then ConnectTable_Add x t = (False, t)
        else For p (snd (ConnectTable_Add x t)) = (if p = ciProxyName x then For p t @ [x] else For p t)
             \<and> For p (snd (connect_del x (snd (ConnectTable_Add x t)))) = For p t)
     \<and> (if y \<in> set (Rules r) then Router_Add y r = (False, r) else Rules (snd (Router_Add y r)) = Rules r @ [y])"
proof -
  have t: "t = rule_run ConnectTable_Add connect_del (map AddRule seed @ ops) NewConnectTable"
    by (simp add: t_def Seed_run rule_run_append)
  have r: "r = rule_run Router_Add Router_Remove (map AddRule rseed @ rops) NewRouter"
    by (simp add: r_def Router_Seed_run rule_run_append)
  have "table_keys_ok NewConnectTable" "rules_apart sameConnectRule (For q NewConnectTable)" for q
    by (simp_all add: table_keys_ok_def NewConnectTable_def For_def rules_apart_def)
  then have ct: "table_keys_ok t \<and> rules_apart sameConnectRule (For q t)" for q
    unfolding t by (intro ct.run_apart)
  have ra: "rules_apart sameRule (roRules r)"
    unfolding r using rt.run_apart [of NewRouter] by (simp add: NewRouter_def rules_apart_def)
  then have d: "distinct (roRules r)"
    unfolding rules_apart_def sameRule_eq distinct_conv_nth sorted_wrt_iff_nth_less by (metis linorder_neqE_nat)
  have del: "For (ciProxyName x) (snd (connect_del x t)) = filter (\<lambda>y. \<not> sameConnectRule y x) (For (ciProxyName x) t)"
    using ct by (intro ct.del_effect) simp_all
  have rdel: "roRules (snd (Router_Remove y r)) = filter (\<lambda>z. z \<noteq> y) (roRules r)"
    using rt.del_effect [OF TrueI ra, of y] by (simp add: sameRule_eq)
  show ?thesis
    using ct del rdel d ct.add_dup [of t x] ct.add_new [of t x p] ct.add_del [of t x p] ct.view_key [of t]
      rt.add_dup [OF TrueI, of r y] rt.add_new [OF TrueI, of r y "()"]
    by (auto simp: Rules_def sameRule_eq)
qed

text \<open>The decisions of \<open>k\<close> connections in a row with the same metadata.\<close>

fun match_many :: "nat \<Rightarrow> Meta \<Rightarrow> Router \<Rightarrow> Decision option list" where
  "match_many 0 m r = []"
| "match_many (Suc k) m r = (let (d, r') = Match m r in d # match_many k m r')"

lemma match_many_streams:
  assumes "rule_index (\<lambda>x. ruleMatches x m) (roRules r) = Some i" "ruStreams (roRules r ! i) = ss" "ss \<noteq> []"
  shows "match_many k m r = map (\<lambda>j. Some \<lparr>deDialer = ruDialer (roRules r ! i),
      deStream = ss ! ((cursor i r + j) mod length ss), deRule = roRules r ! i\<rparr>) [0..<k]"
  using assms
proof (induction k arbitrary: r)
  case (Suc k)
  let ?r = "r\<lparr>roCursors := AList.update i ((cursor i r + 1) mod length ss) (roCursors r)\<rparr>"
  have c: "cursor i ?r = (cursor i r + 1) mod length ss" by (simp add: cursor_def update_conv')
  have "((cursor i r + 1) mod length ss + j) mod length ss = (cursor i r + Suc j) mod length ss" for j
    by (metis add.commute add_Suc_shift mod_add_right_eq plus_1_eq_Suc)
  with Suc.IH [of ?r] Suc.prems c show ?case
    by (simp add: Match_def Let_def upt_conv_Cons map_Suc_upt [symmetric] del: upt_Suc)
qed simp

text \<open>
  C31: First match, round robin. The router decides by the first rule in declaration order that
  matches the connection, and finds none only when no rule matches; the rules stay as they are.
  When the rule has \<open>n\<close> streams, any \<open>n\<close> connections in a row with that metadata use
  each of its streams, in rotated declaration order.
\<close>

theorem router_first_match:
  "case Match m r of
     (None, r') \<Rightarrow> r' = r \<and> (\<forall>x \<in> set (Rules r). \<not> ruleMatches x m)
   | (Some d, r') \<Rightarrow>
       Rules r' = Rules r
       \<and> (\<exists>i < length (Rules r). deRule d = Rules r ! i \<and> ruleMatches (deRule d) m \<and> deDialer d = ruDialer (deRule d)
            \<and> (\<forall>j < i. \<not> ruleMatches (Rules r ! j) m)
            \<and> (if ruStreams (deRule d) = [] then deStream d = [] \<and> r' = r
               else map (map_option deStream) (match_many (length (ruStreams (deRule d))) m r)
                    = map Some (rotate (cursor i r) (ruStreams (deRule d)))))"
proof (cases "rule_index (\<lambda>x. ruleMatches x m) (roRules r)")
  case None
  then have "\<forall>x \<in> set (roRules r). \<not> ruleMatches x m" by (simp add: rule_index_None)
  with None show ?thesis by (simp add: Match_def Rules_def)
next
  case (Some i)
  note ix = rule_index_Some [OF Some]
  let ?rule = "roRules r ! i"
  have "map (map_option deStream) (match_many (length (ruStreams ?rule)) m r) = map Some (rotate (cursor i r) (ruStreams ?rule))"
    if "ruStreams ?rule \<noteq> []"
    using match_many_streams [OF Some refl that] that
    by (intro nth_equalityI) (simp_all add: nth_rotate)
  with Some ix show ?thesis by (auto simp: Match_def Rules_def Let_def)
qed

definition demo_rule :: "string \<Rightarrow> string list \<Rightarrow> Rule" where
  "demo_rule i ss = \<lparr>ruIngress = i, ruIdentity = [], ruTarget = [], ruDialer = ''d'', ruStreams = ss\<rparr>"
definition demo_meta :: Meta where
  "demo_meta = \<lparr>metaID = [], metaListener = ''y'', metaRemote = [], metaIdentity = [], metaTarget = []\<rparr>"
definition demo_item :: "string \<Rightarrow> ConnectItem" where
  "demo_item s = \<lparr>ciProxyName = ''web'', ciBridgeName = [], ciClientProxyName = ''home'', ciStreamId = s\<rparr>"

definition demo_router :: Router where
  "demo_router = \<lparr>roRules = [demo_rule ''x'' [], demo_rule ''y'' [''s'', ''t'']], roCursors = []\<rparr>"

lemma demo_match:
  "Match demo_meta demo_router = (Some \<lparr>deDialer = ''d'', deStream = ''s'', deRule = demo_rule ''y'' [''s'', ''t'']\<rparr>,
     demo_router\<lparr>roCursors := [(1, 1)]\<rparr>)"
  by (simp add: demo_router_def Match_def demo_rule_def demo_meta_def ruleMatches_def Let_def cursor_def)

theorem rules_unique_witness:
  "For ''web'' (snd (connect_del (demo_item ''a'')
     (ConnectTable_Seed [demo_item ''a'', demo_item ''b'', demo_item ''a''] NewConnectTable))) = [demo_item ''b'']"
proof -
  let ?t = "ConnectTable_Seed [demo_item ''a'', demo_item ''b'', demo_item ''a''] NewConnectTable"
  have eq: "For (ciProxyName (demo_item ''a'')) (snd (connect_del (demo_item ''a'') ?t))
      = filter (\<lambda>y. \<not> sameConnectRule y (demo_item ''a'')) (For (ciProxyName (demo_item ''a'')) ?t)"
    by (rule rules_unique [where ops = "[]" and rops = "[]" and x = "demo_item ''a''"
        and seed = "[demo_item ''a'', demo_item ''b'', demo_item ''a'']",
        THEN conjunct2, THEN conjunct2, THEN conjunct2, THEN conjunct1, unfolded rule_run.simps])
  have t: "For ''web'' ?t = [demo_item ''a'', demo_item ''b'']"
    by (simp add: NewConnectTable_def demo_item_def sameConnectRule_def For_def Let_def)
      (rule exI [of _ "demo_item ''a''"], simp add: demo_item_def)
  have n: "ciProxyName (demo_item ''a'') = ''web''" by (simp add: demo_item_def)
  have f: "filter (\<lambda>y. \<not> sameConnectRule y (demo_item ''a'')) [demo_item ''a'', demo_item ''b''] = [demo_item ''b'']"
    by (simp add: demo_item_def sameConnectRule_def)
  show ?thesis using eq unfolding n t f .
qed

theorem router_first_match_witness:
  "map (map_option deStream) (match_many 2 demo_meta (Router_Seed [demo_rule ''x'' [], demo_rule ''y'' [''s'', ''t'']] NewRouter))
   = [Some ''s'', Some ''t'']"
proof -
  define r where "r = Router_Seed [demo_rule ''x'' [], demo_rule ''y'' [''s'', ''t'']] NewRouter"
  have r: "r = demo_router" by (simp add: r_def demo_router_def demo_rule_def NewRouter_def Router_Add_def sameRule_eq)
  have m: "fst (Match demo_meta r) = Some \<lparr>deDialer = ''d'', deStream = ''s'', deRule = demo_rule ''y'' [''s'', ''t'']\<rparr>"
    by (simp add: r demo_match)
  obtain r' where "Match demo_meta r = (Some \<lparr>deDialer = ''d'', deStream = ''s'', deRule = demo_rule ''y'' [''s'', ''t'']\<rparr>, r')"
    using m by (metis prod.collapse)
  then have "\<exists>i < 2. map (map_option deStream) (match_many 2 demo_meta r) = map Some (rotate (cursor i r) [''s'', ''t''])"
    using router_first_match [where m = demo_meta and r = r]
    by (auto simp: Rules_def r demo_router_def demo_rule_def numeral_2_eq_2)
  then show ?thesis unfolding r_def [symmetric] by (auto simp: r demo_router_def cursor_def)
qed

text \<open>
  Removing a rule leaves the cursors of the rules behind it under their old indexes: the rule
  that moves up starts again at its first stream.
\<close>

lemma remove_misplaces_cursor:
  defines "r1 \<equiv> snd (Match demo_meta demo_router)"
  shows "map_option deStream (fst (Match demo_meta r1)) = Some ''t''"
    and "map_option deStream (fst (Match demo_meta (snd (Router_Remove (demo_rule ''x'' []) r1)))) = Some ''s''"
  by (simp_all add: r1_def demo_match)
    (simp_all add: demo_router_def Match_def Let_def demo_rule_def demo_meta_def ruleMatches_def cursor_def sameRule_eq
      Router_Remove_def)

end
