(* ===== verification/ProxyServer.thy ===== *)
theory ProxyServer
  imports Routing CtrlClient
begin

text \<open>
  The data-plane listener, \<^verbatim>\<open>internal/star/starserver/proxy_server.go\<close>: choosing a stream
  (\<^verbatim>\<open>pickEntry\<close>) or a chain route (\<^verbatim>\<open>pickChain\<close>), and the life of one external connection
  (\<^verbatim>\<open>handleConn\<close>) as a labelled step relation between its two goroutines, the hub, and the
  environment (timers, the external connection, the control session). The codec registry of
  \<^verbatim>\<open>protocol/codec/codec.go\<close> is here too.
\<close>

section \<open>Codecs\<close>

datatype Codec = RawCodec | WsCodec

definition codec_Name :: "Codec \<Rightarrow> string" where
  "codec_Name c = (case c of RawCodec \<Rightarrow> ''raw'' | WsCodec \<Rightarrow> ''ws'')"

definition codec_Register :: "string \<Rightarrow> Codec \<Rightarrow> (string \<times> Codec) list \<Rightarrow> (string \<times> Codec) list" where
  "codec_Register name c reg = AList.update name c reg"

definition codec_registry :: "(string \<times> Codec) list" where
  "codec_registry = codec_Register ''ws'' WsCodec (codec_Register ''raw'' RawCodec [])"

definition codec_Get :: "string \<Rightarrow> (string \<times> Codec) list \<Rightarrow> string + Codec" where
  "codec_Get name reg =
     (let n = (if name = [] then ''raw'' else name) in
      case map_of reg n of None \<Rightarrow> Inl (''codec: unknown codec '' @ go_quote n) | Some c \<Rightarrow> Inr c)"

section \<open>Choosing a target\<close>

record ChainRoute =
  crProxyName :: string
  crDialer :: string
  crIdentity :: string
  crStream :: string

record ProxyServer =
  pxName :: string
  pxProxyName :: string
  pxInCodec :: Codec
  pxRR :: u32
  pxChainRoutes :: "ChainRoute list"
  pxChainSpecs :: "string list"
  pxChainDialers :: "(string \<times> RegisterStreamReq list) list"
  pxChainRR :: u32

definition NewProxyServer :: "string \<Rightarrow> Settings \<Rightarrow> (string \<times> Codec) list \<Rightarrow> ChainRoute list \<Rightarrow> string list \<Rightarrow> string + ProxyServer" where
  "NewProxyServer name settings reg routes specs =
     (case codec_Get (setInCodec settings) reg of
        Inl e \<Rightarrow> Inl e
      | Inr c \<Rightarrow> Inr \<lparr>pxName = name, pxProxyName = setProxyName settings, pxInCodec = c, pxRR = 0,
                     pxChainRoutes = routes, pxChainSpecs = specs, pxChainDialers = [], pxChainRR = 0\<rparr>)"

definition target_entry :: "StreamTable \<Rightarrow> ConnectItem \<Rightarrow> StreamEntry option" where
  "target_entry st t =
     (if ciStreamId t \<noteq> [] then GetByName (ciClientProxyName t) (ciStreamId t) st
      else case FindByClientProxy (ciClientProxyName t) st of [] \<Rightarrow> None | e # _ \<Rightarrow> Some e)"

fun first_entry :: "StreamTable \<Rightarrow> ConnectItem list \<Rightarrow> StreamEntry option" where
  "first_entry st [] = None"
| "first_entry st (t # ts) = (case target_entry st t of Some e \<Rightarrow> Some e | None \<Rightarrow> first_entry st ts)"

definition pickEntry :: "ConnectTable \<Rightarrow> StreamTable \<Rightarrow> ProxyServer \<Rightarrow> StreamEntry option \<times> ProxyServer" where
  "pickEntry connects st s =
     (let targets = For (pxProxyName s) connects; n = length targets in
      if n = 0 then (None, s)
      else let rr = pxRR s + 1; start = unat rr in
        (first_entry st (map (\<lambda>i. targets ! ((start + i) mod n)) [0..<n]), s\<lparr>pxRR := rr\<rparr>))"

text \<open>The first part of \<^verbatim>\<open>Serve\<close>: an embedded client for every dialer not yet running, with the streams of its routes.\<close>

definition chain_streams :: "string \<Rightarrow> ChainRoute list \<Rightarrow> RegisterStreamReq list" where
  "chain_streams name routes =
     map (\<lambda>cr. \<lparr>rrClientProxyName = crIdentity cr, rrStreamId = crStream cr\<rparr>) (filter (\<lambda>cr. crDialer cr = name) routes)"

definition start_chain :: "ProxyServer \<Rightarrow> ProxyServer" where
  "start_chain s =
     s\<lparr>pxChainDialers := fold (\<lambda>name ds. if map_of ds name \<noteq> None then ds
                                         else AList.update name (chain_streams name (pxChainRoutes s)) ds)
        (pxChainSpecs s) (pxChainDialers s)\<rparr>"

definition pickChain :: "ProxyServer \<Rightarrow> (ChainRoute \<times> RegisterStreamReq list option) option \<times> ProxyServer" where
  "pickChain s =
     (let n = length (pxChainRoutes s) in
      if n = 0 then (None, s)
      else let rr = pxChainRR s + 1; cr = pxChainRoutes s ! (unat (rr mod word_of_nat n)) in
        (Some (cr, map_of (pxChainDialers s) (crDialer cr)), s\<lparr>pxChainRR := rr\<rparr>))"

section \<open>One external connection\<close>

datatype up_state = UpReading | UpAcquiring bytes int | UpWaiting | UpReturned
datatype down_state = DownOuter | DownDraining bool | DownExited

record ProxyConn =
  pcConnID :: u32
  pcEntry :: ref
  pcDone :: bool
  pcTorn :: bool
  pcUpDone :: bool
  pcDownDone :: bool
  pcOut :: "bytes list"
  pcCloseWrites :: nat
  pcMcClosed :: bool
  pcUp :: up_state
  pcDown :: down_state

definition new_conn :: "u32 \<Rightarrow> ref \<Rightarrow> ProxyConn" where
  "new_conn i r = \<lparr>pcConnID = i, pcEntry = r, pcDone = False, pcTorn = False, pcUpDone = False, pcDownDone = False,
     pcOut = [], pcCloseWrites = 0, pcMcClosed = False, pcUp = UpReading, pcDown = DownOuter\<rparr>"

text \<open>\<^verbatim>\<open>handleConn\<close> up to the pumps, for a listener without chain routes: the connection that is served, or none.\<close>

definition handle_open ::
    "bool \<Rightarrow> ConnectTable \<Rightarrow> nat \<Rightarrow> ProxyServer \<Rightarrow> CtrlHub \<Rightarrow> (u32 \<times> ref \<times> ref) option \<times> ProxyServer \<times> CtrlHub" where
  "handle_open accepted connects now s h =
     (if \<not> accepted then (None, s, h)
      else case pickEntry connects (chStreams h) s of
        (None, s') \<Rightarrow> (None, s', h)
      | (Some entry, s') \<Rightarrow>
          (case OpenConn_send now entry h of
             (Inl e, h') \<Rightarrow> (None, s', h')
           | (Inr x, h') \<Rightarrow> (Some x, s', h')))"

definition teardown :: "ProxyConn \<times> CtrlHub \<Rightarrow> ProxyConn \<times> CtrlHub" where
  "teardown = (\<lambda>(c, h).
     if pcTorn c then (c, h)
     else (c\<lparr>pcTorn := True, pcDone := True, pcMcClosed := True\<rparr>, snd (CloseConn (pcConnID c) True h)))"

definition bothFinished :: "ProxyConn \<times> CtrlHub \<Rightarrow> ProxyConn \<times> CtrlHub" where
  "bothFinished = (\<lambda>(c, h). if pcUpDone c \<and> pcDownDone c then teardown (c, h) else (c, h))"

definition down_exit :: "ProxyConn \<times> CtrlHub \<Rightarrow> ProxyConn \<times> CtrlHub" where
  "down_exit = (\<lambda>(c, h). (c\<lparr>pcDown := DownExited, pcDone := True\<rparr>, h))"

definition up_return :: "ProxyConn \<times> CtrlHub \<Rightarrow> ProxyConn \<times> CtrlHub" where
  "up_return = (\<lambda>(c, h). let (c', h') = teardown (c, h) in (c'\<lparr>pcUp := UpReturned\<rparr>, h'))"

text \<open>The cases of the downlink pump's two \<^verbatim>\<open>select\<close> statements.\<close>

definition down_message :: "bool \<Rightarrow> ProxyConn \<times> CtrlHub \<Rightarrow> (ProxyConn \<times> CtrlHub) option" where
  "down_message good = (\<lambda>(c, h).
     case ceSink (chHeap h ! pcEntry c) of
       [] \<Rightarrow> None
     | p # q \<Rightarrow>
         (let h1 = upd_entry (pcEntry c) (\<lambda>e. e\<lparr>ceSink := q\<rparr>) h in
          if pcDown c = DownExited then None
          else if good then
            Some (c\<lparr>pcOut := pcOut c @ [p], pcDown := (case pcDown c of DownDraining _ \<Rightarrow> DownDraining False | d \<Rightarrow> d)\<rparr>,
                  ReleaseRecv (pcEntry c) (length p) h1)
          else Some (down_exit (teardown (c, h1)))))"

definition down_remote_closed :: "ProxyConn \<times> CtrlHub \<Rightarrow> (ProxyConn \<times> CtrlHub) option" where
  "down_remote_closed = (\<lambda>(c, h).
     if pcDown c = DownOuter \<and> ceRemoteClosed (chHeap h ! pcEntry c) then Some (c\<lparr>pcDown := DownDraining False\<rparr>, h) else None)"

definition down_timer :: "bool \<Rightarrow> ProxyConn \<times> CtrlHub \<Rightarrow> (ProxyConn \<times> CtrlHub) option" where
  "down_timer canHalf = (\<lambda>(c, h).
     case pcDown c of
       DownDraining quiet \<Rightarrow>
         Some (if quiet
               then bothFinished (c\<lparr>pcDownDone := True,
                      pcCloseWrites := pcCloseWrites c + (if canHalf then 1 else 0)\<rparr>, h)
               else (c\<lparr>pcDown := DownDraining True\<rparr>, h))
     | _ \<Rightarrow> None)"

definition down_hub_done :: "ProxyConn \<times> CtrlHub \<Rightarrow> (ProxyConn \<times> CtrlHub) option" where
  "down_hub_done = (\<lambda>(c, h).
     if pcDown c \<noteq> DownExited \<and> ceDone (chHeap h ! pcEntry c) then Some (down_exit (teardown (c, h))) else None)"

definition down_stop :: "ProxyConn \<times> CtrlHub \<Rightarrow> (ProxyConn \<times> CtrlHub) option" where
  "down_stop = (\<lambda>(c, h). if pcDown c \<noteq> DownExited \<and> pcDone c then Some (down_exit (c, h)) else None)"

text \<open>The uplink loop: a message read, a turn of \<^verbatim>\<open>AcquireSend\<close>, the ends of the loop.\<close>

definition up_message :: "bytes \<Rightarrow> ProxyConn \<times> CtrlHub \<Rightarrow> (ProxyConn \<times> CtrlHub) option" where
  "up_message p = (\<lambda>(c, h).
     if pcUp c = UpReading then Some (c\<lparr>pcUp := UpAcquiring p (int (length p))\<rparr>, h) else None)"

definition up_send :: "bytes \<Rightarrow> ProxyConn \<times> CtrlHub \<Rightarrow> ProxyConn \<times> CtrlHub" where
  "up_send p = (\<lambda>(c, h).
     let e = chHeap h ! pcEntry c in
     case hub_send (ceClient e) (mk_msg MsgData (pcConnID c) p) h of
       (Inl err, h1) \<Rightarrow> up_return (c, h1)
     | (Inr _, h1) \<Rightarrow>
         (c\<lparr>pcUp := UpReading\<rparr>,
          case ceStream e of None \<Rightarrow> h1
          | Some st \<Rightarrow> h1\<lparr>chStreams := add_in_bytes st (length p) (chStreams h1)\<rparr>))"

definition up_acquire :: "chan_id \<Rightarrow> ProxyConn \<times> CtrlHub \<Rightarrow> (ProxyConn \<times> CtrlHub) option" where
  "up_acquire ch = (\<lambda>(c, h).
     case pcUp c of
       UpAcquiring p n \<Rightarrow>
         (let (t, e) = AcquireSend (nat n) ch (chHeap h ! pcEntry c);
              h1 = upd_entry (pcEntry c) (\<lambda>_. e) h in
          case t of
            TurnDone \<Rightarrow> Some (up_send p (c, h1))
          | TurnMore n' \<Rightarrow> Some (c\<lparr>pcUp := UpAcquiring p n'\<rparr>, h1)
          | TurnClosed \<Rightarrow> Some (up_return (c, h1))
          | TurnWait \<Rightarrow> Some (c, h1))
     | _ \<Rightarrow> None)"

definition up_eof :: "ProxyConn \<times> CtrlHub \<Rightarrow> (ProxyConn \<times> CtrlHub) option" where
  "up_eof = (\<lambda>(c, h).
     if pcUp c = UpReading then
       (let h1 = snd (hub_send (ceClient (chHeap h ! pcEntry c)) (HalfClose (pcConnID c)) h);
            (c', h') = bothFinished (c\<lparr>pcUpDone := True\<rparr>, h1) in
        Some (c'\<lparr>pcUp := UpWaiting\<rparr>, h'))
     else None)"

definition up_error :: "ProxyConn \<times> CtrlHub \<Rightarrow> (ProxyConn \<times> CtrlHub) option" where
  "up_error = (\<lambda>(c, h). if pcUp c = UpReading then Some (up_return (c, h)) else None)"

definition up_stop :: "ProxyConn \<times> CtrlHub \<Rightarrow> (ProxyConn \<times> CtrlHub) option" where
  "up_stop = (\<lambda>(c, h). if pcUp c = UpWaiting \<and> pcDone c then Some (up_return (c, h)) else None)"

section \<open>Runs\<close>

datatype proxy_event =
    EvDown bool | EvRemoteClosed | EvTimer bool | EvHubDone | EvDownStop
  | EvUpMessage bytes | EvUpAcquire chan_id | EvUpEOF | EvUpError | EvUpStop

fun proxy_step :: "proxy_event \<Rightarrow> ProxyConn \<times> CtrlHub \<Rightarrow> (ProxyConn \<times> CtrlHub) option" where
  "proxy_step (EvDown good) s = down_message good s"
| "proxy_step EvRemoteClosed s = down_remote_closed s"
| "proxy_step (EvTimer canHalf) s = down_timer canHalf s"
| "proxy_step EvHubDone s = down_hub_done s"
| "proxy_step EvDownStop s = down_stop s"
| "proxy_step (EvUpMessage p) s = up_message p s"
| "proxy_step (EvUpAcquire ch) s = up_acquire ch s"
| "proxy_step EvUpEOF s = up_eof s"
| "proxy_step EvUpError s = up_error s"
| "proxy_step EvUpStop s = up_stop s"

text \<open>
  What the rest of the server does to the entry between two steps: it queues the payloads
  \<open>xs\<close> and may close it; \<open>hub_env_ops\<close> shows that the operations of the hub do no more.
\<close>

definition hub_env :: "ref \<Rightarrow> bytes list \<Rightarrow> CtrlHub \<Rightarrow> CtrlHub \<Rightarrow> bool" where
  "hub_env r xs h h' \<longleftrightarrow> r < length (chHeap h')
     \<and> ceSink (chHeap h' ! r) = ceSink (chHeap h ! r) @ xs
     \<and> (ceDone (chHeap h ! r) \<longrightarrow> ceDone (chHeap h' ! r))
     \<and> (ceRemoteClosed (chHeap h ! r) \<longrightarrow> ceRemoteClosed (chHeap h' ! r))"

lemma hub_env_upd:
  assumes "r < length (chHeap h)"
    "q = r \<Longrightarrow> ceSink (f (chHeap h ! r)) = ceSink (chHeap h ! r) @ xs \<and> ceDone (f (chHeap h ! r)) \<ge> ceDone (chHeap h ! r)
       \<and> ceRemoteClosed (f (chHeap h ! r)) \<ge> ceRemoteClosed (chHeap h ! r)"
    "q \<noteq> r \<Longrightarrow> xs = []"
  shows "hub_env r xs h (upd_entry q f h)"
  using assms by (auto simp: hub_env_def upd_entry_nth)

lemma hub_env_frame [simp]:
  "hub_env r xs h (h'\<lparr>chConns := a\<rparr>) = hub_env r xs h h'" "hub_env r xs (h\<lparr>chConns := a\<rparr>) h' = hub_env r xs h h'"
  "hub_env r xs h (snd (hub_send c m h')) = hub_env r xs h h'"
  "hub_env r xs (h\<lparr>chStreams := t\<rparr>) h' = hub_env r xs h h'"
  by (simp_all add: hub_env_def)

lemma hub_env_ops:
  assumes "r < length (chHeap h)"
  shows "hub_env r [] h (WindowRelease i d h)" "hub_env r [] h (snd (ClientClosed i h))"
    "hub_env r [] h (snd (CloseConn i tell h))"
    "Downlink lose i p h = Some (b, h') \<Longrightarrow>
       hub_env r (if b \<and> map_of (chConns h) i = Some r then [p] else []) h h'"
proof -
  have refl: "hub_env r [] h h" using assms by (simp add: hub_env_def)
  show "hub_env r [] h (WindowRelease i d h)"
    using refl assms by (auto simp: WindowRelease_def split: option.split intro!: hub_env_upd)
  have "hub_env r [] h (upd_entry q f (h\<lparr>chConns := a\<rparr>))"
    if "\<And>e. ceSink (f e) = ceSink e" "\<And>e. ceDone (f e) \<ge> ceDone e" "\<And>e. ceRemoteClosed (f e) \<ge> ceRemoteClosed e" for q f a
    using hub_env_upd [of r "h\<lparr>chConns := a\<rparr>" q f "[]"] assms that by simp
  then show "hub_env r [] h (snd (ClientClosed i h))" "hub_env r [] h (snd (CloseConn i tell h))"
    using refl by (auto simp: ClientClosed_def CloseConn_def Let_def markRemoteClosed_def ConnEntry_close_def split: option.split)
  assume d: "Downlink lose i p h = Some (b, h')"
  show "hub_env r (if b \<and> map_of (chConns h) i = Some r then [p] else []) h h'"
  proof (cases "map_of (chConns h) i")
    case None
    with d refl show ?thesis by (simp add: Downlink_def)
  next
    case (Some q)
    let ?h1 = "case ceStream (chHeap h ! q) of None \<Rightarrow> h
        | Some st \<Rightarrow> h\<lparr>chStreams := add_out_bytes st (length p) (chStreams h)\<rparr>"
    have f: "chHeap ?h1 = chHeap h" by (simp split: option.split)
    have "\<not> b \<and> h' = ?h1 \<or> b \<and> h' = upd_entry q (\<lambda>e. e\<lparr>ceSink := ceSink e @ [p]\<rparr>) ?h1"
      using d Some by (auto simp: Downlink_def Let_def split: if_splits)
    with Some assms f show ?thesis
      by (auto simp: hub_env_def upd_entry_nth)
  qed
qed

inductive proxy_run :: "bytes list \<Rightarrow> ProxyConn \<times> CtrlHub \<Rightarrow> bool" where
  px_start: "r < length (chHeap h) \<Longrightarrow> proxy_run (ceSink (chHeap h ! r)) (new_conn i r, h)"
| px_step: "proxy_run D s \<Longrightarrow> proxy_step ev s = Some s' \<Longrightarrow> proxy_run D s'"
| px_env: "proxy_run D (c, h) \<Longrightarrow> hub_env (pcEntry c) xs h h' \<Longrightarrow> proxy_run (D @ xs) (c, h')"

section \<open>The invariant\<close>

definition proxy_inv :: "bytes list \<Rightarrow> ProxyConn \<times> CtrlHub \<Rightarrow> bool" where
  "proxy_inv D = (\<lambda>(c, h).
     pcEntry c < length (chHeap h)
     \<and> (pcTorn c \<longleftrightarrow> pcMcClosed c) \<and> (pcTorn c \<longleftrightarrow> pcDone c)
     \<and> (pcUp c = UpReturned \<longrightarrow> pcTorn c) \<and> (pcDown c = DownExited \<longrightarrow> pcTorn c)
     \<and> (pcUpDone c \<and> pcDownDone c \<longrightarrow> pcTorn c)
     \<and> (pcUp c = UpWaiting \<longrightarrow> pcUpDone c) \<and> (0 < pcCloseWrites c \<longrightarrow> pcDownDone c)
     \<and> (\<exists>l. D = pcOut c @ l @ ceSink (chHeap h ! pcEntry c) \<and> (l = [] \<or> pcDown c = DownExited)))"

lemma CloseConn_heap:
  "length (chHeap (snd (CloseConn i tell h))) = length (chHeap h)"
  "r < length (chHeap h) \<Longrightarrow> ceSink (chHeap (snd (CloseConn i tell h)) ! r) = ceSink (chHeap h ! r)"
  by (auto simp: CloseConn_def Let_def upd_entry_nth ConnEntry_close_def split: option.split)

lemma ReleaseRecv_heap:
  "length (chHeap (ReleaseRecv q n h)) = length (chHeap h)"
  "r < length (chHeap h) \<Longrightarrow> ceSink (chHeap (ReleaseRecv q n h) ! r) = ceSink (chHeap h ! r)"
  by (auto simp: ReleaseRecv_def Let_def upd_entry_nth)

text \<open>\<^verbatim>\<open>teardown\<close> closes everything once and keeps the queue; the three fields it leaves are kept too.\<close>

lemma teardown_props:
  assumes "teardown (c, h) = (c', h')" "pcEntry c < length (chHeap h)" "pcTorn c \<longleftrightarrow> pcMcClosed c" "pcTorn c \<longleftrightarrow> pcDone c"
  shows "pcTorn c' \<and> pcMcClosed c' \<and> pcDone c' \<and> pcOut c' = pcOut c \<and> pcEntry c' = pcEntry c \<and> pcUp c' = pcUp c
     \<and> pcDown c' = pcDown c \<and> pcUpDone c' = pcUpDone c \<and> pcDownDone c' = pcDownDone c \<and> pcCloseWrites c' = pcCloseWrites c
     \<and> length (chHeap h') = length (chHeap h) \<and> ceSink (chHeap h' ! pcEntry c) = ceSink (chHeap h ! pcEntry c)"
  using assms by (auto simp: teardown_def CloseConn_heap split: if_splits)

lemma torn_inv:
  assumes "pcEntry c < length (chHeap h)" "pcTorn c" "pcMcClosed c" "pcDone c"
    "pcUp c = UpWaiting \<longrightarrow> pcUpDone c" "0 < pcCloseWrites c \<longrightarrow> pcDownDone c"
    "D = pcOut c @ l @ ceSink (chHeap h ! pcEntry c)" "l = [] \<or> pcDown c = DownExited"
  shows "proxy_inv D (c, h)"
  using assms by (auto simp: proxy_inv_def)

lemma up_return_inv:
  assumes "proxy_inv D (c, h)"
  shows "proxy_inv D (up_return (c, h))"
proof -
  obtain c' h' where t: "teardown (c, h) = (c', h')" by force
  obtain l where l: "D = pcOut c @ l @ ceSink (chHeap h ! pcEntry c)" "l = [] \<or> pcDown c = DownExited"
    using assms by (auto simp: proxy_inv_def)
  have b: "pcEntry c < length (chHeap h)" "pcTorn c \<longleftrightarrow> pcMcClosed c" "pcTorn c \<longleftrightarrow> pcDone c"
    "0 < pcCloseWrites c \<longrightarrow> pcDownDone c"
    using assms by (auto simp: proxy_inv_def)
  note tp = teardown_props [OF t b(1-3)]
  have "proxy_inv D (c'\<lparr>pcUp := UpReturned\<rparr>, h')"
    by (rule torn_inv [where l = l]) (use tp b l in simp_all)
  then show ?thesis by (simp add: up_return_def t)
qed

lemma bothFinished_inv:
  assumes "pcEntry c < length (chHeap h)" "pcTorn c \<longleftrightarrow> pcMcClosed c" "pcTorn c \<longleftrightarrow> pcDone c"
    "pcUp c = UpReturned \<longrightarrow> pcTorn c" "pcDown c = DownExited \<longrightarrow> pcTorn c"
    "pcUp c = UpWaiting \<longrightarrow> pcUpDone c" "0 < pcCloseWrites c \<longrightarrow> pcDownDone c"
    "D = pcOut c @ l @ ceSink (chHeap h ! pcEntry c)" "l = [] \<or> pcDown c = DownExited"
  shows "proxy_inv D (bothFinished (c, h))" "pcUpDone (fst (bothFinished (c, h))) = pcUpDone c"
proof -
  obtain c' h' where t: "teardown (c, h) = (c', h')" by force
  note tp = teardown_props [OF t assms(1-3)]
  have "proxy_inv D (c', h')" by (rule torn_inv [where l = l]) (use tp assms in simp_all)
  moreover have "proxy_inv D (c, h)" if "\<not> (pcUpDone c \<and> pcDownDone c)"
    using assms that by (auto simp: proxy_inv_def)
  ultimately show "proxy_inv D (bothFinished (c, h))" by (simp add: bothFinished_def t)
  show "pcUpDone (fst (bothFinished (c, h))) = pcUpDone c" using tp by (simp add: bothFinished_def t)
qed

lemma down_exit_teardown_inv:
  assumes "pcEntry c < length (chHeap h)" "pcTorn c \<longleftrightarrow> pcMcClosed c" "pcTorn c \<longleftrightarrow> pcDone c"
    "pcUp c = UpWaiting \<longrightarrow> pcUpDone c" "0 < pcCloseWrites c \<longrightarrow> pcDownDone c"
    "D = pcOut c @ l @ ceSink (chHeap h ! pcEntry c)"
  shows "proxy_inv D (down_exit (teardown (c, h)))"
proof -
  obtain c' h' where t: "teardown (c, h) = (c', h')" by force
  note tp = teardown_props [OF t assms(1-3)]
  have "proxy_inv D (c'\<lparr>pcDown := DownExited, pcDone := True\<rparr>, h')"
    by (rule torn_inv [where l = l]) (use tp assms in simp_all)
  then show ?thesis by (simp add: t down_exit_def)
qed

lemma proxy_inv_heap:
  assumes "proxy_inv D (c, h)" "length (chHeap h') = length (chHeap h)"
    "ceSink (chHeap h' ! pcEntry c) = ceSink (chHeap h ! pcEntry c)"
  shows "proxy_inv D (c, h')"
  using assms by (auto simp: proxy_inv_def)

lemma AcquireSend_sink [simp]: "ceSink (snd (AcquireSend k ch e)) = ceSink e"
  by (cases "ceSendWin e") (simp_all add: AcquireSend_def split: prod.split)

lemma up_send_inv:
  assumes "proxy_inv D (c, h)"
  shows "proxy_inv D (up_send p (c, h))"
proof -
  obtain x h1 where x: "hub_send (ceClient (chHeap h ! pcEntry c)) (mk_msg MsgData (pcConnID c) p) h = (x, h1)" by force
  have h1: "chHeap h1 = chHeap h" using x hub_send_frame(3) by (metis snd_conv)
  have i1: "proxy_inv D (c, h1)" using proxy_inv_heap [OF assms] h1 by simp
  show ?thesis
  proof (cases x)
    case (Inl e)
    with x show ?thesis using up_return_inv [OF i1] by (simp add: up_send_def)
  next
    case (Inr u)
    have "proxy_inv D (c\<lparr>pcUp := UpReading\<rparr>, h1)" using i1 by (auto simp: proxy_inv_def)
    then show ?thesis
      using x Inr by (auto simp: up_send_def split: option.split intro: proxy_inv_heap)
  qed
qed

lemma up_acquire_inv:
  assumes "proxy_inv D (c, h)" "up_acquire ch (c, h) = Some s'"
  shows "proxy_inv D s'"
proof -
  obtain p n where u: "pcUp c = UpAcquiring p n" using assms(2) by (auto simp: up_acquire_def split: up_state.splits)
  obtain t e where a: "AcquireSend (nat n) ch (chHeap h ! pcEntry c) = (t, e)" by force
  let ?h1 = "upd_entry (pcEntry c) (\<lambda>_. e) h"
  have "ceSink e = ceSink (chHeap h ! pcEntry c)" using AcquireSend_sink [of "nat n" ch] a by (metis snd_conv)
  moreover have "pcEntry c < length (chHeap h)" using assms(1) by (simp add: proxy_inv_def)
  ultimately have i1: "proxy_inv D (c, ?h1)" by (intro proxy_inv_heap [OF assms(1)]) (simp_all add: upd_entry_nth)
  moreover have "proxy_inv D (c\<lparr>pcUp := UpAcquiring p n'\<rparr>, ?h1)" for n' using i1 by (auto simp: proxy_inv_def)
  ultimately show ?thesis
    using assms(2) u a up_send_inv [OF i1] up_return_inv [OF i1]
    by (cases t) (auto simp: up_acquire_def)
qed

lemma down_message_inv:
  assumes "proxy_inv D (c, h)" "down_message good (c, h) = Some s'"
  shows "proxy_inv D s'"
proof -
  obtain p q where s: "ceSink (chHeap h ! pcEntry c) = p # q" "pcDown c \<noteq> DownExited"
    using assms(2) by (auto simp: down_message_def Let_def split: list.splits if_splits)
  let ?h1 = "upd_entry (pcEntry c) (\<lambda>e. e\<lparr>ceSink := q\<rparr>) h"
  have b: "pcEntry c < length (chHeap h)" "pcTorn c \<longleftrightarrow> pcMcClosed c" "pcTorn c \<longleftrightarrow> pcDone c"
    "pcUp c = UpWaiting \<longrightarrow> pcUpDone c" "0 < pcCloseWrites c \<longrightarrow> pcDownDone c" "D = pcOut c @ p # q"
    using assms(1) s by (auto simp: proxy_inv_def)
  have q: "ceSink (chHeap ?h1 ! pcEntry c) = q" "length (chHeap ?h1) = length (chHeap h)" using b(1) by (simp_all add: upd_entry_nth)
  show ?thesis
  proof (cases good)
    case True
    let ?d = "case pcDown c of DownDraining _ \<Rightarrow> DownDraining False | d \<Rightarrow> d"
    have "?d \<noteq> DownExited" using s(2) by (simp split: down_state.split)
    then have "proxy_inv D (c\<lparr>pcOut := pcOut c @ [p], pcDown := ?d\<rparr>, ReleaseRecv (pcEntry c) (length p) ?h1)"
      using assms(1) b q by (auto simp: proxy_inv_def ReleaseRecv_heap)
    with True assms(2) s show ?thesis by (simp add: down_message_def Let_def)
  next
    case False
    have "proxy_inv D (down_exit (teardown (c, ?h1)))"
      by (rule down_exit_teardown_inv [where l = "[p]"]) (use b q in simp_all)
    with False assms(2) s show ?thesis by (simp add: down_message_def Let_def)
  qed
qed

lemma up_eof_inv:
  assumes "proxy_inv D (c, h)" "up_eof (c, h) = Some s'"
  shows "proxy_inv D s'"
proof -
  let ?h1 = "snd (hub_send (ceClient (chHeap h ! pcEntry c)) (HalfClose (pcConnID c)) h)"
  obtain c' h' where bf: "bothFinished (c\<lparr>pcUpDone := True\<rparr>, ?h1) = (c', h')" by force
  have r: "pcUp c = UpReading" using assms(2) by (auto simp: up_eof_def split: if_splits)
  obtain l where l: "D = pcOut c @ l @ ceSink (chHeap h ! pcEntry c)" "l = [] \<or> pcDown c = DownExited"
    using assms(1) by (auto simp: proxy_inv_def)
  have "proxy_inv D (bothFinished (c\<lparr>pcUpDone := True\<rparr>, ?h1))
      \<and> pcUpDone (fst (bothFinished (c\<lparr>pcUpDone := True\<rparr>, ?h1))) = pcUpDone (c\<lparr>pcUpDone := True\<rparr>)"
    by (intro conjI bothFinished_inv [where l = l]) (use assms(1) r l in \<open>auto simp: proxy_inv_def\<close>)
  with assms(2) bf r show ?thesis by (auto simp: up_eof_def proxy_inv_def)
qed

lemma down_timer_inv:
  assumes "proxy_inv D (c, h)" "down_timer k (c, h) = Some s'"
  shows "proxy_inv D s'"
proof -
  obtain quiet where q: "pcDown c = DownDraining quiet" using assms(2) by (auto simp: down_timer_def split: down_state.splits)
  obtain l where l: "D = pcOut c @ l @ ceSink (chHeap h ! pcEntry c)" "l = [] \<or> pcDown c = DownExited"
    using assms(1) by (auto simp: proxy_inv_def)
  show ?thesis
  proof (cases quiet)
    case True
    have "proxy_inv D (bothFinished (c\<lparr>pcDownDone := True, pcCloseWrites := pcCloseWrites c + (if k then 1 else 0)\<rparr>, h))"
      by (rule bothFinished_inv [where l = l]) (use assms(1) l in \<open>auto simp: proxy_inv_def\<close>)
    with assms(2) q True show ?thesis by (simp add: down_timer_def)
  next
    case False
    with assms q show ?thesis by (auto simp: down_timer_def proxy_inv_def)
  qed
qed

lemma proxy_step_inv:
  assumes "proxy_inv D s" "proxy_step ev s = Some s'"
  shows "proxy_inv D s'"
proof -
  obtain c h where s: "s = (c, h)" by force
  have inv: "proxy_inv D (c, h)" and st: "proxy_step ev (c, h) = Some s'" using assms s by simp_all
  obtain l where l: "D = pcOut c @ l @ ceSink (chHeap h ! pcEntry c)" using inv by (auto simp: proxy_inv_def)
  show ?thesis
  proof (cases ev)
    case EvHubDone
    have "proxy_inv D (down_exit (teardown (c, h)))"
      by (rule down_exit_teardown_inv [where l = l]) (use inv l in \<open>auto simp: proxy_inv_def\<close>)
    with st EvHubDone show ?thesis by (auto simp: down_hub_done_def split: if_splits)
  next
    case EvDownStop
    with inv st show ?thesis by (auto simp: down_stop_def down_exit_def proxy_inv_def split: if_splits)
  next
    case EvRemoteClosed
    with inv st show ?thesis by (auto simp: down_remote_closed_def proxy_inv_def split: if_splits)
  next
    case (EvUpMessage p)
    with inv st show ?thesis by (auto simp: up_message_def proxy_inv_def split: if_splits)
  next
    case EvUpError
    with st up_return_inv [OF inv] show ?thesis by (auto simp: up_error_def split: if_splits)
  next
    case EvUpStop
    with st up_return_inv [OF inv] show ?thesis by (auto simp: up_stop_def split: if_splits)
  next
    case (EvDown good)
    with st show ?thesis using down_message_inv [OF inv, of good] by simp
  next
    case (EvTimer k)
    with st show ?thesis using down_timer_inv [OF inv, of k] by simp
  next
    case (EvUpAcquire ch)
    with st show ?thesis using up_acquire_inv [OF inv, of ch] by simp
  next
    case EvUpEOF
    with st show ?thesis using up_eof_inv [OF inv] by simp
  qed
qed

lemma proxy_run_inv: "proxy_run D s \<Longrightarrow> proxy_inv D s"
proof (induction rule: proxy_run.induct)
  case (px_start r h i)
  then show ?case by (simp add: proxy_inv_def new_conn_def)
next
  case (px_step D s ev s')
  then show ?case using proxy_step_inv by blast
next
  case (px_env D c h xs h')
  obtain l where l: "D = pcOut c @ l @ ceSink (chHeap h ! pcEntry c)" "l = [] \<or> pcDown c = DownExited"
    using px_env.IH by (auto simp: proxy_inv_def)
  have "D @ xs = pcOut c @ l @ ceSink (chHeap h' ! pcEntry c)" using l(1) px_env.hyps(2) by (simp add: hub_env_def)
  with l(2) px_env.IH px_env.hyps(2) show ?case by (auto simp: proxy_inv_def hub_env_def)
qed

section \<open>Properties\<close>

lemma first_entry_None: "first_entry st ts = None \<longleftrightarrow> (\<forall>t \<in> set ts. target_entry st t = None)"
  by (induction ts) (auto split: option.split)

lemma first_entry_Some:
  "first_entry st ts = Some e \<Longrightarrow> \<exists>k < length ts. target_entry st (ts ! k) = Some e \<and> (\<forall>j < k. target_entry st (ts ! j) = None)"
proof (induction ts)
  case (Cons t ts)
  show ?case
  proof (cases "target_entry st t")
    case None
    with Cons obtain k where "k < length ts" "target_entry st (ts ! k) = Some e" "\<forall>j < k. target_entry st (ts ! j) = None" by auto
    with None show ?thesis by (intro exI [of _ "Suc k"]) (auto simp: less_Suc_eq_0_disj)
  next
    case (Some e')
    with Cons.prems show ?thesis by (intro exI [of _ 0]) simp
  qed
qed simp

lemma rotated_targets:
  fixes ts :: "'a list"
  assumes "ts \<noteq> []"
  shows "map (\<lambda>i. ts ! ((k + i) mod length ts)) [0..<length ts] = rotate k ts"
  by (rule nth_equalityI) (simp_all add: nth_rotate)

text \<open>
  A connection finds a stream whenever one is available. \<^verbatim>\<open>pickEntry\<close> fails only when no
  rule of the listener has a registered stream; otherwise it returns the stream of the first
  available rule in the rotation that starts at the advanced counter, so successive
  connections start at successive rules.
\<close>

theorem pick_entry_complete:
  assumes "pickEntry connects st s = (x, s')"
  defines "targets \<equiv> For (pxProxyName s) connects"
  shows "(x = None \<longleftrightarrow> (\<forall>t \<in> set targets. target_entry st t = None))
     \<and> (\<forall>e. x = Some e \<longrightarrow>
          (\<exists>k < length targets. target_entry st (rotate (unat (pxRR s')) targets ! k) = Some e
             \<and> (\<forall>j < k. target_entry st (rotate (unat (pxRR s')) targets ! j) = None)))
     \<and> s' = (if targets = [] then s else s\<lparr>pxRR := pxRR s + 1\<rparr>)"
proof (cases "targets = []")
  case True
  with assms show ?thesis by (simp add: pickEntry_def)
next
  case False
  have "x = first_entry st (rotate (unat (pxRR s + 1)) targets)" "s' = s\<lparr>pxRR := pxRR s + 1\<rparr>"
    using assms(1) False unfolding pickEntry_def targets_def [symmetric] Let_def
    by (simp_all add: rotated_targets [OF False])
  with False show ?thesis
    by (auto simp: first_entry_None dest!: first_entry_Some)
qed

definition demo_px :: ProxyServer where
  "demo_px = \<lparr>pxName = ''p'', pxProxyName = ''web'', pxInCodec = RawCodec, pxRR = 0,
     pxChainRoutes = [], pxChainSpecs = [], pxChainDialers = [], pxChainRR = 0\<rparr>"

theorem pick_entry_complete_witness:
  "fst (pickEntry [(''web'', [demo_item ''gone'', demo_item ''ssh''])]
     (snd (Assign 0 1 \<lparr>rrClientProxyName = ''home'', rrStreamId = ''ssh''\<rparr> NewStreamTable)) demo_px) \<noteq> None"
proof -
  let ?t = "[(''web'', [demo_item ''gone'', demo_item ''ssh''])]"
  let ?st = "snd (Assign 0 1 \<lparr>rrClientProxyName = ''home'', rrStreamId = ''ssh''\<rparr> NewStreamTable)"
  obtain x s' where p: "pickEntry ?t ?st demo_px = (x, s')" by force
  have n: "target_entry ?st (demo_item ''ssh'') \<noteq> None"
    by (simp add: target_entry_def demo_item_def GetByName_def Assign_def NewStreamTable_def streamKey_def Let_def)
  have mem: "demo_item ''ssh'' \<in> set (For (pxProxyName demo_px) ?t)" by (simp add: For_def demo_px_def)
  have "x \<noteq> None"
  proof
    assume "x = None"
    from n bspec [OF iffD1 [OF conjunct1 [OF pick_entry_complete [OF p]] this] mem] show False by contradiction
  qed
  with p show ?thesis by simp
qed


definition demo_hub_entry :: CtrlHub where
  "demo_hub_entry = (NewCtrlHub (\<lambda>_. NewSession []))\<lparr>chHeap := [(new_entry 1 0 demo_stream)\<lparr>ceSink := [[7], [8]]\<rparr>], chConns := [(1, 0)]\<rparr>"


lemma teardown_torn: "pcTorn (fst (teardown s))"
  by (cases s) (simp add: teardown_def)

lemma not_torn_cases:
  assumes "bothFinished (c, h) = (c', h')" "\<not> pcTorn c" "pcTorn c'"
  shows "pcUpDone c' \<and> pcDownDone c'"
  using assms by (auto simp: bothFinished_def teardown_def split: if_splits)

text \<open>
  No early tear-down. A step of an open connection tears it down only if both directions have
  finished, or a write to the user failed, or the hub closed the entry, or reading from the
  user failed with something other than EOF, or the uplink could not go on (window closed, or the
  session refused the frame). An EOF of the user alone sends one half-close frame and keeps the
  connection.
\<close>

theorem proxy_no_early_teardown:
  assumes "proxy_run D (c, h)" "proxy_step ev (c, h) = Some (c', h')" "\<not> pcTorn c" "pcTorn c'"
  defines "e \<equiv> chHeap h ! pcEntry c"
  shows "pcUpDone c' \<and> pcDownDone c'
     \<or> ev = EvDown False \<or> ev = EvHubDone \<and> ceDone e \<or> ev = EvUpError
     \<or> (\<exists>ch p n. ev = EvUpAcquire ch \<and> pcUp c = UpAcquiring p n
          \<and> ((\<exists>w. ceSendWin e = Some w \<and> wClosed w)
             \<or> (\<exists>err. fst (Send (chSess h (ceClient e)) (mk_msg MsgData (pcConnID c) p)) = Inl err)))"
proof -
  have d: "\<not> pcDone c" using proxy_run_inv [OF assms(1)] assms(3) by (simp add: proxy_inv_def)
  show ?thesis
  proof (cases ev)
    case (EvDown good)
    with assms(2-4) show ?thesis by (cases good) (auto simp: down_message_def Let_def split: list.splits if_splits)
  next
    case EvRemoteClosed
    with assms(2-4) show ?thesis by (auto simp: down_remote_closed_def split: if_splits)
  next
    case (EvTimer k)
    define c0 where "c0 = c\<lparr>pcDownDone := True, pcCloseWrites := pcCloseWrites c + (if k then 1 else 0)\<rparr>"
    have "bothFinished (c0, h) = (c', h') \<or> \<not> pcTorn c'"
      using assms(2) EvTimer assms(3)
      by (cases "pcDown c") (auto simp: down_timer_def c0_def [symmetric] split: if_split_asm)
    moreover have "\<not> pcTorn c0" using assms(3) by (simp add: c0_def)
    ultimately show ?thesis using not_torn_cases assms(3,4) by blast
  next
    case EvHubDone
    with assms(2) show ?thesis by (auto simp: down_hub_done_def e_def split: if_splits)
  next
    case EvUpEOF
    then obtain c0 h0 c1 where "bothFinished (c0, h0) = (c1, h')" "pcTorn c0 = pcTorn c" "c' = c1\<lparr>pcUp := UpWaiting\<rparr>"
      using assms(2) by (auto simp: up_eof_def Let_def split: prod.splits if_splits)
    then show ?thesis using not_torn_cases [of c0 h0 c1 h'] assms(3,4) by simp
  next
    case (EvUpAcquire ch)
    then obtain p n where u: "pcUp c = UpAcquiring p n" using assms(2) by (auto simp: up_acquire_def split: up_state.splits)
    obtain t e' where a: "AcquireSend (nat n) ch e = (t, e')" by force
    have cl: "ceClient e' = ceClient e" using a by (auto simp: AcquireSend_def Let_def split: option.splits prod.splits)
    have closed: "\<exists>w. ceSendWin e = Some w \<and> wClosed w" if "t = TurnClosed"
      using a that by (auto simp: AcquireSend_def acquire_turn_def Let_def split: option.splits prod.splits if_splits)
    have len: "pcEntry c < length (chHeap h)" using proxy_run_inv [OF assms(1)] by (simp add: proxy_inv_def)
    let ?h1 = "upd_entry (pcEntry c) (\<lambda>_. e') h"
    have e1: "chHeap ?h1 ! pcEntry c = e'" using len by (simp add: upd_entry_nth)
    have "t = TurnClosed \<or> t = TurnDone \<and> up_send p (c, ?h1) = (c', h')"
      using assms(2-4) EvUpAcquire u a
      by (cases t) (auto simp: up_acquire_def e_def [symmetric])
    moreover have "\<exists>err. fst (Send (chSess h (ceClient e)) (mk_msg MsgData (pcConnID c) p)) = Inl err"
      if "up_send p (c, ?h1) = (c', h')"
      using that assms(3,4) e1 cl by (auto simp: up_send_def hub_send_def Let_def split: prod.splits sum.splits)
    ultimately show ?thesis using closed EvUpAcquire u by blast
  qed (use assms(2-4) d in \<open>auto simp: down_stop_def down_exit_def up_message_def up_stop_def split: if_splits\<close>)
qed

theorem proxy_no_early_teardown_witness:
  "\<exists>c h c' h'. proxy_run [[7], [8]] (c, h) \<and> proxy_step EvUpError (c, h) = Some (c', h') \<and> \<not> pcTorn c \<and> pcTorn c'
     \<and> \<not> (pcUpDone c' \<and> pcDownDone c')"
proof -
  have st: "proxy_run [[7], [8]] (new_conn 1 0, demo_hub_entry)"
    using px_start [of 0 demo_hub_entry 1] by (simp add: demo_hub_entry_def)
  obtain c' h' where s: "proxy_step EvUpError (new_conn 1 0, demo_hub_entry) = Some (c', h')" "pcTorn c'" "\<not> pcUpDone c'"
    by (simp add: up_error_def up_return_def teardown_def new_conn_def)
  have "\<not> pcTorn (new_conn 1 0)" by (simp add: new_conn_def)
  with st s proxy_no_early_teardown [OF st s(1)] show ?thesis by blast
qed

end
