(* ===== verification/Bridge.thy ===== *)
theory Bridge
  imports Prelude
begin

text \<open>
  \<^verbatim>\<open>internal/bridge/bridge.go\<close>: joining two established connections. \<^verbatim>\<open>Bridge\<close> runs one copying
  goroutine per direction, a watcher of the context, a drain timer that starts when the first
  direction has ended, and a main part that collects the two results. The relation of runs
  interleaves them with the peers of the two connections: bytes arrive, a peer ends its
  stream or breaks it, the context is cancelled, time passes. The pump of side \<open>s\<close> reads
  from \<open>s\<close> and writes to the other side.
\<close>

section \<open>State\<close>

datatype side = Src | Dst

fun other :: "side \<Rightarrow> side" where
  "other Src = Dst"
| "other Dst = Src"

datatype stream_end = EndEOF | EndErr

record BConn =
  bcArrived :: bytes
  bcRead :: nat
  bcEnd :: "stream_end option"
  bcOut :: bytes
  bcWriteClosed :: bool
  bcHalf :: bool
  bcClosed :: bool

datatype berr = ErrNetwork | ErrCtx | ErrDrain

datatype pump = Copying | Finished "berr option"

datatype main = WaitFirst | WaitSecond | Returned "berr option"

record Options =
  optDrainTimeout :: nat
  optBufferSize :: int

definition defaultDrainTimeout :: nat where "defaultDrainTimeout = 30"
definition defaultBufferSize :: int where "defaultBufferSize = 65536"

definition default_options :: Options where
  "default_options = \<lparr>optDrainTimeout = defaultDrainTimeout, optBufferSize = defaultBufferSize\<rparr>"

definition WithDrainTimeout :: "nat \<Rightarrow> Options \<Rightarrow> Options" where
  "WithDrainTimeout d o1 = o1\<lparr>optDrainTimeout := d\<rparr>"

definition WithBufferSize :: "int \<Rightarrow> Options \<Rightarrow> Options" where
  "WithBufferSize n o1 = o1\<lparr>optBufferSize := n\<rparr>"

definition build_options :: "(Options \<Rightarrow> Options) list \<Rightarrow> Options" where
  "build_options fs =
     (let o1 = fold (\<lambda>f. f) fs default_options in
      if optBufferSize o1 \<le> 0 then o1\<lparr>optBufferSize := defaultBufferSize\<rparr> else o1)"

record Bridge =
  brOpts :: Options
  brConn :: "side \<Rightarrow> BConn"
  brPump :: "side \<Rightarrow> pump"
  brResults :: "(side \<times> berr option) list"
  brMain :: main
  brCtxDone :: bool
  brArmed :: bool
  brDrainDone :: bool
  brTimedOut :: bool

definition fresh_conn :: "bool \<Rightarrow> BConn" where
  "fresh_conn half = \<lparr>bcArrived = [], bcRead = 0, bcEnd = None, bcOut = [], bcWriteClosed = False,
     bcHalf = half, bcClosed = False\<rparr>"

definition start_bridge :: "(Options \<Rightarrow> Options) list \<Rightarrow> (side \<Rightarrow> bool) \<Rightarrow> Bridge" where
  "start_bridge fs half = \<lparr>brOpts = build_options fs, brConn = (\<lambda>s. fresh_conn (half s)), brPump = (\<lambda>_. Copying),
     brResults = [], brMain = WaitFirst, brCtxDone = False, brArmed = False, brDrainDone = False, brTimedOut = False\<rparr>"

section \<open>Operations\<close>

definition upd_conn :: "side \<Rightarrow> (BConn \<Rightarrow> BConn) \<Rightarrow> Bridge \<Rightarrow> Bridge" where
  "upd_conn s f b = b\<lparr>brConn := (brConn b)(s := f (brConn b s))\<rparr>"

definition close_both :: "Bridge \<Rightarrow> Bridge" where
  "close_both b = b\<lparr>brConn := (\<lambda>s. (brConn b s)\<lparr>bcClosed := True\<rparr>)\<rparr>"

text \<open>The end of a pump: arm the drain timer, send the result.\<close>

definition pump_done :: "side \<Rightarrow> berr option \<Rightarrow> Bridge \<Rightarrow> Bridge" where
  "pump_done s e b = b\<lparr>brPump := (brPump b)(s := Finished e), brArmed := True, brResults := brResults b @ [(s, e)]\<rparr>"

text \<open>
  One read of \<^verbatim>\<open>io.CopyBuffer\<close>, which returns \<open>k\<close> bytes, and the write of what was read: the other side
  accepts \<open>n\<close> of them, all of them unless the write fails, none once it is closed.
\<close>

definition accepts :: "BConn \<Rightarrow> nat \<Rightarrow> nat \<Rightarrow> nat" where
  "accepts c n k = (if bcClosed c \<or> bcWriteClosed c then 0 else min n k)"

definition pump_copy :: "side \<Rightarrow> nat \<Rightarrow> nat \<Rightarrow> Bridge \<Rightarrow> Bridge option" where
  "pump_copy s k n b =
     (let r = brConn b s in
      if brPump b s = Copying \<and> \<not> bcClosed r \<and> 0 < k \<and> int k \<le> optBufferSize (brOpts b)
         \<and> bcRead r + k \<le> length (bcArrived r)
      then let d = take k (drop (bcRead r) (bcArrived r)); j = accepts (brConn b (other s)) n k;
               b2 = upd_conn (other s) (\<lambda>c. c\<lparr>bcOut := bcOut c @ take j d\<rparr>)
                      (upd_conn s (\<lambda>c. c\<lparr>bcRead := bcRead c + k\<rparr>) b) in
           if j = k then Some b2 else Some (pump_done s (Some ErrNetwork) b2)
      else None)"

text \<open>EOF: the half-close of the other side; a connection that does not support it is left open.\<close>

definition pump_eof :: "side \<Rightarrow> Bridge \<Rightarrow> Bridge option" where
  "pump_eof s b =
     (let r = brConn b s; w = brConn b (other s) in
      if brPump b s = Copying \<and> \<not> bcClosed r \<and> bcEnd r = Some EndEOF \<and> bcRead r = length (bcArrived r)
      then if \<not> bcHalf w then Some (pump_done s None b)
           else if bcClosed w then Some (pump_done s (Some ErrNetwork) b)
           else Some (pump_done s None (upd_conn (other s) (\<lambda>c. c\<lparr>bcWriteClosed := True\<rparr>) b))
      else None)"

definition pump_fail :: "side \<Rightarrow> Bridge \<Rightarrow> Bridge option" where
  "pump_fail s b =
     (let r = brConn b s in
      if brPump b s = Copying \<and> (bcClosed r \<or> bcEnd r = Some EndErr) then Some (pump_done s (Some ErrNetwork) b) else None)"

definition ctx_watch :: "Bridge \<Rightarrow> Bridge option" where
  "ctx_watch b =
     (if brCtxDone b \<and> (\<forall>e. brMain b \<noteq> Returned e) then Some (close_both b) else None)"

definition drain_fire :: "Bridge \<Rightarrow> Bridge option" where
  "drain_fire b =
     (if brArmed b \<and> 0 < optDrainTimeout (brOpts b) \<and> \<not> brDrainDone b
      then Some (close_both (b\<lparr>brTimedOut := True\<rparr>)) else None)"

text \<open>The deferred closes run when \<^verbatim>\<open>Bridge\<close> returns.\<close>

definition bridge_return :: "berr option \<Rightarrow> Bridge \<Rightarrow> Bridge" where
  "bridge_return e b = close_both (b\<lparr>brMain := Returned e, brDrainDone := True\<rparr>)"

definition main_step :: "Bridge \<Rightarrow> Bridge option" where
  "main_step b =
     (case brResults b of
        [] \<Rightarrow> None
      | (s, e) # rs \<Rightarrow>
          (let b1 = b\<lparr>brResults := rs\<rparr> in
           case brMain b of
             WaitFirst \<Rightarrow>
               if brCtxDone b then Some (bridge_return (Some ErrCtx) b1)
               else if e \<noteq> None then Some (bridge_return e b1)
               else Some (b1\<lparr>brMain := WaitSecond\<rparr>)
           | WaitSecond \<Rightarrow>
               if brTimedOut b then Some (bridge_return (Some ErrDrain) b1) else Some (bridge_return e b1)
           | Returned _ \<Rightarrow> None))"

section \<open>Runs\<close>

datatype bridge_event =
    Arrive side bytes | PeerEnd side stream_end | Cancel
  | PumpCopy side nat nat | PumpEOF side | PumpFail side | Watch | Drain | Main

fun bridge_step :: "bridge_event \<Rightarrow> Bridge \<Rightarrow> Bridge option" where
  "bridge_step (Arrive s d) b =
     (if bcEnd (brConn b s) = None then Some (upd_conn s (\<lambda>c. c\<lparr>bcArrived := bcArrived c @ d\<rparr>) b) else None)"
| "bridge_step (PeerEnd s e) b =
     (if bcEnd (brConn b s) = None then Some (upd_conn s (\<lambda>c. c\<lparr>bcEnd := Some e\<rparr>) b) else None)"
| "bridge_step Cancel b = Some (b\<lparr>brCtxDone := True\<rparr>)"
| "bridge_step (PumpCopy s k n) b = pump_copy s k n b"
| "bridge_step (PumpEOF s) b = pump_eof s b"
| "bridge_step (PumpFail s) b = pump_fail s b"
| "bridge_step Watch b = ctx_watch b"
| "bridge_step Drain b = drain_fire b"
| "bridge_step Main b = main_step b"

inductive bridge_run :: "(Options \<Rightarrow> Options) list \<Rightarrow> (side \<Rightarrow> bool) \<Rightarrow> bridge_event list \<Rightarrow> Bridge \<Rightarrow> bool"
  for fs :: "(Options \<Rightarrow> Options) list" and half :: "side \<Rightarrow> bool" where
  br_start: "bridge_run fs half [] (start_bridge fs half)"
| br_step: "bridge_run fs half evs b \<Longrightarrow> bridge_step ev b = Some b' \<Longrightarrow> bridge_run fs half (evs @ [ev]) b'"

fun run_events :: "bridge_event list \<Rightarrow> Bridge \<Rightarrow> Bridge option" where
  "run_events [] b = Some b"
| "run_events (ev # evs) b = (case bridge_step ev b of None \<Rightarrow> None | Some b' \<Rightarrow> run_events evs b')"

lemma run_events_run:
  "bridge_run fs half evs b \<Longrightarrow> run_events evs' b = Some b' \<Longrightarrow> bridge_run fs half (evs @ evs') b'"
proof (induction evs' arbitrary: evs b)
  case (Cons ev evs')
  then obtain b1 where b1: "bridge_step ev b = Some b1" "run_events evs' b1 = Some b'" by (auto split: option.splits)
  from Cons.IH [OF br_step [OF Cons.prems(1) b1(1)] b1(2)] show ?case by simp
qed simp

section \<open>The invariant\<close>

text \<open>
  Per direction: what was written to the other side is exactly what was read, unless the pump
  failed; a pump that finished without error has read everything up to EOF and passed the
  half-close on. Between the parts: a result is queued once per finished pump, the main part
  has taken the first one, and returning means both connections are closed.
\<close>

definition dir_ok :: "side \<Rightarrow> Bridge \<Rightarrow> bool" where
  "dir_ok s b \<longleftrightarrow>
     (let r = brConn b s; w = brConn b (other s) in
      bcRead r \<le> length (bcArrived r)
      \<and> (\<exists>l. take (bcRead r) (bcArrived r) = bcOut w @ l \<and> (l = [] \<or> (\<exists>e. brPump b s = Finished (Some e))))
      \<and> (brPump b s = Copying \<longrightarrow> \<not> bcWriteClosed w)
      \<and> (brPump b s = Finished None \<longrightarrow>
           bcEnd r = Some EndEOF \<and> bcRead r = length (bcArrived r) \<and> (bcHalf w \<longrightarrow> bcWriteClosed w)))"

definition results_ok :: "Bridge \<Rightarrow> bool" where
  "results_ok b \<longleftrightarrow>
     distinct (map fst (brResults b))
     \<and> (\<forall>(s, e) \<in> set (brResults b). brPump b s = Finished e)
     \<and> (brMain b = WaitFirst \<longrightarrow> (\<forall>s. brPump b s \<noteq> Copying \<longrightarrow> s \<in> fst ` set (brResults b)))
     \<and> (brMain b = WaitSecond \<longrightarrow> (\<exists>s. brPump b s = Finished None \<and> s \<notin> fst ` set (brResults b)
           \<and> (brPump b (other s) \<noteq> Copying \<longrightarrow> other s \<in> fst ` set (brResults b))))
     \<and> (brMain b = Returned None \<longrightarrow> (\<forall>s. brPump b s = Finished None))
     \<and> ((\<exists>e. brMain b = Returned e) \<longrightarrow> (\<forall>s. bcClosed (brConn b s)))
     \<and> (brArmed b \<longleftrightarrow> (\<exists>s. brPump b s \<noteq> Copying))"

lemma other_simps [simp]: "other (other s) = s" "other s \<noteq> s" "s \<noteq> other s" "(other s = other t) = (s = t)"
  by (cases s; cases t; simp)+

lemma side_cases: "t = s \<or> t = other s"
  by (cases s; cases t) simp_all

lemma all_sides: "(\<forall>t. P t) \<longleftrightarrow> P s \<and> P (other s)"
  using side_cases [of _ s] by metis

lemma dir_okD:
  assumes "dir_ok s b"
  shows "bcRead (brConn b s) \<le> length (bcArrived (brConn b s))"
    "brPump b s = Copying \<Longrightarrow> take (bcRead (brConn b s)) (bcArrived (brConn b s)) = bcOut (brConn b (other s))"
    "brPump b s = Finished None \<Longrightarrow> take (bcRead (brConn b s)) (bcArrived (brConn b s)) = bcOut (brConn b (other s))"
  using assms by (auto simp: dir_ok_def Let_def)

lemma dir_ok_pump_done:
  assumes "dir_ok t b" "brPump b s = Copying" "e \<noteq> None \<or> t \<noteq> s"
  shows "dir_ok t (pump_done s e b)"
  using assms by (auto simp: dir_ok_def pump_done_def Let_def)

lemma dir_ok_copy:
  assumes "\<And>t. dir_ok t b" "brPump b s = Copying" "bcRead (brConn b s) + k \<le> length (bcArrived (brConn b s))" "j \<le> k"
  defines "b2 \<equiv> upd_conn (other s) (\<lambda>c. c\<lparr>bcOut := bcOut c @ take j (take k (drop (bcRead (brConn b s)) (bcArrived (brConn b s))))\<rparr>)
      (upd_conn s (\<lambda>c. c\<lparr>bcRead := bcRead c + k\<rparr>) b)"
  shows "dir_ok t (pump_done s (Some ErrNetwork) b2)" "j = k \<Longrightarrow> dir_ok t b2"
proof -
  let ?d = "take k (drop (bcRead (brConn b s)) (bcArrived (brConn b s)))"
  have "take (bcRead (brConn b s) + k) (bcArrived (brConn b s)) = bcOut (brConn b (other s)) @ ?d"
    using dir_okD(2) [OF assms(1,2)] by (simp add: take_add)
  then have eq: "take (bcRead (brConn b s) + k) (bcArrived (brConn b s)) = (bcOut (brConn b (other s)) @ take j ?d) @ drop j ?d"
    by (metis append.assoc append_take_drop_id)
  have all: "take k ?d = ?d" by simp
  show "dir_ok t (pump_done s (Some ErrNetwork) b2)"
  proof (cases "t = s")
    case True
    with assms(3) eq show ?thesis by (auto simp: dir_ok_def pump_done_def upd_conn_def b2_def Let_def)
  next
    case False
    then have "t = other s" using side_cases by blast
    with assms(1) [of t] show ?thesis by (auto simp: dir_ok_def pump_done_def upd_conn_def b2_def Let_def)
  qed
  show "dir_ok t b2" if "j = k"
  proof (cases "t = s")
    case True
    have "take (bcRead (brConn b s) + k) (bcArrived (brConn b s)) = bcOut (brConn b (other s)) @ take j ?d"
      using eq that by simp
    with assms(2,3) True show ?thesis using assms(1) [of s] by (simp add: dir_ok_def upd_conn_def b2_def Let_def)
  next
    case False
    then have "t = other s" using side_cases by blast
    with assms(1) [of t] show ?thesis by (auto simp: dir_ok_def upd_conn_def b2_def Let_def)
  qed
qed

lemma dir_ok_eof:
  assumes "\<And>t. dir_ok t b" "brPump b s = Copying" "bcEnd (brConn b s) = Some EndEOF"
    "bcRead (brConn b s) = length (bcArrived (brConn b s))"
  shows "bcHalf (brConn b (other s)) \<Longrightarrow> dir_ok t (pump_done s None (upd_conn (other s) (\<lambda>c. c\<lparr>bcWriteClosed := True\<rparr>) b))"
    "\<not> bcHalf (brConn b (other s)) \<Longrightarrow> dir_ok t (pump_done s None b)"
  using assms(1) [of t] assms(1) [of s] side_cases [of t s] assms(2-4)
  by (auto simp: dir_ok_def pump_done_def upd_conn_def Let_def)

lemma dir_ok_env:
  assumes "\<And>t. dir_ok t b" "bcEnd (brConn b s) = None"
  shows "dir_ok t (upd_conn s (\<lambda>c. c\<lparr>bcArrived := bcArrived c @ d\<rparr>) b)" "dir_ok t (upd_conn s (\<lambda>c. c\<lparr>bcEnd := Some e\<rparr>) b)"
  using assms(1) [of t] assms(2) side_cases [of t s]
  by (auto simp: dir_ok_def upd_conn_def Let_def)

lemma close_both_simps [simp]:
  "brPump (close_both b) = brPump b" "brResults (close_both b) = brResults b" "brMain (close_both b) = brMain b"
  "brArmed (close_both b) = brArmed b" "brConn (close_both b) s = (brConn b s)\<lparr>bcClosed := True\<rparr>"
  "brTimedOut (close_both b) = brTimedOut b" "brOpts (close_both b) = brOpts b" "brCtxDone (close_both b) = brCtxDone b"
  by (simp_all add: close_both_def)

lemma dir_ok_close [simp]: "dir_ok t (close_both b) = dir_ok t b"
  by (simp add: dir_ok_def Let_def)

lemma dir_ok_misc [simp]:
  "dir_ok t (b\<lparr>brCtxDone := x\<rparr>) = dir_ok t b" "dir_ok t (b\<lparr>brTimedOut := x\<rparr>) = dir_ok t b"
  "dir_ok t (b\<lparr>brResults := rs\<rparr>) = dir_ok t b" "dir_ok t (b\<lparr>brMain := m\<rparr>) = dir_ok t b"
  "dir_ok t (bridge_return e b) = dir_ok t b"
  by (simp_all add: dir_ok_def bridge_return_def Let_def)

lemma bridge_step_dir:
  assumes inv: "\<And>t. dir_ok t b" and st: "bridge_step ev b = Some b'"
  shows "dir_ok t b'"
proof (cases ev)
  case (PumpCopy s k n)
  with st have c: "brPump b s = Copying" "bcRead (brConn b s) + k \<le> length (bcArrived (brConn b s))"
    by (auto simp: pump_copy_def Let_def split: if_splits)
  have j: "accepts (brConn b (other s)) n k \<le> k" by (simp add: accepts_def)
  from st PumpCopy dir_ok_copy [OF inv c j] show ?thesis
    by (auto simp: pump_copy_def Let_def split: if_splits)
next
  case (PumpEOF s)
  with st have c: "brPump b s = Copying" "bcEnd (brConn b s) = Some EndEOF" "bcRead (brConn b s) = length (bcArrived (brConn b s))"
    by (auto simp: pump_eof_def Let_def split: if_splits)
  have "dir_ok t (pump_done s (Some ErrNetwork) b)" using inv c(1) by (intro dir_ok_pump_done) simp_all
  with st PumpEOF dir_ok_eof [OF inv c] show ?thesis
    by (auto simp: pump_eof_def Let_def split: if_splits)
next
  case (PumpFail s)
  with st inv show ?thesis by (auto simp: pump_fail_def Let_def split: if_splits intro!: dir_ok_pump_done)
next
  case Main
  with st inv show ?thesis by (auto simp: main_step_def Let_def split: list.splits main.splits if_splits)
qed (use st inv dir_ok_env in \<open>auto simp: ctx_watch_def drain_fire_def split: if_splits\<close>)

lemma closed_upd [simp]:
  "(\<And>c. bcClosed (f c) = bcClosed c) \<Longrightarrow> bcClosed (brConn (upd_conn s f b) t) = bcClosed (brConn b t)"
  by (simp add: upd_conn_def)

lemma upd_conn_fields [simp]:
  "brPump (upd_conn s f b) = brPump b" "brResults (upd_conn s f b) = brResults b" "brMain (upd_conn s f b) = brMain b"
  "brArmed (upd_conn s f b) = brArmed b" "brOpts (upd_conn s f b) = brOpts b" "brTimedOut (upd_conn s f b) = brTimedOut b"
  "brCtxDone (upd_conn s f b) = brCtxDone b"
  by (simp_all add: upd_conn_def)

lemma results_ok_second:
  "results_ok b \<Longrightarrow> brMain b = WaitSecond \<Longrightarrow> \<exists>u. brPump b u = Finished None \<and> u \<notin> fst ` set (brResults b)
     \<and> (brPump b (other u) \<noteq> Copying \<longrightarrow> other u \<in> fst ` set (brResults b))"
  by (simp add: results_ok_def)

lemma results_ok_pump_done:
  assumes "results_ok b" "brPump b s = Copying"
  shows "results_ok (pump_done s e b)"
proof -
  have n: "s \<notin> fst ` set (brResults b)" using assms by (force simp: results_ok_def)
  have r: "brPump b t = Finished x \<and> t \<noteq> s" if "(t, x) \<in> set (brResults b)" for t x
    using assms that by (force simp: results_ok_def)
  have w: "\<exists>u. (brPump (pump_done s e b) u = Finished None) \<and> u \<notin> fst ` set (brResults (pump_done s e b))
      \<and> (brPump (pump_done s e b) (other u) \<noteq> Copying \<longrightarrow> other u \<in> fst ` set (brResults (pump_done s e b)))"
    if ws: "brMain b = WaitSecond"
  proof -
    obtain u where u: "brPump b u = Finished None" "u \<notin> fst ` set (brResults b)"
      using results_ok_second [OF assms(1) ws] by blast
    then have "u \<noteq> s" using assms(2) by auto
    then have "other u = s" using side_cases [of s u] by auto
    with u \<open>u \<noteq> s\<close> show ?thesis by (intro exI [of _ u]) (auto simp: pump_done_def)
  qed
  show ?thesis
    using assms n r w unfolding results_ok_def by (auto simp: pump_done_def)
qed

lemma results_ok_frame:
  assumes "results_ok b" "brPump b' = brPump b" "brResults b' = brResults b" "brMain b' = brMain b" "brArmed b' = brArmed b"
    "\<And>s. bcClosed (brConn b s) \<Longrightarrow> bcClosed (brConn b' s)"
  shows "results_ok b'"
  using assms by (auto simp: results_ok_def)

lemma results_ok_upd: "results_ok b \<Longrightarrow> (\<And>c. bcClosed (f c) = bcClosed c) \<Longrightarrow> results_ok (upd_conn s f b)"
  by (rule results_ok_frame) (auto simp: upd_conn_def)

lemma main_step_results:
  assumes "results_ok b" "main_step b = Some b'"
  shows "results_ok b'"
proof -
  obtain s e rs where r: "brResults b = (s, e) # rs" using assms(2) by (auto simp: main_step_def split: list.splits)
  have p: "brPump b s = Finished e" "s \<notin> fst ` set rs" "distinct (map fst rs)"
    using assms(1) r by (auto simp: results_ok_def)
  have sub: "\<forall>(t, x) \<in> set rs. brPump b t = Finished x" using assms(1) r by (auto simp: results_ok_def)
  have ret: "results_ok (bridge_return x (b\<lparr>brResults := rs\<rparr>))" if "x = None \<Longrightarrow> \<forall>t. brPump b t = Finished None" for x
    using assms(1) p sub that by (auto simp: results_ok_def bridge_return_def)
  show ?thesis
  proof (cases "brMain b")
    case WaitFirst
    have "brPump b (other s) \<noteq> Copying \<longrightarrow> other s \<in> fst ` set rs"
      using assms(1) WaitFirst r by (auto simp: results_ok_def)
    then have "results_ok (b\<lparr>brResults := rs, brMain := WaitSecond\<rparr>)" if "e = None"
      using assms(1) p sub that by (auto simp: results_ok_def intro!: exI [of _ s])
    then show ?thesis using assms(2) r WaitFirst ret
      by (auto simp: main_step_def Let_def split: if_splits)
  next
    case WaitSecond
    obtain u where u: "brPump b u = Finished None" "u \<notin> fst ` set (brResults b)"
      using results_ok_second [OF assms(1) WaitSecond] by blast
    then have "s = other u" using side_cases [of s u] r by auto
    then have "e = None \<Longrightarrow> \<forall>t. brPump b t = Finished None" using u(1) p(1) all_sides [of _ u] by simp
    then show ?thesis using assms(2) r WaitSecond ret by (auto simp: main_step_def Let_def split: if_splits)
  next
    case (Returned x)
    with assms(2) r show ?thesis by (simp add: main_step_def)
  qed
qed

lemma bridge_step_results:
  assumes "results_ok b" "bridge_step ev b = Some b'"
  shows "results_ok b'"
proof (cases ev)
  case (PumpCopy s k n)
  have c: "brPump b s = Copying" using assms(2) PumpCopy by (auto simp: pump_copy_def Let_def split: if_splits)
  have "results_ok (upd_conn s (\<lambda>c. c\<lparr>bcRead := bcRead c + k\<rparr>) b)" using assms(1) by (rule results_ok_upd) simp
  then have "results_ok (upd_conn (other s) (\<lambda>c. c\<lparr>bcOut := bcOut c @ d\<rparr>) (upd_conn s (\<lambda>c. c\<lparr>bcRead := bcRead c + k\<rparr>) b))" for d
    by (rule results_ok_upd) simp
  then show ?thesis using assms(2) PumpCopy c
    by (auto simp: pump_copy_def Let_def split: if_splits intro!: results_ok_pump_done)
next
  case (PumpEOF s)
  then show ?thesis using assms
    by (auto simp: pump_eof_def Let_def split: if_splits intro!: results_ok_pump_done results_ok_upd)
next
  case (PumpFail s)
  then show ?thesis using assms by (auto simp: pump_fail_def Let_def split: if_splits intro!: results_ok_pump_done)
next
  case Main
  then show ?thesis using assms main_step_results by simp
next
  case Watch
  then show ?thesis using assms by (auto simp: ctx_watch_def split: if_splits intro: results_ok_frame)
next
  case Drain
  then show ?thesis using assms by (auto simp: drain_fire_def split: if_splits intro: results_ok_frame)
next
  case Cancel
  then show ?thesis using assms by (auto intro: results_ok_frame)
qed (use assms in \<open>auto split: if_splits intro!: results_ok_upd\<close>)

text \<open>Closing before the return needs a cancelled context or the drain timer, which runs only after a first end.\<close>

definition close_ok :: "Bridge \<Rightarrow> bool" where
  "close_ok b \<longleftrightarrow> ((\<exists>s. bcClosed (brConn b s)) \<longrightarrow> brCtxDone b \<or> brTimedOut b \<or> (\<exists>e. brMain b = Returned e))
     \<and> (brTimedOut b \<longrightarrow> brArmed b) \<and> 0 < optBufferSize (brOpts b)"

lemma close_ok_simps [simp]:
  "(\<And>c. bcClosed (f c) = bcClosed c) \<Longrightarrow> close_ok (upd_conn s f b) = close_ok b"
  "close_ok b \<Longrightarrow> close_ok (pump_done s e b)" "close_ok b \<Longrightarrow> close_ok (bridge_return x b)"
  by (auto simp: close_ok_def pump_done_def bridge_return_def)

lemma bridge_step_close:
  assumes "close_ok b" "bridge_step ev b = Some b'"
  shows "close_ok b'"
proof (cases ev)
  case Main
  have "close_ok (b\<lparr>brResults := rs\<rparr>)" "brMain b = WaitFirst \<Longrightarrow> close_ok (b\<lparr>brResults := rs, brMain := WaitSecond\<rparr>)" for rs
    using assms(1) by (auto simp: close_ok_def)
  then show ?thesis using assms(2) Main
    by (auto simp: main_step_def Let_def split: list.splits main.splits if_splits)
qed (use assms in \<open>auto simp: pump_copy_def pump_eof_def pump_fail_def ctx_watch_def drain_fire_def Let_def split: if_splits\<close>,
     use assms in \<open>auto simp: close_ok_def\<close>)

lemma bridge_run_inv: "bridge_run fs half evs b \<Longrightarrow> (\<forall>t. dir_ok t b) \<and> results_ok b \<and> close_ok b \<and> brOpts b = build_options fs"
proof (induction rule: bridge_run.induct)
  case br_start
  have "0 < optBufferSize (build_options fs)"
    by (simp add: build_options_def Let_def defaultBufferSize_def)
  then show ?case
    by (simp add: dir_ok_def results_ok_def close_ok_def start_bridge_def fresh_conn_def)
next
  case (br_step evs b ev b')
  have "brOpts b' = brOpts b"
    using br_step.hyps(2)
    by (cases ev) (auto simp: pump_copy_def pump_eof_def pump_fail_def ctx_watch_def drain_fire_def main_step_def bridge_return_def
        pump_done_def Let_def split: if_splits list.splits main.splits)
  with br_step bridge_step_dir bridge_step_results bridge_step_close show ?case by metis
qed

section \<open>Properties\<close>


definition demo_events :: "bridge_event list" where
  "demo_events = [Arrive Src [1, 2, 3], PeerEnd Src EndEOF, PumpCopy Src 3 3, PumpEOF Src, Main,
     Arrive Dst [9], PumpCopy Dst 1 1, PeerEnd Dst EndEOF, PumpEOF Dst, Main]"

lemma demo_returns: "\<exists>b. run_events demo_events (start_bridge [] (\<lambda>_. True)) = Some b \<and> brMain b = Returned None"
  by (simp add: demo_events_def start_bridge_def fresh_conn_def pump_copy_def pump_eof_def main_step_def pump_done_def
      upd_conn_def accepts_def bridge_return_def close_both_def build_options_def default_options_def
      defaultBufferSize_def Let_def)


text \<open>
  Half-close does not cut the other direction. As long as \<^verbatim>\<open>Bridge\<close> has not returned, a
  connection is closed only because the context was cancelled or the drain timer fired, and
  the timer fires only after one direction has ended. After the first EOF the other direction
  is therefore still open.
\<close>

theorem bridge_no_early_close:
  assumes "bridge_run fs half evs b" "\<forall>e. brMain b \<noteq> Returned e"
  shows "(bcClosed (brConn b s) \<longrightarrow> brCtxDone b \<or> brTimedOut b)
     \<and> (brTimedOut b \<longrightarrow> (\<exists>t. brPump b t \<noteq> Copying))
     \<and> (brMain b = WaitSecond \<and> \<not> brCtxDone b \<and> \<not> brTimedOut b \<longrightarrow> \<not> bcClosed (brConn b s))"
  using bridge_run_inv [OF assms(1)] assms(2) by (auto simp: close_ok_def results_ok_def)

theorem bridge_no_early_close_witness:
  "\<exists>b. bridge_run [] (\<lambda>_. True) (take 5 demo_events) b \<and> brMain b = WaitSecond \<and> \<not> bcClosed (brConn b Dst)"
proof -
  obtain b where b: "run_events (take 5 demo_events) (start_bridge [] (\<lambda>_. True)) = Some b" "brMain b = WaitSecond"
      "\<not> brCtxDone b" "\<not> brTimedOut b"
    by (simp add: demo_events_def start_bridge_def fresh_conn_def pump_copy_def pump_eof_def main_step_def pump_done_def
      upd_conn_def accepts_def build_options_def default_options_def defaultBufferSize_def Let_def)
  have run: "bridge_run [] (\<lambda>_. True) (take 5 demo_events) b"
    using run_events_run [OF br_start b(1)] by simp
  from bridge_no_early_close [OF run, of Dst] b run show ?thesis by auto
qed

text \<open>The steps of the bridge itself, without the environment, and what is left to do.\<close>

fun internal :: "bridge_event \<Rightarrow> bool" where
  "internal (PumpCopy s k n) = True"
| "internal (PumpEOF s) = True"
| "internal (PumpFail s) = True"
| "internal Main = True"
| "internal _ = False"

definition left_of :: "side \<Rightarrow> Bridge \<Rightarrow> nat" where
  "left_of s b = (length (bcArrived (brConn b s)) - bcRead (brConn b s)) + (if brPump b s = Copying then 2 else 0)"

definition work :: "Bridge \<Rightarrow> nat" where
  "work b = left_of Src b + left_of Dst b + length (brResults b)"

lemma work_sides: "work b = left_of s b + left_of (other s) b + length (brResults b)"
  by (cases s) (simp_all add: work_def)

lemma left_pump_done: "brPump b s = Copying \<Longrightarrow> left_of s (pump_done s e b) + 2 = left_of s b"
  "left_of (other s) (pump_done s e b) = left_of (other s) b"
  by (simp_all add: left_of_def pump_done_def)

lemma work_pump_done: "brPump b s = Copying \<Longrightarrow> work (pump_done s e b) < work b"
  unfolding work_sides [of _ s] using left_pump_done [where b = b and s = s and e = e] by (simp add: pump_done_def)

lemma work_upd: "(\<And>c. bcArrived (f c) = bcArrived c \<and> bcRead (f c) = bcRead c) \<Longrightarrow> work (upd_conn s f b) = work b"
  by (simp add: work_def left_of_def upd_conn_def)

lemma work_read:
  assumes "0 < k" "bcRead (brConn b s) + k \<le> length (bcArrived (brConn b s))"
  shows "work (upd_conn s (\<lambda>c. c\<lparr>bcRead := bcRead c + k\<rparr>) b) < work b"
  unfolding work_sides [of _ s] using assms by (simp add: left_of_def upd_conn_def)

lemma internal_decreases:
  assumes "internal ev" "bridge_step ev b = Some b'"
  shows "work b' < work b"
proof (cases ev)
  case (PumpCopy s k n)
  with assms(2) have c: "brPump b s = Copying" "0 < k" "bcRead (brConn b s) + k \<le> length (bcArrived (brConn b s))"
    by (auto simp: pump_copy_def Let_def split: if_splits)
  let ?b1 = "upd_conn s (\<lambda>c. c\<lparr>bcRead := bcRead c + k\<rparr>) b"
  let ?b2 = "\<lambda>d. upd_conn (other s) (\<lambda>c. c\<lparr>bcOut := bcOut c @ d\<rparr>) ?b1"
  have "\<exists>d. b' = pump_done s (Some ErrNetwork) (?b2 d) \<or> b' = ?b2 d"
    using assms(2) PumpCopy by (auto simp: pump_copy_def Let_def split: if_splits)
  moreover have "work (pump_done s (Some ErrNetwork) (?b2 d)) < work (?b2 d)" for d using c(1) by (intro work_pump_done) simp
  moreover have "work (?b2 d) < work b" for d using work_read [OF c(2,3)] by (simp add: work_upd)
  ultimately show ?thesis using less_trans by blast
next
  case (PumpEOF s)
  have "work (pump_done s None (upd_conn (other s) (\<lambda>c. c\<lparr>bcWriteClosed := True\<rparr>) b)) < work b" if "brPump b s = Copying"
    using work_pump_done [of "upd_conn (other s) (\<lambda>c. c\<lparr>bcWriteClosed := True\<rparr>) b" s None] that by (simp add: work_upd)
  then show ?thesis using assms(2) PumpEOF by (auto simp: pump_eof_def Let_def work_pump_done split: if_splits)
next
  case (PumpFail s)
  then show ?thesis using assms(2) by (auto simp: pump_fail_def Let_def work_pump_done split: if_splits)
next
  case Main
  have "work (bridge_return x (b\<lparr>brResults := rs\<rparr>)) < work b" "work (b\<lparr>brResults := rs, brMain := m\<rparr>) < work b"
    if "brResults b = p # rs" for x rs p m
    using that by (simp_all add: work_def left_of_def bridge_return_def)
  then show ?thesis using assms(2) Main by (auto simp: main_step_def Let_def split: list.splits main.splits if_splits)
qed (use assms(1) in simp_all)

lemma pump_progress:
  assumes "bcEnd (brConn b s) \<noteq> None" "brPump b s = Copying" "0 < optBufferSize (brOpts b)"
    "bcRead (brConn b s) \<le> length (bcArrived (brConn b s))"
  shows "\<exists>ev. internal ev \<and> bridge_step ev b \<noteq> None"
proof (cases "bcClosed (brConn b s) \<or> bcEnd (brConn b s) = Some EndErr")
  case True
  then show ?thesis using assms(2) by (intro exI [of _ "PumpFail s"]) (simp add: pump_fail_def Let_def)
next
  case False
  then have e: "bcEnd (brConn b s) = Some EndEOF" "\<not> bcClosed (brConn b s)"
    using assms(1) by (auto, metis stream_end.exhaust)
  show ?thesis
  proof (cases "bcRead (brConn b s) = length (bcArrived (brConn b s))")
    case True
    with e assms show ?thesis by (intro exI [of _ "PumpEOF s"]) (simp add: pump_eof_def Let_def)
  next
    case False
    with e assms show ?thesis by (intro exI [of _ "PumpCopy s 1 1"]) (simp add: pump_copy_def Let_def)
  qed
qed



text \<open>
  A cancellation after the first EOF does not give the context's error: the second direction
  fails on the closed connection and that error is returned.
\<close>

lemma late_cancel_error:
  "map_option brMain (run_events [PeerEnd Src EndEOF, PumpEOF Src, Main, Cancel, Watch, PumpFail Dst, Main]
     (start_bridge [] (\<lambda>_. True))) = Some (Returned (Some ErrNetwork))"
  by (simp add: start_bridge_def fresh_conn_def pump_eof_def pump_fail_def main_step_def pump_done_def
      upd_conn_def ctx_watch_def bridge_return_def close_both_def Let_def)

end
