(* ===== verification/WsFrame.thy ===== *)
theory WsFrame
  imports StarSession
begin

text \<open>
  The websocket frames of \<^verbatim>\<open>protocol/ws/ws.go\<close>: reading and writing one frame, reassembly of a
  message from its fragments with pings answered in between, and closing. The HTTP upgrade that
  precedes the frames is not part of this theory, except for the address that \<^verbatim>\<open>Dial\<close> takes apart.
  A connection is the bytes still to be read (the buffered reader) and the bytes written.
\<close>

unbundle bit_operations_syntax

section \<open>Frames\<close>

definition OpContinuation :: byte where "OpContinuation = 0x0"
definition OpText :: byte where "OpText = 0x1"
definition OpBinary :: byte where "OpBinary = 0x2"
definition OpClose :: byte where "OpClose = 0x8"
definition OpPing :: byte where "OpPing = 0x9"
definition OpPong :: byte where "OpPong = 0xA"

lemmas op_defs = OpContinuation_def OpText_def OpBinary_def OpClose_def OpPing_def OpPong_def

definition MaxMessageSize :: nat where "MaxMessageSize = 1048576"

datatype wserr =
    WsIO ioerr
  | WsReserved
  | WsTooLarge nat
  | WsContinuation
  | WsOpcode byte
  | WsClosed

record WsFrame =
  wfFin :: bool
  wfOp :: byte
  wfPayload :: bytes

record WsConn =
  wcIn :: bytes
  wcOut :: bytes
  wcWErr :: "ioerr option"
  wcClient :: bool
  wcClosed :: bool
  wcConnClosed :: bool

definition mask_bytes :: "bytes \<Rightarrow> bytes \<Rightarrow> bytes" where
  "mask_bytes key p = map (\<lambda>i. p ! i XOR key ! (i mod 4)) [0..<length p]"

definition read_length :: "byte \<Rightarrow> bytes \<Rightarrow> ioerr + (nat \<times> bytes)" where
  "read_length l inp =
     (if l = 126 then case read_full 2 inp of Inl e \<Rightarrow> Inl e | Inr (ext, r) \<Rightarrow> Inr (be_nat ext, r)
      else if l = 127 then case read_full 8 inp of Inl e \<Rightarrow> Inl e | Inr (ext, r) \<Rightarrow> Inr (be_nat ext, r)
      else Inr (unat l, inp))"

text \<open>The second component is what is left of the input; a read that meets its end has used it up.\<close>

definition readFrame :: "bytes \<Rightarrow> (wserr + WsFrame) \<times> bytes" where
  "readFrame inp =
     (case read_full 2 inp of
        Inl e \<Rightarrow> (Inl (WsIO e), [])
      | Inr (head, r1) \<Rightarrow>
          if head ! 0 AND 0x70 \<noteq> 0 then (Inl WsReserved, r1)
          else case read_length (head ! 1 AND 0x7f) r1 of
            Inl e \<Rightarrow> (Inl (WsIO e), [])
          | Inr (len, r2) \<Rightarrow>
              if len > MaxMessageSize then (Inl (WsTooLarge len), r2)
              else let masked = (head ! 1 AND 0x80 \<noteq> 0) in
                case read_full (if masked then 4 else 0) r2 of
                  Inl e \<Rightarrow> (Inl (WsIO e), [])
                | Inr (key, r3) \<Rightarrow>
                    (case read_full len r3 of
                       Inl e \<Rightarrow> (Inl (WsIO e), [])
                     | Inr (p, r4) \<Rightarrow>
                         (Inr \<lparr>wfFin = (head ! 0 AND 0x80 \<noteq> 0), wfOp = head ! 0 AND 0x0f,
                               wfPayload = (if masked then mask_bytes key p else p)\<rparr>, r4)))"

definition length_code :: "nat \<Rightarrow> byte \<times> bytes" where
  "length_code n =
     (if n < 126 then (word_of_nat n, [])
      else if n \<le> 0xffff then (126, be_bytes 2 n)
      else (127, be_bytes 8 n))"

text \<open>The frame that \<^verbatim>\<open>writeFrame\<close> puts on the wire; \<open>key\<close> is the random masking key of a client.\<close>

definition frame_bytes :: "bool \<Rightarrow> bytes \<Rightarrow> WsFrame \<Rightarrow> bytes" where
  "frame_bytes client key f =
     (let p = wfPayload f; (l, ext) = length_code (length p) in
      [(if wfFin f then wfOp f OR 0x80 else wfOp f), (if client then 0x80 else 0) OR l] @ ext
      @ (if client then key @ mask_bytes key p else p))"

definition writeFrame :: "bytes \<Rightarrow> WsFrame \<Rightarrow> WsConn \<Rightarrow> (wserr + unit) \<times> WsConn" where
  "writeFrame key f c =
     (if wcClosed c then (Inl WsClosed, c)
      else if wcConnClosed c then (Inl (WsIO ErrClosed), c)
      else case wcWErr c of
        Some e \<Rightarrow> (Inl (WsIO e), c)
      | None \<Rightarrow> (Inr (), c\<lparr>wcOut := wcOut c @ frame_bytes (wcClient c) key f\<rparr>))"

definition writeControl :: "bytes \<Rightarrow> byte \<Rightarrow> bytes \<Rightarrow> WsConn \<Rightarrow> (wserr + unit) \<times> WsConn" where
  "writeControl key op p c = writeFrame key \<lparr>wfFin = True, wfOp = op, wfPayload = p\<rparr> c"

definition ws_WriteMessage :: "bytes \<Rightarrow> bytes \<Rightarrow> WsConn \<Rightarrow> (wserr + unit) \<times> WsConn" where
  "ws_WriteMessage key p c = writeFrame key \<lparr>wfFin = True, wfOp = OpBinary, wfPayload = p\<rparr> c"

text \<open>\<^verbatim>\<open>Close\<close> marks the connection closed before it writes the close frame.\<close>

definition ws_Close :: "bytes \<Rightarrow> WsConn \<Rightarrow> WsConn" where
  "ws_Close key c =
     (let c1 = c\<lparr>wcClosed := True\<rparr>;
          c2 = (if \<not> wcClosed c then snd (writeControl key OpClose [] c1) else c1) in
      c2\<lparr>wcConnClosed := True\<rparr>)"

section \<open>Messages\<close>

lemma read_full_length: "read_full n inp = Inr (a, r) \<Longrightarrow> length inp = n + length r \<and> length a = n"
  using read_full_Inr [of n inp a r] by auto

lemma readFrame_shorter: "readFrame inp = (Inr f, r) \<Longrightarrow> length r < length inp"
  by (auto simp: readFrame_def read_length_def Let_def split: sum.splits if_splits dest!: read_full_length)

text \<open>
  \<^verbatim>\<open>ReadMessage\<close>; \<open>keys\<close> gives the masking key of the answers. The loop ends because each
  frame is shorter than the input it was read from.
\<close>

function read_message :: "bytes \<Rightarrow> bool \<Rightarrow> bytes \<Rightarrow> WsConn \<Rightarrow> (wserr + bytes) \<times> WsConn" where
  "read_message key assembling msg c =
     (case readFrame (wcIn c) of
        (Inl e, r) \<Rightarrow> (Inl e, c\<lparr>wcIn := r\<rparr>)
      | (Inr f, r) \<Rightarrow>
          (let c1 = c\<lparr>wcIn := r\<rparr> in
           if wfOp f = OpText \<or> wfOp f = OpBinary then
             (if wfFin f then (Inr (wfPayload f), c1) else read_message key True (wfPayload f) c1)
           else if wfOp f = OpContinuation then
             (if \<not> assembling then (Inl WsContinuation, c1)
              else if wfFin f then (Inr (msg @ wfPayload f), c1)
              else read_message key assembling (msg @ wfPayload f) c1)
           else if wfOp f = OpPing then
             (case writeControl key OpPong (wfPayload f) c1 of
                (Inl e, c2) \<Rightarrow> (Inl e, c2)
              | (Inr _, c2) \<Rightarrow> read_message key assembling msg (c2\<lparr>wcIn := r\<rparr>))
           else if wfOp f = OpPong then read_message key assembling msg c1
           else if wfOp f = OpClose then (Inl (WsIO EOF), snd (writeControl key OpClose [] c1))
           else (Inl (WsOpcode (wfOp f)), c1)))"
  by pat_completeness auto
termination
  by (relation "measure (\<lambda>(_, _, _, c). length (wcIn c))") (auto dest!: readFrame_shorter [OF sym])

declare read_message.simps [simp del]

definition ws_ReadMessage :: "bytes \<Rightarrow> WsConn \<Rightarrow> (wserr + bytes) \<times> WsConn" where
  "ws_ReadMessage key c = read_message key False [] c"

text \<open>The host and the path of the address given to \<^verbatim>\<open>Dial\<close>.\<close>

definition dial_target :: "string \<Rightarrow> string \<times> string" where
  "dial_target addr =
     (if take 5 addr = ''ws://'' then
        (let rest = drop 5 addr; host = takeWhile (\<lambda>c. c \<noteq> CHR ''/'') rest; path = dropWhile (\<lambda>c. c \<noteq> CHR ''/'') rest in
         if path \<noteq> [] then (host, path) else (rest, ''/''))
      else (addr, ''/''))"

section \<open>Round trip of a frame\<close>

lemma mask_mask:
  "length key = 4 \<Longrightarrow> mask_bytes key (mask_bytes key p) = p"
  by (rule nth_equalityI) (simp_all add: mask_bytes_def xor.assoc)

lemma length_mask [simp]: "length (mask_bytes key p) = length p"
  by (simp add: mask_bytes_def)

lemma op_bits_table:
  "\<forall>n \<in> set [0..<16]. let b = word_of_nat n :: byte in
     b AND 0x70 = 0 \<and> b AND 0x80 = 0 \<and> b AND 0x0f = b \<and> (b OR 0x80) AND 0x70 = 0 \<and> (b OR 0x80) AND 0x80 \<noteq> 0
     \<and> (b OR 0x80) AND 0x0f = b"
  by code_simp

lemma op_bits:
  fixes b :: byte
  assumes "b < 16"
  shows "b AND 0x70 = 0" "b AND 0x80 = 0" "b AND 0x0f = b" "(b OR 0x80) AND 0x70 = 0" "(b OR 0x80) AND 0x80 \<noteq> 0"
    "(b OR 0x80) AND 0x0f = b"
proof -
  have "unat b \<in> set [0..<16]" using assms by (simp add: word_less_nat_alt)
  from bspec [OF op_bits_table this]
  show "b AND 0x70 = 0" "b AND 0x80 = 0" "b AND 0x0f = b" "(b OR 0x80) AND 0x70 = 0" "(b OR 0x80) AND 0x80 \<noteq> 0"
    "(b OR 0x80) AND 0x0f = b" by (simp_all add: Let_def)
qed

lemma len_bits_table:
  "\<forall>n \<in> set [0..<128]. let b = word_of_nat n :: byte in
     b AND 0x7f = b \<and> b AND 0x80 = 0 \<and> (0x80 OR b) AND 0x7f = b \<and> (0x80 OR b) AND 0x80 \<noteq> 0"
  by code_simp

lemma len_bits:
  fixes b :: byte
  assumes "b < 128"
  shows "b AND 0x7f = b" "b AND 0x80 = 0" "(0x80 OR b) AND 0x7f = b" "(0x80 OR b) AND 0x80 \<noteq> 0"
proof -
  have "unat b \<in> set [0..<128]" using assms by (simp add: word_less_nat_alt)
  from bspec [OF len_bits_table this]
  show "b AND 0x7f = b" "b AND 0x80 = 0" "(0x80 OR b) AND 0x7f = b" "(0x80 OR b) AND 0x80 \<noteq> 0"
    by (simp_all add: Let_def)
qed

lemma length_code_bits: "length_code n = (l, ext) \<Longrightarrow> l < 128"
  by (auto simp: length_code_def word_less_nat_alt unat_of_nat split: if_splits)

lemma read_length_code:
  assumes "length_code n = (l, ext)" "n \<le> MaxMessageSize"
  shows "read_length l (ext @ r) = Inr (n, r)"
proof -
  have small: "n < 126 \<Longrightarrow> (word_of_nat n :: byte) \<noteq> 126 \<and> (word_of_nat n :: byte) \<noteq> 127 \<and> unat (word_of_nat n :: byte) = n"
    by (auto simp: word_unat_eq_iff unat_of_nat)
  have b: "n < 256 ^ 8" using assms(2) by (simp add: MaxMessageSize_def)
  consider "n < 126" | "126 \<le> n" "n \<le> 0xffff" | "0xffff < n" by linarith
  then show ?thesis
  proof cases
    case 1 with assms small show ?thesis by (auto simp: length_code_def read_length_def)
  next
    case 2 with assms(1) show ?thesis by (auto simp: length_code_def read_length_def)
  next
    case 3 with assms(1) b show ?thesis by (auto simp: length_code_def read_length_def)
  qed
qed

definition frame_ok :: "WsFrame \<Rightarrow> bool" where
  "frame_ok f \<longleftrightarrow> wfOp f < 16 \<and> length (wfPayload f) \<le> MaxMessageSize"

lemma read_full_two [simp]: "read_full 2 (a # b # r) = Inr ([a, b], r)"
  by (simp add: read_full_def)

lemma readFrame_frame:
  assumes "frame_ok f" "client \<Longrightarrow> length key = 4"
  shows "readFrame (frame_bytes client key f @ rest) = (Inr f, rest)"
proof -
  obtain l ext where l: "length_code (length (wfPayload f)) = (l, ext)" by force
  have n: "length (wfPayload f) \<le> MaxMessageSize" "wfOp f < 16" using assms(1) by (simp_all add: frame_ok_def)
  note bits = op_bits [OF n(2)] len_bits [OF length_code_bits [OF l]]
  have "read_full 4 (key @ mask_bytes key (wfPayload f) @ rest) = Inr (key, mask_bytes key (wfPayload f) @ rest)" if client
    using assms(2) [OF that] by simp
  then show ?thesis
    using n(1) assms(2) bits
    by (cases client)
      (simp_all add: frame_bytes_def readFrame_def l Let_def read_length_code [OF l n(1)] mask_mask)
qed

section \<open>Framing as a contract\<close>

text \<open>
  What both wire formats promise: a frame is decoded to what was encoded, whatever follows it.
  A stream of frames is then decoded frame by frame, and no frame is a prefix of another stream.
\<close>

fun dec_many :: "(bytes \<Rightarrow> ('m \<times> bytes) option) \<Rightarrow> nat \<Rightarrow> bytes \<Rightarrow> ('m list \<times> bytes) option" where
  "dec_many dec 0 bs = Some ([], bs)"
| "dec_many dec (Suc n) bs =
     (case dec bs of
        None \<Rightarrow> None
      | Some (m, r) \<Rightarrow> map_option (\<lambda>(ms, r'). (m # ms, r')) (dec_many dec n r))"

locale framing =
  fixes enc :: "'m \<Rightarrow> bytes" and dec :: "bytes \<Rightarrow> ('m \<times> bytes) option" and ok :: "'m \<Rightarrow> bool"
  assumes dec_enc: "ok m \<Longrightarrow> dec (enc m @ rest) = Some (m, rest)"
begin

lemma dec_stream: "list_all ok ms \<Longrightarrow> dec_many dec (length ms) (concat (map enc ms) @ rest) = Some (ms, rest)"
  by (induction ms) (simp_all add: dec_enc)

lemma enc_unique:
  assumes "ok m" "ok m'" "enc m @ r = enc m' @ r'"
  shows "m = m' \<and> r = r'"
  using dec_enc [OF assms(1), of r] dec_enc [OF assms(2), of r'] unfolding assms(3) by simp

end

definition star_dec :: "bytes \<Rightarrow> (Message \<times> bytes) option" where
  "star_dec bs = (case ReadMessage bs of Inr p \<Rightarrow> Some p | Inl _ \<Rightarrow> None)"

definition ws_dec :: "bytes \<Rightarrow> (WsFrame \<times> bytes) option" where
  "ws_dec bs = (case readFrame bs of (Inr f, r) \<Rightarrow> Some (f, r) | (Inl _, _) \<Rightarrow> None)"

lemma star_dec_frame: "fits m \<Longrightarrow> star_dec (frame_of m @ rest) = Some (m, rest)"
  using ReadMessage_frame [of m rest] by (simp add: star_dec_def frame_of_def fits_def)

interpretation star_wire: framing frame_of star_dec fits
  by unfold_locales (rule star_dec_frame)

interpretation ws_server: framing "frame_bytes False []" ws_dec frame_ok
  by unfold_locales (simp add: ws_dec_def readFrame_frame)

interpretation ws_client: framing "frame_bytes True key" ws_dec "\<lambda>f. frame_ok f \<and> length key = 4" for key
  by unfold_locales (simp add: ws_dec_def readFrame_frame)

section \<open>Messages\<close>

definition ws_writable :: "WsConn \<Rightarrow> bool" where
  "ws_writable c \<longleftrightarrow> \<not> wcClosed c \<and> \<not> wcConnClosed c \<and> wcWErr c = None"

lemma read_message_frame:
  assumes "wcIn c = frame_bytes pc pk f @ rest" "frame_ok f" "pc \<Longrightarrow> length pk = 4"
  shows "read_message key assembling msg c =
     (let c1 = c\<lparr>wcIn := rest\<rparr> in
           if wfOp f = OpText \<or> wfOp f = OpBinary then
             (if wfFin f then (Inr (wfPayload f), c1) else read_message key True (wfPayload f) c1)
           else if wfOp f = OpContinuation then
             (if \<not> assembling then (Inl WsContinuation, c1)
              else if wfFin f then (Inr (msg @ wfPayload f), c1)
              else read_message key assembling (msg @ wfPayload f) c1)
           else if wfOp f = OpPing then
             (case writeControl key OpPong (wfPayload f) c1 of
                (Inl e, c2) \<Rightarrow> (Inl e, c2)
              | (Inr _, c2) \<Rightarrow> read_message key assembling msg (c2\<lparr>wcIn := rest\<rparr>))
           else if wfOp f = OpPong then read_message key assembling msg c1
           else if wfOp f = OpClose then (Inl (WsIO EOF), snd (writeControl key OpClose [] c1))
           else (Inl (WsOpcode (wfOp f)), c1))"
  using readFrame_frame [OF assms(2,3)] assms(1) by (subst read_message.simps) simp

text \<open>What may stand between the first and the last fragment: fragments, pings and pongs.\<close>

datatype ws_item = Frag bytes | PingItem bytes | PongItem bytes

fun item_frame :: "ws_item \<Rightarrow> WsFrame" where
  "item_frame (Frag p) = \<lparr>wfFin = False, wfOp = OpContinuation, wfPayload = p\<rparr>"
| "item_frame (PingItem p) = \<lparr>wfFin = True, wfOp = OpPing, wfPayload = p\<rparr>"
| "item_frame (PongItem p) = \<lparr>wfFin = True, wfOp = OpPong, wfPayload = p\<rparr>"

fun item_data :: "ws_item \<Rightarrow> bytes" where
  "item_data (Frag p) = p"
| "item_data _ = []"

fun item_answer :: "bool \<Rightarrow> bytes \<Rightarrow> ws_item \<Rightarrow> bytes" where
  "item_answer client key (PingItem p) = frame_bytes client key \<lparr>wfFin = True, wfOp = OpPong, wfPayload = p\<rparr>"
| "item_answer client key _ = []"

definition wire :: "bool \<Rightarrow> (bytes \<times> WsFrame) list \<Rightarrow> bytes" where
  "wire pc kfs = concat (map (\<lambda>(k, f). frame_bytes pc k f) kfs)"

lemma read_items:
  assumes "ws_writable c" "wcIn c = wire pc (map (\<lambda>(k, i). (k, item_frame i)) items) @ tail"
    "\<forall>(k, i) \<in> set items. frame_ok (item_frame i) \<and> length k = 4"
  shows "read_message key True msg c =
     read_message key True (msg @ concat (map (item_data \<circ> snd) items))
       (c\<lparr>wcIn := tail, wcOut := wcOut c @ concat (map (item_answer (wcClient c) key \<circ> snd) items)\<rparr>)"
  using assms
proof (induction items arbitrary: c msg)
  case Nil
  then show ?case by (cases c) (simp add: wire_def)
next
  case (Cons ki items)
  obtain k i where ki: "ki = (k, i)" by force
  let ?tl = "wire pc (map (\<lambda>(k, i). (k, item_frame i)) items) @ tail"
  have inp: "wcIn c = frame_bytes pc k (item_frame i) @ ?tl" using Cons.prems(2) by (simp add: wire_def ki)
  have ok: "frame_ok (item_frame i)" "length k = 4" using Cons.prems(3) ki by auto
  let ?c1 = "c\<lparr>wcIn := ?tl, wcOut := wcOut c @ item_answer (wcClient c) key i\<rparr>"
  have "read_message key True msg c = read_message key True (msg @ item_data i) ?c1"
    using read_message_frame [OF inp ok(1), of key True msg] ok(2) Cons.prems(1)
    by (cases i; cases c) (simp_all add: op_defs writeControl_def writeFrame_def ws_writable_def)
  moreover have "ws_writable ?c1" using Cons.prems(1) by (simp add: ws_writable_def)
  ultimately show ?case
    using Cons.IH [of ?c1 "msg @ item_data i"] Cons.prems(3) by (simp add: ki)
qed

text \<open>
  C12: Messages survive the websocket. What \<^verbatim>\<open>WriteMessage\<close> of either role puts on the wire is read
  by the peer as the same message, for every length up to the limit and every masking key,
  and exactly its bytes are consumed. A message cut into any number of fragments, with pings and
  pongs between them, is read as the concatenation of its fragments, each ping answered in order
  with its own payload.
\<close>

theorem ws_message_roundtrip:
  assumes "length p \<le> MaxMessageSize" "ws_writable w" "length key = 4"
    and "op \<in> {OpText, OpBinary}" "ws_writable c" "frame_ok first" "frame_ok final"
    and "first = \<lparr>wfFin = False, wfOp = op, wfPayload = headData\<rparr>" "final = \<lparr>wfFin = True, wfOp = OpContinuation, wfPayload = lastData\<rparr>"
    and "\<forall>(k, i) \<in> set items. frame_ok (item_frame i) \<and> length k = 4"
  shows "(case ws_WriteMessage key p w of
           (Inl e, w') \<Rightarrow> False
         | (Inr _, w') \<Rightarrow> ws_ReadMessage key' (c\<lparr>wcIn := drop (length (wcOut w)) (wcOut w') @ rest\<rparr>) = (Inr p, c\<lparr>wcIn := rest\<rparr>))
     \<and> ws_ReadMessage key' (c\<lparr>wcIn := wire pc ((key, first) # map (\<lambda>(k, i). (k, item_frame i)) items @ [(key, final)]) @ rest\<rparr>)
       = (Inr (headData @ concat (map (item_data \<circ> snd) items) @ lastData),
          c\<lparr>wcIn := rest, wcOut := wcOut c @ concat (map (item_answer (wcClient c) key' \<circ> snd) items)\<rparr>)"
proof
  let ?f = "\<lparr>wfFin = True, wfOp = OpBinary, wfPayload = p\<rparr>"
  have f: "frame_ok ?f" using assms(1) by (simp add: frame_ok_def OpBinary_def)
  have "read_message key' False [] (c\<lparr>wcIn := frame_bytes (wcClient w) key ?f @ rest\<rparr>) = (Inr p, c\<lparr>wcIn := rest\<rparr>)"
    by (subst read_message_frame [where pc = "wcClient w" and pk = key, OF _ f]) (simp_all add: assms(3) op_defs)
  then show "case ws_WriteMessage key p w of
           (Inl e, w') \<Rightarrow> False
         | (Inr _, w') \<Rightarrow> ws_ReadMessage key' (c\<lparr>wcIn := drop (length (wcOut w)) (wcOut w') @ rest\<rparr>) = (Inr p, c\<lparr>wcIn := rest\<rparr>)"
    using assms(2) by (simp add: ws_WriteMessage_def writeFrame_def ws_writable_def ws_ReadMessage_def)
next
  let ?mid = "wire pc (map (\<lambda>(k, i). (k, item_frame i)) items)"
  let ?c1 = "c\<lparr>wcIn := ?mid @ frame_bytes pc key final @ rest\<rparr>"
  let ?c2 = "c\<lparr>wcIn := frame_bytes pc key final @ rest,
      wcOut := wcOut c @ concat (map (item_answer (wcClient c) key' \<circ> snd) items)\<rparr>"
  have "read_message key' False [] (c\<lparr>wcIn := frame_bytes pc key first @ ?mid @ frame_bytes pc key final @ rest\<rparr>)
      = read_message key' True headData ?c1"
    by (subst read_message_frame [where pc = pc and pk = key, OF _ assms(6)]) (use assms(3,4,8) in \<open>auto simp: op_defs\<close>)
  also have "\<dots> = read_message key' True (headData @ concat (map (item_data \<circ> snd) items)) ?c2"
    using read_items [of ?c1 pc items "frame_bytes pc key final @ rest" key' headData] assms(5,10)
    by (simp add: ws_writable_def)
  also have "\<dots> = (Inr (headData @ concat (map (item_data \<circ> snd) items) @ lastData), ?c2\<lparr>wcIn := rest\<rparr>)"
    by (subst read_message_frame [where pc = pc and pk = key, OF _ assms(7)]) (use assms(3,9) in \<open>auto simp: op_defs\<close>)
  finally show "ws_ReadMessage key' (c\<lparr>wcIn := wire pc ((key, first) # map (\<lambda>(k, i). (k, item_frame i)) items @ [(key, final)]) @ rest\<rparr>)
       = (Inr (headData @ concat (map (item_data \<circ> snd) items) @ lastData),
          c\<lparr>wcIn := rest, wcOut := wcOut c @ concat (map (item_answer (wcClient c) key' \<circ> snd) items)\<rparr>)"
    by (simp add: wire_def ws_ReadMessage_def)
qed

definition ws_demo :: "bool \<Rightarrow> WsConn" where
  "ws_demo client = \<lparr>wcIn = [], wcOut = [], wcWErr = None, wcClient = client, wcClosed = False, wcConnClosed = False\<rparr>"

theorem ws_message_roundtrip_witness:
  "fst (ws_ReadMessage [] ((ws_demo False)\<lparr>wcIn := wire True
      [([1, 2, 3, 4], \<lparr>wfFin = False, wfOp = OpText, wfPayload = [10]\<rparr>),
       ([5, 6, 7, 8], item_frame (PingItem [99])),
       ([1, 2, 3, 4], \<lparr>wfFin = True, wfOp = OpContinuation, wfPayload = [20]\<rparr>)]\<rparr>)) = Inr [10, 20]"
  using ws_message_roundtrip [where p = "[]" and w = "ws_demo True" and key = "[1, 2, 3, 4]" and op = OpText
      and c = "ws_demo False" and first = "\<lparr>wfFin = False, wfOp = OpText, wfPayload = [10]\<rparr>" and headData = "[10]" and lastData = "[20]"
      and final = "\<lparr>wfFin = True, wfOp = OpContinuation, wfPayload = [20]\<rparr>" and items = "[([5, 6, 7, 8], PingItem [99])]"
      and pc = True and rest = "[]" and key' = "[]"]
  by (simp add: ws_demo_def ws_writable_def frame_ok_def MaxMessageSize_def op_defs)

text \<open>
  The limit is per frame: two fragments make a message of twice the size. And \<^verbatim>\<open>Close\<close> never
  sends the close frame, because it has marked the connection closed before.
\<close>

lemma assembled_message_exceeds_limit:
  "\<exists>inp m. fst (ws_ReadMessage [] ((ws_demo False)\<lparr>wcIn := inp\<rparr>)) = Inr m \<and> MaxMessageSize < length m"
proof -
  let ?z = "replicate MaxMessageSize (0 :: byte)"
  let ?f = "\<lparr>wfFin = False, wfOp = OpBinary, wfPayload = ?z\<rparr>" and ?l = "\<lparr>wfFin = True, wfOp = OpContinuation, wfPayload = ?z\<rparr>"
  let ?c = "\<lambda>inp. (ws_demo False)\<lparr>wcIn := inp\<rparr>"
  have ok: "frame_ok ?f" "frame_ok ?l" by (simp_all add: frame_ok_def op_defs)
  have "read_message [] False [] (?c (frame_bytes False [] ?f @ frame_bytes False [] ?l @ []))
      = read_message [] True ?z (?c (frame_bytes False [] ?l @ []))"
    by (subst read_message_frame [where pc = False and pk = "[]", OF _ ok(1)]) (simp_all add: op_defs)
  also have "fst \<dots> = Inr (?z @ ?z)"
    by (subst read_message_frame [where pc = False and pk = "[]", OF _ ok(2)]) (simp_all add: op_defs)
  finally have "fst (ws_ReadMessage [] (?c (frame_bytes False [] ?f @ frame_bytes False [] ?l @ []))) = Inr (?z @ ?z)"
    by (simp add: ws_ReadMessage_def)
  then show ?thesis by (intro exI conjI) (assumption, simp add: MaxMessageSize_def)
qed

lemma close_frame_never_sent: "wcOut (ws_Close key c) = wcOut c"
  by (simp add: ws_Close_def Let_def writeControl_def writeFrame_def)

text \<open>A frame longer than the limit is refused before its payload is read, and reserved bits are refused.\<close>

lemma readFrame_rejects:
  assumes "readFrame inp = (Inr f, r)"
  shows "length (wfPayload f) \<le> MaxMessageSize \<and> inp ! 0 AND 0x70 = 0 \<and> 2 \<le> length inp"
  using assms
  by (auto simp: readFrame_def Let_def read_full_Inr nth_append split: sum.splits if_splits)

end
