(* ===== verification/GoText.thy ===== *)
theory GoText
  imports GoJson
begin

text \<open>
  The functions of Go's \<^verbatim>\<open>strings\<close> and \<^verbatim>\<open>net\<close> packages that several components use on text and
  addresses. \<^verbatim>\<open>ToLower\<close> and \<^verbatim>\<open>TrimSpace\<close> are those of ASCII; bytes above 127 are kept.
  An IP address is the byte slice \<^verbatim>\<open>net.IP\<close>: 4 or 16 bytes, empty for nil.
\<close>

section \<open>Text\<close>

definition ToLower :: "string \<Rightarrow> string" where
  "ToLower s = map lower_char s"

definition is_space :: "char \<Rightarrow> bool" where
  "is_space c \<longleftrightarrow> c \<in> {CHR 0x09, CHR 0x0A, CHR 0x0B, CHR 0x0C, CHR 0x0D, CHR '' ''}"

definition TrimSpace :: "string \<Rightarrow> string" where
  "TrimSpace s = rev (dropWhile is_space (rev (dropWhile is_space s)))"

definition has_prefix :: "'a list \<Rightarrow> 'a list \<Rightarrow> bool" where
  "has_prefix s p \<longleftrightarrow> take (length p) s = p"

text \<open>\<^verbatim>\<open>net.SplitHostPort\<close>: host and port, or none when the address has no port or is malformed.\<close>

definition before_last_colon :: "string \<Rightarrow> (string \<times> string) option" where
  "before_last_colon s =
     (if CHR '':'' \<in> set s
      then let r = rev s; p = rev (takeWhile (\<lambda>c. c \<noteq> CHR '':'') r) in Some (take (length s - length p - 1) s, p)
      else None)"

definition SplitHostPort :: "string \<Rightarrow> (string \<times> string) option" where
  "SplitHostPort s =
     (case before_last_colon s of
        None \<Rightarrow> None
      | Some (h, port) \<Rightarrow>
          if take 1 s = ''['' then
            (if CHR '']'' \<notin> set s then None
             else let e = length (takeWhile (\<lambda>c. c \<noteq> CHR '']'') s) in
               if e + 1 \<noteq> length h then None
               else if CHR ''['' \<in> set (drop 1 s) \<or> CHR '']'' \<in> set (drop (e + 1) s) then None
               else Some (take (e - 1) (drop 1 s), port))
          else if CHR '':'' \<in> set h \<or> CHR ''['' \<in> set s \<or> CHR '']'' \<in> set s then None
          else Some (h, port))"

definition Contains :: "string \<Rightarrow> string \<Rightarrow> bool" where
  "Contains s sub = (\<exists>i \<in> set [0..<Suc (length s)]. has_prefix (drop i s) sub)"

text \<open>\<^verbatim>\<open>net.JoinHostPort\<close>.\<close>

definition JoinHostPort :: "string \<Rightarrow> string \<Rightarrow> string" where
  "JoinHostPort host port =
     (if CHR '':'' \<in> set host then ''['' @ host @ '']:'' @ port else host @ '':'' @ port)"

section \<open>IP addresses\<close>

definition v4InV6Prefix :: bytes where
  "v4InV6Prefix = [0, 0, 0, 0, 0, 0, 0, 0, 0, 0, 0xFF, 0xFF]"

text \<open>\<^verbatim>\<open>To4\<close> and \<^verbatim>\<open>To16\<close>; none stands for nil.\<close>

definition To4 :: "bytes \<Rightarrow> bytes option" where
  "To4 ip = (if length ip = 4 then Some ip
             else if length ip = 16 \<and> take 12 ip = v4InV6Prefix then Some (drop 12 ip) else None)"

definition To16 :: "bytes \<Rightarrow> bytes option" where
  "To16 ip = (if length ip = 4 then Some (v4InV6Prefix @ ip) else if length ip = 16 then Some ip else None)"

fun join_with :: "string \<Rightarrow> string list \<Rightarrow> string" where
  "join_with sep [] = []"
| "join_with sep [s] = s"
| "join_with sep (s # t # ts) = s @ sep @ join_with sep (t # ts)"

text \<open>The eight groups of an IPv6 address and the text of one, without leading zeros.\<close>

fun groups16 :: "bytes \<Rightarrow> (byte \<times> byte) list" where
  "groups16 (a # b # r) = (a, b) # groups16 r"
| "groups16 _ = []"

definition hex_byte :: "byte \<Rightarrow> string" where
  "hex_byte b = [hexd (unat b div 16), hexd (unat b mod 16)]"

definition hex_group :: "byte \<times> byte \<Rightarrow> string" where
  "hex_group g =
     (let s = hex_byte (fst g) @ hex_byte (snd g) in dropWhile (\<lambda>c. c = CHR ''0'') (butlast s) @ [last s])"

text \<open>The first longest run of two zero groups or more: where it starts and its length.\<close>

fun zero_run :: "(byte \<times> byte) list \<Rightarrow> nat \<Rightarrow> (nat \<times> nat) option" where
  "zero_run [] i = None"
| "zero_run (g # gs) i =
     (let n = length (takeWhile (\<lambda>x. x = (0, 0)) (g # gs)); later = zero_run gs (Suc i) in
      if 2 \<le> n \<and> (case later of None \<Rightarrow> True | Some (_, m) \<Rightarrow> m \<le> n) then Some (i, n) else later)"

text \<open>\<^verbatim>\<open>IP.String\<close>.\<close>

definition IP_String :: "bytes \<Rightarrow> string" where
  "IP_String ip =
     (if ip = [] then ''<nil>''
      else if length ip \<noteq> 4 \<and> length ip \<noteq> 16 then ''?'' @ concat (map hex_byte ip)
      else case To4 ip of
        Some v4 \<Rightarrow> join_with ''.'' (map (\<lambda>b. print_nat (unat b)) v4)
      | None \<Rightarrow>
          (let gs = groups16 ip in
           case zero_run gs 0 of
             None \<Rightarrow> join_with '':'' (map hex_group gs)
           | Some (i, n) \<Rightarrow> join_with '':'' (map hex_group (take i gs)) @ ''::'' @ join_with '':'' (map hex_group (drop (i + n) gs))))"

section \<open>Lemmas\<close>

lemma has_prefix_take: "length p \<le> n \<Longrightarrow> has_prefix (take n s) p = has_prefix s p"
  by (simp add: has_prefix_def min_def)

lemma IP_String_examples:
  "IP_String [127, 0, 0, 1] = ''127.0.0.1''"
  "IP_String [0x20, 1, 0xd, 0xb8, 0, 0, 0, 0, 0, 0, 0, 0, 0, 0, 0, 1] = ''2001:db8::1''"
  by code_simp+

text \<open>\<^verbatim>\<open>SplitHostPort\<close> undoes \<^verbatim>\<open>JoinHostPort\<close> when the parts have no bracket and the port no colon.\<close>

lemma before_last_colon_join: "CHR '':'' \<notin> set p \<Longrightarrow> before_last_colon (h @ '':'' @ p) = Some (h, p)"
proof -
  assume "CHR '':'' \<notin> set p"
  then have "takeWhile (\<lambda>c. c \<noteq> CHR '':'') (rev p @ CHR '':'' # rev h) = rev p"
    by (subst takeWhile_append2) auto
  then show ?thesis by (simp add: before_last_colon_def Let_def)
qed

lemma split_join:
  assumes "CHR '':'' \<notin> set p" "CHR ''['' \<notin> set h \<union> set p" "CHR '']'' \<notin> set h \<union> set p"
  shows "SplitHostPort (JoinHostPort h p) = Some (h, p)"
proof (cases "CHR '':'' \<in> set h")
  case True
  have s: "''['' @ h @ '']:'' @ p = (''['' @ h @ '']'') @ '':'' @ p" by simp
  have tw: "takeWhile (\<lambda>c. c \<noteq> CHR '']'') (CHR ''['' # h @ CHR '']'' # CHR '':'' # p) = CHR ''['' # h"
    using assms(3) by (simp, subst takeWhile_append2) auto
  have "before_last_colon (''['' @ h @ '']:'' @ p) = Some (''['' @ h @ '']'', p)"
    unfolding s by (rule before_last_colon_join [OF assms(1)])
  then show ?thesis using True assms tw by (simp add: JoinHostPort_def SplitHostPort_def Let_def)
next
  case False
  have "take 1 (h @ '':'' @ p) \<noteq> ''[''" using assms(2) by (cases h) auto
  with False assms before_last_colon_join [OF assms(1), of h] show ?thesis
    by (simp add: JoinHostPort_def SplitHostPort_def)
qed

end
