(* ===== verification/HttpHead.thy ===== *)
theory HttpHead
  imports GoText
begin

text \<open>
  The heads of HTTP messages as \<^verbatim>\<open>http.ReadRequest\<close> and \<^verbatim>\<open>http.ReadResponse\<close> read them from a buffered
  connection: lines, header fields with continuation lines and canonical names, request and status
  line. The checks of \<^verbatim>\<open>readTransfer\<close> on the length of a body are an argument, as is the parsing of a request URI that
  is neither a path nor a star. A head that was printed is read back, and what follows it stays unread.
\<close>

section \<open>Lines\<close>

definition is_blank :: "char \<Rightarrow> bool" where
  "is_blank c \<longleftrightarrow> c = CHR '' '' \<or> c = CHR 0x09"

definition trim_blanks :: "string \<Rightarrow> string" where
  "trim_blanks s = rev (dropWhile is_blank (rev (dropWhile is_blank s)))"

text \<open>\<^verbatim>\<open>ReadLine\<close>: none at the end of the input; a last line needs no line feed.\<close>

definition http_line :: "string \<Rightarrow> (string \<times> string) option" where
  "http_line inp =
     (if inp = [] then None
      else let l = takeWhile (\<lambda>c. c \<noteq> CHR 0x0A) inp; r = dropWhile (\<lambda>c. c \<noteq> CHR 0x0A) inp in
        if r = [] then Some (inp, [])
        else Some (if l \<noteq> [] \<and> last l = CHR 0x0D then butlast l else l, tl r))"

lemma http_line_shorter: "http_line inp = Some (l, r) \<Longrightarrow> length r < length inp"
  using length_dropWhile_le [of "\<lambda>c. c \<noteq> CHR 0x0A" inp]
  by (cases "dropWhile (\<lambda>c. c \<noteq> CHR 0x0A) inp") (auto simp: http_line_def Let_def split: if_splits)

text \<open>The lines that continue a header field: they begin with a blank.\<close>

function more_lines :: "string \<Rightarrow> string \<Rightarrow> string \<times> string" where
  "more_lines buf inp =
     (if inp \<noteq> [] \<and> is_blank (hd inp) then
        (case http_line (dropWhile is_blank inp) of
           None \<Rightarrow> (buf @ '' '', [])
         | Some (l, r) \<Rightarrow> more_lines (buf @ '' '' @ trim_blanks l) r)
      else (buf, inp))"
  by pat_completeness auto
termination
proof (relation "measure (\<lambda>(_, inp). length inp)", goal_cases)
  case (2 buf inp x l r)
  then show ?case using length_dropWhile_le [of is_blank inp] by (auto dest!: http_line_shorter)
qed simp

declare more_lines.simps [simp del]

lemma more_lines_length: "length (snd (more_lines buf inp)) \<le> length inp"
proof (induction buf inp rule: more_lines.induct)
  case (1 buf inp)
  show ?case
    using 1 length_dropWhile_le [of is_blank inp]
    by (subst more_lines.simps) (fastforce split: option.splits dest: http_line_shorter)
qed

section \<open>Header fields\<close>

definition in_range :: "nat \<Rightarrow> nat \<Rightarrow> char \<Rightarrow> bool" where
  "in_range a b c \<longleftrightarrow> a \<le> of_char c \<and> of_char c \<le> b"

definition token_char :: "char \<Rightarrow> bool" where
  "token_char c \<longleftrightarrow> in_range 48 57 c \<or> in_range 97 122 c \<or> in_range 65 90 c
     \<or> c \<in> set ''!#$%&*+-.^_|~'' \<or> c = CHR 0x27 \<or> c = CHR 0x60"

definition value_char :: "char \<Rightarrow> bool" where
  "value_char c \<longleftrightarrow> c = CHR 0x09 \<or> (in_range 32 255 c \<and> c \<noteq> CHR 0x7F)"

definition upper_char :: "char \<Rightarrow> char" where
  "upper_char c = (if in_range 97 122 c then char_of (of_char c - 32 :: nat) else c)"

fun canonical :: "bool \<Rightarrow> string \<Rightarrow> string" where
  "canonical upper [] = []"
| "canonical upper (c # s) = (let d = (if upper then upper_char c else lower_char c) in d # canonical (d = CHR ''-'') s)"

text \<open>\<^verbatim>\<open>canonicalMIMEHeaderKey\<close>: a name with a space in it is accepted and kept as it is.\<close>

definition canonical_key :: "string \<Rightarrow> string option" where
  "canonical_key k =
     (if k = [] \<or> \<not> list_all (\<lambda>c. token_char c \<or> c = CHR '' '') k then None
      else if CHR '' '' \<in> set k then Some k
      else Some (canonical True k))"

type_synonym headers = "(string \<times> string) list"

datatype http_error = HttpEOF | HttpUnexpectedEOF | HttpMalformed string

text \<open>\<^verbatim>\<open>bytes.Cut\<close> at a character.\<close>

definition cut_at :: "char \<Rightarrow> string \<Rightarrow> (string \<times> string) option" where
  "cut_at d s = (if d \<in> set s then Some (takeWhile (\<lambda>c. c \<noteq> d) s, tl (dropWhile (\<lambda>c. c \<noteq> d) s)) else None)"

definition header_field :: "string \<Rightarrow> (string \<times> string) option" where
  "header_field kv =
     (case cut_at (CHR '':'') kv of
        None \<Rightarrow> None
      | Some (k, v) \<Rightarrow>
          (case canonical_key k of
             None \<Rightarrow> None
           | Some key \<Rightarrow> if list_all value_char v then Some (key, dropWhile is_blank v) else None))"

function header_lines_from :: "string \<Rightarrow> http_error + (headers \<times> string)" where
  "header_lines_from inp =
     (case http_line inp of
        None \<Rightarrow> Inl HttpUnexpectedEOF
      | Some (l, r) \<Rightarrow>
          if l = [] then Inr ([], r)
          else if CHR '':'' \<notin> set l then Inl (HttpMalformed l)
          else let m = more_lines (trim_blanks l) r in
            case header_field (fst m) of
              None \<Rightarrow> Inl (HttpMalformed (fst m))
            | Some f \<Rightarrow>
                (case header_lines_from (snd m) of
                   Inl e \<Rightarrow> Inl e
                 | Inr (fs, rest) \<Rightarrow> Inr (f # fs, rest)))"
  by pat_completeness auto
termination
proof (relation "measure length", goal_cases)
  case (2 inp x l r m f)
  then show ?case using more_lines_length [of "trim_blanks l" r] http_line_shorter [of inp l r] by simp
qed simp

declare header_lines_from.simps [simp del]

definition ReadMIMEHeader :: "string \<Rightarrow> http_error + (headers \<times> string)" where
  "ReadMIMEHeader inp =
     (if inp \<noteq> [] \<and> is_blank (hd inp) then Inl (HttpMalformed ''initial line'') else header_lines_from inp)"

definition Header_Get :: "headers \<Rightarrow> string \<Rightarrow> string" where
  "Header_Get h key = (case map_of h key of None \<Rightarrow> [] | Some v \<Rightarrow> v)"

section \<open>Requests and responses\<close>

definition http_version_ok :: "string \<Rightarrow> bool" where
  "http_version_ok s \<longleftrightarrow> length s = 8 \<and> take 5 s = ''HTTP/'' \<and> is_digit (s ! 5) \<and> s ! 6 = CHR ''.'' \<and> is_digit (s ! 7)"

fun escapes_ok :: "string \<Rightarrow> bool" where
  "escapes_ok [] = True"
| "escapes_ok (c # s) =
     (if c = CHR ''%'' then
        (case s of a # b # r \<Rightarrow> hex_val a \<noteq> None \<and> hex_val b \<noteq> None \<and> escapes_ok r | _ \<Rightarrow> False)
      else escapes_ok s)"

text \<open>\<^verbatim>\<open>url.ParseRequestURI\<close>; \<open>abs_ok\<close> decides an absolute URI.\<close>

definition request_uri_ok :: "(string \<Rightarrow> bool) \<Rightarrow> string \<Rightarrow> bool" where
  "request_uri_ok abs_ok raw \<longleftrightarrow>
     raw \<noteq> [] \<and> list_all (\<lambda>c. in_range 32 255 c \<and> c \<noteq> CHR 0x7F) raw
     \<and> (raw = ''*'' \<or> (if hd raw = CHR ''/'' then escapes_ok (takeWhile (\<lambda>c. c \<noteq> CHR ''?'') raw) else abs_ok raw))"

record HttpEnvHead =
  abs_uri_ok :: "string \<Rightarrow> bool"
  transfer_ok :: "headers \<Rightarrow> bool"

definition ReadRequest :: "HttpEnvHead \<Rightarrow> string \<Rightarrow> http_error + ((string \<times> string \<times> headers) \<times> string)" where
  "ReadRequest E inp =
     (case http_line inp of
        None \<Rightarrow> Inl HttpEOF
      | Some (s, r) \<Rightarrow>
          (case cut_at (CHR '' '') s of
             None \<Rightarrow> Inl (HttpMalformed s)
           | Some (meth, r1) \<Rightarrow>
               (case cut_at (CHR '' '') r1 of
                  None \<Rightarrow> Inl (HttpMalformed s)
                | Some (uri, proto) \<Rightarrow>
                    if meth = [] \<or> \<not> list_all token_char meth then Inl (HttpMalformed meth)
                    else if \<not> http_version_ok proto then Inl (HttpMalformed proto)
                    else let rawurl = (if meth = ''CONNECT'' \<and> take 1 uri \<noteq> ''/'' then ''http://'' @ uri else uri) in
                      if \<not> request_uri_ok (abs_uri_ok E) rawurl then Inl (HttpMalformed rawurl)
                      else (case ReadMIMEHeader r of
                              Inl e \<Rightarrow> Inl e
                            | Inr (h, rest) \<Rightarrow>
                                if 1 < length (filter (\<lambda>(k, _). k = ''Host'') h) then Inl (HttpMalformed ''too many Host headers'')
                                else if \<not> transfer_ok E h then Inl (HttpMalformed ''transfer'')
                                else Inr ((meth, uri, h), rest)))))"

text \<open>The status code: three characters that \<^verbatim>\<open>strconv.Atoi\<close> reads as a number that is not negative.\<close>

definition status_code :: "string \<Rightarrow> nat option" where
  "status_code s =
     (if length s \<noteq> 3 then None
      else if list_all is_digit s then Some (digits_val 0 s)
      else if hd s = CHR ''+'' \<and> list_all is_digit (tl s) then Some (digits_val 0 (tl s))
      else if s = ''-00'' then Some 0
      else None)"

definition until_space :: "string \<Rightarrow> string" where
  "until_space s = takeWhile (\<lambda>c. c \<noteq> CHR '' '') s"

definition ReadResponse :: "HttpEnvHead \<Rightarrow> string \<Rightarrow> http_error + ((nat \<times> headers) \<times> string)" where
  "ReadResponse E inp =
     (case http_line inp of
        None \<Rightarrow> Inl HttpUnexpectedEOF
      | Some (s, r) \<Rightarrow>
          (case cut_at (CHR '' '') s of
             None \<Rightarrow> Inl (HttpMalformed s)
           | Some (proto, st) \<Rightarrow>
               (case status_code (until_space (dropWhile (\<lambda>c. c = CHR '' '') st)) of
                  None \<Rightarrow> Inl (HttpMalformed s)
                | Some code \<Rightarrow>
                    if \<not> http_version_ok proto then Inl (HttpMalformed proto)
                    else (case ReadMIMEHeader r of
                            Inl e \<Rightarrow> Inl e
                          | Inr (h, rest) \<Rightarrow>
                              if \<not> transfer_ok E h then Inl (HttpMalformed ''transfer'')
                              else Inr ((code, h), rest)))))"

section \<open>A printed head is read back\<close>

definition crlf :: string where "crlf = [CHR 0x0D, CHR 0x0A]"

definition print_headers :: "headers \<Rightarrow> string" where
  "print_headers hs = concat (map (\<lambda>(k, v). k @ '': '' @ v @ crlf) hs) @ crlf"

definition visible :: "char \<Rightarrow> bool" where
  "visible c \<longleftrightarrow> value_char c \<and> \<not> is_blank c"

text \<open>Fields with a name that is a token and a value without blanks; names are stored in canonical form.\<close>

definition field_ok :: "string \<times> string \<Rightarrow> bool" where
  "field_ok f \<longleftrightarrow> (case f of (k, v) \<Rightarrow> k \<noteq> [] \<and> list_all token_char k \<and> v \<noteq> [] \<and> list_all visible v)"

definition canon_field :: "string \<times> string \<Rightarrow> string \<times> string" where
  "canon_field f = (canonical True (fst f), snd f)"

lemma line_feed_not_char [simp]:
  "\<not> token_char (CHR 0x0A)" "\<not> visible (CHR 0x0A)" "\<not> token_char (CHR '':'')" "\<not> token_char (CHR 0x0D)" "\<not> visible (CHR '' '')" "\<not> token_char (CHR '' '')"
  by (simp_all add: token_char_def visible_def value_char_def in_range_def is_blank_def)

lemma token_not_blank: "token_char c \<Longrightarrow> \<not> is_blank c"
  by (auto simp: token_char_def is_blank_def in_range_def)

lemma until_char [simp]:
  assumes "d \<notin> set a"
  shows "takeWhile (\<lambda>c. c \<noteq> d) (a @ d # b) = a" "dropWhile (\<lambda>c. c \<noteq> d) (a @ d # b) = d # b"
  using assms by (induction a) auto

lemma http_line_crlf: "CHR 0x0A \<notin> set l \<Longrightarrow> http_line (l @ crlf @ rest) = Some (l, rest)"
  using until_char [of "CHR 0x0A" "l @ [CHR 0x0D]" rest] by (simp add: http_line_def crlf_def)

lemma cut_at_append: "d \<notin> set a \<Longrightarrow> cut_at d (a @ d # b) = Some (a, b)"
  by (simp add: cut_at_def)

lemma cut_at_none: "d \<notin> set a \<Longrightarrow> cut_at d a = None"
  by (simp add: cut_at_def)

lemma trim_blanks_id: "s \<noteq> [] \<Longrightarrow> \<not> is_blank (hd s) \<Longrightarrow> \<not> is_blank (last s) \<Longrightarrow> trim_blanks s = s"
  by (simp add: trim_blanks_def dropWhile_eq_self_iff [THEN iffD2] hd_rev)

lemma field_read:
  assumes "field_ok (k, v)"
  shows "http_line (k @ '': '' @ v @ crlf @ rest) = Some (k @ '': '' @ v, rest)"
    and "trim_blanks (k @ '': '' @ v) = k @ '': '' @ v" "header_field (k @ '': '' @ v) = Some (canonical True k, v)"
proof -
  have k: "k \<noteq> []" "list_all token_char k" and v: "v \<noteq> []" "list_all visible v" using assms by (auto simp: field_ok_def)
  have "CHR '' '' \<notin> set k" using k(2) by (auto simp: list_all_iff)
  then have c: "canonical_key k = Some (canonical True k)" using k by (auto simp: canonical_key_def list_all_iff)
  have "CHR 0x0A \<notin> set (k @ '': '' @ v)" using k(2) v(2) by (auto simp: list_all_iff)
  from http_line_crlf [OF this, of rest] show "http_line (k @ '': '' @ v @ crlf @ rest) = Some (k @ '': '' @ v, rest)" by simp
  have "\<not> is_blank (hd k)" using k by (cases k) (auto simp: token_not_blank)
  moreover have "\<not> is_blank (last v)" using v(1,2) by (auto simp: list_all_iff visible_def)
  ultimately show "trim_blanks (k @ '': '' @ v) = k @ '': '' @ v"
    using k(1) v(1) by (intro trim_blanks_id) auto
  have "CHR '':'' \<notin> set k" using k(2) by (auto simp: list_all_iff)
  then have "cut_at (CHR '':'') (k @ '': '' @ v) = Some (k, CHR '' '' # v)" using cut_at_append [of "CHR '':''" k "CHR '' '' # v"] by simp
  moreover have "list_all value_char (CHR '' '' # v)"
    using v(2) by (auto simp: list_all_iff visible_def value_char_def in_range_def)
  moreover have "dropWhile is_blank (CHR '' '' # v) = v"
    using v(1,2) by (cases v) (auto simp: is_blank_def visible_def)
  ultimately show "header_field (k @ '': '' @ v) = Some (canonical True k, v)" by (simp add: header_field_def c)
qed

lemma print_headers_start: "list_all field_ok hs \<Longrightarrow> \<not> is_blank (hd (print_headers hs @ rest)) \<and> print_headers hs @ rest \<noteq> []"
proof (cases hs)
  case Nil
  then show ?thesis by (simp add: print_headers_def crlf_def is_blank_def)
next
  case (Cons f fs)
  moreover assume "list_all field_ok hs"
  ultimately obtain k v where "f = (k, v)" "field_ok (k, v)" by (cases f) auto
  then show ?thesis using Cons by (cases k) (auto simp: print_headers_def token_not_blank field_ok_def)
qed

lemma no_continuation: "list_all field_ok hs \<Longrightarrow> more_lines buf (print_headers hs @ rest) = (buf, print_headers hs @ rest)"
  using print_headers_start [of hs rest] by (subst more_lines.simps) simp

text \<open>Header fields are read as they were printed, under their canonical names, up to the end of the head.\<close>

lemma headers_roundtrip:
  assumes "list_all field_ok hs"
  shows "ReadMIMEHeader (print_headers hs @ rest) = Inr (map canon_field hs, rest)"
proof -
  have "header_lines_from (print_headers hs @ rest) = Inr (map canon_field hs, rest)"
    using assms
  proof (induction hs)
    case Nil
    then show ?case using http_line_crlf [of "[]" rest] by (subst header_lines_from.simps) (simp add: print_headers_def)
  next
    case (Cons f hs)
    obtain k v where f: "f = (k, v)" by fastforce
    have ok: "field_ok (k, v)" "list_all field_ok hs" using Cons.prems f by auto
    have "print_headers (f # hs) @ rest = k @ '': '' @ v @ crlf @ (print_headers hs @ rest)" by (simp add: f print_headers_def)
    then have "http_line (print_headers (f # hs) @ rest) = Some (k @ '': '' @ v, print_headers hs @ rest)"
      using field_read(1) [OF ok(1)] by simp
    then show ?case
      using Cons.IH [OF ok(2)] field_read(2,3) [OF ok(1)]
      by (subst header_lines_from.simps) (simp add: no_continuation [OF ok(2)] f Let_def canon_field_def)
  qed
  then show ?thesis using print_headers_start [OF assms, of rest] by (simp add: ReadMIMEHeader_def)
qed

end
