(* ===== verification/WsHandshake.thy ===== *)
theory WsHandshake
  imports WsFrame HttpHead
begin

text \<open>
  The opening handshake of \<^verbatim>\<open>protocol/ws/ws.go\<close>: \<^verbatim>\<open>Accept\<close>, \<^verbatim>\<open>Dial\<close> and the key that proves to the client that its
  request was understood. SHA-1 and base64 are those of Go's library, evaluated on the
  published examples. The two sides, run against each other, both succeed, and the
  frames sent right behind the handshake are the first to be read.
\<close>

unbundle bit_operations_syntax

section \<open>SHA-1 and base64\<close>

text \<open>\<^verbatim>\<open>crypto/sha1\<close>: the padded message in blocks of sixteen words, eighty rounds for each.\<close>

type_synonym u32x5 = "u32 \<times> u32 \<times> u32 \<times> u32 \<times> u32"

definition u64_bytes :: "u64 \<Rightarrow> bytes" where
  "u64_bytes x = map (\<lambda>i. ucast (drop_bit i x)) [56, 48, 40, 32, 24, 16, 8, 0]"

definition u32_bytes :: "u32 \<Rightarrow> bytes" where
  "u32_bytes x = map (\<lambda>i. ucast (drop_bit i x)) [24, 16, 8, 0]"

definition sha1_pad :: "bytes \<Rightarrow> bytes" where
  "sha1_pad m = m @ [0x80] @ replicate ((119 - length m mod 64) mod 64) 0 @ u64_bytes (8 * word_of_nat (length m))"

fun words_of :: "bytes \<Rightarrow> u32 list" where
  "words_of (a # b # c # d # r) = (push_bit 24 (ucast a) OR push_bit 16 (ucast b) OR push_bit 8 (ucast c) OR ucast d) # words_of r"
| "words_of _ = []"

text \<open>\<^verbatim>\<open>bits.RotateLeft32\<close>.\<close>

definition rotl :: "nat \<Rightarrow> u32 \<Rightarrow> u32" where
  "rotl k x = push_bit k x OR drop_bit (32 - k) x"

text \<open>The window holds the last sixteen words of the schedule.\<close>

definition schedule_next :: "u32 list \<Rightarrow> u32" where
  "schedule_next w = rotl 1 (w ! 13 XOR w ! 8 XOR w ! 2 XOR w ! 0)"

definition sha1_f :: "nat \<Rightarrow> u32 \<Rightarrow> u32 \<Rightarrow> u32 \<Rightarrow> u32" where
  "sha1_f t b c d =
     (if t < 20 then (b AND c) OR (NOT b AND d)
      else if t < 40 then b XOR c XOR d
      else if t < 60 then (b AND c) OR (b AND d) OR (c AND d)
      else b XOR c XOR d)"

definition sha1_k :: "nat \<Rightarrow> u32" where
  "sha1_k t = (if t < 20 then 0x5A827999 else if t < 40 then 0x6ED9EBA1 else if t < 60 then 0x8F1BBCDC else 0xCA62C1D6)"

fun sha1_rounds :: "nat list \<Rightarrow> u32 list \<Rightarrow> u32x5 \<Rightarrow> u32x5" where
  "sha1_rounds [] w s = s"
| "sha1_rounds (t # ts) w (a, b, c, d, e) =
     sha1_rounds ts (tl w @ [schedule_next w]) (rotl 5 a + sha1_f t b c d + e + hd w + sha1_k t, a, rotl 30 b, c, d)"

definition sha1_block :: "u32 list \<Rightarrow> u32x5 \<Rightarrow> u32x5" where
  "sha1_block w s =
     (case (s, sha1_rounds [0..<80] w s) of ((a, b, c, d, e), (a', b', c', d', e')) \<Rightarrow> (a + a', b + b', c + c', d + d', e + e'))"

function sha1_blocks :: "u32 list \<Rightarrow> u32x5 \<Rightarrow> u32x5" where
  "sha1_blocks w s = (if length w < 16 then s else sha1_blocks (drop 16 w) (sha1_block (take 16 w) s))"
  by pat_completeness auto
termination
  by (relation "measure (\<lambda>(w, s). length w)") auto

declare sha1_blocks.simps [simp del]

definition sha1 :: "bytes \<Rightarrow> bytes" where
  "sha1 m =
     (case sha1_blocks (words_of (sha1_pad m)) (0x67452301, 0xEFCDAB89, 0x98BADCFE, 0x10325476, 0xC3D2E1F0) of
        (a, b, c, d, e) \<Rightarrow> concat (map u32_bytes [a, b, c, d, e]))"

text \<open>\<^verbatim>\<open>base64.StdEncoding\<close>: three bytes are four digits of six bits; padding fills the last group.\<close>

definition base64_alphabet :: string where
  "base64_alphabet = ''ABCDEFGHIJKLMNOPQRSTUVWXYZabcdefghijklmnopqrstuvwxyz0123456789+/''"

definition base64_char :: "u32 \<Rightarrow> char" where
  "base64_char v = base64_alphabet ! unat (v AND 63)"

definition base64_group :: "byte \<Rightarrow> byte \<Rightarrow> byte \<Rightarrow> string" where
  "base64_group a b c =
     (let v = push_bit 16 (ucast a) OR push_bit 8 (ucast b) OR ucast c in
      [base64_char (drop_bit 18 v), base64_char (drop_bit 12 v), base64_char (drop_bit 6 v), base64_char v])"

fun base64 :: "bytes \<Rightarrow> string" where
  "base64 [] = []"
| "base64 [a] = take 2 (base64_group a 0 0) @ ''==''"
| "base64 [a, b] = take 3 (base64_group a b 0) @ ''=''"
| "base64 (a # b # c # r) = base64_group a b c @ base64 r"

definition websocketGUID :: string where
  "websocketGUID = ''258EAFA5-E914-47DA-95CA-C5AB0DC85B11''"

definition acceptKey :: "string \<Rightarrow> string" where
  "acceptKey key = base64 (sha1 (bytes_of_string (key @ websocketGUID)))"

section \<open>The handshake\<close>

datatype hs_error =
    HsDial string
  | HsRandom
  | HsRead http_error
  | HsWrite ioerr
  | HsNotUpgrade
  | HsMissingKey
  | HsStatus nat
  | HsAcceptMismatch

definition hs_write :: "string \<Rightarrow> WsConn \<Rightarrow> ioerr option \<times> WsConn" where
  "hs_write s c =
     (if wcConnClosed c then (Some ErrClosed, c)
      else case wcWErr c of Some e \<Rightarrow> (Some e, c) | None \<Rightarrow> (None, c\<lparr>wcOut := wcOut c @ bytes_of_string s\<rparr>))"

text \<open>
  \<^verbatim>\<open>strings.EqualFold\<close> with text of ASCII letters: besides upper and lower case, the long s and the Kelvin sign
  fold to letters of ASCII.
\<close>

fun fold_runes :: "string \<Rightarrow> string" where
  "fold_runes (a # b # c # s) =
     (if a = CHR 0xC5 \<and> b = CHR 0xBF then CHR ''s'' # fold_runes (c # s)
      else if a = CHR 0xE2 \<and> b = CHR 0x84 \<and> c = CHR 0xAA then CHR ''k'' # fold_runes s
      else a # fold_runes (b # c # s))"
| "fold_runes [a, b] = (if a = CHR 0xC5 \<and> b = CHR 0xBF then ''s'' else [a, b])"
| "fold_runes s = s"

definition EqualFold :: "string \<Rightarrow> string \<Rightarrow> bool" where
  "EqualFold s t \<longleftrightarrow> ToLower (fold_runes s) = ToLower t"

definition accept_response :: "string \<Rightarrow> string" where
  "accept_response key =
     ''HTTP/1.1 101 Switching Protocols'' @ crlf @ ''Upgrade: websocket'' @ crlf @ ''Connection: Upgrade'' @ crlf
     @ ''Sec-WebSocket-Accept: '' @ acceptKey key @ crlf @ crlf"

text \<open>
  \<^verbatim>\<open>Accept\<close>. When it fails the connection is left as it is, but for what the dropped reader has taken
  from it, which \<open>wcIn\<close> does not show.
\<close>

definition ws_Accept :: "HttpEnvHead \<Rightarrow> WsConn \<Rightarrow> (hs_error + unit) \<times> WsConn" where
  "ws_Accept E c =
     (case ReadRequest E (string_of_bytes (wcIn c)) of
        Inl e \<Rightarrow> (Inl (HsRead e), c)
      | Inr ((_, _, h), rest) \<Rightarrow>
          if \<not> EqualFold (Header_Get h ''Upgrade'') ''websocket'' \<or> \<not> Contains (ToLower (Header_Get h ''Connection'')) ''upgrade''
          then (Inl HsNotUpgrade, c)
          else let key = Header_Get h ''Sec-Websocket-Key'' in
            if key = [] then (Inl HsMissingKey, c)
            else (case hs_write (accept_response key) c of
                    (Some e, c1) \<Rightarrow> (Inl (HsWrite e), c1)
                  | (None, c1) \<Rightarrow> (Inr (), c1\<lparr>wcIn := bytes_of_string rest, wcClient := False\<rparr>)))"

definition dial_request :: "string \<Rightarrow> string \<Rightarrow> string \<Rightarrow> string" where
  "dial_request host path key =
     ''GET '' @ path @ '' HTTP/1.1'' @ crlf @ ''Host: '' @ host @ crlf @ ''Upgrade: websocket'' @ crlf @ ''Connection: Upgrade'' @ crlf
     @ ''Sec-WebSocket-Key: '' @ key @ crlf @ ''Sec-WebSocket-Version: 13'' @ crlf @ crlf"

text \<open>
  \<^verbatim>\<open>Dial\<close>: \<open>net_dial\<close> is \<^verbatim>\<open>net.DialTimeout\<close>, \<open>nonce\<close> the sixteen random bytes. The input of a dialled connection is what
  its peer will send. The connection is returned on failure too, to show that it is closed.
\<close>

definition close_raw :: "WsConn \<Rightarrow> WsConn" where
  "close_raw c = c\<lparr>wcConnClosed := True\<rparr>"

definition dial_handshake :: "HttpEnvHead \<Rightarrow> string \<Rightarrow> string \<Rightarrow> string \<Rightarrow> WsConn \<Rightarrow> (hs_error + unit) \<times> WsConn" where
  "dial_handshake E host path key c =
     (case hs_write (dial_request host path key) c of
        (Some e, c1) \<Rightarrow> (Inl (HsWrite e), close_raw c1)
      | (None, c1) \<Rightarrow>
          (case ReadResponse E (string_of_bytes (wcIn c1)) of
             Inl e \<Rightarrow> (Inl (HsRead e), close_raw c1)
           | Inr ((code, h), rest) \<Rightarrow>
               if code \<noteq> 101 then (Inl (HsStatus code), close_raw c1)
               else if Header_Get h ''Sec-Websocket-Accept'' \<noteq> acceptKey key then (Inl HsAcceptMismatch, close_raw c1)
               else (Inr (), c1\<lparr>wcIn := bytes_of_string rest, wcClient := True\<rparr>)))"

definition ws_Dial :: "HttpEnvHead \<Rightarrow> (string \<Rightarrow> WsConn option) \<Rightarrow> bytes option \<Rightarrow> string \<Rightarrow> (hs_error + unit) \<times> WsConn option" where
  "ws_Dial E net_dial nonce addr =
     (case dial_target addr of (host, path) \<Rightarrow>
      case net_dial host of
        None \<Rightarrow> (Inl (HsDial host), None)
      | Some c \<Rightarrow>
          (case nonce of
             None \<Rightarrow> (Inl HsRandom, Some (close_raw c))
           | Some n \<Rightarrow> (case dial_handshake E host path (base64 n) c of (r, c1) \<Rightarrow> (r, Some c1))))"

section \<open>Evaluation on the published examples\<close>

text \<open>A rotation that keeps the number it rotates within 32 bits while it is evaluated.\<close>

lemma rotl_eval: "k < 32 \<Longrightarrow> rotl k x = push_bit k (take_bit (32 - k) x) OR drop_bit (32 - k) x"
  unfolding rotl_def by (rule bit_word_eqI) (auto simp: bit_simps)

lemma round_numbers: "[0..<80] = [0, 1, 2, 3, 4, 5, 6, 7, 8, 9, 10, 11, 12, 13, 14, 15, 16, 17, 18, 19,
    20, 21, 22, 23, 24, 25, 26, 27, 28, 29, 30, 31, 32, 33, 34, 35, 36, 37, 38, 39,
    40, 41, 42, 43, 44, 45, 46, 47, 48, 49, 50, 51, 52, 53, 54, 55, 56, 57, 58, 59,
    60, 61, 62, 63, 64, 65, 66, 67, 68, 69, 70, 71, 72, 73, 74, 75, 76, 77, 78, 79]"
  by code_simp

lemmas sha1_eval = rotl_eval sha1_f_def sha1_k_def schedule_next_def

lemma sha1_blocks_step: "length w = 16 \<Longrightarrow> sha1_blocks (w @ r) s = sha1_blocks r (sha1_block w s)"
  by (subst sha1_blocks.simps) simp

lemma sha1_blocks_end: "sha1_blocks [] s = s"
  by (subst sha1_blocks.simps) simp

lemma abc_words: "words_of (sha1_pad (bytes_of_string ''abc'')) = [0x61626380, 0, 0, 0, 0, 0, 0, 0, 0, 0, 0, 0, 0, 0, 0, 0x18]"
  by code_simp

lemma abc_block:
  "sha1_block [0x61626380, 0, 0, 0, 0, 0, 0, 0, 0, 0, 0, 0, 0, 0, 0, 0x18] (0x67452301, 0xEFCDAB89, 0x98BADCFE, 0x10325476, 0xC3D2E1F0)
     = (0xA9993E36, 0x4706816A, 0xBA3E2571, 0x7850C26C, 0x9CD0D89D)"
  unfolding sha1_block_def round_numbers by (simp add: sha1_eval)

text \<open>The example of FIPS 180 for SHA-1, and the digest of the example of RFC 6455 in base64.\<close>

lemma sha1_abc: "sha1 (bytes_of_string ''abc'') = concat (map u32_bytes [0xA9993E36, 0x4706816A, 0xBA3E2571, 0x7850C26C, 0x9CD0D89D])"
  using sha1_blocks_step [of "[0x61626380, 0, 0, 0, 0, 0, 0, 0, 0, 0, 0, 0, 0, 0, 0, 0x18]" "[]"] abc_block
  by (simp add: sha1_def abc_words sha1_blocks_end)

lemma base64_rfc6455:
  "base64 (concat (map u32_bytes [0xB37A4F2C, 0xC0624F16, 0x90F64606, 0xCF385945, 0xB2BEC4EA])) = ''s3pPLMBiTxaQ9kYGzzhZRbK+xOo=''"
  by code_simp

section \<open>The two sides agree\<close>

lemma base64_alphabet_visible: "list_all visible base64_alphabet" "length base64_alphabet = 64"
  by (simp_all add: base64_alphabet_def visible_def value_char_def in_range_def is_blank_def)

lemma base64_char_visible: "visible (base64_char v)"
proof -
  have "unat (v AND 63) < length base64_alphabet"
    using word_and_le1 [of v 63] by (simp add: word_le_nat_alt base64_alphabet_visible(2))
  then show ?thesis
    using base64_alphabet_visible(1) unfolding base64_char_def list_all_length by blast
qed

lemma base64_visible: "list_all visible (base64 b)"
proof (induction b rule: base64.induct)
  case (2 a)
  show ?case by (simp add: base64_group_def Let_def base64_char_visible) (simp add: visible_def value_char_def in_range_def is_blank_def)
next
  case (3 a b)
  show ?case by (simp add: base64_group_def Let_def base64_char_visible) (simp add: visible_def value_char_def in_range_def is_blank_def)
qed (simp_all add: base64_group_def Let_def base64_char_visible)

lemma base64_nonempty: "b \<noteq> [] \<Longrightarrow> base64 b \<noteq> []"
  by (cases b rule: base64.cases) (simp_all add: base64_group_def Let_def)

lemma acceptKey_plain: "list_all visible (acceptKey key)" "acceptKey key \<noteq> []"
proof -
  have "sha1 b \<noteq> []" for b by (simp add: sha1_def u32_bytes_def split: prod.split)
  then show "acceptKey key \<noteq> []" unfolding acceptKey_def by (rule base64_nonempty)
qed (simp add: acceptKey_def base64_visible)

text \<open>The header fields of the two heads.\<close>

definition request_fields :: "string \<Rightarrow> string \<Rightarrow> headers" where
  "request_fields host key =
     [(''Host'', host), (''Upgrade'', ''websocket''), (''Connection'', ''Upgrade''), (''Sec-WebSocket-Key'', key), (''Sec-WebSocket-Version'', ''13'')]"

definition response_fields :: "string \<Rightarrow> headers" where
  "response_fields key = [(''Upgrade'', ''websocket''), (''Connection'', ''Upgrade''), (''Sec-WebSocket-Accept'', acceptKey key)]"

lemma dial_request_head: "dial_request host path key = (''GET '' @ path @ '' HTTP/1.1'') @ crlf @ print_headers (request_fields host key)"
  by (simp add: dial_request_def print_headers_def request_fields_def)

lemma accept_response_head: "accept_response key = ''HTTP/1.1 101 Switching Protocols'' @ crlf @ print_headers (response_fields key)"
  by (simp add: accept_response_def print_headers_def response_fields_def)

text \<open>A field printed in the usual spelling is stored under its canonical name.\<close>

lemma canonical_names:
  "canonical True ''Host'' = ''Host''" "canonical True ''Upgrade'' = ''Upgrade''" "canonical True ''Connection'' = ''Connection''"
  "canonical True ''Sec-WebSocket-Key'' = ''Sec-Websocket-Key''" "canonical True ''Sec-WebSocket-Version'' = ''Sec-Websocket-Version''"
  "canonical True ''Sec-WebSocket-Accept'' = ''Sec-Websocket-Accept''"
  by code_simp+

lemma request_stored:
  "map canon_field (request_fields host key) =
     [(''Host'', host), (''Upgrade'', ''websocket''), (''Connection'', ''Upgrade''), (''Sec-Websocket-Key'', key), (''Sec-Websocket-Version'', ''13'')]"
  by (simp only: request_fields_def canon_field_def canonical_names list.map fst_conv snd_conv)

lemma response_stored:
  "map canon_field (response_fields key) =
     [(''Upgrade'', ''websocket''), (''Connection'', ''Upgrade''), (''Sec-Websocket-Accept'', acceptKey key)]"
  by (simp only: response_fields_def canon_field_def canonical_names list.map fst_conv snd_conv)

lemma request_gets:
  "Header_Get (map canon_field (request_fields host key)) ''Upgrade'' = ''websocket''"
  "Header_Get (map canon_field (request_fields host key)) ''Connection'' = ''Upgrade''"
  "Header_Get (map canon_field (request_fields host key)) ''Sec-Websocket-Key'' = key"
  "length (filter (\<lambda>(k, _). k = ''Host'') (map canon_field (request_fields host key))) = 1"
  unfolding request_stored Header_Get_def by simp_all

lemma response_gets: "Header_Get (map canon_field (response_fields key)) ''Sec-Websocket-Accept'' = acceptKey key"
  unfolding response_stored Header_Get_def by simp

lemma fields_ok:
  "host \<noteq> [] \<Longrightarrow> list_all visible host \<Longrightarrow> key \<noteq> [] \<Longrightarrow> list_all visible key \<Longrightarrow> list_all field_ok (request_fields host key)"
  "list_all field_ok (response_fields key)"
proof -
  have "list_all token_char ''Host''" "list_all token_char ''Upgrade''" "list_all token_char ''Connection''" "list_all token_char ''Sec-WebSocket-Key''"
      "list_all token_char ''Sec-WebSocket-Version''" "list_all token_char ''Sec-WebSocket-Accept''"
      "list_all visible ''websocket''" "list_all visible ''Upgrade''" "list_all visible ''13''"
    by code_simp+
  then show "host \<noteq> [] \<Longrightarrow> list_all visible host \<Longrightarrow> key \<noteq> [] \<Longrightarrow> list_all visible key \<Longrightarrow> list_all field_ok (request_fields host key)"
    "list_all field_ok (response_fields key)"
    using acceptKey_plain [of key] by (simp_all only: request_fields_def response_fields_def list.pred_inject field_ok_def prod.case) simp_all
qed

text \<open>What the code relies on of \<^verbatim>\<open>readTransfer\<close>: a head without fields about its body is fine.\<close>

definition plain_transfer :: "HttpEnvHead \<Rightarrow> bool" where
  "plain_transfer E \<longleftrightarrow>
     (\<forall>h. map_of h ''Content-Length'' = None \<and> map_of h ''Transfer-Encoding'' = None \<and> map_of h ''Trailer'' = None \<longrightarrow> transfer_ok E h)"

lemma ReadRequest_dial:
  assumes "plain_transfer E" "list_all visible path" "take 1 path = ''/''" "escapes_ok (takeWhile (\<lambda>c. c \<noteq> CHR ''?'') path)"
    and "host \<noteq> []" "list_all visible host" "key \<noteq> []" "list_all visible key"
  shows "ReadRequest E (dial_request host path key @ rest) = Inr ((''GET'', path, map canon_field (request_fields host key)), rest)"
proof -
  have ns: "CHR '' '' \<notin> set path" "CHR 0x0A \<notin> set path" using assms(2) by (auto simp: list_all_iff)
  have l: "http_line (dial_request host path key @ rest) = Some (''GET '' @ path @ '' HTTP/1.1'', print_headers (request_fields host key) @ rest)"
    using http_line_crlf [of "''GET '' @ path @ '' HTTP/1.1''"] ns(2) unfolding dial_request_head by simp
  have c1: "cut_at (CHR '' '') (''GET '' @ path @ '' HTTP/1.1'') = Some (''GET'', path @ '' HTTP/1.1'')"
    using cut_at_append [of "CHR '' ''" "''GET''"] by simp
  have c2: "cut_at (CHR '' '') (path @ '' HTTP/1.1'') = Some (path, ''HTTP/1.1'')"
    using cut_at_append [OF ns(1)] by simp
  have p: "list_all token_char ''GET''" "http_version_ok ''HTTP/1.1''" by code_simp+
  have "path \<noteq> []" "hd path = CHR ''/''" using assms(3) by (cases path; simp)+
  then have u: "request_uri_ok (abs_uri_ok E) path"
    using assms(2,4) by (auto simp: request_uri_ok_def list_all_iff visible_def value_char_def is_blank_def)
  have t: "transfer_ok E (map canon_field (request_fields host key))"
    by (rule assms(1) [unfolded plain_transfer_def, rule_format], unfold request_stored) simp
  show ?thesis
    unfolding ReadRequest_def l option.case prod.case c1 c2 headers_roundtrip [OF fields_ok(1) [OF assms(5-8)], of rest] sum.case request_gets(4)
    using p u t by simp
qed

lemma ReadResponse_accept:
  assumes "plain_transfer E"
  shows "ReadResponse E (accept_response key @ rest) = Inr ((101, map canon_field (response_fields key)), rest)"
proof -
  have l: "http_line (accept_response key @ rest) = Some (''HTTP/1.1 101 Switching Protocols'', print_headers (response_fields key) @ rest)"
    using http_line_crlf [of "''HTTP/1.1 101 Switching Protocols''"] unfolding accept_response_head by simp
  have c: "cut_at (CHR '' '') ''HTTP/1.1 101 Switching Protocols'' = Some (''HTTP/1.1'', ''101 Switching Protocols'')"
    "status_code (until_space (dropWhile (\<lambda>c. c = CHR '' '') ''101 Switching Protocols'')) = Some 101" "http_version_ok ''HTTP/1.1''"
    by code_simp+
  have t: "transfer_ok E (map canon_field (response_fields key))"
    by (rule assms [unfolded plain_transfer_def, rule_format], unfold response_stored) simp
  show ?thesis
    unfolding ReadResponse_def l option.case prod.case c(1,2) headers_roundtrip [OF fields_ok(2), of key rest] sum.case
    using c(3) t by simp
qed

lemma upgrade_fields:
  "EqualFold ''websocket'' ''websocket''" "Contains (ToLower ''Upgrade'') ''upgrade''"
  by code_simp+

text \<open>The path of an address always begins with a slash.\<close>

lemma dial_target_path: "take 1 (snd (dial_target addr)) = ''/''"
proof (cases "dropWhile (\<lambda>c. c \<noteq> CHR ''/'') (drop 5 addr)")
  case (Cons c s)
  then have "c = CHR ''/''" by (metis (full_types) hd_dropWhile list.discI list.sel(1))
  then show ?thesis unfolding dial_target_def Let_def Cons by simp
next
  case Nil
  show ?thesis unfolding dial_target_def Let_def Nil by simp
qed

lemma hs_write_ok: "ws_writable c \<Longrightarrow> hs_write t c = (None, c\<lparr>wcOut := wcOut c @ bytes_of_string t\<rparr>)"
  by (simp add: hs_write_def ws_writable_def)

lemma string_of_bytes_append: "string_of_bytes (bytes_of_string a @ b) = a @ string_of_bytes b"
  by (simp add: string_of_bytes_def bytes_of_string_def comp_def)

text \<open>Addresses whose parts can stand in a request.\<close>

definition addr_ok :: "string \<Rightarrow> bool" where
  "addr_ok addr \<longleftrightarrow>
     (case dial_target addr of (host, path) \<Rightarrow>
        host \<noteq> [] \<and> list_all visible host \<and> list_all visible path \<and> escapes_ok (takeWhile (\<lambda>ch. ch \<noteq> CHR ''?'') path))"

definition request_of :: "string \<Rightarrow> bytes \<Rightarrow> bytes" where
  "request_of addr nonce = (case dial_target addr of (host, path) \<Rightarrow> bytes_of_string (dial_request host path (base64 nonce)))"

definition response_of :: "bytes \<Rightarrow> bytes" where
  "response_of nonce = bytes_of_string (accept_response (base64 nonce))"

lemma Accept_takes_request:
  assumes "plain_transfer E" "addr_ok addr" "nonce \<noteq> []" "ws_writable s" "wcIn s = request_of addr nonce @ up"
  shows "ws_Accept E s = (Inr (), s\<lparr>wcIn := up, wcOut := wcOut s @ response_of nonce, wcClient := False\<rparr>)"
proof -
  obtain host path where t: "dial_target addr = (host, path)" by fastforce
  let ?key = "base64 nonce"
  have key: "?key \<noteq> []" "list_all visible ?key" using assms(3) base64_nonempty base64_visible by auto
  have a: "host \<noteq> []" "list_all visible host" "list_all visible path" "escapes_ok (takeWhile (\<lambda>ch. ch \<noteq> CHR ''?'') path)"
    using assms(2) by (simp_all add: addr_ok_def t)
  have slash: "take 1 path = ''/''" using dial_target_path [of addr] t by simp
  have "string_of_bytes (wcIn s) = dial_request host path ?key @ string_of_bytes up"
    by (simp only: assms(5) request_of_def t prod.case string_of_bytes_append)
  then show ?thesis
    using key(1) upgrade_fields
    by (simp add: ws_Accept_def ReadRequest_dial [OF assms(1) a(3) slash a(4,1,2) key] request_gets hs_write_ok [OF assms(4)] response_of_def Let_def)
qed

lemma Dial_takes_response:
  assumes "plain_transfer E" "net_dial (fst (dial_target addr)) = Some c" "ws_writable c" "wcIn c = response_of nonce @ down"
  shows "ws_Dial E net_dial (Some nonce) addr =
    (Inr (), Some (c\<lparr>wcIn := down, wcOut := wcOut c @ request_of addr nonce, wcClient := True\<rparr>))"
proof -
  obtain host path where t: "dial_target addr = (host, path)" by fastforce
  have "string_of_bytes (wcIn c) = accept_response (base64 nonce) @ string_of_bytes down"
    by (simp only: assms(4) response_of_def string_of_bytes_append)
  then have "dial_handshake E host path (base64 nonce) c =
      (Inr (), c\<lparr>wcIn := down, wcOut := wcOut c @ bytes_of_string (dial_request host path (base64 nonce)), wcClient := True\<rparr>)"
    by (simp add: dial_handshake_def hs_write_ok [OF assms(3)] ReadResponse_accept [OF assms(1)] response_gets)
  then show ?thesis using assms(2) by (simp add: ws_Dial_def t request_of_def)
qed

text \<open>
  C13: the websocket handshake agrees. For every address whose host and path hold no blanks or control characters and no broken percent
  escape, and every nonce: the request that \<^verbatim>\<open>Dial\<close> sends is accepted by \<^verbatim>\<open>Accept\<close>, the answer that \<^verbatim>\<open>Accept\<close> sends is accepted
  by \<^verbatim>\<open>Dial\<close>, and on both sides exactly the bytes that follow the handshake, already buffered or not, are left to be read
  as frames. A response that is read with another status or with the key of another request is refused and the connection closed.
\<close>

theorem ws_handshake_agreement:
  assumes "plain_transfer E" "addr_ok addr" "nonce \<noteq> []" "net_dial (fst (dial_target addr)) = Some c" "ws_writable c" "ws_writable s"
    and "wcIn c = response_of nonce @ down" "wcIn s = request_of addr nonce @ up"
  shows "ws_Dial E net_dial (Some nonce) addr =
      (Inr (), Some (c\<lparr>wcIn := down, wcOut := wcOut c @ request_of addr nonce, wcClient := True\<rparr>))
    \<and> ws_Accept E s = (Inr (), s\<lparr>wcIn := up, wcOut := wcOut s @ response_of nonce, wcClient := False\<rparr>)
    \<and> (\<forall>code h rest (c' :: WsConn). ReadResponse E (string_of_bytes (wcIn c')) = Inr ((code, h), rest)
         \<longrightarrow> code \<noteq> 101 \<or> Header_Get h ''Sec-Websocket-Accept'' \<noteq> acceptKey (base64 nonce)
         \<longrightarrow> (\<exists>e c''. ws_Dial E (\<lambda>_. Some c') (Some nonce) addr = (Inl e, Some c'') \<and> wcConnClosed c''))"
proof (intro conjI allI impI)
  fix code h rest and c' :: WsConn
  assume r: "ReadResponse E (string_of_bytes (wcIn c')) = Inr ((code, h), rest)"
    and bad: "code \<noteq> 101 \<or> Header_Get h ''Sec-Websocket-Accept'' \<noteq> acceptKey (base64 nonce)"
  obtain host path where t: "dial_target addr = (host, path)" by fastforce
  obtain w c1 where w: "hs_write (dial_request host path (base64 nonce)) c' = (w, c1)" by fastforce
  have "wcIn c1 = wcIn c'" using w by (auto simp: hs_write_def split: if_splits option.splits)
  then show "\<exists>e c''. ws_Dial E (\<lambda>_. Some c') (Some nonce) addr = (Inl e, Some c'') \<and> wcConnClosed c''"
    using r bad by (cases w) (auto simp: ws_Dial_def t dial_handshake_def w close_raw_def)
qed (use Dial_takes_response [where net_dial = net_dial and addr = addr, OF assms(1,4,5,7)] Accept_takes_request [OF assms(1-3,6,8)] in simp_all)

definition plain_env :: HttpEnvHead where
  "plain_env = \<lparr>abs_uri_ok = (\<lambda>_. False), transfer_ok = (\<lambda>h. map_of h ''Transfer-Encoding'' = None)\<rparr>"

lemma plain_env_transfer: "plain_transfer plain_env"
  by (simp add: plain_transfer_def plain_env_def)

theorem ws_handshake_agreement_witness:
  "fst (ws_Dial plain_env (\<lambda>_. Some ((ws_demo False)\<lparr>wcIn := response_of [7] @ [1]\<rparr>)) (Some [7]) ''ws://h:1/x'') = Inr ()
   \<and> wcIn (snd (ws_Accept plain_env ((ws_demo False)\<lparr>wcIn := request_of ''ws://h:1/x'' [7] @ [2]\<rparr>))) = [2]"
proof -
  have "addr_ok ''ws://h:1/x''" by code_simp
  then show ?thesis
    using ws_handshake_agreement [where E = plain_env and addr = "''ws://h:1/x''" and nonce = "[7]" and down = "[1]" and up = "[2]"
        and c = "(ws_demo False)\<lparr>wcIn := response_of [7] @ [1]\<rparr>" and net_dial = "\<lambda>_. Some ((ws_demo False)\<lparr>wcIn := response_of [7] @ [1]\<rparr>)"
        and s = "(ws_demo False)\<lparr>wcIn := request_of ''ws://h:1/x'' [7] @ [2]\<rparr>"]
    by (simp add: ws_writable_def ws_demo_def plain_env_transfer)
qed

text \<open>A connection that \<^verbatim>\<open>Dial\<close> gives up is closed.\<close>

lemma ws_Dial_failure_closes: "ws_Dial E net_dial nonce addr = (Inl e, Some c) \<Longrightarrow> wcConnClosed c"
  by (auto simp: ws_Dial_def dial_handshake_def close_raw_def split: prod.splits option.splits sum.splits if_splits)

text \<open>\<^verbatim>\<open>Accept\<close> leaves the connection open when it refuses a request; nothing was written to it.\<close>

lemma ws_Accept_refuses:
  assumes "ws_Accept E c = (Inl e, c')"
  shows "wcConnClosed c' = wcConnClosed c \<and> wcOut c' = wcOut c"
  using assms by (auto simp: ws_Accept_def hs_write_def Let_def split: sum.splits prod.splits if_splits option.splits)

end
