(* ===== verification/CodecConn.thy ===== *)
theory CodecConn
  imports WsHandshake ProxyServer
begin

text \<open>
  The message connections of \<^verbatim>\<open>protocol/codec\<close>: the raw codec, which passes chunks on as they arrive, and the
  websocket codec of \<^verbatim>\<open>ws.go\<close>. Both use the record of a websocket connection for what they need
  of a \<^verbatim>\<open>net.Conn\<close>: its input, its output and whether it is closed. What the proxy relies on, whichever codec is configured, is
  the interface \<open>message_stream\<close>.
\<close>

section \<open>Connections\<close>

datatype MessageConn = RawMC WsConn | WsMC WsConn

text \<open>\<^verbatim>\<open>rawConn.ReadMessage\<close>: \<open>k\<close> is how many bytes the network hands over in one read of at most 32 KiB.\<close>

definition raw_ReadMessage :: "nat \<Rightarrow> WsConn \<Rightarrow> (wserr + bytes) \<times> WsConn" where
  "raw_ReadMessage k c =
     (if wcConnClosed c then (Inl (WsIO ErrClosed), c)
      else if wcIn c = [] then (Inl (WsIO EOF), c)
      else let n = min 32768 (max 1 k) in (Inr (take n (wcIn c)), c\<lparr>wcIn := drop n (wcIn c)\<rparr>))"

definition raw_WriteMessage :: "bytes \<Rightarrow> WsConn \<Rightarrow> (wserr + unit) \<times> WsConn" where
  "raw_WriteMessage p c =
     (if wcConnClosed c then (Inl (WsIO ErrClosed), c)
      else case wcWErr c of
        Some e \<Rightarrow> (Inl (WsIO e), c)
      | None \<Rightarrow> (Inr (), c\<lparr>wcOut := wcOut c @ p\<rparr>))"

text \<open>The methods of the interface, for either kind; \<open>key\<close> is the masking key of a websocket client.\<close>

fun mc_ReadMessage :: "nat \<Rightarrow> bytes \<Rightarrow> MessageConn \<Rightarrow> (wserr + bytes) \<times> MessageConn" where
  "mc_ReadMessage k key (RawMC c) = (case raw_ReadMessage k c of (r, c1) \<Rightarrow> (r, RawMC c1))"
| "mc_ReadMessage k key (WsMC c) = (case ws_ReadMessage key c of (r, c1) \<Rightarrow> (r, WsMC c1))"

fun mc_WriteMessage :: "bytes \<Rightarrow> bytes \<Rightarrow> MessageConn \<Rightarrow> (wserr + unit) \<times> MessageConn" where
  "mc_WriteMessage key p (RawMC c) = (case raw_WriteMessage p c of (r, c1) \<Rightarrow> (r, RawMC c1))"
| "mc_WriteMessage key p (WsMC c) = (case ws_WriteMessage key p c of (r, c1) \<Rightarrow> (r, WsMC c1))"

fun mc_Close :: "bytes \<Rightarrow> MessageConn \<Rightarrow> MessageConn" where
  "mc_Close key (RawMC c) = RawMC (c\<lparr>wcConnClosed := True\<rparr>)"
| "mc_Close key (WsMC c) = WsMC (ws_Close key c)"

fun mc_conn :: "MessageConn \<Rightarrow> WsConn" where
  "mc_conn (RawMC c) = c"
| "mc_conn (WsMC c) = c"

section \<open>Codecs\<close>

fun codec_Accept :: "HttpEnvHead \<Rightarrow> Codec \<Rightarrow> WsConn \<Rightarrow> hs_error + MessageConn" where
  "codec_Accept E RawCodec c = Inr (RawMC c)"
| "codec_Accept E WsCodec c = (case ws_Accept E c of (Inl e, _) \<Rightarrow> Inl e | (Inr _, c1) \<Rightarrow> Inr (WsMC c1))"

fun codec_Dial :: "HttpEnvHead \<Rightarrow> (string \<Rightarrow> WsConn option) \<Rightarrow> bytes option \<Rightarrow> Codec \<Rightarrow> string \<Rightarrow> hs_error + MessageConn" where
  "codec_Dial E net_dial nonce RawCodec addr = (case net_dial addr of None \<Rightarrow> Inl (HsDial addr) | Some c \<Rightarrow> Inr (RawMC c))"
| "codec_Dial E net_dial nonce WsCodec addr =
     (case ws_Dial E net_dial nonce addr of
        (Inr _, Some c) \<Rightarrow> Inr (WsMC c)
      | (Inl e, _) \<Rightarrow> Inl e
      | (Inr _, None) \<Rightarrow> Inl (HsDial addr))"

section \<open>What a user of a message connection relies on\<close>

text \<open>The loop of a reader: messages until the first error, with a hint of the size of each chunk.\<close>

fun drain_messages :: "(nat \<Rightarrow> 'c \<Rightarrow> (wserr + bytes) \<times> 'c) \<Rightarrow> nat list \<Rightarrow> 'c \<Rightarrow> (bytes \<times> wserr) option" where
  "drain_messages rd [] c = None"
| "drain_messages rd (k # ks) c =
     (case rd k c of (Inl e, _) \<Rightarrow> Some ([], e) | (Inr d, c') \<Rightarrow> map_option (\<lambda>(ds, e). (d @ ds, e)) (drain_messages rd ks c'))"

text \<open>
  \<open>carries c bs\<close>: the peer has sent \<open>bs\<close> on \<open>c\<close>, closed it, and none of it was read. Every read hands over the next
  part of it or, at the end, \<^verbatim>\<open>io.EOF\<close>.
\<close>

locale message_stream =
  fixes rd :: "nat \<Rightarrow> 'c \<Rightarrow> (wserr + bytes) \<times> 'c"
    and carries :: "'c \<Rightarrow> bytes \<Rightarrow> bool"
    and room :: "'c \<Rightarrow> nat"
  assumes read_next: "carries c bs \<Longrightarrow>
      (\<exists>d bs' c'. rd k c = (Inr d, c') \<and> bs = d @ bs' \<and> carries c' bs' \<and> room c' < room c)
      \<or> (\<exists>c'. rd k c = (Inl (WsIO EOF), c') \<and> bs = [])"
begin

lemma drains: "carries c bs \<Longrightarrow> room c < length ks \<Longrightarrow> drain_messages rd ks c = Some (bs, WsIO EOF)"
proof (induction ks arbitrary: c bs)
  case (Cons k ks)
  from read_next [OF Cons.prems(1), of k] show ?case
  proof (elim disjE exE conjE)
    fix d bs' c'
    assume r: "rd k c = (Inr d, c')" "bs = d @ bs'" "carries c' bs'" "room c' < room c"
    then have "drain_messages rd ks c' = Some (bs', WsIO EOF)" using Cons.prems(2) by (intro Cons.IH) auto
    then show ?thesis by (simp add: r(1,2))
  qed simp
qed simp

end

text \<open>The frames that a writer of websocket messages sends.\<close>

definition message_frames :: "bool \<Rightarrow> (bytes \<times> bytes) list \<Rightarrow> bytes" where
  "message_frames client kps = concat (map (\<lambda>(k, p). frame_bytes client k \<lparr>wfFin = True, wfOp = OpBinary, wfPayload = p\<rparr>) kps)"

definition sendable :: "(bytes \<times> bytes) list \<Rightarrow> bool" where
  "sendable kps \<longleftrightarrow> list_all (\<lambda>(k, p). length k = 4 \<and> length p \<le> WsFrame.MaxMessageSize) kps"

fun mc_carries :: "MessageConn \<Rightarrow> bytes \<Rightarrow> bool" where
  "mc_carries (RawMC c) bs \<longleftrightarrow> \<not> wcConnClosed c \<and> wcIn c = bs"
| "mc_carries (WsMC c) bs \<longleftrightarrow> (\<exists>client kps. sendable kps \<and> wcIn c = message_frames client kps \<and> bs = concat (map snd kps))"

lemma ws_read_frames:
  assumes "sendable ((k, p) # kps)" "wcIn c = message_frames client ((k, p) # kps)"
  shows "ws_ReadMessage key c = (Inr p, c\<lparr>wcIn := message_frames client kps\<rparr>)"
proof -
  let ?f = "\<lparr>wfFin = True, wfOp = OpBinary, wfPayload = p\<rparr>"
  have f: "frame_ok ?f" "length k = 4" using assms(1) by (simp_all add: sendable_def frame_ok_def OpBinary_def)
  have "wcIn c = frame_bytes client k ?f @ message_frames client kps" using assms(2) by (simp add: message_frames_def)
  from read_message_frame [OF this f(1)] show ?thesis by (simp add: ws_ReadMessage_def f(2) op_defs)
qed

lemma ws_read_frames_end: "wcIn c = [] \<Longrightarrow> ws_ReadMessage key c = (Inl (WsIO EOF), c)"
  by (simp add: ws_ReadMessage_def read_message.simps readFrame_def read_full_def)

lemma frame_bytes_length: "0 < length (frame_bytes client k f)"
  by (simp add: frame_bytes_def Let_def split: prod.split)

interpretation mc: message_stream "\<lambda>k. mc_ReadMessage k key" mc_carries "\<lambda>m. length (wcIn (mc_conn m))" for key
proof
  fix k c bs
  assume c: "mc_carries c bs"
  show "(\<exists>d bs' c'. mc_ReadMessage k key c = (Inr d, c') \<and> bs = d @ bs' \<and> mc_carries c' bs' \<and> length (wcIn (mc_conn c')) < length (wcIn (mc_conn c)))
      \<or> (\<exists>c'. mc_ReadMessage k key c = (Inl (WsIO EOF), c') \<and> bs = [])"
  proof (cases c)
    case (RawMC w)
    then show ?thesis using c by (auto simp: raw_ReadMessage_def Let_def)
  next
    case (WsMC w)
    then obtain client kps where kps: "sendable kps" "wcIn w = message_frames client kps" "bs = concat (map snd kps)" using c by auto
    show ?thesis
    proof (cases kps)
      case Nil
      then show ?thesis using kps ws_read_frames_end [of w key] by (simp add: WsMC message_frames_def)
    next
      case (Cons kp rest)
      obtain mk p where kp: "kp = (mk, p)" by fastforce
      have r: "ws_ReadMessage key w = (Inr p, w\<lparr>wcIn := message_frames client rest\<rparr>)"
        using kps(1,2) by (intro ws_read_frames) (simp_all add: Cons kp)
      have "length (message_frames client rest) < length (wcIn w)"
        using kps(2) frame_bytes_length by (simp add: Cons kp message_frames_def)
      moreover have "sendable rest" using kps(1) by (simp add: Cons sendable_def)
      ultimately show ?thesis using r kps(3) by (auto simp: WsMC Cons kp)
    qed
  qed
qed

section \<open>From one end to the other\<close>

fun send_all :: "(bytes \<times> bytes) list \<Rightarrow> MessageConn \<Rightarrow> MessageConn option" where
  "send_all [] m = Some m"
| "send_all ((k, p) # kps) m = (case mc_WriteMessage k p m of (Inl _, _) \<Rightarrow> None | (Inr _, m') \<Rightarrow> send_all kps m')"

lemma send_all_raw:
  "ws_writable c \<Longrightarrow> send_all kps (RawMC c) = Some (RawMC (c\<lparr>wcOut := wcOut c @ concat (map snd kps)\<rparr>))"
proof (induction kps arbitrary: c)
  case (Cons kp kps)
  then show ?case by (cases kp) (simp add: raw_WriteMessage_def ws_writable_def)
qed simp

lemma send_all_ws:
  "ws_writable c \<Longrightarrow> send_all kps (WsMC c) = Some (WsMC (c\<lparr>wcOut := wcOut c @ message_frames (wcClient c) kps\<rparr>))"
proof (induction kps arbitrary: c)
  case (Cons kp kps)
  then show ?case by (cases kp) (simp add: ws_WriteMessage_def writeFrame_def ws_writable_def message_frames_def)
qed (simp add: message_frames_def)

text \<open>What the accepting side sends before its own messages.\<close>

definition answer_of :: "Codec \<Rightarrow> bytes \<Rightarrow> bytes" where
  "answer_of codec nonce = (case codec of RawCodec \<Rightarrow> [] | WsCodec \<Rightarrow> response_of nonce)"

definition codec_addr_ok :: "Codec \<Rightarrow> string \<Rightarrow> bool" where
  "codec_addr_ok codec addr \<longleftrightarrow> (case codec of RawCodec \<Rightarrow> True | WsCodec \<Rightarrow> addr_ok addr)"

definition codec_host :: "Codec \<Rightarrow> string \<Rightarrow> string" where
  "codec_host codec addr = (case codec of RawCodec \<Rightarrow> addr | WsCodec \<Rightarrow> fst (dial_target addr))"

text \<open>
  C14: with either codec the bytes arrive. A client that dials with the codec, gets the answer of a server that accepts with it, writes any
  messages and closes: the server accepts what the client sent, and its read loop, whatever the sizes of the chunks it is
  handed, yields exactly the bytes of the messages in order and ends with \<^verbatim>\<open>io.EOF\<close>.
\<close>

theorem codec_end_to_end:
  assumes "plain_transfer E" "codec_addr_ok codec addr" "nonce \<noteq> []" "sendable kps"
    and "ws_writable c" "wcOut c = []" "wcIn c = answer_of codec nonce @ down" "net_dial (codec_host codec addr) = Some c"
  shows "\<exists>m m'. codec_Dial E net_dial (Some nonce) codec addr = Inr m \<and> send_all kps m = Some m'
    \<and> (\<forall>s ks key. ws_writable s \<longrightarrow> wcIn s = wcOut (mc_conn m') \<longrightarrow> length (wcIn s) < length ks
         \<longrightarrow> (\<exists>r. codec_Accept E codec s = Inr r \<and> drain_messages (\<lambda>k. mc_ReadMessage k key) ks r = Some (concat (map snd kps), WsIO EOF)))"
proof (cases codec)
  case RawCodec
  let ?c = "c\<lparr>wcOut := wcOut c @ concat (map snd kps)\<rparr>"
  have d: "codec_Dial E net_dial (Some nonce) codec addr = Inr (RawMC c)" using assms(8) by (simp add: RawCodec codec_host_def)
  have "drain_messages (\<lambda>k. mc_ReadMessage k key) ks (RawMC s) = Some (concat (map snd kps), WsIO EOF)"
    if "ws_writable s" "wcIn s = wcOut ?c" "length (wcIn s) < length ks" for s ks key
    using that assms(6) by (intro mc.drains) (simp_all add: ws_writable_def)
  then show ?thesis
    by (intro exI [of _ "RawMC c"] exI [of _ "RawMC ?c"]) (simp add: d send_all_raw [OF assms(5)], simp add: RawCodec)
next
  case WsCodec
  let ?c = "c\<lparr>wcIn := down, wcOut := wcOut c @ request_of addr nonce, wcClient := True\<rparr>"
  let ?c' = "?c\<lparr>wcOut := wcOut ?c @ message_frames True kps\<rparr>"
  have d: "codec_Dial E net_dial (Some nonce) codec addr = Inr (WsMC ?c)"
    using Dial_takes_response [OF assms(1), of net_dial addr c nonce down] assms(5,7,8) by (simp add: WsCodec codec_host_def answer_of_def)
  have "ws_writable ?c" using assms(5) by (simp add: ws_writable_def)
  then have w: "send_all kps (WsMC ?c) = Some (WsMC ?c')" using send_all_ws [of ?c kps] by simp
  have "\<exists>r. codec_Accept E codec s = Inr r \<and> drain_messages (\<lambda>k. mc_ReadMessage k key) ks r = Some (concat (map snd kps), WsIO EOF)"
    if s: "ws_writable s" "wcIn s = wcOut (mc_conn (WsMC ?c'))" "length (wcIn s) < length ks" for s ks key
  proof -
    have inp: "wcIn s = request_of addr nonce @ message_frames True kps" using s(2) assms(6) by simp
    let ?s = "s\<lparr>wcIn := message_frames True kps, wcOut := wcOut s @ response_of nonce, wcClient := False\<rparr>"
    have a: "codec_Accept E codec s = Inr (WsMC ?s)"
      using Accept_takes_request [OF assms(1) _ assms(3) s(1) inp] assms(2) by (simp add: WsCodec codec_addr_ok_def)
    have "mc_carries (WsMC ?s) (concat (map snd kps))" using assms(4) by auto
    moreover have "length (wcIn (mc_conn (WsMC ?s))) < length ks" using s(3) inp by simp
    ultimately have "drain_messages (\<lambda>k. mc_ReadMessage k key) ks (WsMC ?s) = Some (concat (map snd kps), WsIO EOF)" by (rule mc.drains)
    with a show ?thesis by blast
  qed
  then show ?thesis using d w by blast
qed

theorem codec_end_to_end_witness:
  "\<exists>m m'. codec_Dial plain_env (\<lambda>_. Some ((ws_demo False)\<lparr>wcIn := response_of [7]\<rparr>)) (Some [7]) WsCodec ''ws://h:1/x'' = Inr m
     \<and> send_all [([1, 2, 3, 4], [10, 11]), ([5, 6, 7, 8], [12])] m = Some m'
     \<and> (\<forall>ks. length (wcOut (mc_conn m')) < length ks \<longrightarrow>
          (\<exists>r. codec_Accept plain_env WsCodec ((ws_demo False)\<lparr>wcIn := wcOut (mc_conn m')\<rparr>) = Inr r
             \<and> drain_messages (\<lambda>k. mc_ReadMessage k []) ks r = Some ([10, 11, 12], WsIO EOF)))"
proof -
  let ?c = "(ws_demo False)\<lparr>wcIn := response_of [7]\<rparr>"
  have "addr_ok ''ws://h:1/x''" by code_simp
  moreover have "sendable [([1, 2, 3, 4], [10, 11]), ([5, 6, 7, 8], [12])]" by (simp add: sendable_def WsFrame.MaxMessageSize_def)
  ultimately obtain m m' where
    m: "codec_Dial plain_env (\<lambda>_. Some ?c) (Some [7]) WsCodec ''ws://h:1/x'' = Inr m" "send_all [([1, 2, 3, 4], [10, 11]), ([5, 6, 7, 8], [12])] m = Some m'"
    and r: "\<And>s ks key. ws_writable s \<Longrightarrow> wcIn s = wcOut (mc_conn m') \<Longrightarrow> length (wcIn s) < length ks
         \<Longrightarrow> \<exists>r. codec_Accept plain_env WsCodec s = Inr r \<and> drain_messages (\<lambda>k. mc_ReadMessage k key) ks r = Some ([10, 11, 12], WsIO EOF)"
    using codec_end_to_end [where E = plain_env and codec = WsCodec and addr = "''ws://h:1/x''" and nonce = "[7]" and down = "[]"
        and kps = "[([1, 2, 3, 4], [10, 11]), ([5, 6, 7, 8], [12])]" and c = ?c and net_dial = "\<lambda>_. Some ?c"]
    by (simp add: plain_env_transfer codec_addr_ok_def answer_of_def ws_writable_def ws_demo_def) blast
  have "ws_writable ((ws_demo False)\<lparr>wcIn := wcOut (mc_conn m')\<rparr>)" by (simp add: ws_writable_def ws_demo_def)
  from r [OF this] show ?thesis using m by (intro exI [of _ m] exI [of _ m']) simp
qed

end
