(* ===== verification/Sniff.thy ===== *)
theory Sniff
  imports GoText "HOL-Library.AList"
begin

text \<open>
  \<^verbatim>\<open>internal/ingress/sniff/sniff.go\<close>: several protocols on one port. The dispatcher reads the first
  bytes of a connection, chooses a target by prefix rules, then by HTTP method and Host header, then
  by default, and hands the connection over with the bytes it has read replayed. A
  connection is the byte stream that can be read from it until it ends. The buffered reader of
  the HTTP branch may have read on past what it parsed: \<open>over\<close> is by how much.
\<close>

section \<open>Prefixes in hexadecimal\<close>

fun hex_pairs :: "string \<Rightarrow> bytes option" where
  "hex_pairs (a # b # s) =
     (case (hex_val a, hex_val b) of
        (Some x, Some y) \<Rightarrow> map_option (\<lambda>r. word_of_nat (16 * x + y) # r) (hex_pairs s)
      | _ \<Rightarrow> None)"
| "hex_pairs s = Some []"

text \<open>A last single digit is dropped by the loop of \<^verbatim>\<open>hexBytes\<close>.\<close>

definition hexBytes :: "string \<Rightarrow> bytes option" where
  "hexBytes s = hex_pairs (filter (\<lambda>c. c \<noteq> CHR '' '') s)"

section \<open>Configuration\<close>

record PrefixRule =
  prPrefix :: string
  prTarget :: string

record Config =
  cfgHTTPMethods :: "string list"
  cfgHostRoutes :: "(string \<times> string) list"
  cfgHTTPDefault :: string
  cfgPrefixes :: "PrefixRule list"
  cfgDefault :: string

text \<open>
  The replaying connection: the bytes to replay, how many of them have been read, and the rest of
  the stream.
\<close>

record replayConn =
  rpReplay :: bytes
  rpRead :: nat
  rpRest :: bytes

definition newReplayConn :: "bytes \<Rightarrow> bytes \<Rightarrow> replayConn" where
  "newReplayConn replay rest = \<lparr>rpReplay = replay, rpRead = 0, rpRest = rest\<rparr>"

text \<open>Each target has a queue of 16 connections; \<open>diDone\<close> is the closed \<^verbatim>\<open>done\<close> channel.\<close>

record Dispatcher =
  diTargets :: "(string \<times> replayConn list) list"
  diCfg :: Config
  diDone :: bool

definition default_methods :: "string list" where
  "default_methods = [''GET'', ''POST'', ''PUT'', ''DELETE'', ''HEAD'', ''OPTIONS'', ''CONNECT'', ''TRACE'', ''PATCH'']"

text \<open>The names \<^verbatim>\<open>New\<close> collects in \<^verbatim>\<open>registered\<close>.\<close>

definition configured_targets :: "Config \<Rightarrow> string list" where
  "configured_targets cfg = [cfgDefault cfg, cfgHTTPDefault cfg] @ map snd (cfgHostRoutes cfg) @ map prTarget (cfgPrefixes cfg)"

definition New :: "Config \<Rightarrow> Dispatcher option" where
  "New cfg0 =
     (if cfgDefault cfg0 = [] then None
      else let cfg = (if cfgHTTPMethods cfg0 = [] then cfg0\<lparr>cfgHTTPMethods := default_methods\<rparr> else cfg0) in
        Some \<lparr>diTargets = map (\<lambda>n. (n, [])) (remdups (filter (\<lambda>n. n \<noteq> []) (configured_targets cfg))),
              diCfg = cfg, diDone = False\<rparr>)"

definition Listener :: "string \<Rightarrow> Dispatcher \<Rightarrow> string option" where
  "Listener name d = (if map_of (diTargets d) name = None then None else Some name)"

definition sniff_Close :: "Dispatcher \<Rightarrow> Dispatcher" where
  "sniff_Close d = d\<lparr>diDone := True\<rparr>"

text \<open>
  \<^verbatim>\<open>facade.Accept\<close>. When a connection is queued and the dispatcher is closed, the \<^verbatim>\<open>select\<close> may
  take either case: \<open>choose_done\<close> is its choice.
\<close>

datatype accept_result = Accepted replayConn | AcceptClosed | AcceptBlocks

definition facade_Accept :: "bool \<Rightarrow> string \<Rightarrow> Dispatcher \<Rightarrow> accept_result \<times> Dispatcher" where
  "facade_Accept choose_done name d =
     (case map_of (diTargets d) name of
        Some (c # q) \<Rightarrow>
          if diDone d \<and> choose_done then (AcceptClosed, d)
          else (Accepted c, d\<lparr>diTargets := AList.update name q (diTargets d)\<rparr>)
      | _ \<Rightarrow> (if diDone d then AcceptClosed else AcceptBlocks, d))"

section \<open>Dispatching\<close>

text \<open>The recording reader: the bytes read so far and the rest of the stream.\<close>

record recReader =
  rrBuf :: bytes
  rrRest :: bytes

definition rec_read :: "nat \<Rightarrow> recReader \<Rightarrow> (bytes \<times> recReader) option" where
  "rec_read n rr =
     (case read_full n (rrRest rr) of
        Inl e \<Rightarrow> None
      | Inr (a, r) \<Rightarrow> Some (a, \<lparr>rrBuf = rrBuf rr @ a, rrRest = r\<rparr>))"

text \<open>\<open>PrefixEOF\<close>: the stream ended inside a prefix, the connection is closed.\<close>

datatype prefix_result = PrefixHit string recReader | PrefixMiss recReader | PrefixEOF

fun match_prefixes :: "PrefixRule list \<Rightarrow> bytes \<Rightarrow> recReader \<Rightarrow> prefix_result" where
  "match_prefixes [] head rr = PrefixMiss rr"
| "match_prefixes (p # ps) head rr =
     (case hexBytes (prPrefix p) of
        None \<Rightarrow> match_prefixes ps head rr
      | Some prefix \<Rightarrow>
          if prefix = [] then match_prefixes ps head rr
          else if length prefix > length head then
            (case rec_read (length prefix - length head) rr of
               None \<Rightarrow> PrefixEOF
             | Some (rest, rr') \<Rightarrow>
                 if has_prefix (head @ rest) prefix then PrefixHit (prTarget p) rr' else match_prefixes ps head rr')
          else if has_prefix head prefix then PrefixHit (prTarget p) rr
          else match_prefixes ps head rr)"

definition method_hit :: "string list \<Rightarrow> bytes \<Rightarrow> bool" where
  "method_hit methods head =
     (\<exists>m \<in> set methods. 3 \<le> length m \<and> has_prefix (string_of_bytes head) (take 3 m))"

text \<open>\<^verbatim>\<open>ReadString('\n')\<close>: the line with its end and the rest, none when the stream ends first.\<close>

definition read_line :: "bytes \<Rightarrow> (bytes \<times> bytes) option" where
  "read_line inp =
     (let l = takeWhile (\<lambda>b. b \<noteq> 10) inp in
      if length l < length inp then Some (l @ [10], drop (length l + 1) inp) else None)"

lemma read_line_shorter:
  assumes "read_line inp = Some (l, r)"
  shows "inp = l @ r \<and> length r < length inp"
proof -
  define w where "w = takeWhile (\<lambda>b. b \<noteq> 10) inp"
  have lt: "length w < length inp" and l: "l = w @ [10]" and r: "r = drop (Suc (length w)) inp"
    using assms by (auto simp: read_line_def Let_def w_def split: if_splits)
  have ten: "inp ! length w = 10" using nth_length_takeWhile [of "\<lambda>b. b \<noteq> 10" inp] lt unfolding w_def by blast
  have w: "take (length w) inp = w" unfolding w_def by (simp flip: takeWhile_eq_take)
  have "l @ r = w @ inp ! length w # r" by (simp add: l ten)
  also have "\<dots> = inp" unfolding r using id_take_nth_drop [OF lt] w by argo
  finally show ?thesis using lt r by auto
qed

text \<open>The header loop: the trimmed value of the Host line (empty when there is none) and what is left.\<close>

function host_line :: "bytes \<Rightarrow> string \<times> bytes" where
  "host_line inp =
     (case read_line inp of
        None \<Rightarrow> ([], [])
      | Some (l, r) \<Rightarrow>
          (let trim = TrimSpace (string_of_bytes l) in
           if trim = [] then ([], r)
           else if has_prefix (ToLower trim) ''host:'' then (TrimSpace (drop 5 trim), r)
           else host_line r))"
  by pat_completeness auto
termination
  by (relation "measure length") (auto dest: read_line_shorter)

declare host_line.simps [simp del]

definition host_target :: "Config \<Rightarrow> string \<Rightarrow> string" where
  "host_target cfg hostLine =
     (let h = ToLower hostLine; host = (case SplitHostPort h of Some (x, _) \<Rightarrow> x | None \<Rightarrow> h) in
      case map_of (cfgHostRoutes cfg) host of Some t \<Rightarrow> t | None \<Rightarrow> cfgHTTPDefault cfg)"

definition matchHTTP :: "Config \<Rightarrow> nat \<Rightarrow> bytes \<Rightarrow> recReader \<Rightarrow> (string \<times> recReader) option" where
  "matchHTTP cfg over head rr =
     (if \<not> method_hit (cfgHTTPMethods cfg) head then None
      else let taken = (\<lambda>r. let n = length (rrRest rr) - length r + over in
                          \<lparr>rrBuf = rrBuf rr @ take n (rrRest rr), rrRest = drop n (rrRest rr)\<rparr>) in
        case read_line (rrRest rr) of
          None \<Rightarrow> Some (cfgHTTPDefault cfg, taken [])
        | Some (_, r) \<Rightarrow>
            (let (hostLine, r') = host_line r in Some (host_target cfg hostLine, taken r')))"

datatype dispatch_result = ConnClosed | Handoff string

definition queue_cap :: nat where
  "queue_cap = 16"

text \<open>
  \<^verbatim>\<open>handoff\<close>, at the moment its \<^verbatim>\<open>select\<close> is decided: the connection goes to the target's queue, or is
  closed when the queue is still full after ten seconds or neither target is known.
\<close>

definition handoff :: "Dispatcher \<Rightarrow> string \<Rightarrow> recReader \<Rightarrow> dispatch_result \<times> Dispatcher" where
  "handoff d targetName rr =
     (let name = (if map_of (diTargets d) targetName = None then cfgDefault (diCfg d) else targetName) in
      case map_of (diTargets d) name of
        None \<Rightarrow> (ConnClosed, d)
      | Some q \<Rightarrow>
          if length q < queue_cap
          then (Handoff name, d\<lparr>diTargets := AList.update name (q @ [newReplayConn (rrBuf rr) (rrRest rr)]) (diTargets d)\<rparr>)
          else (ConnClosed, d))"

text \<open>The choice of the target by \<^verbatim>\<open>dispatch\<close>, then the whole of it.\<close>

definition sniff_target :: "Config \<Rightarrow> nat \<Rightarrow> bytes \<Rightarrow> (string \<times> recReader) option" where
  "sniff_target cfg over stream =
     (case rec_read 3 \<lparr>rrBuf = [], rrRest = stream\<rparr> of
        None \<Rightarrow> None
      | Some (head, rr) \<Rightarrow>
          (case match_prefixes (cfgPrefixes cfg) head rr of
             PrefixEOF \<Rightarrow> None
           | PrefixHit t rr' \<Rightarrow> Some (t, rr')
           | PrefixMiss rr' \<Rightarrow>
               (case matchHTTP cfg over head rr' of
                  Some (t, rr'') \<Rightarrow> Some (t, rr'')
                | None \<Rightarrow> Some (cfgDefault cfg, rr'))))"

definition dispatch :: "nat \<Rightarrow> bytes \<Rightarrow> Dispatcher \<Rightarrow> dispatch_result \<times> Dispatcher" where
  "dispatch over stream d =
     (case sniff_target (diCfg d) over stream of
        None \<Rightarrow> (ConnClosed, d)
      | Some (t, rr) \<Rightarrow> handoff d t rr)"

section \<open>The replaying connection\<close>

text \<open>\<^verbatim>\<open>Read\<close> with a buffer of \<open>n\<close> bytes, when the underlying connection gives \<open>k\<close> bytes at most.\<close>

definition replay_Read :: "nat \<Rightarrow> nat \<Rightarrow> replayConn \<Rightarrow> bytes \<times> replayConn" where
  "replay_Read n k r =
     (if rpRead r < length (rpReplay r)
      then let d = take n (drop (rpRead r) (rpReplay r)) in (d, r\<lparr>rpRead := rpRead r + length d\<rparr>)
      else let d = take (min n k) (rpRest r) in (d, r\<lparr>rpRest := drop (length d) (rpRest r)\<rparr>))"

fun replay_reads :: "(nat \<times> nat) list \<Rightarrow> replayConn \<Rightarrow> bytes \<times> replayConn" where
  "replay_reads [] r = ([], r)"
| "replay_reads ((n, k) # ns) r =
     (let (d, r1) = replay_Read n k r; (ds, r2) = replay_reads ns r1 in (d @ ds, r2))"

definition unread :: "replayConn \<Rightarrow> bytes" where
  "unread r = drop (rpRead r) (rpReplay r) @ rpRest r"

section \<open>Lemmas\<close>

lemma take_len_drop: "d = take n xs \<Longrightarrow> d @ drop (length d) xs = xs"
  by (simp add: min_def)

lemma replay_Read_unread:
  assumes "replay_Read n k r = (d, r')"
  shows "unread r = d @ unread r'"
proof (cases "rpRead r < length (rpReplay r)")
  case True
  define x where "x = drop (rpRead r) (rpReplay r)"
  have d: "d = take n x" and r': "r' = r\<lparr>rpRead := rpRead r + length d\<rparr>"
    using assms True by (auto simp: replay_Read_def Let_def x_def)
  have "drop (rpRead r + length d) (rpReplay r) = drop (length d) x" by (simp add: x_def add.commute)
  then show ?thesis using take_len_drop [OF d] by (simp add: unread_def r' x_def [symmetric] flip: append_assoc)
next
  case False
  then have d: "d = take (min n k) (rpRest r)" and r': "r' = r\<lparr>rpRest := drop (length d) (rpRest r)\<rparr>"
    using assms by (auto simp: replay_Read_def Let_def)
  with False show ?thesis using take_len_drop [OF d] by (simp add: unread_def)
qed

lemma replay_reads_unread: "replay_reads ns r = (d, r') \<Longrightarrow> unread r = d @ unread r'"
proof (induction ns r arbitrary: d r' rule: replay_reads.induct)
  case (2 n k ns r)
  obtain a s where a: "replay_Read n k r = (a, s)" by fastforce
  obtain b u where b: "replay_reads ns s = (b, u)" by fastforce
  from 2 a b have "d = a @ b" "r' = u" by auto
  with replay_Read_unread [OF a] 2(1) [OF a [symmetric] refl] b show ?case by simp
qed (simp)

lemma rec_read_whole: "rec_read n rr = Some (a, rr') \<Longrightarrow> rrBuf rr' @ rrRest rr' = rrBuf rr @ rrRest rr"
  by (auto simp: rec_read_def read_full_def split: sum.splits if_splits)

lemma match_prefixes_whole:
  "match_prefixes ps head rr = PrefixHit t rr' \<or> match_prefixes ps head rr = PrefixMiss rr'
     \<Longrightarrow> rrBuf rr' @ rrRest rr' = rrBuf rr @ rrRest rr"
proof (induction ps head rr rule: match_prefixes.induct)
  case (2 p ps head rr)
  show ?case
  proof (cases "hexBytes (prPrefix p)")
    case None
    with 2 show ?thesis by simp
  next
    case (Some prefix)
    with 2 show ?thesis
      by (cases "rec_read (length prefix - length head) rr")
        (auto dest: rec_read_whole split: if_splits)
  qed
qed simp

lemma matchHTTP_whole: "matchHTTP cfg over head rr = Some (t, rr') \<Longrightarrow> rrBuf rr' @ rrRest rr' = rrBuf rr @ rrRest rr"
  by (auto simp: matchHTTP_def Let_def split: if_splits option.splits prod.splits)

lemmas prefix_hit_whole = match_prefixes_whole [OF disjI1]
lemmas prefix_miss_whole = match_prefixes_whole [OF disjI2]

lemma sniff_target_whole:
  assumes "sniff_target cfg over stream = Some (t, rr)"
  shows "rrBuf rr @ rrRest rr = stream"
  using assms
  by (fastforce simp: sniff_target_def dest: rec_read_whole prefix_hit_whole prefix_miss_whole matchHTTP_whole
      split: option.splits prefix_result.splits prod.splits)

text \<open>
  C11: sniffing is transparent to the chosen target. When a connection is handed over, it is
  appended to the queue of exactly one registered target, no other queue changes, and whoever reads
  from it, in pieces of any size, gets the bytes of the original stream in order and
  none missing, however much the prefix rules and the buffered HTTP reader had read.
\<close>

theorem sniff_transparent:
  assumes "dispatch over stream d = (Handoff t, d')"
  shows "\<exists>q c. map_of (diTargets d) t = Some q \<and> length q < queue_cap
      \<and> map_of (diTargets d') = (map_of (diTargets d))(t \<mapsto> q @ [c])
      \<and> (\<forall>ns got r. replay_reads ns c = (got, r) \<longrightarrow> stream = got @ unread r)"
proof -
  from assms obtain n rr where s: "sniff_target (diCfg d) over stream = Some (n, rr)" "handoff d n rr = (Handoff t, d')"
    by (auto simp: dispatch_def split: option.splits)
  then obtain q where q: "map_of (diTargets d) t = Some q" "length q < queue_cap"
      "d' = d\<lparr>diTargets := AList.update t (q @ [newReplayConn (rrBuf rr) (rrRest rr)]) (diTargets d)\<rparr>"
    by (auto simp: handoff_def Let_def split: option.splits if_splits)
  have "unread (newReplayConn (rrBuf rr) (rrRest rr)) = stream"
    using sniff_target_whole [OF s(1)] by (simp add: newReplayConn_def unread_def)
  with replay_reads_unread have "\<forall>ns got r. replay_reads ns (newReplayConn (rrBuf rr) (rrRest rr)) = (got, r) \<longrightarrow> stream = got @ unread r"
    by metis
  with q show ?thesis by (auto simp: AList.update_conv')
qed

section \<open>The documented rules\<close>

text \<open>The complete lines of a stream, and the Host header among those up to the empty line.\<close>

function full_lines :: "bytes \<Rightarrow> bytes list" where
  "full_lines inp = (case read_line inp of None \<Rightarrow> [] | Some (l, r) \<Rightarrow> l # full_lines r)"
  by pat_completeness auto
termination
  by (relation "measure length") (auto dest: read_line_shorter)

declare full_lines.simps [simp del]

definition header_lines :: "bytes list \<Rightarrow> string list" where
  "header_lines ls = takeWhile (\<lambda>l. l \<noteq> []) (map (\<lambda>l. TrimSpace (string_of_bytes l)) ls)"

definition http_host :: "string list \<Rightarrow> string" where
  "http_host hs = (case List.find (\<lambda>l. has_prefix (ToLower l) ''host:'') hs of Some l \<Rightarrow> TrimSpace (drop 5 l) | None \<Rightarrow> [])"

definition rule_bytes :: "PrefixRule \<Rightarrow> bytes" where
  "rule_bytes p = (case hexBytes (prPrefix p) of Some b \<Rightarrow> b | None \<Rightarrow> [])"

definition documented_target :: "Config \<Rightarrow> bytes \<Rightarrow> string" where
  "documented_target cfg stream =
     (case List.find (\<lambda>p. rule_bytes p \<noteq> [] \<and> has_prefix stream (rule_bytes p)) (cfgPrefixes cfg) of
        Some p \<Rightarrow> prTarget p
      | None \<Rightarrow>
          if method_hit (cfgHTTPMethods cfg) (take 3 stream) then
            (case full_lines (drop 3 stream) of
               [] \<Rightarrow> cfgHTTPDefault cfg
             | _ # ls \<Rightarrow> host_target cfg (http_host (header_lines ls)))
          else cfgDefault cfg)"

lemma host_line_headers: "fst (host_line inp) = http_host (header_lines (full_lines inp))"
proof (induction inp rule: host_line.induct)
  case (1 inp)
  show ?case
  proof (cases "read_line inp")
    case None
    then show ?thesis by (simp add: host_line.simps [of inp] full_lines.simps [of inp] header_lines_def http_host_def)
  next
    case (Some lr)
    then obtain l r where lr: "read_line inp = Some (l, r)" by (cases lr) auto
    from 1 [OF lr refl refl] show ?thesis
      by (simp add: host_line.simps [of inp] full_lines.simps [of inp] lr Let_def header_lines_def http_host_def)
  qed
qed

lemma match_prefixes_short:
  assumes "\<forall>p \<in> set ps. length (rule_bytes p) \<le> length head"
  shows "match_prefixes ps head rr =
    (case List.find (\<lambda>p. rule_bytes p \<noteq> [] \<and> has_prefix head (rule_bytes p)) ps of
       Some p \<Rightarrow> PrefixHit (prTarget p) rr | None \<Rightarrow> PrefixMiss rr)"
  using assms by (induction ps) (auto simp: rule_bytes_def split: option.splits)

lemma matchHTTP_target:
  "map_option fst (matchHTTP cfg over head rr) =
    (if method_hit (cfgHTTPMethods cfg) head then
       Some (case full_lines (rrRest rr) of [] \<Rightarrow> cfgHTTPDefault cfg | _ # ls \<Rightarrow> host_target cfg (http_host (header_lines ls)))
     else None)"
proof (cases "read_line (rrRest rr)")
  case None
  then show ?thesis by (simp add: matchHTTP_def full_lines.simps [of "rrRest rr"] Let_def)
next
  case (Some lr)
  obtain l r where lr: "lr = (l, r)" by fastforce
  show ?thesis using Some host_line_headers [of r]
    by (auto simp: matchHTTP_def full_lines.simps [of "rrRest rr"] Let_def lr split: prod.splits)
qed

text \<open>
  C33: the dispatcher follows the three documented rules. When no prefix rule is longer than
  the three bytes that are read first, the target it computes while reading is the one the rules
  give on the stream as a whole: the first prefix rule that matches, else for an HTTP method the
  route of the Host header (with the HTTP default when no line is complete or no route
  matches), else the default; a stream of fewer than three bytes has none.
\<close>

theorem sniff_equiv_rules:
  assumes short: "\<forall>p \<in> set (cfgPrefixes cfg). length (rule_bytes p) \<le> 3"
  shows "map_option fst (sniff_target cfg over stream) =
    (if length stream < 3 then None else Some (documented_target cfg stream))"
proof (cases "length stream < 3")
  case True
  then have "rec_read 3 \<lparr>rrBuf = [], rrRest = stream\<rparr> = None" by (auto simp: rec_read_def read_full_def)
  then show ?thesis using True by (simp add: sniff_target_def)
next
  case False
  define rr where "rr = \<lparr>rrBuf = take 3 stream, rrRest = drop 3 stream\<rparr>"
  have rd: "rec_read 3 \<lparr>rrBuf = [], rrRest = stream\<rparr> = Some (take 3 stream, rr)"
    using False by (simp add: rec_read_def read_full_def rr_def)
  have len: "length (take 3 stream) = 3" using False by simp
  have hp: "p \<in> set (cfgPrefixes cfg) \<Longrightarrow> has_prefix (take 3 stream) (rule_bytes p) = has_prefix stream (rule_bytes p)" for p
    using short has_prefix_take by blast
  have fc: "List.find (\<lambda>p. rule_bytes p \<noteq> [] \<and> has_prefix (take 3 stream) (rule_bytes p)) (cfgPrefixes cfg)
      = List.find (\<lambda>p. rule_bytes p \<noteq> [] \<and> has_prefix stream (rule_bytes p)) (cfgPrefixes cfg)"
    by (rule find_cong) (auto simp: hp)
  have mp: "match_prefixes (cfgPrefixes cfg) (take 3 stream) rr =
    (case List.find (\<lambda>p. rule_bytes p \<noteq> [] \<and> has_prefix stream (rule_bytes p)) (cfgPrefixes cfg) of
       Some p \<Rightarrow> PrefixHit (prTarget p) rr | None \<Rightarrow> PrefixMiss rr)"
    unfolding fc [symmetric] by (rule match_prefixes_short) (unfold len, rule short)
  have mh: "map_option fst (matchHTTP cfg over (take 3 stream) rr) =
    (if method_hit (cfgHTTPMethods cfg) (take 3 stream) then
       Some (case full_lines (drop 3 stream) of [] \<Rightarrow> cfgHTTPDefault cfg | _ # ls \<Rightarrow> host_target cfg (http_host (header_lines ls)))
     else None)"
    using matchHTTP_target [of cfg over "take 3 stream" rr] by (simp add: rr_def)
  show ?thesis using False mh
    by (cases "matchHTTP cfg over (take 3 stream) rr")
      (auto simp: sniff_target_def rd mp documented_target_def split: option.splits if_splits)
qed

section \<open>Registration and delivery\<close>

text \<open>A dispatcher from \<^verbatim>\<open>New\<close> knows every target its rules can give, so its default is always reachable.\<close>

lemma map_of_empty_queues: "map_of (map (\<lambda>n. (n, [])) ns) x = (if x \<in> set ns then Some [] else None)"
  by (induction ns) auto

lemma New_registers:
  assumes "New cfg = Some d"
  shows "map_of (diTargets d) t = (if t \<in> set (configured_targets cfg) \<and> t \<noteq> [] then Some [] else None)"
    and "map_of (diTargets d) (cfgDefault (diCfg d)) = Some []"
proof -
  define cfg' where "cfg' = (if cfgHTTPMethods cfg = [] then cfg\<lparr>cfgHTTPMethods := default_methods\<rparr> else cfg)"
  have eq: "configured_targets cfg' = configured_targets cfg" "cfgDefault cfg' = cfgDefault cfg"
    by (simp_all add: cfg'_def configured_targets_def)
  from assms have ne: "cfgDefault cfg \<noteq> []"
    and d: "d = \<lparr>diTargets = map (\<lambda>n. (n, [])) (remdups (filter (\<lambda>n. n \<noteq> []) (configured_targets cfg'))), diCfg = cfg', diDone = False\<rparr>"
    by (simp_all add: New_def Let_def cfg'_def split: if_splits)
  show t: "map_of (diTargets d) t = (if t \<in> set (configured_targets cfg) \<and> t \<noteq> [] then Some [] else None)" for t
    by (simp add: d eq map_of_empty_queues conj_commute)
  show "map_of (diTargets d) (cfgDefault (diCfg d)) = Some []"
    unfolding t by (simp add: d eq ne configured_targets_def)
qed

lemma handoff_default:
  assumes "map_of (diTargets d) (cfgDefault (diCfg d)) = Some q" "map_of (diTargets d) t = None" "length q < queue_cap"
  shows "fst (handoff d t rr) = Handoff (cfgDefault (diCfg d))"
  using assms by (simp add: handoff_def Let_def)

text \<open>While the dispatcher is open, a target's connections are accepted in the order they were handed over.\<close>

lemma accept_order:
  assumes "map_of (diTargets d) t = Some (c # q)" "\<not> diDone d"
  shows "fst (facade_Accept b t d) = Accepted c" "map_of (diTargets (snd (facade_Accept b t d))) t = Some q"
  using assms by (simp_all add: facade_Accept_def AList.update_conv')

section \<open>Concrete dispatchers\<close>

definition demo_cfg :: Config where
  "demo_cfg = \<lparr>cfgHTTPMethods = [], cfgHostRoutes = [(''a.b'', ''web'')], cfgHTTPDefault = ''http'',
     cfgPrefixes = [\<lparr>prPrefix = ''53 54'', prTarget = ''star''\<rparr>], cfgDefault = ''tls''\<rparr>"

definition demo_request :: bytes where
  "demo_request = bytes_of_string (''GET / HTTP/1.1'' @ [CHR 0x0D, CHR 0x0A] @ ''Host: A.B:80'' @ [CHR 0x0D, CHR 0x0A, CHR 0x0D, CHR 0x0A])"

definition demo_disp :: Dispatcher where
  "demo_disp = the (New demo_cfg)"

lemma sniff_transparent_witness:
  "\<exists>q c. map_of (diTargets demo_disp) ''web'' = Some q \<and> length q < queue_cap
      \<and> map_of (diTargets (snd (dispatch 2 demo_request demo_disp))) = (map_of (diTargets demo_disp))(''web'' \<mapsto> q @ [c])
      \<and> (\<forall>ns got r. replay_reads ns c = (got, r) \<longrightarrow> demo_request = got @ unread r)"
proof (rule sniff_transparent)
  have "fst (dispatch 2 demo_request demo_disp) = Handoff ''web''" by code_simp
  then show "dispatch 2 demo_request demo_disp = (Handoff ''web'', snd (dispatch 2 demo_request demo_disp))"
    by (metis prod.collapse)
qed

lemma sniff_equiv_rules_witness:
  "map_option fst (sniff_target (diCfg demo_disp) 0 demo_request) = Some ''web''"
proof -
  have "\<forall>p \<in> set (cfgPrefixes (diCfg demo_disp)). length (rule_bytes p) \<le> 3" by code_simp
  from sniff_equiv_rules [OF this, of 0 demo_request]
  have "map_option fst (sniff_target (diCfg demo_disp) 0 demo_request) =
    (if length demo_request < 3 then None else Some (documented_target (diCfg demo_disp) demo_request))" .
  also have "\<dots> = Some ''web''" by code_simp
  finally show ?thesis .
qed

text \<open>
  With two prefix rules of more than three bytes the rule order is not followed: the second
  is compared with the three first bytes and the bytes after those the first rule consumed, so a
  stream that begins with its prefix goes to the default target.
\<close>

lemma second_long_prefix_missed:
  "let cfg = \<lparr>cfgHTTPMethods = [''GET''], cfgHostRoutes = [], cfgHTTPDefault = [],
               cfgPrefixes = [\<lparr>prPrefix = ''01020304'', prTarget = ''one''\<rparr>, \<lparr>prPrefix = ''01020305'', prTarget = ''two''\<rparr>], cfgDefault = ''tls''\<rparr>;
       stream = [1, 2, 3, 5, 6, 7]
   in documented_target cfg stream = ''two'' \<and> map_option fst (sniff_target cfg 0 stream) = Some ''tls''"
  by code_simp

text \<open>An odd last digit of a prefix is dropped in silence, so the rule matches more than it says.\<close>

lemma odd_digit_dropped: "hexBytes ''53F'' = hexBytes ''53''"
  by code_simp

end
