(* ===== verification/Socks5.thy ===== *)
theory Socks5
  imports GoText
begin

text \<open>
  \<^verbatim>\<open>internal/star/plugin/socks5\<close>: the SOCKS5 server that the plugin chain offers. A connection is
  the bytes that can still be read from it, what has been written to it and how many more
  writes will succeed before it breaks; the addresses dialled and the bytes sent to the target are
  recorded beside it. The name resolver, the rule set, the rewriter, the credential store and the
  dialler are interfaces the configuration supplies: functions here. Contexts carry nothing
  and are left out; log lines too.
\<close>

section \<open>Connections and errors\<close>

datatype socks_error =
    ReadFailed ioerr
  | WriteFailed
  | UnsupportedVersion byte
  | UnsupportedAuthVersion byte
  | NoSupportedAuth
  | UserAuthFailed
  | UnsupportedCommandVersion byte
  | UnrecognizedAddrType
  | FormatAddress
  | ResolveFailed string
  | BlockedByRules
  | ConnectFailed string
  | UnsupportedCommand byte
  | CopyFailed ioerr

record sconn =
  scIn :: bytes
  scOut :: bytes
  scWrites :: nat
  scDials :: "string list"
  scUp :: bytes

type_synonym 'a io = "sconn \<Rightarrow> (socks_error + 'a) \<times> sconn"

definition io_return :: "'a \<Rightarrow> 'a io" where
  "io_return x c = (Inr x, c)"

definition io_fail :: "socks_error \<Rightarrow> 'a io" where
  "io_fail e c = (Inl e, c)"

definition io_bind :: "'a io \<Rightarrow> ('a \<Rightarrow> 'b io) \<Rightarrow> 'b io" where
  "io_bind f g c = (case f c of (Inl e, c') \<Rightarrow> (Inl e, c') | (Inr x, c') \<Rightarrow> g x c')"

text \<open>\<^verbatim>\<open>io.ReadAtLeast(r, buf, len(buf))\<close>, and \<^verbatim>\<open>r.Read\<close> with a buffer of one byte.\<close>

definition read_n :: "nat \<Rightarrow> bytes io" where
  "read_n n c =
     (case read_full n (scIn c) of
        Inl e \<Rightarrow> (Inl (ReadFailed e), c\<lparr>scIn := []\<rparr>)
      | Inr (a, r) \<Rightarrow> (Inr a, c\<lparr>scIn := r\<rparr>))"

definition read_byte :: "byte io" where
  "read_byte = io_bind (read_n 1) (\<lambda>b. io_return (hd b))"

definition write_all :: "bytes \<Rightarrow> unit io" where
  "write_all b c = (if scWrites c = 0 then (Inl WriteFailed, c)
                else (Inr (), c\<lparr>scOut := scOut c @ b, scWrites := scWrites c - 1\<rparr>))"

section \<open>Authentication\<close>

definition socks5Version :: byte where "socks5Version = 5"
definition NoAuth :: byte where "NoAuth = 0"
definition noAcceptable :: byte where "noAcceptable = 255"
definition UserPassAuth :: byte where "UserPassAuth = 2"
definition userAuthVersion :: byte where "userAuthVersion = 1"
definition authSuccess :: byte where "authSuccess = 0"
definition authFailure :: byte where "authFailure = 1"

lemmas auth_consts = socks5Version_def NoAuth_def noAcceptable_def UserPassAuth_def userAuthVersion_def
  authSuccess_def authFailure_def

record AuthContext =
  acMethod :: byte
  acPayload :: "(string \<times> string) list"

type_synonym CredentialStore = "string \<Rightarrow> string \<Rightarrow> bool"

definition StaticCredentials_Valid :: "(string \<times> string) list \<Rightarrow> CredentialStore" where
  "StaticCredentials_Valid s user password =
     (case map_of s user of None \<Rightarrow> False | Some pass \<Rightarrow> password = pass)"

datatype Authenticator = NoAuthAuthenticator | UserPassAuthenticator CredentialStore

fun GetCode :: "Authenticator \<Rightarrow> byte" where
  "GetCode NoAuthAuthenticator = NoAuth"
| "GetCode (UserPassAuthenticator _) = UserPassAuth"

definition NoAuth_Authenticate :: "AuthContext io" where
  "NoAuth_Authenticate =
     io_bind (write_all [socks5Version, NoAuth]) (\<lambda>_. io_return \<lparr>acMethod = NoAuth, acPayload = []\<rparr>)"

definition UserPass_Authenticate :: "CredentialStore \<Rightarrow> AuthContext io" where
  "UserPass_Authenticate creds =
     io_bind (write_all [socks5Version, UserPassAuth]) (\<lambda>_.
     io_bind (read_n 2) (\<lambda>header.
       if header ! 0 \<noteq> userAuthVersion then io_fail (UnsupportedAuthVersion (header ! 0))
       else
     io_bind (read_n (unat (header ! 1))) (\<lambda>user.
     io_bind read_byte (\<lambda>passLen.
     io_bind (read_n (unat passLen)) (\<lambda>pass.
       if creds (string_of_bytes user) (string_of_bytes pass)
       then io_bind (write_all [userAuthVersion, authSuccess]) (\<lambda>_.
              io_return \<lparr>acMethod = UserPassAuth, acPayload = [(''Username'', string_of_bytes user)]\<rparr>)
       else io_bind (write_all [userAuthVersion, authFailure]) (\<lambda>_. io_fail UserAuthFailed))))))"

fun Authenticate :: "Authenticator \<Rightarrow> AuthContext io" where
  "Authenticate NoAuthAuthenticator = NoAuth_Authenticate"
| "Authenticate (UserPassAuthenticator creds) = UserPass_Authenticate creds"

definition readMethods :: "bytes io" where
  "readMethods = io_bind read_byte (\<lambda>numMethods. read_n (unat numMethods))"

text \<open>The write error of \<^verbatim>\<open>noAcceptableAuth\<close> is ignored.\<close>

definition noAcceptableAuth :: "'a io" where
  "noAcceptableAuth c = (Inl NoSupportedAuth, snd (write_all [socks5Version, noAcceptable] c))"

fun select_method :: "(byte \<rightharpoonup> Authenticator) \<Rightarrow> bytes \<Rightarrow> Authenticator option" where
  "select_method authMethods [] = None"
| "select_method authMethods (m # ms) =
     (case authMethods m of Some a \<Rightarrow> Some a | None \<Rightarrow> select_method authMethods ms)"

definition authenticate :: "(byte \<rightharpoonup> Authenticator) \<Rightarrow> AuthContext io" where
  "authenticate authMethods =
     io_bind readMethods (\<lambda>methods.
       case select_method authMethods methods of
         Some cator \<Rightarrow> Authenticate cator
       | None \<Rightarrow> noAcceptableAuth)"

section \<open>Addresses\<close>

record AddrSpec =
  asFQDN :: string
  asIP :: bytes
  asPort :: int

definition AddrSpec_Address :: "AddrSpec \<Rightarrow> string" where
  "AddrSpec_Address a =
     (if asIP a \<noteq> [] then JoinHostPort (IP_String (asIP a)) (print_int (asPort a))
      else JoinHostPort (asFQDN a) (print_int (asPort a)))"

definition ipv4Address :: byte where "ipv4Address = 1"
definition fqdnAddress :: byte where "fqdnAddress = 3"
definition ipv6Address :: byte where "ipv6Address = 4"

lemmas addr_consts = ipv4Address_def fqdnAddress_def ipv6Address_def

text \<open>The address without its port, by its type.\<close>

definition read_host :: "byte \<Rightarrow> AddrSpec io" where
  "read_host addrType =
     (if addrType = ipv4Address then io_bind (read_n 4) (\<lambda>a. io_return \<lparr>asFQDN = [], asIP = a, asPort = 0\<rparr>)
      else if addrType = ipv6Address then io_bind (read_n 16) (\<lambda>a. io_return \<lparr>asFQDN = [], asIP = a, asPort = 0\<rparr>)
      else if addrType = fqdnAddress then
        io_bind read_byte (\<lambda>addrLen. io_bind (read_n (unat addrLen)) (\<lambda>fqdn.
          io_return \<lparr>asFQDN = string_of_bytes fqdn, asIP = [], asPort = 0\<rparr>))
      else io_fail UnrecognizedAddrType)"

definition readAddrSpec :: "AddrSpec io" where
  "readAddrSpec =
     io_bind read_byte (\<lambda>addrType.
     io_bind (read_host addrType) (\<lambda>d.
     io_bind (read_n 2) (\<lambda>port.
       io_return (d\<lparr>asPort := int (be_nat port)\<rparr>))))"

section \<open>Replies\<close>

definition successReply :: byte where "successReply = 0"
definition serverFailure :: byte where "serverFailure = 1"
definition ruleFailure :: byte where "ruleFailure = 2"
definition networkUnreachable :: byte where "networkUnreachable = 3"
definition hostUnreachable :: byte where "hostUnreachable = 4"
definition connectionRefused :: byte where "connectionRefused = 5"
definition ttlExpired :: byte where "ttlExpired = 6"
definition commandNotSupported :: byte where "commandNotSupported = 7"
definition addrTypeNotSupported :: byte where "addrTypeNotSupported = 8"

lemmas reply_consts = successReply_def serverFailure_def ruleFailure_def networkUnreachable_def hostUnreachable_def
  connectionRefused_def ttlExpired_def commandNotSupported_def addrTypeNotSupported_def

text \<open>Type, body and port of the address of a reply; none when the address has no form.\<close>

definition format_addr :: "AddrSpec option \<Rightarrow> (byte \<times> bytes \<times> u16) option" where
  "format_addr addr =
     (case addr of
        None \<Rightarrow> Some (ipv4Address, [0, 0, 0, 0], 0)
      | Some a \<Rightarrow>
          if asFQDN a \<noteq> [] then
            Some (fqdnAddress, word_of_nat (length (asFQDN a)) # bytes_of_string (asFQDN a), word_of_int (asPort a))
          else (case To4 (asIP a) of
             Some v4 \<Rightarrow> Some (ipv4Address, v4, word_of_int (asPort a))
           | None \<Rightarrow>
               (case To16 (asIP a) of
                  Some v6 \<Rightarrow> Some (ipv6Address, v6, word_of_int (asPort a))
                | None \<Rightarrow> None)))"

definition reply_msg :: "byte \<Rightarrow> byte \<times> bytes \<times> u16 \<Rightarrow> bytes" where
  "reply_msg resp f = (case f of (t, body, port) \<Rightarrow> [socks5Version, resp, 0, t] @ body @ be_bytes 2 (unat port))"

definition sendReply :: "byte \<Rightarrow> AddrSpec option \<Rightarrow> unit io" where
  "sendReply resp addr =
     (case format_addr addr of
        None \<Rightarrow> io_fail FormatAddress
      | Some f \<Rightarrow> write_all (reply_msg resp f))"

section \<open>Requests\<close>

definition ConnectCommand :: byte where "ConnectCommand = 1"
definition BindCommand :: byte where "BindCommand = 2"
definition AssociateCommand :: byte where "AssociateCommand = 3"

lemmas command_consts = ConnectCommand_def BindCommand_def AssociateCommand_def

record Request =
  rqVersion :: byte
  rqCommand :: byte
  rqAuthContext :: "AuthContext option"
  rqRemoteAddr :: "AddrSpec option"
  rqDestAddr :: AddrSpec
  rqRealDestAddr :: "AddrSpec option"

definition NewRequest :: "Request io" where
  "NewRequest =
     io_bind (read_n 3) (\<lambda>header.
       if header ! 0 \<noteq> socks5Version then io_fail (UnsupportedCommandVersion (header ! 0))
       else io_bind readAddrSpec (\<lambda>dest.
         io_return \<lparr>rqVersion = socks5Version, rqCommand = header ! 1, rqAuthContext = None,
                    rqRemoteAddr = None, rqDestAddr = dest, rqRealDestAddr = None\<rparr>))"

record PermitCommand =
  pcEnableConnect :: bool
  pcEnableBind :: bool
  pcEnableAssociate :: bool

definition PermitAll :: PermitCommand where
  "PermitAll = \<lparr>pcEnableConnect = True, pcEnableBind = True, pcEnableAssociate = True\<rparr>"

definition PermitNone :: PermitCommand where
  "PermitNone = \<lparr>pcEnableConnect = False, pcEnableBind = False, pcEnableAssociate = False\<rparr>"

definition PermitCommand_Allow :: "PermitCommand \<Rightarrow> Request \<Rightarrow> bool" where
  "PermitCommand_Allow p req =
     (if rqCommand req = ConnectCommand then pcEnableConnect p
      else if rqCommand req = BindCommand then pcEnableBind p
      else if rqCommand req = AssociateCommand then pcEnableAssociate p
      else False)"

section \<open>The server\<close>

record SocksConfig =
  cnAuthMethods :: "Authenticator list"
  cnCredentials :: "CredentialStore option"
  cnResolver :: "(string \<Rightarrow> bytes option) option"
  cnRules :: "(Request \<Rightarrow> bool) option"
  cnRewriter :: "(Request \<Rightarrow> AddrSpec) option"

record SocksServer =
  svAuthMethods :: "byte \<rightharpoonup> Authenticator"
  svResolver :: "string \<Rightarrow> bytes option"
  svRules :: "Request \<Rightarrow> bool"
  svRewriter :: "(Request \<Rightarrow> AddrSpec) option"

text \<open>\<^verbatim>\<open>New\<close>; \<open>system_dns\<close> is the default \<^verbatim>\<open>DNSResolver\<close>, the operating system's name service.\<close>

definition auth_methods :: "SocksConfig \<Rightarrow> Authenticator list" where
  "auth_methods conf =
     (if cnAuthMethods conf = []
      then (case cnCredentials conf of Some cr \<Rightarrow> [UserPassAuthenticator cr] | None \<Rightarrow> [NoAuthAuthenticator])
      else cnAuthMethods conf)"

definition socks_New :: "(string \<Rightarrow> bytes option) \<Rightarrow> SocksConfig \<Rightarrow> SocksServer" where
  "socks_New system_dns conf =
     \<lparr>svAuthMethods = fold (\<lambda>a m. m(GetCode a \<mapsto> a)) (auth_methods conf) Map.empty,
      svResolver = (case cnResolver conf of Some r \<Rightarrow> r | None \<Rightarrow> system_dns),
      svRules = (case cnRules conf of Some r \<Rightarrow> r | None \<Rightarrow> PermitCommand_Allow PermitAll),
      svRewriter = cnRewriter conf\<rparr>"

text \<open>
  What the two copying goroutines of \<^verbatim>\<open>handleConnect\<close> have done when it returns: how many bytes of
  the client went to the target, what came back, and the two values of \<^verbatim>\<open>errCh\<close> in the
  order they arrive.
\<close>

record copy_run =
  crUp :: nat
  crDown :: bytes
  crFirst :: "ioerr option"
  crSecond :: "ioerr option"

definition copy_loops :: "copy_run \<Rightarrow> unit io" where
  "copy_loops cr c =
     (let c' = c\<lparr>scUp := scUp c @ take (crUp cr) (scIn c), scIn := drop (crUp cr) (scIn c), scOut := scOut c @ crDown cr\<rparr> in
      case crFirst cr of
        Some e \<Rightarrow> (Inl (CopyFailed e), c')
      | None \<Rightarrow> (case crSecond cr of Some e \<Rightarrow> (Inl (CopyFailed e), c') | None \<Rightarrow> (Inr (), c')))"

text \<open>Dialling an address: the message of the error or the local address of the connection.\<close>

type_synonym dialler = "string \<Rightarrow> string + AddrSpec"

definition dial_addr :: "dialler \<Rightarrow> string \<Rightarrow> (string + AddrSpec) io" where
  "dial_addr dial addr c = (Inr (dial addr), c\<lparr>scDials := scDials c @ [addr]\<rparr>)"

definition dial_failure :: "string \<Rightarrow> byte" where
  "dial_failure msg =
     (if Contains msg ''refused'' then connectionRefused
      else if Contains msg ''network is unreachable'' then networkUnreachable
      else hostUnreachable)"

text \<open>\<open>real\<close> is \<^verbatim>\<open>req.realDestAddr\<close>, which \<^verbatim>\<open>handleRequest\<close> has set.\<close>

definition handleConnect :: "SocksServer \<Rightarrow> dialler \<Rightarrow> copy_run \<Rightarrow> Request \<Rightarrow> AddrSpec \<Rightarrow> unit io" where
  "handleConnect s dial cr req real =
     (if \<not> svRules s req then io_bind (sendReply ruleFailure None) (\<lambda>_. io_fail BlockedByRules)
      else io_bind (dial_addr dial (AddrSpec_Address real)) (\<lambda>target.
        case target of
          Inl msg \<Rightarrow> io_bind (sendReply (dial_failure msg) None) (\<lambda>_. io_fail (ConnectFailed msg))
        | Inr local \<Rightarrow>
            io_bind (sendReply successReply (Some \<lparr>asFQDN = [], asIP = asIP local, asPort = asPort local\<rparr>)) (\<lambda>_.
              copy_loops cr)))"

definition handleBind :: "SocksServer \<Rightarrow> Request \<Rightarrow> unit io" where
  "handleBind s req =
     (if \<not> svRules s req then io_bind (sendReply ruleFailure None) (\<lambda>_. io_fail BlockedByRules)
      else sendReply commandNotSupported None)"

definition handleAssociate :: "SocksServer \<Rightarrow> Request \<Rightarrow> unit io" where
  "handleAssociate s req =
     (if \<not> svRules s req then io_bind (sendReply ruleFailure None) (\<lambda>_. io_fail BlockedByRules)
      else sendReply commandNotSupported None)"

text \<open>The destination with its name resolved, and the address after the rewriter.\<close>

definition resolve_dest :: "SocksServer \<Rightarrow> Request \<Rightarrow> Request option" where
  "resolve_dest s req =
     (if asFQDN (rqDestAddr req) = [] then Some req
      else map_option (\<lambda>ip. req\<lparr>rqDestAddr := rqDestAddr req\<lparr>asIP := ip\<rparr>\<rparr>) (svResolver s (asFQDN (rqDestAddr req))))"

definition rewrite_dest :: "SocksServer \<Rightarrow> Request \<Rightarrow> Request" where
  "rewrite_dest s req =
     (let req1 = req\<lparr>rqRealDestAddr := Some (rqDestAddr req)\<rparr> in
      case svRewriter s of None \<Rightarrow> req1 | Some rw \<Rightarrow> req1\<lparr>rqRealDestAddr := Some (rw req1)\<rparr>)"

definition handleRequest :: "SocksServer \<Rightarrow> dialler \<Rightarrow> copy_run \<Rightarrow> Request \<Rightarrow> unit io" where
  "handleRequest s dial cr req0 =
     (case resolve_dest s req0 of
        None \<Rightarrow> io_bind (sendReply hostUnreachable None) (\<lambda>_. io_fail (ResolveFailed (asFQDN (rqDestAddr req0))))
      | Some req1 \<Rightarrow>
          (let req = rewrite_dest s req1 in
           if rqCommand req = ConnectCommand then handleConnect s dial cr req (the (rqRealDestAddr req))
           else if rqCommand req = BindCommand then handleBind s req
           else if rqCommand req = AssociateCommand then handleAssociate s req
           else io_bind (sendReply commandNotSupported None) (\<lambda>_. io_fail (UnsupportedCommand (rqCommand req)))))"

text \<open>\<^verbatim>\<open>NewRequest\<close> as \<^verbatim>\<open>ServeHandle\<close> calls it: an unknown address type is answered.\<close>

definition read_request :: "Request io" where
  "read_request c =
     (case NewRequest c of
        (Inl UnrecognizedAddrType, c') \<Rightarrow>
          io_bind (sendReply addrTypeNotSupported None) (\<lambda>_. io_fail UnrecognizedAddrType) c'
      | r \<Rightarrow> r)"

definition ServeHandle :: "SocksServer \<Rightarrow> dialler \<Rightarrow> copy_run \<Rightarrow> AddrSpec option \<Rightarrow> unit io" where
  "ServeHandle s dial cr remote =
     io_bind read_byte (\<lambda>version.
       if version \<noteq> socks5Version then io_fail (UnsupportedVersion version)
       else
     io_bind (authenticate (svAuthMethods s)) (\<lambda>authContext.
     io_bind read_request (\<lambda>request.
       handleRequest s dial cr (request\<lparr>rqAuthContext := Some authContext, rqRemoteAddr := remote\<rparr>))))"

text \<open>\<^verbatim>\<open>Socks5.ServeStar\<close>: the error and whether the connection is kept alive.\<close>

definition ServeStar :: "SocksServer \<Rightarrow> dialler \<Rightarrow> copy_run \<Rightarrow> AddrSpec option \<Rightarrow> sconn \<Rightarrow> (socks_error option \<times> bool) \<times> sconn" where
  "ServeStar s dial cr remote c =
     (case ServeHandle s dial cr remote c of
        (Inl e, c') \<Rightarrow> ((Some e, False), c')
      | (Inr _, c') \<Rightarrow> ((None, True), c'))"

text \<open>The server of the plugin's \<^verbatim>\<open>setup\<close>.\<close>

definition setup_server :: "(string \<Rightarrow> bytes option) \<Rightarrow> SocksServer" where
  "setup_server system_dns =
     socks_New system_dns \<lparr>cnAuthMethods = [], cnCredentials = None, cnResolver = None, cnRules = None, cnRewriter = None\<rparr>"

section \<open>Reading\<close>

lemma io_bind_Inr: "io_bind f g c = (Inr y, c') \<longleftrightarrow> (\<exists>x d. f c = (Inr x, d) \<and> g x d = (Inr y, c'))"
  by (auto simp: io_bind_def split: prod.splits sum.splits)

lemma io_bind_ok [simp]: "f c = (Inr x, d) \<Longrightarrow> io_bind f g c = g x d"
  by (simp add: io_bind_def)

lemma io_return_Inr [simp]: "io_return x c = (Inr y, c') \<longleftrightarrow> x = y \<and> c' = c"
  by (auto simp: io_return_def)

lemma io_fail_Inr [simp]: "io_fail e c \<noteq> (Inr y, c')"
  by (simp add: io_fail_def)

text \<open>A parser \<open>takes\<close> the bytes \<open>b\<close> when it reads exactly them and changes nothing else.\<close>

definition takes :: "bytes \<Rightarrow> sconn \<Rightarrow> sconn \<Rightarrow> bool" where
  "takes b c c' \<longleftrightarrow> scIn c = b @ scIn c' \<and> c' = c\<lparr>scIn := scIn c'\<rparr>"

lemma takes_trans [intro]: "takes a c d \<Longrightarrow> takes b d e \<Longrightarrow> takes (a @ b) c e"
  unfolding takes_def by (metis append_assoc sconn.surjective sconn.update_convs(1))

lemma takes_refl [simp]: "takes [] c c"
  by (simp add: takes_def)

lemma takes_step: "scIn c = b @ r \<Longrightarrow> takes b c (c\<lparr>scIn := r\<rparr>)"
  by (simp add: takes_def)

lemma takes_split: "takes (a @ b) c e \<Longrightarrow> \<exists>d. takes a c d \<and> takes b d e"
  by (rule exI [of _ "c\<lparr>scIn := b @ scIn e\<rparr>"]) (auto simp: takes_def)

lemma read_n_Inr: "read_n n c = (Inr a, c') \<longleftrightarrow> takes a c c' \<and> length a = n"
  by (auto simp: read_n_def read_full_Inr takes_def split: sum.splits)

lemma read_byte_Inr: "read_byte c = (Inr b, c') \<longleftrightarrow> takes [b] c c'"
  by (auto simp: read_byte_def io_bind_Inr read_n_Inr length_Suc_conv)

lemma takes_ex_append: "(\<exists>d. takes a c d \<and> takes b d e) \<longleftrightarrow> takes (a @ b) c e"
  using takes_split takes_trans by blast

text \<open>The form of an address on the wire.\<close>

definition wire_addr :: "AddrSpec \<Rightarrow> bytes \<Rightarrow> bool" where
  "wire_addr d b \<longleftrightarrow>
     0 \<le> asPort d \<and> asPort d < 65536 \<and>
     (asFQDN d = [] \<and> length (asIP d) = 4 \<and> b = (ipv4Address # asIP d) @ be_bytes 2 (nat (asPort d))
      \<or> asFQDN d = [] \<and> length (asIP d) = 16 \<and> b = (ipv6Address # asIP d) @ be_bytes 2 (nat (asPort d))
      \<or> asIP d = [] \<and> length (asFQDN d) < 256
         \<and> b = (fqdnAddress # word_of_nat (length (asFQDN d)) # bytes_of_string (asFQDN d)) @ be_bytes 2 (nat (asPort d)))"

lemma unat_len8 [simp]: "n < 256 \<Longrightarrow> unat (word_of_nat n :: byte) = n"
  by (simp add: unat_of_nat)

lemma unat_lt_256 [simp]: "unat (b :: byte) < 256"
  using unsigned_less [of b] by simp

definition host_wire :: "AddrSpec \<Rightarrow> bytes \<Rightarrow> bool" where
  "host_wire d b \<longleftrightarrow> asPort d = 0 \<and>
     (asFQDN d = [] \<and> length (asIP d) = 4 \<and> b = ipv4Address # asIP d
      \<or> asFQDN d = [] \<and> length (asIP d) = 16 \<and> b = ipv6Address # asIP d
      \<or> asIP d = [] \<and> length (asFQDN d) < 256 \<and> b = fqdnAddress # word_of_nat (length (asFQDN d)) # bytes_of_string (asFQDN d))"

lemma read_fqdn_Inr:
  "io_bind read_byte (\<lambda>n. io_bind (read_n (unat n)) (\<lambda>s. io_return \<lparr>asFQDN = string_of_bytes s, asIP = [], asPort = 0\<rparr>)) c = (Inr d, c')
    \<longleftrightarrow> asPort d = 0 \<and> asIP d = [] \<and> length (asFQDN d) < 256
        \<and> takes (word_of_nat (length (asFQDN d)) # bytes_of_string (asFQDN d)) c c'" (is "?l \<longleftrightarrow> ?r")
proof
  assume ?l
  then obtain n s e where n: "takes [n] c e" and s: "takes s e c'" "length s = unat n"
      and d: "d = \<lparr>asFQDN = string_of_bytes s, asIP = [], asPort = 0\<rparr>"
    by (auto simp: io_bind_Inr read_byte_Inr read_n_Inr)
  have "word_of_nat (length s) = n" by (simp add: s(2))
  with takes_trans [OF n s(1)] s(2) d show ?r by simp
next
  assume r: ?r
  then obtain e where "takes [word_of_nat (length (asFQDN d))] c e" "takes (bytes_of_string (asFQDN d)) e c'"
    using takes_split [of "[word_of_nat (length (asFQDN d))]" "bytes_of_string (asFQDN d)" c c'] by auto
  with r have "read_byte c = (Inr (word_of_nat (length (asFQDN d))), e)"
      "read_n (length (asFQDN d)) e = (Inr (bytes_of_string (asFQDN d)), c')"
    by (simp_all add: read_byte_Inr read_n_Inr)
  with r show ?l by (simp add: io_return_def)
qed

lemma read_ip_Inr:
  "io_bind (read_n n) (\<lambda>a. io_return \<lparr>asFQDN = [], asIP = a, asPort = 0\<rparr>) c = (Inr d, c')
    \<longleftrightarrow> asPort d = 0 \<and> asFQDN d = [] \<and> length (asIP d) = n \<and> takes (asIP d) c c'"
  by (cases d) (auto simp: io_bind_Inr read_n_Inr)

lemma takes_Cons: "a \<noteq> [] \<Longrightarrow> takes (t # a) c e \<longleftrightarrow> (\<exists>d. takes [t] c d \<and> takes a d e)"
  using takes_ex_append [of "[t]" c a e] by simp

lemma read_host_wire:
  assumes "takes [t] c e" "read_host t e = (Inr d, c')"
  shows "\<exists>b. host_wire d b \<and> takes b c c'"
proof -
  have tr: "takes b e c' \<Longrightarrow> takes (t # b) c c'" for b using takes_trans [OF assms(1)] by fastforce
  consider "t = ipv4Address" | "t = ipv6Address" | "t = fqdnAddress"
    using assms(2) by (auto simp: read_host_def split: if_splits)
  then show ?thesis
  proof cases
    case 1
    with assms(2) have "asPort d = 0" "asFQDN d = []" "length (asIP d) = 4" "takes (asIP d) e c'"
      by (simp_all add: read_host_def read_ip_Inr)
    with 1 tr show ?thesis by (auto simp: host_wire_def)
  next
    case 2
    with assms(2) have "asPort d = 0" "asFQDN d = []" "length (asIP d) = 16" "takes (asIP d) e c'"
      by (simp_all add: read_host_def read_ip_Inr addr_consts)
    with 2 tr show ?thesis by (auto simp: host_wire_def)
  next
    case 3
    with assms(2) have "asPort d = 0" "asIP d = []" "length (asFQDN d) < 256"
        "takes (word_of_nat (length (asFQDN d)) # bytes_of_string (asFQDN d)) e c'"
      by (simp_all add: read_host_def read_fqdn_Inr addr_consts)
    with 3 tr show ?thesis by (auto simp: host_wire_def)
  qed
qed

lemma wire_read_host:
  assumes "host_wire d b" "takes b c c'"
  shows "\<exists>t e. takes [t] c e \<and> read_host t e = (Inr d, c')"
proof -
  from assms(1) have ne: "tl b \<noteq> []" and b: "b = hd b # tl b" by (auto simp: host_wire_def)
  from assms(2) obtain e where e: "takes [hd b] c e" "takes (tl b) e c'"
    using takes_Cons [OF ne, of "hd b" c c'] b by metis
  from assms(1) e(2) have "read_host (hd b) e = (Inr d, c')"
    by (elim host_wire_def [THEN iffD1, elim_format] conjE disjE)
      (simp_all add: read_host_def read_ip_Inr read_fqdn_Inr addr_consts)
  with e(1) show ?thesis by blast
qed

lemma be_nat_two: "length p = 2 \<Longrightarrow> be_nat p < 65536"
  using be_nat_less [of p] by simp

lemma wire_addr_host:
  "wire_addr d b \<longleftrightarrow> (\<exists>h p. host_wire (d\<lparr>asPort := 0\<rparr>) h \<and> length p = 2 \<and> asPort d = int (be_nat p) \<and> b = h @ p)" (is "?l \<longleftrightarrow> ?r")
proof
  assume l: ?l
  then have "0 \<le> asPort d" "nat (asPort d) < 256 ^ 2" by (simp_all add: wire_addr_def nat_less_iff)
  then have "asPort d = int (be_nat (be_bytes 2 (nat (asPort d))))"
    by (subst be_nat_be_bytes_small) simp_all
  moreover have "host_wire (d\<lparr>asPort := 0\<rparr>) (take (length b - 2) b)" "b = take (length b - 2) b @ be_bytes 2 (nat (asPort d))"
    using l unfolding wire_addr_def host_wire_def by auto
  ultimately show ?r by (metis length_be_bytes)
next
  assume ?r
  then obtain h p where hp: "host_wire (d\<lparr>asPort := 0\<rparr>) h" "length p = 2" "asPort d = int (be_nat p)" "b = h @ p" by blast
  have "be_bytes 2 (nat (asPort d)) = p" using hp(2,3) by simp
  with hp be_nat_two [OF hp(2)] show ?l by (auto simp: wire_addr_def host_wire_def)
qed

lemma host_wire_port: "host_wire d h \<Longrightarrow> asPort d = 0"
  by (simp add: host_wire_def)

lemma readAddrSpec_takes: "readAddrSpec c = (Inr d, c') \<longleftrightarrow> (\<exists>b. wire_addr d b \<and> takes b c c')" (is "?l \<longleftrightarrow> ?r")
proof
  assume ?l
  then obtain t e h f p where 1: "takes [t] c e" "read_host t e = (Inr h, f)" "takes p f c'" "length p = 2"
      and d: "h\<lparr>asPort := int (be_nat p)\<rparr> = d"
    unfolding readAddrSpec_def io_bind_Inr read_byte_Inr read_n_Inr io_return_Inr by (elim exE conjE) simp
  obtain b where b: "host_wire h b" "takes b c f" using read_host_wire [OF 1(1,2)] by blast
  have "d\<lparr>asPort := 0\<rparr> = h" "asPort d = int (be_nat p)" using host_wire_port [OF b(1)] d by auto
  then have "wire_addr d (b @ p)" unfolding wire_addr_host using b(1) 1(4) by metis
  then show ?r using takes_trans [OF b(2) 1(3)] by blast
next
  assume ?r
  then obtain h p where h: "host_wire (d\<lparr>asPort := 0\<rparr>) h" "length p = 2" "asPort d = int (be_nat p)" "takes (h @ p) c c'"
    unfolding wire_addr_host by metis
  obtain f where f: "takes h c f" "takes p f c'" using takes_split [OF h(4)] by blast
  obtain t e where "takes [t] c e" "read_host t e = (Inr (d\<lparr>asPort := 0\<rparr>), f)" using wire_read_host [OF h(1) f(1)] by blast
  then have "read_byte c = (Inr t, e)" "read_host t e = (Inr (d\<lparr>asPort := 0\<rparr>), f)" "read_n 2 f = (Inr p, c')"
    using f(2) h(2) by (simp_all add: read_byte_Inr read_n_Inr)
  then show ?l by (simp add: readAddrSpec_def io_return_def flip: h(3))
qed

text \<open>
  The address parser accepts exactly the wire forms. \<^verbatim>\<open>readAddrSpec\<close> returns an address if
  and only if the input begins with the encoding of that address (a type byte, four or
  sixteen address bytes or a counted name, a big-endian port), and it consumes exactly those
  bytes and touches nothing else of the connection.
\<close>

theorem read_addr_exact:
  "readAddrSpec c = (Inr d, c') \<longleftrightarrow> (\<exists>b. wire_addr d b \<and> scIn c = b @ scIn c' \<and> c' = c\<lparr>scIn := scIn c'\<rparr>)"
  by (simp add: readAddrSpec_takes takes_def)

text \<open>A reply's address can be read back, a v4-mapped address as its four bytes.\<close>

definition canonical_addr :: "AddrSpec \<Rightarrow> AddrSpec" where
  "canonical_addr a =
     (if asFQDN a \<noteq> [] then a\<lparr>asIP := []\<rparr>
      else case To4 (asIP a) of Some v4 \<Rightarrow> a\<lparr>asIP := v4\<rparr> | None \<Rightarrow> a)"

lemma reply_addr_wire:
  assumes "format_addr (Some a) = Some f" "0 \<le> asPort a" "asPort a < 65536" "length (asFQDN a) < 256"
  shows "wire_addr (canonical_addr a) (drop 3 (reply_msg resp f))"
proof -
  have p: "unat (word_of_int (asPort a) :: u16) = nat (asPort a)"
    using assms(2,3) by (simp add: unsigned_of_int take_bit_int_eq_self)
  show ?thesis
  proof (cases "asFQDN a = []")
    case False
    with assms p show ?thesis by (auto simp: format_addr_def canonical_addr_def wire_addr_def reply_msg_def)
  next
    case True
    show ?thesis
    proof (cases "To4 (asIP a)")
      case None
      with True assms p show ?thesis
        by (auto simp: format_addr_def canonical_addr_def wire_addr_def reply_msg_def To4_def To16_def split: if_splits)
    next
      case (Some v4)
      then have "length v4 = 4" by (auto simp: To4_def split: if_splits)
      with True Some assms p show ?thesis
        by (auto simp: format_addr_def canonical_addr_def wire_addr_def reply_msg_def)
    qed
  qed
qed

section \<open>Nothing is dialled before it is allowed\<close>

text \<open>What the client must send for an authenticator, and the rest of its input.\<close>

fun credentials_given :: "Authenticator \<Rightarrow> bytes \<Rightarrow> bytes \<Rightarrow> bool" where
  "credentials_given NoAuthAuthenticator inp rest \<longleftrightarrow> inp = rest"
| "credentials_given (UserPassAuthenticator creds) inp rest \<longleftrightarrow>
     (\<exists>user pass. length user < 256 \<and> length pass < 256 \<and> creds (string_of_bytes user) (string_of_bytes pass)
        \<and> inp = [userAuthVersion, word_of_nat (length user)] @ user @ [word_of_nat (length pass)] @ pass @ rest)"

lemma write_all_Inr: "write_all b c = (Inr u, c') \<Longrightarrow> scIn c' = scIn c \<and> scDials c' = scDials c"
  by (auto simp: write_all_def split: if_splits)

lemma write_all_dials [simp]: "scDials (snd (write_all b c)) = scDials c"
  by (simp add: write_all_def)

lemma takes_in: "takes b c c' \<Longrightarrow> scIn c = b @ scIn c'"
  by (simp add: takes_def)

lemma Authenticate_Inr:
  assumes "Authenticate a c = (Inr ctx, c')"
  shows "credentials_given a (scIn c) (scIn c')"
proof (cases a)
  case NoAuthAuthenticator
  with assms show ?thesis by (auto simp: NoAuth_Authenticate_def io_bind_Inr dest: write_all_Inr)
next
  case (UserPassAuthenticator creds)
  from assms obtain c1 hd c2 user c3 n c4 pass c5 where
      r: "scIn c1 = scIn c" "takes hd c1 c2" "length hd = 2" "hd ! 0 = userAuthVersion"
      "takes user c2 c3" "length user = unat (hd ! 1)" "takes [n] c3 c4" "takes pass c4 c5" "length pass = unat n"
      "creds (string_of_bytes user) (string_of_bytes pass)" "scIn c' = scIn c5"
    unfolding UserPassAuthenticator Authenticate.simps UserPass_Authenticate_def
    by (auto simp: io_bind_Inr read_n_Inr read_byte_Inr split: if_splits dest!: write_all_Inr)
  from r(3,4) have hd: "hd = [userAuthVersion, hd ! 1]" by (auto simp: numeral_2_eq_2 length_Suc_conv)
  have ln: "word_of_nat (length user) = hd ! 1" "word_of_nat (length pass) = n" by (simp_all add: r(6,9))
  have "scIn c = hd @ user @ [n] @ pass @ scIn c'"
    using takes_in [OF r(2)] takes_in [OF r(5)] takes_in [OF r(7)] takes_in [OF r(8)] r(1,11) by simp
  then have "scIn c = [userAuthVersion, word_of_nat (length user)] @ user @ [word_of_nat (length pass)] @ pass @ scIn c'"
    unfolding ln using hd by simp
  moreover have "length user < 256" "length pass < 256" by (simp_all add: r(6,9))
  ultimately show ?thesis using r(10) unfolding UserPassAuthenticator credentials_given.simps by blast
qed

text \<open>Operations that never dial.\<close>

definition quiet :: "'a io \<Rightarrow> bool" where
  "quiet f \<longleftrightarrow> (\<forall>c. scDials (snd (f c)) = scDials c)"

lemma quietD: "quiet f \<Longrightarrow> f c = (r, c') \<Longrightarrow> scDials c' = scDials c"
  unfolding quiet_def by (metis snd_conv)

lemma quiet_bind [intro!]:
  assumes "quiet f" "\<And>x. quiet (g x)"
  shows "quiet (io_bind f g)"
  unfolding quiet_def
proof
  fix c
  show "scDials (snd (io_bind f g c)) = scDials c"
    using assms quietD [OF assms(1), of c] by (auto simp: io_bind_def quiet_def split: prod.splits sum.splits)
qed

lemma quiet_simps [simp]:
  "quiet (io_return x)" "quiet (io_fail e)" "quiet (read_n n)" "quiet (write_all b)" "quiet noAcceptableAuth"
  by (auto simp: quiet_def io_return_def io_fail_def read_n_def noAcceptableAuth_def split: sum.splits)

lemma quiet_read_byte [simp]: "quiet read_byte"
  by (auto simp: read_byte_def)

lemma quiet_sendReply [simp]: "quiet (sendReply r a)"
  by (auto simp: sendReply_def split: option.splits)

lemma quiet_authenticate [simp]: "quiet (authenticate m)"
proof -
  have "quiet (Authenticate a)" for a
    by (cases a) (auto simp: NoAuth_Authenticate_def UserPass_Authenticate_def)
  then show ?thesis by (auto simp: authenticate_def readMethods_def split: option.splits)
qed

lemma quiet_NewRequest [simp]: "quiet NewRequest"
  by (auto simp: NewRequest_def readAddrSpec_def read_host_def)

lemma quiet_read_request [simp]: "quiet read_request"
proof -
  have *: "quiet (io_bind (sendReply r None) (\<lambda>_. io_fail e :: Request io))" for r e by auto
  show ?thesis unfolding quiet_def
  proof
    fix c
    show "scDials (snd (read_request c)) = scDials c"
    proof (cases "NewRequest c")
      case (Pair r d)
      have d: "scDials d = scDials c" using quietD [OF quiet_NewRequest Pair] .
      have "scDials (snd (io_bind (sendReply addrTypeNotSupported None) (\<lambda>_. io_fail UnrecognizedAddrType :: Request io) d)) = scDials d"
        using * by (simp add: quiet_def)
      with d Pair show ?thesis by (auto simp: read_request_def split: sum.splits socks_error.splits)
    qed
  qed
qed

lemma authenticate_Inr:
  assumes "authenticate m c = (Inr ctx, c')"
  shows "\<exists>methods a r. length methods < 256 \<and> scIn c = word_of_nat (length methods) # methods @ r
      \<and> select_method m methods = Some a \<and> credentials_given a r (scIn c')"
proof -
  from assms obtain n c1 methods c2 a where r: "takes [n] c c1" "takes methods c1 c2" "length methods = unat n"
      "select_method m methods = Some a" "Authenticate a c2 = (Inr ctx, c')"
    by (auto simp: authenticate_def readMethods_def io_bind_Inr read_byte_Inr read_n_Inr noAcceptableAuth_def
        split: option.splits)
  have "length methods < 256" "word_of_nat (length methods) = n" by (simp_all add: r(3))
  moreover have "scIn c = n # methods @ scIn c2" using takes_in [OF r(1)] takes_in [OF r(2)] by simp
  ultimately show ?thesis using r(4) Authenticate_Inr [OF r(5)] by blast
qed

lemma read_request_Inr:
  assumes "read_request c = (Inr req, c')"
  shows "\<exists>rsv b. wire_addr (rqDestAddr req) b \<and> scIn c = [socks5Version, rqCommand req, rsv] @ b @ scIn c'"
proof -
  have "NewRequest c = (Inr req, c')"
    using assms by (auto simp: read_request_def io_bind_Inr split: prod.splits sum.splits socks_error.splits)
  then obtain h d dest where h: "takes h c d" "length h = 3" "h ! 0 = socks5Version" "readAddrSpec d = (Inr dest, c')"
      and req: "rqCommand req = h ! 1" "rqDestAddr req = dest"
    by (auto simp: NewRequest_def io_bind_Inr read_n_Inr split: if_splits)
  obtain b where b: "wire_addr dest b" "takes b d c'" using h(4) readAddrSpec_takes by blast
  have "h = [socks5Version, rqCommand req, h ! 2]"
    using h(2,3) req(1) by (auto simp: numeral_3_eq_3 length_Suc_conv numeral_2_eq_2)
  then have "scIn c = [socks5Version, rqCommand req, h ! 2] @ b @ scIn c'"
    using takes_in [OF h(1)] takes_in [OF b(2)] by metis
  with b(1) req(2) show ?thesis by blast
qed

lemma copy_loops_dials [simp]: "scDials (snd (copy_loops cr c)) = scDials c"
  by (auto simp: copy_loops_def Let_def split: option.splits)

lemma handleConnect_dials:
  "scDials (snd (handleConnect s dial cr req real c)) = scDials c @ (if svRules s req then [AddrSpec_Address real] else [])"
proof (cases "svRules s req")
  case False
  have "quiet (io_bind (sendReply ruleFailure None) (\<lambda>_. io_fail BlockedByRules :: unit io))" by auto
  with False show ?thesis by (simp add: handleConnect_def quiet_def)
next
  case True
  let ?d = "c\<lparr>scDials := scDials c @ [AddrSpec_Address real]\<rparr>"
  have "quiet (io_bind (sendReply r None) (\<lambda>_. io_fail e :: unit io))" for r e by auto
  moreover have "quiet (io_bind (sendReply successReply a) (\<lambda>_. copy_loops cr))" for a
    by (rule quiet_bind) (simp_all, simp add: quiet_def)
  ultimately show ?thesis using True
    by (simp add: handleConnect_def io_bind_ok [of "dial_addr dial _" _ _ ?d] dial_addr_def quiet_def split: sum.splits)
qed

text \<open>The request that \<^verbatim>\<open>handleRequest\<close> judges: resolved and rewritten.\<close>

definition judged :: "SocksServer \<Rightarrow> Request \<Rightarrow> Request option" where
  "judged s req = map_option (rewrite_dest s) (resolve_dest s req)"

lemma handleRequest_dials:
  assumes "scDials (snd (handleRequest s dial cr req c)) \<noteq> scDials c"
  shows "\<exists>j real. judged s req = Some j \<and> rqRealDestAddr j = Some real \<and> rqCommand req = ConnectCommand \<and> svRules s j
     \<and> scDials (snd (handleRequest s dial cr req c)) = scDials c @ [AddrSpec_Address real]"
proof -
  have q: "quiet (io_bind (sendReply r None) (\<lambda>_. io_fail e :: unit io))" for r e by auto
  then obtain r1 where r1: "resolve_dest s req = Some r1"
    using assms by (auto simp: handleRequest_def quiet_def split: option.splits)
  let ?j = "rewrite_dest s r1"
  have cmd: "rqCommand ?j = rqCommand req" using r1
    by (auto simp: rewrite_dest_def resolve_dest_def Let_def split: option.splits if_splits)
  obtain real where real: "rqRealDestAddr ?j = Some real"
    by (cases "svRewriter s") (auto simp: rewrite_dest_def Let_def)
  have qb: "quiet (handleBind s ?j)" "quiet (handleAssociate s ?j)"
    by (auto simp: handleBind_def handleAssociate_def)
  have c: "rqCommand req = ConnectCommand"
    using assms q qb by (auto simp: handleRequest_def r1 Let_def cmd quiet_def split: if_splits)
  then have "handleRequest s dial cr req c = handleConnect s dial cr ?j real c"
    by (simp add: handleRequest_def r1 Let_def cmd real)
  with handleConnect_dials [of s dial cr ?j real c] assms r1 real c show ?thesis
    by (auto simp: judged_def split: if_splits)
qed

text \<open>
  C10: nothing is dialled for a client that was not let in. When the server dials for a connection,
  the client spoke version 5 and offered a method the server has, gave that method's
  credentials (a user name and password that the store accepts), and sent a well-formed
  CONNECT request that, resolved and rewritten, the rules allow; exactly one address is dialled, the
  rewritten destination.
\<close>

theorem socks_dial_authorized:
  assumes "ServeHandle s dial cr remote c = (res, c')" "scDials c' \<noteq> scDials c"
  shows "\<exists>methods a r rest rsv b req j real.
      scIn c = [socks5Version, word_of_nat (length methods)] @ methods @ r \<and> length methods < 256
      \<and> select_method (svAuthMethods s) methods = Some a
      \<and> (\<exists>more. credentials_given a r ([socks5Version, ConnectCommand, rsv] @ b @ more))
      \<and> wire_addr (rqDestAddr req) b \<and> rqCommand req = ConnectCommand
      \<and> judged s req = Some j \<and> svRules s j \<and> rqRealDestAddr j = Some real
      \<and> scDials c' = scDials c @ [AddrSpec_Address real]"
proof -
  define body where "body = (\<lambda>request ctx. handleRequest s dial cr (request\<lparr>rqAuthContext := Some ctx, rqRemoteAddr := remote\<rparr>))"
  obtain v c1 where v: "read_byte c = (Inr v, c1)" "v = socks5Version"
  proof (cases "read_byte c")
    case (Pair x d)
    then show thesis using assms quietD [OF quiet_read_byte Pair] that
      by (cases x) (auto simp: ServeHandle_def io_bind_def io_fail_def split: if_splits)
  qed
  have s1: "ServeHandle s dial cr remote c =
      io_bind (authenticate (svAuthMethods s)) (\<lambda>ctx. io_bind read_request (\<lambda>request. body request ctx)) c1"
    using v by (simp add: ServeHandle_def body_def)
  have d1: "scDials c1 = scDials c" using quietD [OF quiet_read_byte v(1)] .
  obtain ctx c2 where au: "authenticate (svAuthMethods s) c1 = (Inr ctx, c2)"
  proof (cases "authenticate (svAuthMethods s) c1")
    case (Pair x d)
    then show thesis using assms s1 d1 quietD [OF quiet_authenticate Pair] that
      by (cases x) (auto simp: io_bind_def)
  qed
  have d2: "scDials c2 = scDials c" using quietD [OF quiet_authenticate au] d1 by simp
  obtain request c3 where rq: "read_request c2 = (Inr request, c3)"
  proof (cases "read_request c2")
    case (Pair x d)
    then show thesis using assms s1 au d2 quietD [OF quiet_read_request Pair] that
      by (cases x) (auto simp: io_bind_def)
  qed
  have d3: "scDials c3 = scDials c" using quietD [OF quiet_read_request rq] d2 by simp
  let ?req = "request\<lparr>rqAuthContext := Some ctx, rqRemoteAddr := remote\<rparr>"
  have "body request ctx c3 = (res, c')" using assms(1) s1 au rq by simp
  then have h: "snd (handleRequest s dial cr ?req c3) = c'" by (simp add: body_def)
  with handleRequest_dials [of s dial cr ?req c3] assms(2) d3 obtain j real where
    j: "judged s ?req = Some j" "rqRealDestAddr j = Some real" "rqCommand ?req = ConnectCommand" "svRules s j"
      "scDials c' = scDials c @ [AddrSpec_Address real]" by auto
  obtain rsv b where b: "wire_addr (rqDestAddr ?req) b" "scIn c2 = [socks5Version, ConnectCommand, rsv] @ b @ scIn c3"
    using read_request_Inr [OF rq] j(3) by auto
  obtain methods a r where m: "length methods < 256" "scIn c1 = word_of_nat (length methods) # methods @ r"
      "select_method (svAuthMethods s) methods = Some a" "credentials_given a r (scIn c2)"
    using authenticate_Inr [OF au] by blast
  have "takes [v] c c1" using v(1) read_byte_Inr by blast
  then have "scIn c = [socks5Version, word_of_nat (length methods)] @ methods @ r"
    using takes_in m(2) v(2) by fastforce
  then show ?thesis
    using m(1,3) m(4) [unfolded b(2)] b(1) j by blast
qed

lemma credentials_required:
  assumes "cnAuthMethods conf = []" "cnCredentials conf = Some creds"
    "select_method (svAuthMethods (socks_New dns conf)) methods = Some a"
  shows "a = UserPassAuthenticator creds"
proof -
  have "svAuthMethods (socks_New dns conf) = [UserPassAuth \<mapsto> UserPassAuthenticator creds]"
    using assms by (simp add: socks_New_def auth_methods_def)
  with assms(3) show ?thesis by (induction methods) (auto split: if_splits option.splits)
qed

section \<open>Every request is answered once\<close>

definition reply_spec :: "SocksServer \<Rightarrow> dialler \<Rightarrow> Request \<Rightarrow> byte \<times> AddrSpec option" where
  "reply_spec s dial req =
     (case judged s req of
        None \<Rightarrow> (hostUnreachable, None)
      | Some j \<Rightarrow>
          if rqCommand j \<notin> {ConnectCommand, BindCommand, AssociateCommand} then (commandNotSupported, None)
          else if \<not> svRules s j then (ruleFailure, None)
          else if rqCommand j \<noteq> ConnectCommand then (commandNotSupported, None)
          else case dial (AddrSpec_Address (the (rqRealDestAddr j))) of
                 Inl msg \<Rightarrow> (dial_failure msg, None)
               | Inr local \<Rightarrow> (successReply, Some \<lparr>asFQDN = [], asIP = asIP local, asPort = asPort local\<rparr>))"

lemma sendReply_out:
  assumes "scWrites c \<noteq> 0" "format_addr addr = Some f"
  shows "sendReply r addr c = (Inr (), c\<lparr>scOut := scOut c @ reply_msg r f, scWrites := scWrites c - 1\<rparr>)"
  using assms by (simp add: sendReply_def write_all_def)

lemma format_None [simp]: "format_addr None = Some (ipv4Address, [0, 0, 0, 0], 0)"
  by (simp add: format_addr_def)

text \<open>
  Every request is answered exactly once, with the code of its outcome. As long as the
  connection accepts the write, one reply is written: host unreachable when the name
  does not resolve, command not supported for BIND, ASSOCIATE and unknown commands, not allowed
  when the rules refuse, the code for the dial error, or success with the local address of the
  connection; the bytes of the target follow in the last case only.
\<close>

theorem socks_one_reply:
  assumes "scWrites c \<noteq> 0" "reply_spec s dial req = (code, addr)" "format_addr addr = Some f"
  shows "scOut (snd (handleRequest s dial cr req c)) =
      scOut c @ reply_msg code f @ (if code = successReply \<and> addr \<noteq> None then crDown cr else [])"
proof (cases "resolve_dest s req")
  case None
  with assms show ?thesis
    by (auto simp: handleRequest_def reply_spec_def judged_def sendReply_out io_bind_def io_fail_def)
next
  case (Some r1)
  let ?j = "rewrite_dest s r1"
  have j: "judged s req = Some ?j" using Some by (simp add: judged_def)
  show ?thesis
  proof (cases "rqCommand ?j = ConnectCommand \<and> svRules s ?j")
    case False
    with assms j show ?thesis
      by (auto simp: handleRequest_def Some Let_def reply_spec_def handleConnect_def handleBind_def handleAssociate_def
          sendReply_out io_bind_def io_fail_def split: if_splits)
  next
    case True
    let ?addr = "AddrSpec_Address (the (rqRealDestAddr ?j))"
    let ?c = "c\<lparr>scDials := scDials c @ [?addr]\<rparr>"
    have h: "handleRequest s dial cr req c = handleConnect s dial cr ?j (the (rqRealDestAddr ?j)) c"
      using True by (simp add: handleRequest_def Some Let_def)
    show ?thesis
    proof (cases "dial ?addr")
      case (Inl msg)
      with assms True j show ?thesis
        by (auto simp: h handleConnect_def reply_spec_def io_bind_def dial_addr_def sendReply_out io_fail_def)
    next
      case (Inr local)
      have "code = successReply" "addr = Some \<lparr>asFQDN = [], asIP = asIP local, asPort = asPort local\<rparr>"
        using assms(2) True j Inr by (simp_all add: reply_spec_def)
      with assms True Inr show ?thesis
        by (simp add: h handleConnect_def io_bind_def dial_addr_def sendReply_out copy_loops_def Let_def split: option.splits)
    qed
  qed
qed

section \<open>A concrete client\<close>

definition demo_server :: SocksServer where
  "demo_server = socks_New (\<lambda>_. None)
     \<lparr>cnAuthMethods = [], cnCredentials = Some (StaticCredentials_Valid [(''u'', ''p'')]), cnResolver = None, cnRules = None, cnRewriter = None\<rparr>"

definition demo_dial :: dialler where
  "demo_dial addr = (if addr = ''127.0.0.1:80'' then Inr \<lparr>asFQDN = [], asIP = [10, 0, 0, 1], asPort = 9\<rparr> else Inl ''connection refused'')"

definition demo_copy :: copy_run where
  "demo_copy = \<lparr>crUp = 0, crDown = [7], crFirst = None, crSecond = None\<rparr>"

definition demo_dest :: AddrSpec where
  "demo_dest = \<lparr>asFQDN = [], asIP = [127, 0, 0, 1], asPort = 80\<rparr>"

definition demo_client :: sconn where
  "demo_client = \<lparr>scIn = [5, 1, 2, 1, 1, 117, 1, 112, 5, 1, 0, 1, 127, 0, 0, 1, 0, 80],
     scOut = [], scWrites = 3, scDials = [], scUp = []\<rparr>"

definition demo_after :: sconn where
  "demo_after = snd (ServeHandle demo_server demo_dial demo_copy None demo_client)"

lemma socks_dial_authorized_witness:
  "\<exists>methods a r rest rsv b req j real.
      scIn demo_client = [socks5Version, word_of_nat (length methods)] @ methods @ r \<and> length methods < 256
      \<and> select_method (svAuthMethods demo_server) methods = Some a
      \<and> (\<exists>more. credentials_given a r ([socks5Version, ConnectCommand, rsv] @ b @ more))
      \<and> wire_addr (rqDestAddr req) b \<and> rqCommand req = ConnectCommand
      \<and> judged demo_server req = Some j \<and> svRules demo_server j \<and> rqRealDestAddr j = Some real
      \<and> scDials demo_after = scDials demo_client @ [AddrSpec_Address real]"
proof (rule socks_dial_authorized)
  show "ServeHandle demo_server demo_dial demo_copy None demo_client =
      (fst (ServeHandle demo_server demo_dial demo_copy None demo_client), demo_after)"
    by (simp add: demo_after_def)
  show "scDials demo_after \<noteq> scDials demo_client" by code_simp
qed

definition demo_connect :: Request where
  "demo_connect = \<lparr>rqVersion = 5, rqCommand = ConnectCommand, rqAuthContext = None, rqRemoteAddr = None,
     rqDestAddr = demo_dest, rqRealDestAddr = None\<rparr>"

lemma socks_one_reply_witness:
  "scOut (snd (handleRequest demo_server demo_dial demo_copy demo_connect demo_client)) =
      reply_msg successReply (ipv4Address, [10, 0, 0, 1], 9) @ [7]"
proof -
  have 1: "scWrites demo_client \<noteq> 0" by code_simp
  have 2: "reply_spec demo_server demo_dial demo_connect = (successReply, Some \<lparr>asFQDN = [], asIP = [10, 0, 0, 1], asPort = 9\<rparr>)"
    by code_simp
  have 3: "format_addr (Some \<lparr>asFQDN = [], asIP = [10, 0, 0, 1], asPort = 9\<rparr>) = Some (ipv4Address, [10, 0, 0, 1], 9)"
    by code_simp
  have "scOut demo_client = []" "crDown demo_copy = [7]" by (simp_all add: demo_client_def demo_copy_def)
  then show ?thesis using socks_one_reply [OF 1 2 3, of demo_copy] by simp
qed

text \<open>The server of the plugin's setup has no authentication and refuses no command by its rules.\<close>

lemma setup_open: "select_method (svAuthMethods (setup_server dns)) [NoAuth] = Some NoAuthAuthenticator"
    "rqCommand req \<in> {ConnectCommand, BindCommand, AssociateCommand} \<Longrightarrow> svRules (setup_server dns) req"
  by (auto simp: setup_server_def socks_New_def auth_methods_def PermitCommand_Allow_def PermitAll_def)

end
