(* ===== verification/Schema.thy ===== *)
theory Schema
  imports ProxyServer "HOL-Library.List_Lexorder" "HOL-Library.Char_ord" "HOL-Library.Multiset"
begin

text \<open>
  From a configuration file to running servers: the schema and its validation
  (\<^verbatim>\<open>config/schema.go\<close>), the translation into runtime parameters and the assembly of the servers
  (\<^verbatim>\<open>internal/star/starserver/register.go\<close>, \<^verbatim>\<open>config.go\<close>, \<^verbatim>\<open>NewServer\<close> of \<^verbatim>\<open>server.go\<close>) and the
  transport registry (\<^verbatim>\<open>internal/transport/transport.go\<close>). The YAML library is outside the
  repository: its two calls are parameters of \<open>Load\<close>, the top-level keys of a document and the
  decoded document. Go maps are association lists; where the code ranges over a map, the order
  is that of the list. Messages are given by their parts in ASCII.
\<close>

section \<open>The schema\<close>

record Credential =
  crdName :: string
  crdKeyPassword :: string
  crdStreams :: "string list"

record IngressExtra =
  ixAdminPassword :: string
  ixKeyPassword :: string
  ixCredentials :: "Credential list"
  ixTarget :: string
  ixInCodec :: string
  ixCertFile :: string
  ixKeyFile :: string
  ixDNSZones :: "(string \<times> (string \<times> string) list) list"
  ixDNSUpstreams :: "string list"

record IngressSpec =
  igName :: string
  igTransport :: string
  igAddr :: string
  igHandler :: string
  igSettings :: IngressExtra

record ServiceSpec =
  ssName :: string
  ssIngress :: "IngressSpec list"
  ssDialers :: "string list"

record HandlerSpec =
  hsName :: string
  hsPlugins :: "string list"

record LocalSpec =
  lsStream :: string
  lsAddr :: string

record DialerSpec =
  dsName :: string
  dsType :: string
  dsRole :: string
  dsTransport :: string
  dsAddr :: string
  dsIdentity :: string
  dsKeyPassword :: string
  dsLocals :: "LocalSpec list"

record RouteSpec =
  rsIngress :: string
  rsIdentity :: string
  rsTarget :: string
  rsTo :: string
  rsStreams :: "string list"

record Root =
  rtServices :: "ServiceSpec list"
  rtHandlers :: "HandlerSpec list"
  rtDialers :: "DialerSpec list"
  rtRoutes :: "RouteSpec list"

section \<open>Validation\<close>

datatype config_error =
    YamlFailed
  | LegacySchema "string list"
  | DecodeFailed
  | ServiceNameMissing
  | IngressFieldsMissing string
  | IngressDuplicate string
  | HandlerDuplicate string
  | DialerType string
  | DialerRole string
  | DialerFieldsMissing string
  | DialerDuplicate string
  | RouteUnknownDialer string

text \<open>The name table of \<^verbatim>\<open>validate\<close>: keys are prefixed by the kind of name.\<close>

fun check_ingress :: "string \<Rightarrow> IngressSpec list \<Rightarrow> string list \<Rightarrow> config_error + string list" where
  "check_ingress svc [] names = Inr names"
| "check_ingress svc (i # is) names =
     (if igName i = [] \<or> igAddr i = [] then Inl (IngressFieldsMissing svc)
      else if ''ingress:'' @ igName i \<in> set names then Inl (IngressDuplicate (igName i))
      else check_ingress svc is ((''ingress:'' @ igName i) # names))"

fun check_services :: "ServiceSpec list \<Rightarrow> string list \<Rightarrow> config_error + string list" where
  "check_services [] names = Inr names"
| "check_services (s # ss) names =
     (if ssName s = [] then Inl ServiceNameMissing
      else rbind (check_ingress (ssName s) (ssIngress s) names) (check_services ss))"

fun check_handlers :: "HandlerSpec list \<Rightarrow> string list \<Rightarrow> config_error + string list" where
  "check_handlers [] names = Inr names"
| "check_handlers (h # hs) names =
     (if ''handler:'' @ hsName h \<in> set names then Inl (HandlerDuplicate (hsName h))
      else check_handlers hs ((''handler:'' @ hsName h) # names))"

text \<open>The default role is assigned to the loop variable, a copy, and so only for the checks that follow.\<close>

definition check_dialer :: "DialerSpec \<Rightarrow> config_error option" where
  "check_dialer d0 =
     (if dsType d0 \<noteq> ''direct'' \<and> dsType d0 \<noteq> ''star'' then Some (DialerType (dsName d0))
      else if dsType d0 = ''star'' then
        (let d = (if dsRole d0 = [] then d0\<lparr>dsRole := ''inbound''\<rparr> else d0) in
         if dsRole d \<noteq> ''inbound'' \<and> dsRole d \<noteq> ''outbound'' then Some (DialerRole (dsName d))
         else if dsAddr d = [] \<or> dsIdentity d = [] \<or> dsKeyPassword d = [] then Some (DialerFieldsMissing (dsName d))
         else None)
      else None)"

fun check_dialers :: "DialerSpec list \<Rightarrow> string list \<Rightarrow> config_error + string list" where
  "check_dialers [] names = Inr names"
| "check_dialers (d # ds) names =
     (case check_dialer d of
        Some e \<Rightarrow> Inl e
      | None \<Rightarrow>
          if ''dialer:'' @ dsName d \<in> set names then Inl (DialerDuplicate (dsName d))
          else check_dialers ds ((''dialer:'' @ dsName d) # names))"

text \<open>A map filled in a loop: the last entry of a name wins.\<close>

definition by_name :: "('a \<Rightarrow> string) \<Rightarrow> 'a list \<Rightarrow> (string \<times> 'a) list" where
  "by_name f xs = fold (\<lambda>x m. AList.update (f x) x m) xs []"

fun check_routes :: "(string \<times> DialerSpec) list \<Rightarrow> RouteSpec list \<Rightarrow> config_error + unit" where
  "check_routes ds [] = Inr ()"
| "check_routes ds (r # rs) =
     (case map_of ds (rsTo r) of None \<Rightarrow> Inl (RouteUnknownDialer (rsTo r)) | Some _ \<Rightarrow> check_routes ds rs)"

definition validate :: "Root \<Rightarrow> config_error + unit" where
  "validate r =
     rbind (check_services (rtServices r) []) (\<lambda>names.
     rbind (check_handlers (rtHandlers r) names) (\<lambda>names.
     rbind (check_dialers (rtDialers r) names) (\<lambda>_.
       check_routes (by_name dsName (rtDialers r)) (rtRoutes r))))"

section \<open>Loading\<close>

text \<open>
  \<^verbatim>\<open>sortStrings\<close>: the inner loop moves the element at \<open>j\<close> down while it is smaller than the one
  before it, the outer loop does so for every index from 1.
\<close>

fun sift :: "nat \<Rightarrow> string list \<Rightarrow> string list" where
  "sift 0 s = s"
| "sift (Suc j) s =
     (if s ! Suc j < s ! j then sift j (s[Suc j := s ! j, j := s ! Suc j]) else s)"

definition sortStrings :: "string list \<Rightarrow> string list" where
  "sortStrings s = fold sift [1..<length s] s"

definition legacyKeys :: "(string \<times> string) list" where
  "legacyKeys =
     [(''listenerList'', ''service[].ingress''), (''handlerList'', ''handlers''),
      (''dailerList'', ''dialers''), (''bridgerList'', ''bridges'')]"

text \<open>\<open>legacy\<close> is \<^verbatim>\<open>legacyKeys\<close> in the order in which the map is ranged over.\<close>

definition legacy_lines :: "(string \<times> string) list \<Rightarrow> string list \<Rightarrow> string list" where
  "legacy_lines legacy keys =
     map (\<lambda>(k, hint). ''  '' @ k @ '' -> '' @ hint) (filter (\<lambda>(k, hint). k \<in> set keys) legacy)"

definition Load ::
    "('d \<Rightarrow> string list option) \<Rightarrow> ('d \<Rightarrow> Root option) \<Rightarrow> (string \<times> string) list \<Rightarrow> 'd \<Rightarrow> config_error + Root" where
  "Load yaml_keys yaml_root legacy data =
     (case yaml_keys data of
        None \<Rightarrow> Inl YamlFailed
      | Some keys \<Rightarrow>
          if legacy_lines legacy keys \<noteq> [] then Inl (LegacySchema (sortStrings (legacy_lines legacy keys)))
          else (case yaml_root data of
             None \<Rightarrow> Inl DecodeFailed
           | Some root \<Rightarrow> rbind (validate root) (\<lambda>_. Inr root)))"

section \<open>Runtime parameters\<close>

record ListenerList =
  llName :: string
  llType :: string
  llTransport :: string
  llAddr :: string
  llSettings :: Settings

record Listeners =
  lnListenerName :: string
  lnHandlerName :: string

record Service =
  svName :: string
  svType :: string
  svListeners :: "Listeners list"

record HandlerList =
  hlName :: string
  hlPlugins :: "string list"

text \<open>The fields of \<^verbatim>\<open>Config\<close> that \<^verbatim>\<open>buildRuntimeConfig\<close> fills.\<close>

record RuntimeConfig =
  rcService :: "Service list"
  rcListenerList :: "ListenerList list"
  rcHandlerList :: "HandlerList list"
  rcListenerMap :: "(string \<times> ListenerList) list"
  rcHandlerMap :: "(string \<times> HandlerList) list"
  rcRoutes :: "ConnectItem list"
  rcChainRoutes :: "ChainRoute list"
  rcDialerSpecs :: "(string \<times> DialerSpec) list"

definition serverType :: string where
  "serverType = ''star''"

definition client_proxies :: "Credential list \<Rightarrow> ClientProxy list" where
  "client_proxies cs =
     concat (map (\<lambda>cred. map (\<lambda>stream.
       \<lparr>cpClientProxyName = crdName cred, cpStreamId = stream, cpAddr = [], cpTransport = [],
        cpKeyPassword = crdKeyPassword cred\<rparr>) (crdStreams cred)) cs)"

definition listener_of :: "IngressSpec \<Rightarrow> ListenerList" where
  "listener_of ing =
     (let x = igSettings ing;
          tr = (if igTransport ing = [] then ''tcp'' else igTransport ing);
          st = no_settings\<lparr>setAdminPassword := ixAdminPassword x, setKeyPassword := ixKeyPassword x,
                 setCertFile := ixCertFile x, setKeyFile := ixKeyFile x, setTarget := ixTarget x,
                 setInCodec := ixInCodec x, setDNSZones := ixDNSZones x, setDNSUpstreams := ixDNSUpstreams x\<rparr>;
          ll = \<lparr>llName = igName ing, llType = [], llTransport = tr, llAddr = igAddr ing, llSettings = st\<rparr> in
      if igHandler ing = ''star'' then
        ll\<lparr>llType := ''ctrlproxy'', llSettings := st\<lparr>setClientProxy := client_proxies (ixCredentials x)\<rparr>\<rparr>
      else if igHandler ing = ''admin'' then ll\<lparr>llType := ''admin''\<rparr>
      else if igHandler ing = ''dns'' then ll\<lparr>llType := ''dns''\<rparr>
      else if igHandler ing = [] then ll\<lparr>llType := ''proxy'', llSettings := st\<lparr>setProxyName := igName ing\<rparr>\<rparr>
      else ll\<lparr>llType := ''tcp''\<rparr>)"

definition service_of :: "ServiceSpec \<Rightarrow> Service" where
  "service_of svc =
     \<lparr>svName = ssName svc, svType = serverType,
      svListeners = map (\<lambda>ing. \<lparr>lnListenerName = igName ing, lnHandlerName = igHandler ing\<rparr>) (ssIngress svc)\<rparr>"

definition all_ingress :: "Root \<Rightarrow> IngressSpec list" where
  "all_ingress root = concat (map ssIngress (rtServices root))"

text \<open>What one route adds to the connect rules and to the chain routes.\<close>

definition is_outbound :: "DialerSpec \<Rightarrow> bool" where
  "is_outbound d \<longleftrightarrow> dsType d = ''star'' \<and> dsRole d = ''outbound''"

definition route_streams :: "RouteSpec \<Rightarrow> string list" where
  "route_streams rt = (if rsStreams rt = [] then [[]] else rsStreams rt)"

definition route_rules :: "(string \<times> DialerSpec) list \<Rightarrow> RouteSpec \<Rightarrow> ConnectItem list" where
  "route_rules ds rt =
     (case map_of ds (rsTo rt) of
        None \<Rightarrow> []
      | Some d \<Rightarrow>
          if is_outbound d then []
          else map (\<lambda>stream. \<lparr>ciProxyName = rsIngress rt, ciBridgeName = [], ciClientProxyName = dsIdentity d, ciStreamId = stream\<rparr>)
                 (route_streams rt))"

definition route_chains :: "(string \<times> DialerSpec) list \<Rightarrow> RouteSpec \<Rightarrow> ChainRoute list" where
  "route_chains ds rt =
     (case map_of ds (rsTo rt) of
        None \<Rightarrow> []
      | Some d \<Rightarrow>
          if is_outbound d
          then map (\<lambda>stream. \<lparr>crProxyName = rsIngress rt, crDialer = dsName d, crIdentity = dsIdentity d, crStream = stream\<rparr>)
                 (route_streams rt)
          else [])"

definition buildRuntimeConfig :: "Root \<Rightarrow> RuntimeConfig" where
  "buildRuntimeConfig root =
     (let handlers = map (\<lambda>h. \<lparr>hlName = hsName h, hlPlugins = hsPlugins h\<rparr>) (rtHandlers root);
          listeners = map listener_of (all_ingress root);
          dialerByName = by_name dsName (rtDialers root) in
      \<lparr>rcService = map service_of (rtServices root),
       rcListenerList = listeners,
       rcHandlerList = handlers,
       rcListenerMap = by_name llName listeners,
       rcHandlerMap = by_name hlName handlers,
       rcRoutes = concat (map (route_rules dialerByName) (rtRoutes root)),
       rcChainRoutes = concat (map (route_chains dialerByName) (rtRoutes root)),
       rcDialerSpecs = dialerByName\<rparr>)"

section \<open>Transports\<close>

record Options =
  opCertFile :: string
  opKeyFile :: string
  opTLSSkipVerify :: bool
  opPath :: string

type_synonym 't transports = "(string \<times> (Options \<Rightarrow> string + 't)) list"

text \<open>\<^verbatim>\<open>Register\<close> panics on an empty or taken name: none.\<close>

definition transport_Register :: "string \<Rightarrow> (Options \<Rightarrow> string + 't) \<Rightarrow> 't transports \<Rightarrow> 't transports option" where
  "transport_Register name fn reg =
     (if name = [] then None
      else if map_of reg name \<noteq> None then None
      else Some (AList.update name fn reg))"

definition transport_Names :: "'t transports \<Rightarrow> string list" where
  "transport_Names reg = sort (map fst reg)"

definition transport_Build :: "'t transports \<Rightarrow> string \<Rightarrow> Options \<Rightarrow> string + 't" where
  "transport_Build reg name opts =
     (case map_of reg name of
        None \<Rightarrow> Inl (''transport: unknown transport '' @ go_quote name)
      | Some fn \<Rightarrow> fn opts)"

section \<open>Plugin chains\<close>

text \<open>
  The part of \<^verbatim>\<open>Config\<close> that plugins fill for one server block; a handler \<open>'h\<close> is whatever a
  plugin makes of the next one (none at the end of the chain).
\<close>

record 'h ZoneConfig =
  zcPlugin :: "('h option \<Rightarrow> 'h) list"
  zcPluginChain :: "'h option"
  zcRegistry :: "(string \<times> 'h) list option"

definition empty_zone :: "'h ZoneConfig" where
  "empty_zone = \<lparr>zcPlugin = [], zcPluginChain = None, zcRegistry = None\<rparr>"

definition AddPlugin :: "('h option \<Rightarrow> 'h) \<Rightarrow> 'h ZoneConfig \<Rightarrow> 'h ZoneConfig" where
  "AddPlugin m c = c\<lparr>zcPlugin := zcPlugin c @ [m]\<rparr>"

definition RegisterHandler :: "('h \<Rightarrow> string) \<Rightarrow> 'h \<Rightarrow> 'h ZoneConfig \<Rightarrow> 'h ZoneConfig" where
  "RegisterHandler name h c =
     (let r = (case zcRegistry c of None \<Rightarrow> [] | Some r \<Rightarrow> r) in c\<lparr>zcRegistry := Some (AList.update (name h) h r)\<rparr>)"

definition zone_Handler :: "string \<Rightarrow> 'h ZoneConfig \<Rightarrow> 'h option" where
  "zone_Handler name c = (case zcRegistry c of None \<Rightarrow> None | Some r \<Rightarrow> map_of r name)"

definition Directives :: "string list" where
  "Directives = [''socks5'']"

definition zone_Handlers :: "'h ZoneConfig \<Rightarrow> 'h list" where
  "zone_Handlers c = (case zcRegistry c of None \<Rightarrow> [] | Some _ \<Rightarrow> List.map_filter (\<lambda>k. zone_Handler k c) Directives)"

definition keyForConfig :: "string \<Rightarrow> string \<Rightarrow> string" where
  "keyForConfig network address = network @ ''://'' @ address"

text \<open>\<^verbatim>\<open>GetConfig\<close> of a controller: the zone of a block, created on first use.\<close>

definition zone_GetConfig :: "string \<Rightarrow> string \<Rightarrow> (string \<times> 'h ZoneConfig) list \<Rightarrow> 'h ZoneConfig \<times> (string \<times> 'h ZoneConfig) list" where
  "zone_GetConfig network address zones =
     (let key = keyForConfig network address in
      case map_of zones key of
        Some cfg \<Rightarrow> (cfg, zones)
      | None \<Rightarrow> (empty_zone, AList.update key empty_zone zones))"

definition findListenerSettings :: "RuntimeConfig \<Rightarrow> string \<Rightarrow> string \<Rightarrow> Settings" where
  "findListenerSettings cfg network addr =
     (case List.find (\<lambda>l. llAddr l = addr \<and> (llTransport l = network \<or> llType l = network)) (rcListenerList cfg) of
        Some l \<Rightarrow> llSettings l
      | None \<Rightarrow> no_settings)"

record 'h PluginServer =
  plName :: string
  plNet :: string
  plAddr :: string
  plZones :: "'h ZoneConfig"
  plOpts :: Options

text \<open>The loop of \<^verbatim>\<open>NewServer\<close> goes from the last plugin to the first.\<close>

definition plugin_stack :: "('h option \<Rightarrow> 'h) list \<Rightarrow> 'h option" where
  "plugin_stack ps = foldr (\<lambda>p stack. Some (p stack)) ps None"

definition NewServer :: "string \<Rightarrow> string \<Rightarrow> string \<Rightarrow> 'h ZoneConfig option \<Rightarrow> Options \<Rightarrow> 'h PluginServer option" where
  "NewServer serviceName transportName addr config tOpts =
     (case config of
        None \<Rightarrow> None
      | Some z \<Rightarrow> Some \<lparr>plName = serviceName, plNet = transportName, plAddr = addr,
                      plZones = z\<lparr>zcPluginChain := plugin_stack (zcPlugin z)\<rparr>, plOpts = tOpts\<rparr>)"

section \<open>Assembly\<close>

text \<open>
  The servers; \<open>PluginSrv None\<close> is the nil pointer that \<^verbatim>\<open>NewServer\<close> returns without an error and
  that is appended all the same.
\<close>

datatype 'h server =
    CtrlSrv string ListenerList
  | ProxySrv ProxyServer
  | DnsSrv string "(string \<times> (string \<times> string) list) list" "string list"
  | PluginSrv "'h PluginServer option"
  | AdminSrv string ListenerList "(string \<times> ListenerList) list" "string list"

record 'h assembly =
  amServers :: "'h server list"
  amCtrls :: "(string \<times> ListenerList) list"
  amApis :: "string list"
  amAdmins :: "ListenerList list"

datatype 'a asm_result = AsmPanic | AsmError string | AsmOk 'a

fun asm_bind :: "'a asm_result \<Rightarrow> ('a \<Rightarrow> 'b asm_result) \<Rightarrow> 'b asm_result" where
  "asm_bind AsmPanic f = AsmPanic"
| "asm_bind (AsmError e) f = AsmError e"
| "asm_bind (AsmOk x) f = f x"

text \<open>The chain routes of a proxy listener and the dialler specifications they use.\<close>

definition proxy_chains :: "RuntimeConfig \<Rightarrow> string \<Rightarrow> ChainRoute list" where
  "proxy_chains cfg name = filter (\<lambda>cr. crProxyName cr = name) (rcChainRoutes cfg)"

definition chain_specs :: "RuntimeConfig \<Rightarrow> ChainRoute list \<Rightarrow> string list" where
  "chain_specs cfg crs = remdups (filter (\<lambda>n. map_of (rcDialerSpecs cfg) n \<noteq> None) (map crDialer crs))"

definition make_listener ::
    "'t transports \<Rightarrow> (string \<times> Codec) list \<Rightarrow> (string \<times> 'h ZoneConfig) list \<Rightarrow> RuntimeConfig \<Rightarrow> string
     \<Rightarrow> ListenerList \<Rightarrow> 'h assembly \<Rightarrow> 'h assembly asm_result" where
  "make_listener transports codecs zones cfg srv listener a =
     (if llType listener = ''ctrlproxy'' then
        AsmOk (a\<lparr>amCtrls := amCtrls a @ [(srv, listener)], amServers := amServers a @ [CtrlSrv srv listener]\<rparr>)
      else if llType listener = ''proxy'' then
        (let crs = proxy_chains cfg (llName listener) in
         case NewProxyServer srv (llSettings listener) codecs crs (chain_specs cfg crs) of
           Inl e \<Rightarrow> AsmOk a
         | Inr p \<Rightarrow> AsmOk (a\<lparr>amServers := amServers a @ [ProxySrv p]\<rparr>))
      else if llType listener = ''admin'' then AsmOk (a\<lparr>amAdmins := amAdmins a @ [listener]\<rparr>)
      else if llType listener = ''dns'' then
        AsmOk (a\<lparr>amServers := amServers a @ [DnsSrv (llName listener) (setDNSZones (llSettings listener)) (setDNSUpstreams (llSettings listener))],
                 amApis := amApis a @ [llName listener]\<rparr>)
      else
        (let tOpts = \<lparr>opCertFile = setCertFile (llSettings listener), opKeyFile = setKeyFile (llSettings listener), opTLSSkipVerify = False, opPath = []\<rparr>;
             s = PluginSrv (NewServer srv (llTransport listener) (llAddr listener)
                   (map_of zones (llTransport listener @ ''://'' @ llAddr listener)) tOpts) in
         if llTransport listener \<noteq> ''udp'' then
           (case transport_Build transports (llTransport listener) tOpts of
              Inl e \<Rightarrow> AsmError e
            | Inr _ \<Rightarrow> AsmOk (a\<lparr>amServers := amServers a @ [s]\<rparr>))
         else AsmOk (a\<lparr>amServers := amServers a @ [s]\<rparr>)))"

text \<open>A listener name that the map does not have is a nil pointer, dereferenced at once.\<close>

fun make_listeners ::
    "'t transports \<Rightarrow> (string \<times> Codec) list \<Rightarrow> (string \<times> 'h ZoneConfig) list \<Rightarrow> RuntimeConfig \<Rightarrow> string
     \<Rightarrow> Listeners list \<Rightarrow> 'h assembly \<Rightarrow> 'h assembly asm_result" where
  "make_listeners transports codecs zones cfg srv [] a = AsmOk a"
| "make_listeners transports codecs zones cfg srv (ls # lss) a =
     (case map_of (rcListenerMap cfg) (lnListenerName ls) of
        None \<Rightarrow> AsmPanic
      | Some listener \<Rightarrow>
          asm_bind (make_listener transports codecs zones cfg srv listener a)
            (make_listeners transports codecs zones cfg srv lss))"

fun make_services ::
    "'t transports \<Rightarrow> (string \<times> Codec) list \<Rightarrow> (string \<times> 'h ZoneConfig) list \<Rightarrow> RuntimeConfig
     \<Rightarrow> Service list \<Rightarrow> 'h assembly \<Rightarrow> 'h assembly asm_result" where
  "make_services transports codecs zones cfg [] a = AsmOk a"
| "make_services transports codecs zones cfg (s # ss) a =
     (if svType s \<noteq> serverType then make_services transports codecs zones cfg ss a
      else asm_bind (make_listeners transports codecs zones cfg (svName s) (svListeners s) a)
             (make_services transports codecs zones cfg ss))"

definition makeServersForGroup ::
    "'t transports \<Rightarrow> (string \<times> Codec) list \<Rightarrow> (string \<times> 'h ZoneConfig) list \<Rightarrow> RuntimeConfig \<Rightarrow> Service list
     \<Rightarrow> (ConnectTable \<times> 'h server list) asm_result" where
  "makeServersForGroup transports codecs zones cfg srvs =
     asm_bind (make_services transports codecs zones cfg srvs \<lparr>amServers = [], amCtrls = [], amApis = [], amAdmins = []\<rparr>)
       (\<lambda>a. AsmOk (ConnectTable_Seed (rcRoutes cfg) NewConnectTable,
                   amServers a @ map (\<lambda>l. AdminSrv (llName l) l (amCtrls a) (amApis a)) (amAdmins a)))"

definition MakeServers ::
    "'t transports \<Rightarrow> (string \<times> Codec) list \<Rightarrow> (string \<times> 'h ZoneConfig) list \<Rightarrow> RuntimeConfig
     \<Rightarrow> (ConnectTable \<times> 'h server list) asm_result" where
  "MakeServers transports codecs zones cfg =
     (if rcService cfg = [] then AsmError ''service is empty''
      else makeServersForGroup transports codecs zones cfg (rcService cfg))"

definition BuildServersFromRoot :: "'t transports \<Rightarrow> (string \<times> Codec) list \<Rightarrow> Root \<Rightarrow> (ConnectTable \<times> 'h server list) asm_result" where
  "BuildServersFromRoot transports codecs root = MakeServers transports codecs [] (buildRuntimeConfig root)"

text \<open>
  \<^verbatim>\<open>listenTCP\<close>, by which the control and admin listeners listen; \<open>loads\<close> says whether a pair of
  certificate and key files can be loaded.
\<close>

datatype tcp_listener = PlainTCP string | TLSOverTCP string string string

definition listenTCP :: "(string \<Rightarrow> string \<Rightarrow> bool) \<Rightarrow> string \<Rightarrow> Settings \<Rightarrow> string + tcp_listener" where
  "listenTCP loads addr settings =
     (if \<not> setTLS settings then Inr (PlainTCP addr)
      else if \<not> loads (setCertFile settings) (setKeyFile settings) then Inl ''load tls cert''
      else Inr (TLSOverTCP addr (setCertFile settings) (setKeyFile settings)))"

text \<open>\<^verbatim>\<open>starContext.GetConfig\<close>: network, address and plugins of every listener; a missing name gives zero values.\<close>

record Host =
  hoNetwork :: string
  hoAddress :: string
  hoPlugin :: "string list"

definition ctx_GetConfig :: "RuntimeConfig \<Rightarrow> (string \<times> string \<times> Host list) list" where
  "ctx_GetConfig cfg =
     (let lm = by_name llName (rcListenerList cfg); hm = by_name hlName (rcHandlerList cfg) in
      map (\<lambda>s. (svName s, svType s,
        map (\<lambda>v. \<lparr>hoNetwork = (case map_of lm (lnListenerName v) of Some l \<Rightarrow> llTransport l | None \<Rightarrow> []),
                  hoAddress = (case map_of lm (lnListenerName v) of Some l \<Rightarrow> llAddr l | None \<Rightarrow> []),
                  hoPlugin = (case map_of hm (lnHandlerName v) of Some h \<Rightarrow> hlPlugins h | None \<Rightarrow> [])\<rparr>) (svListeners s)))
        (rcService cfg))"

section \<open>What validation guarantees\<close>

definition dialer_ok :: "DialerSpec \<Rightarrow> bool" where
  "dialer_ok d \<longleftrightarrow> dsType d = ''direct''
     \<or> dsType d = ''star'' \<and> dsRole d \<in> {[], ''inbound'', ''outbound''} \<and> dsAddr d \<noteq> [] \<and> dsIdentity d \<noteq> [] \<and> dsKeyPassword d \<noteq> []"

definition valid_root :: "Root \<Rightarrow> bool" where
  "valid_root r \<longleftrightarrow>
     (\<forall>s \<in> set (rtServices r). ssName s \<noteq> [])
     \<and> (\<forall>i \<in> set (all_ingress r). igName i \<noteq> [] \<and> igAddr i \<noteq> [])
     \<and> distinct (map igName (all_ingress r))
     \<and> distinct (map hsName (rtHandlers r))
     \<and> (\<forall>d \<in> set (rtDialers r). dialer_ok d) \<and> distinct (map dsName (rtDialers r))
     \<and> (\<forall>rt \<in> set (rtRoutes r). rsTo rt \<in> dsName ` set (rtDialers r))"

text \<open>The name table after a list of names of one kind was added to it.\<close>

definition add_names :: "string \<Rightarrow> string list \<Rightarrow> string list \<Rightarrow> string list" where
  "add_names kind ns names = rev (map (\<lambda>n. kind @ n) ns) @ names"

definition fresh_names :: "string \<Rightarrow> string list \<Rightarrow> string list \<Rightarrow> bool" where
  "fresh_names kind ns names \<longleftrightarrow> distinct ns \<and> (\<forall>n \<in> set ns. kind @ n \<notin> set names)"

lemma fresh_names_Cons:
  "fresh_names kind (n # ns) names \<longleftrightarrow> kind @ n \<notin> set names \<and> fresh_names kind ns ((kind @ n) # names)"
  by (auto simp: fresh_names_def)

lemma add_names_Cons: "add_names kind (n # ns) names = add_names kind ns ((kind @ n) # names)"
  by (simp add: add_names_def)

lemma fresh_names_append:
  "fresh_names kind (xs @ ys) names \<longleftrightarrow> fresh_names kind xs names \<and> fresh_names kind ys (add_names kind xs names)"
  by (auto simp: fresh_names_def add_names_def)

lemma add_names_append: "add_names kind (xs @ ys) names = add_names kind ys (add_names kind xs names)"
  by (simp add: add_names_def)

lemmas name_simps = fresh_names_Cons add_names_Cons fresh_names_append add_names_append

lemma name_nil [simp]: "fresh_names kind [] names" "add_names kind [] names = names"
  by (simp_all add: fresh_names_def add_names_def)

lemma check_ingress_Inr:
  "check_ingress svc is names = Inr names' \<longleftrightarrow>
     (\<forall>i \<in> set is. igName i \<noteq> [] \<and> igAddr i \<noteq> []) \<and> fresh_names ''ingress:'' (map igName is) names
     \<and> names' = add_names ''ingress:'' (map igName is) names"
  by (induction svc "is" names rule: check_ingress.induct) (auto simp: name_simps)

lemma check_services_Inr:
  "check_services ss names = Inr names' \<longleftrightarrow>
     (\<forall>s \<in> set ss. ssName s \<noteq> []) \<and> (\<forall>i \<in> set (concat (map ssIngress ss)). igName i \<noteq> [] \<and> igAddr i \<noteq> [])
     \<and> fresh_names ''ingress:'' (map igName (concat (map ssIngress ss))) names
     \<and> names' = add_names ''ingress:'' (map igName (concat (map ssIngress ss))) names"
proof (induction ss arbitrary: names)
  case (Cons s ss)
  have "check_services (s # ss) names = Inr names' \<longleftrightarrow>
      ssName s \<noteq> [] \<and> (\<exists>m. check_ingress (ssName s) (ssIngress s) names = Inr m \<and> check_services ss m = Inr names')"
    by (simp add: rbind_eq_Inr)
  then show ?case unfolding check_ingress_Inr Cons.IH by (auto simp: name_simps)
qed auto

lemma check_handlers_Inr:
  "check_handlers hs names = Inr names' \<longleftrightarrow>
     fresh_names ''handler:'' (map hsName hs) names \<and> names' = add_names ''handler:'' (map hsName hs) names"
  by (induction hs names rule: check_handlers.induct) (auto simp: name_simps)

lemma check_dialer_None: "check_dialer d = None \<longleftrightarrow> dialer_ok d"
  by (auto simp: check_dialer_def dialer_ok_def Let_def split: if_splits)

lemma check_dialers_Inr:
  "check_dialers ds names = Inr names' \<longleftrightarrow>
     (\<forall>d \<in> set ds. dialer_ok d) \<and> fresh_names ''dialer:'' (map dsName ds) names
     \<and> names' = add_names ''dialer:'' (map dsName ds) names"
proof (induction ds names rule: check_dialers.induct)
  case (2 d ds names)
  then show ?case by (cases "check_dialer d") (auto simp: name_simps check_dialer_None [symmetric])
qed auto

lemma by_name_dom: "fst ` set (by_name f xs) = f ` set xs"
proof -
  have "fst ` set (fold (\<lambda>x m. AList.update (f x) x m) xs m) = fst ` set m \<union> f ` set xs" for m
    by (induction xs arbitrary: m) (auto simp: dom_update)
  then show ?thesis by (simp add: by_name_def)
qed

lemma by_name_lookup:
  assumes "distinct (map f xs)" "x \<in> set xs"
  shows "map_of (by_name f xs) (f x) = Some x"
proof -
  have "f x \<notin> f ` set ys \<Longrightarrow> map_of (fold (\<lambda>x m. AList.update (f x) x m) ys m) (f x) = map_of m (f x)" for ys m
    by (induction ys arbitrary: m) (auto simp: AList.update_conv')
  moreover obtain as bs where "xs = as @ x # bs" using assms(2) split_list by metis
  ultimately show ?thesis using assms(1) by (simp add: by_name_def AList.update_conv')
qed

lemma check_routes_Inr: "check_routes ds rs = Inr () \<longleftrightarrow> (\<forall>r \<in> set rs. rsTo r \<in> fst ` set ds)"
proof (induction rs)
  case (Cons r rs)
  have "map_of ds (rsTo r) = None \<longleftrightarrow> rsTo r \<notin> fst ` set ds" by (rule map_of_eq_None_iff)
  then show ?case using Cons.IH by (cases "map_of ds (rsTo r)") simp_all
qed simp

lemma fresh_names_other:
  assumes "hd kind \<noteq> hd kind'" "kind \<noteq> []" "kind' \<noteq> []"
  shows "fresh_names kind ns (add_names kind' ms names) \<longleftrightarrow> fresh_names kind ns names"
proof -
  have "kind @ n \<noteq> kind' @ m" for n m using assms by (metis hd_append2)
  then show ?thesis by (auto simp: fresh_names_def add_names_def)
qed

text \<open>
  C28: \<^verbatim>\<open>validate\<close> accepts exactly the well-formed configurations: every service named, every ingress
  with name and address, ingress, handler and dialler names unique among their kind (the
  prefixes of the shared name table never collide), every dialler of a known type and, for a star
  dialler, with a known or empty role and its three fields, and every route to a declared dialler.
\<close>

theorem validate_exact: "validate r = Inr () \<longleftrightarrow> valid_root r"
proof -
  have pre: "hd ''handler:'' \<noteq> hd ''ingress:''" "hd ''dialer:'' \<noteq> hd ''handler:''" "hd ''dialer:'' \<noteq> hd ''ingress:''" by simp_all
  have fr: "fresh_names ''handler:'' ns (add_names ''ingress:'' ms names) = fresh_names ''handler:'' ns names"
    "fresh_names ''dialer:'' ns (add_names ''handler:'' ms names) = fresh_names ''dialer:'' ns names"
    "fresh_names ''dialer:'' ns (add_names ''ingress:'' ms names) = fresh_names ''dialer:'' ns names" for ns ms names
    by (rule fresh_names_other, simp_all)+
  have empty: "fresh_names k ns [] = distinct ns" for k ns by (simp add: fresh_names_def)
  show ?thesis
    unfolding validate_def rbind_eq_Inr check_services_Inr check_handlers_Inr check_dialers_Inr check_routes_Inr by_name_dom
    by (auto simp: fr empty valid_root_def all_ingress_def)
qed

section \<open>Loading is deterministic\<close>

lemma sorted_unique: "sorted xs \<Longrightarrow> sorted ys \<Longrightarrow> mset xs = mset ys \<Longrightarrow> xs = (ys :: 'a::linorder list)"
  by (metis properties_for_sort)

lemma insort_snoc:
  assumes "sorted (l @ [y])"
  shows "insort x (l @ [y]) = (if x < y then insort x l @ [y] else l @ [y, x])"
  by (rule sorted_unique)
    (use assms in \<open>auto simp: sorted_append sorted_insort set_insort_key\<close>)

lemma sift_insort:
  assumes "j < length s" "sorted (take j s)"
  shows "sift j s = insort (s ! j) (take j s) @ drop (Suc j) s"
  using assms
proof (induction j arbitrary: s)
  case 0
  then show ?case by (cases s) auto
next
  case (Suc j)
  have tk: "take (Suc j) s = take j s @ [s ! j]" using Suc.prems(1) by (simp add: take_Suc_conv_app_nth)
  let ?s = "s[Suc j := s ! j, j := s ! Suc j]"
  show ?case
  proof (cases "s ! Suc j < s ! j")
    case True
    have "sift (Suc j) s = sift j ?s" using True by simp
    also have "\<dots> = insort (?s ! j) (take j ?s) @ drop (Suc j) ?s"
      using Suc.prems tk by (intro Suc.IH) (auto simp: sorted_append)
    also have "drop (Suc j) ?s = s ! j # drop (Suc (Suc j)) s"
      using Suc.prems(1) by (simp add: Cons_nth_drop_Suc [symmetric] drop_update_swap)
    also have "take j ?s = take j s" using Suc.prems(1) by simp
    also have "?s ! j = s ! Suc j" using Suc.prems(1) by simp
    finally show ?thesis using insort_snoc [of "take j s" "s ! j" "s ! Suc j"] True Suc.prems(2) tk by simp
  next
    case False
    have "s = take (Suc j) s @ s ! Suc j # drop (Suc (Suc j)) s" using id_take_nth_drop [OF Suc.prems(1)] .
    with False show ?thesis using insort_snoc [of "take j s" "s ! j" "s ! Suc j"] Suc.prems(2) tk by simp
  qed
qed

lemma sift_prefix:
  assumes "1 \<le> length s" "n \<le> length s"
  shows "fold sift [1..<n] s = sort (take n s) @ drop n s"
  using assms(2)
proof (induction n)
  case (Suc n)
  show ?case
  proof (cases "n = 0")
    case True
    with assms show ?thesis by (cases s) auto
  next
    case False
    let ?t = "sort (take n s) @ drop n s"
    have "fold sift [1..<Suc n] s = sift n ?t" using False Suc by simp
    also have "\<dots> = insort (?t ! n) (take n ?t) @ drop (Suc n) ?t"
      using Suc.prems by (intro sift_insort) (auto simp: sorted_sort)
    also have "\<dots> = insort (s ! n) (sort (take n s)) @ drop (Suc n) s"
      using Suc.prems by (simp add: nth_append Cons_nth_drop_Suc [symmetric] min_def)
    also have "insort (s ! n) (sort (take n s)) = sort (take (Suc n) s)"
      by (rule sorted_unique) (use Suc.prems in \<open>simp_all add: take_Suc_conv_app_nth sorted_insort\<close>)
    finally show ?thesis .
  qed
qed (use assms in simp)

lemma sortStrings_sort: "sortStrings s = sort s"
  using sift_prefix [of s "length s"] by (cases s) (simp_all add: sortStrings_def)

text \<open>
  C0: \<^verbatim>\<open>sortStrings\<close> is a correct sort, so what \<^verbatim>\<open>Load\<close> reports does not depend on the order in
  which the map of old keys is traversed: for any two orders the outcome is the same, and a
  document with an old key is rejected with the complete, ordered list of what to migrate.
\<close>

theorem load_deterministic:
  assumes "mset legacy = mset legacyKeys" "yaml_keys data = Some keys"
  shows "Load yaml_keys yaml_root legacy data = Load yaml_keys yaml_root legacyKeys data
    \<and> ((\<exists>k \<in> fst ` set legacyKeys. k \<in> set keys) \<longrightarrow>
        (\<exists>ls. Load yaml_keys yaml_root legacy data = Inl (LegacySchema ls) \<and> sorted ls
           \<and> mset ls = mset (legacy_lines legacyKeys keys)))"
proof -
  have m: "mset (legacy_lines legacy keys) = mset (legacy_lines legacyKeys keys)"
    by (simp add: legacy_lines_def assms(1))
  then have ne: "legacy_lines legacy keys = [] \<longleftrightarrow> legacy_lines legacyKeys keys = []"
    by (metis mset_zero_iff)
  have so: "sortStrings (legacy_lines legacy keys) = sortStrings (legacy_lines legacyKeys keys)"
    unfolding sortStrings_sort using m by (metis properties_for_sort mset_sort sorted_sort)
  have ex: "(\<exists>k \<in> fst ` set legacyKeys. k \<in> set keys) \<Longrightarrow> legacy_lines legacyKeys keys \<noteq> []"
    by (auto simp: legacy_lines_def filter_empty_conv)
  show ?thesis
    using assms(2) ne so ex by (auto simp: Load_def sortStrings_sort)
qed

section \<open>What is assembled\<close>

text \<open>Every ingress with the name of its service, and whether its handler is one of the built-in ones.\<close>

definition service_ingress :: "Root \<Rightarrow> (string \<times> IngressSpec) list" where
  "service_ingress root = concat (map (\<lambda>s. map (\<lambda>i. (ssName s, i)) (ssIngress s)) (rtServices root))"

definition plugin_handled :: "IngressSpec \<Rightarrow> bool" where
  "plugin_handled ing \<longleftrightarrow> igHandler ing \<notin> {''star'', ''admin'', ''dns'', []}"

definition ingress_opts :: "IngressSpec \<Rightarrow> Options" where
  "ingress_opts ing = \<lparr>opCertFile = ixCertFile (igSettings ing), opKeyFile = ixKeyFile (igSettings ing), opTLSSkipVerify = False, opPath = []\<rparr>"

definition transport_of :: "IngressSpec \<Rightarrow> string" where
  "transport_of ing = (if igTransport ing = [] then ''tcp'' else igTransport ing)"

definition buildable :: "'t transports \<Rightarrow> IngressSpec \<Rightarrow> bool" where
  "buildable transports ing \<longleftrightarrow> plugin_handled ing \<and> transport_of ing \<noteq> ''udp''
     \<longrightarrow> is_ok (transport_Build transports (transport_of ing) (ingress_opts ing))"

text \<open>The servers of one ingress, the admin listeners apart.\<close>

definition servers_of ::
    "(string \<times> Codec) list \<Rightarrow> (string \<times> 'h ZoneConfig) list \<Rightarrow> RuntimeConfig \<Rightarrow> string \<Rightarrow> IngressSpec \<Rightarrow> 'h server list" where
  "servers_of codecs zones cfg srv ing =
     (if igHandler ing = ''star'' then [CtrlSrv srv (listener_of ing)]
      else if igHandler ing = ''admin'' then []
      else if igHandler ing = ''dns'' then [DnsSrv (igName ing) (ixDNSZones (igSettings ing)) (ixDNSUpstreams (igSettings ing))]
      else if igHandler ing = [] then
        (let crs = proxy_chains cfg (igName ing) in
         case NewProxyServer srv (llSettings (listener_of ing)) codecs crs (chain_specs cfg crs) of
           Inl _ \<Rightarrow> [] | Inr p \<Rightarrow> [ProxySrv p])
      else [PluginSrv (NewServer srv (transport_of ing) (igAddr ing)
              (map_of zones (transport_of ing @ ''://'' @ igAddr ing)) (ingress_opts ing))])"

definition place :: "(string \<times> Codec) list \<Rightarrow> (string \<times> 'h ZoneConfig) list \<Rightarrow> RuntimeConfig \<Rightarrow> string \<times> IngressSpec \<Rightarrow> 'h assembly \<Rightarrow> 'h assembly" where
  "place codecs zones cfg x a = (case x of (srv, ing) \<Rightarrow>
     \<lparr>amServers = amServers a @ servers_of codecs zones cfg srv ing,
      amCtrls = amCtrls a @ (if igHandler ing = ''star'' then [(srv, listener_of ing)] else []),
      amApis = amApis a @ (if igHandler ing = ''dns'' then [igName ing] else []),
      amAdmins = amAdmins a @ (if igHandler ing = ''admin'' then [listener_of ing] else [])\<rparr>)"

lemma listener_of_simps [simp]:
  "llName (listener_of ing) = igName ing" "llTransport (listener_of ing) = transport_of ing" "llAddr (listener_of ing) = igAddr ing"
  "setCertFile (llSettings (listener_of ing)) = ixCertFile (igSettings ing)"
  "setKeyFile (llSettings (listener_of ing)) = ixKeyFile (igSettings ing)"
  "setDNSZones (llSettings (listener_of ing)) = ixDNSZones (igSettings ing)"
  "setDNSUpstreams (llSettings (listener_of ing)) = ixDNSUpstreams (igSettings ing)"
  by (simp_all add: listener_of_def transport_of_def Let_def no_settings_def)

lemma listener_of_type:
  "llType (listener_of ing) =
     (if igHandler ing = ''star'' then ''ctrlproxy'' else if igHandler ing = ''admin'' then ''admin''
      else if igHandler ing = ''dns'' then ''dns'' else if igHandler ing = [] then ''proxy'' else ''tcp'')"
  by (simp add: listener_of_def Let_def)

lemma make_listener_place:
  fixes transports :: "'t transports" and zones :: "(string \<times> 'h ZoneConfig) list"
  shows "make_listener transports codecs zones cfg srv (listener_of ing) a \<noteq> AsmPanic"
    and "buildable transports ing \<Longrightarrow>
      make_listener transports codecs zones cfg srv (listener_of ing) a = AsmOk (place codecs zones cfg (srv, ing) a)"
proof -
  consider "igHandler ing = ''star''" | "igHandler ing = ''admin''" | "igHandler ing = ''dns''" | "igHandler ing = []" | "plugin_handled ing"
    by (auto simp: plugin_handled_def)
  then have "make_listener transports codecs zones cfg srv (listener_of ing) a \<noteq> AsmPanic \<and>
     (buildable transports ing \<longrightarrow>
      make_listener transports codecs zones cfg srv (listener_of ing) a = AsmOk (place codecs zones cfg (srv, ing) a))"
  proof cases
    case 1
    then show ?thesis by (simp add: make_listener_def listener_of_type place_def servers_of_def)
  next
    case 2
    then show ?thesis by (simp add: make_listener_def listener_of_type place_def servers_of_def)
  next
    case 3
    then show ?thesis by (simp add: make_listener_def listener_of_type place_def servers_of_def)
  next
    case 4
    then show ?thesis by (simp add: make_listener_def listener_of_type place_def servers_of_def Let_def split: sum.splits)
  next
    case 5
    then have h: "igHandler ing \<noteq> ''star''" "igHandler ing \<noteq> ''admin''" "igHandler ing \<noteq> ''dns''" "igHandler ing \<noteq> []"
      by (simp_all add: plugin_handled_def)
    show ?thesis
      by (cases "transport_Build transports (transport_of ing) (ingress_opts ing)")
        (simp_all add: make_listener_def listener_of_type h place_def servers_of_def Let_def buildable_def 5 flip: ingress_opts_def)
  qed
  then show "make_listener transports codecs zones cfg srv (listener_of ing) a \<noteq> AsmPanic"
    "buildable transports ing \<Longrightarrow>
      make_listener transports codecs zones cfg srv (listener_of ing) a = AsmOk (place codecs zones cfg (srv, ing) a)"
    by blast+
qed

lemma listener_lookup:
  assumes "valid_root root" "ing \<in> set (all_ingress root)"
  shows "map_of (rcListenerMap (buildRuntimeConfig root)) (igName ing) = Some (listener_of ing)"
proof -
  have "distinct (map llName (map listener_of (all_ingress root)))" using assms(1) by (simp add: valid_root_def comp_def)
  moreover have "listener_of ing \<in> set (map listener_of (all_ingress root))" using assms(2) by simp
  ultimately have "map_of (by_name llName (map listener_of (all_ingress root))) (llName (listener_of ing)) = Some (listener_of ing)"
    by (rule by_name_lookup)
  then show ?thesis by (simp add: buildRuntimeConfig_def Let_def)
qed

lemma make_listeners_place:
  assumes "\<forall>ing \<in> set is. map_of (rcListenerMap cfg) (igName ing) = Some (listener_of ing)"
  shows "make_listeners transports codecs zones cfg srv (map (\<lambda>ing. \<lparr>lnListenerName = igName ing, lnHandlerName = igHandler ing\<rparr>) is) a \<noteq> AsmPanic
    \<and> ((\<forall>ing \<in> set is. buildable transports ing) \<longrightarrow>
        make_listeners transports codecs zones cfg srv (map (\<lambda>ing. \<lparr>lnListenerName = igName ing, lnHandlerName = igHandler ing\<rparr>) is) a
        = AsmOk (fold (place codecs zones cfg) (map (\<lambda>i. (srv, i)) is) a))"
  using assms
proof (induction "is" arbitrary: a)
  case (Cons i "is")
  have np: "make_listener transports codecs zones cfg srv (listener_of i) a \<noteq> AsmPanic" by (rule make_listener_place(1))
  show ?case
  proof (cases "make_listener transports codecs zones cfg srv (listener_of i) a")
    case AsmPanic
    with np show ?thesis by simp
  next
    case (AsmError e)
    with make_listener_place(2) [of transports i codecs zones cfg srv a] Cons.prems show ?thesis by auto
  next
    case (AsmOk b)
    with make_listener_place(2) [of transports i codecs zones cfg srv a] Cons show ?thesis by auto
  qed
qed simp

lemma make_services_place:
  assumes "\<forall>s \<in> set ss. \<forall>ing \<in> set (ssIngress s). map_of (rcListenerMap cfg) (igName ing) = Some (listener_of ing)"
  shows "make_services transports codecs zones cfg (map service_of ss) a \<noteq> AsmPanic
    \<and> ((\<forall>s \<in> set ss. \<forall>ing \<in> set (ssIngress s). buildable transports ing) \<longrightarrow>
        make_services transports codecs zones cfg (map service_of ss) a
        = AsmOk (fold (place codecs zones cfg) (concat (map (\<lambda>s. map (\<lambda>i. (ssName s, i)) (ssIngress s)) ss)) a))"
  using assms
proof (induction ss arbitrary: a)
  case (Cons s ss)
  have l: "make_services transports codecs zones cfg (map service_of (s # ss)) a =
      asm_bind (make_listeners transports codecs zones cfg (ssName s)
        (map (\<lambda>ing. \<lparr>lnListenerName = igName ing, lnHandlerName = igHandler ing\<rparr>) (ssIngress s)) a)
        (make_services transports codecs zones cfg (map service_of ss))"
    by (simp add: service_of_def)
  have p: "\<forall>ing \<in> set (ssIngress s). map_of (rcListenerMap cfg) (igName ing) = Some (listener_of ing)" using Cons.prems by simp
  show ?case unfolding l
    by (cases "make_listeners transports codecs zones cfg (ssName s)
        (map (\<lambda>ing. \<lparr>lnListenerName = igName ing, lnHandlerName = igHandler ing\<rparr>) (ssIngress s)) a")
      (use make_listeners_place [OF p, of transports codecs zones "ssName s" a] Cons in auto)
qed simp

lemma fold_place:
  "fold (place codecs zones cfg) xs a =
    \<lparr>amServers = amServers a @ concat (map (\<lambda>(srv, ing). servers_of codecs zones cfg srv ing) xs),
     amCtrls = amCtrls a @ map (\<lambda>(srv, ing). (srv, listener_of ing)) (filter (\<lambda>(srv, ing). igHandler ing = ''star'') xs),
     amApis = amApis a @ map (\<lambda>(srv, ing). igName ing) (filter (\<lambda>(srv, ing). igHandler ing = ''dns'') xs),
     amAdmins = amAdmins a @ map (\<lambda>(srv, ing). listener_of ing) (filter (\<lambda>(srv, ing). igHandler ing = ''admin'') xs)\<rparr>"
  by (induction xs arbitrary: a) (auto simp: place_def)


section \<open>Routes\<close>

lemma Seed_For:
  "(\<exists>r \<in> set (For p (ConnectTable_Seed rs t)). ciProxyName r = p \<and> ciClientProxyName r = c \<and> ciStreamId r = s)
   \<longleftrightarrow> (\<exists>r \<in> set (For p t). ciProxyName r = p \<and> ciClientProxyName r = c \<and> ciStreamId r = s)
     \<or> (\<exists>r \<in> set rs. ciProxyName r = p \<and> ciClientProxyName r = c \<and> ciStreamId r = s)"
proof (induction rs arbitrary: t)
  case (Cons r rs)
  define dup where "dup \<longleftrightarrow> (\<exists>x \<in> set (For (ciProxyName r) t). sameConnectRule x r)"
  define t' where "t' = (if dup then t else AList.update (ciProxyName r) (For (ciProxyName r) t @ [r]) t)"
  have "(\<exists>x \<in> set (For p t'). ciProxyName x = p \<and> ciClientProxyName x = c \<and> ciStreamId x = s) \<longleftrightarrow>
      (\<exists>x \<in> set (For p t). ciProxyName x = p \<and> ciClientProxyName x = c \<and> ciStreamId x = s)
      \<or> ciProxyName r = p \<and> ciClientProxyName r = c \<and> ciStreamId r = s"
  proof (cases dup)
    case True
    then show ?thesis by (auto simp: t'_def dup_def sameConnectRule_def)
  next
    case False
    have "For p t' = For p t @ (if ciProxyName r = p then [r] else [])"
      using False by (simp add: t'_def For_def AList.update_conv')
    then show ?thesis by auto
  qed
  moreover have "ConnectTable_Seed (r # rs) t = ConnectTable_Seed rs t'" by (simp add: t'_def dup_def Let_def)
  ultimately show ?case using Cons.IH [of t'] by auto
qed simp

lemma dialer_lookup:
  assumes "valid_root root"
  shows "map_of (by_name dsName (rtDialers root)) n = Some d \<longleftrightarrow> d \<in> set (rtDialers root) \<and> dsName d = n"
proof
  have dist: "distinct (map dsName (rtDialers root))" using assms by (simp add: valid_root_def)
  assume l: "map_of (by_name dsName (rtDialers root)) n = Some d"
  then have "n \<in> dsName ` set (rtDialers root)" using by_name_dom [of dsName "rtDialers root"] map_of_SomeD by (metis fst_conv rev_image_eqI)
  then obtain e where "e \<in> set (rtDialers root)" "dsName e = n" by blast
  with by_name_lookup [OF dist this(1)] l show "d \<in> set (rtDialers root) \<and> dsName d = n" by simp
next
  assume "d \<in> set (rtDialers root) \<and> dsName d = n"
  then show "map_of (by_name dsName (rtDialers root)) n = Some d"
    using by_name_lookup [of dsName "rtDialers root" d] assms by (simp add: valid_root_def)
qed

lemma ex_dialer:
  assumes "valid_root root"
  shows "(\<exists>d \<in> set (rtDialers root). n = dsName d \<and> P d) \<longleftrightarrow>
    (case map_of (by_name dsName (rtDialers root)) n of None \<Rightarrow> False | Some d \<Rightarrow> P d)"
proof -
  have "(\<exists>d \<in> set (rtDialers root). n = dsName d \<and> P d) \<longleftrightarrow> (\<exists>d. map_of (by_name dsName (rtDialers root)) n = Some d \<and> P d)"
    unfolding dialer_lookup [OF assms] by blast
  then show ?thesis by (auto split: option.splits)
qed


section \<open>A concrete configuration\<close>

definition no_extra :: IngressExtra where
  "no_extra = \<lparr>ixAdminPassword = [], ixKeyPassword = [], ixCredentials = [], ixTarget = [], ixInCodec = [],
     ixCertFile = [], ixKeyFile = [], ixDNSZones = [], ixDNSUpstreams = []\<rparr>"

definition demo_ingress :: "string \<Rightarrow> string \<Rightarrow> IngressSpec" where
  "demo_ingress name handler = \<lparr>igName = name, igTransport = [], igAddr = '':1'', igHandler = handler, igSettings = no_extra\<rparr>"

definition demo_dialer :: DialerSpec where
  "demo_dialer = \<lparr>dsName = ''d'', dsType = ''star'', dsRole = [], dsTransport = [], dsAddr = '':2'', dsIdentity = ''home'',
     dsKeyPassword = ''k'', dsLocals = []\<rparr>"

definition demo_route :: RouteSpec where
  "demo_route = \<lparr>rsIngress = ''web'', rsIdentity = [], rsTarget = [], rsTo = ''d'', rsStreams = [''ssh'']\<rparr>"

definition demo_root :: Root where
  "demo_root = \<lparr>rtServices = [\<lparr>ssName = ''s'', ssIngress = [demo_ingress ''adm'' ''admin'', demo_ingress ''ctl'' ''star'', demo_ingress ''web'' []], ssDialers = []\<rparr>],
     rtHandlers = [], rtDialers = [demo_dialer], rtRoutes = [demo_route]\<rparr>"

lemma demo_root_valid: "validate demo_root = Inr ()"
  by code_simp

lemma load_deterministic_witness:
  "Load (\<lambda>_. Some [''handlerList'']) (\<lambda>_. None) (rev legacyKeys) () = Load (\<lambda>_. Some [''handlerList'']) (\<lambda>_. None) legacyKeys ()"
  by (rule load_deterministic [where keys = "[''handlerList'']", THEN conjunct1]) simp_all



section \<open>Surprises\<close>

text \<open>
  The control and admin listeners never use TLS: no configuration sets the flag that \<^verbatim>\<open>listenTCP\<close>
  asks for, so even an ingress declared with transport \<^verbatim>\<open>tls\<close> and certificates listens in the clear.
\<close>

lemma tls_never_enabled: "listenTCP loads (igAddr ing) (llSettings (listener_of ing)) = Inr (PlainTCP (igAddr ing))"
  by (simp add: listenTCP_def listener_of_def Let_def no_settings_def)

text \<open>A credential that lists no stream grants nothing: its password is not among those accepted.\<close>

lemma credential_without_streams:
  assumes "igHandler ing = ''star''" "\<forall>c \<in> set (ixCredentials (igSettings ing)). crdStreams c = []"
    "ixKeyPassword (igSettings ing) = []"
  shows "creds (llSettings (listener_of ing)) = []"
proof -
  have "client_proxies (ixCredentials (igSettings ing)) = []" using assms(2) by (simp add: client_proxies_def)
  with assms show ?thesis by (simp add: creds_def listener_of_def Let_def no_settings_def)
qed

text \<open>The identity and target of a route are read but have no effect.\<close>

lemma route_match_fields_ignored:
  "buildRuntimeConfig (root\<lparr>rtRoutes := map (\<lambda>r. r\<lparr>rsIdentity := f r, rsTarget := g r\<rparr>) (rtRoutes root)\<rparr>) = buildRuntimeConfig root"
proof -
  have "route_rules ds (r\<lparr>rsIdentity := i, rsTarget := u\<rparr>) = route_rules ds r"
    "route_chains ds (r\<lparr>rsIdentity := i, rsTarget := u\<rparr>) = route_chains ds r" for ds r i u
    by (simp_all add: route_rules_def route_chains_def route_streams_def split: option.split)
  then show ?thesis by (simp add: buildRuntimeConfig_def Let_def comp_def all_ingress_def)
qed

text \<open>An ingress for plugins without a zone yields a nil server that is started like the others.\<close>

lemma plugin_without_zone:
  assumes "plugin_handled ing"
  shows "servers_of codecs [] cfg srv ing = [PluginSrv None]"
  using assms by (simp add: servers_of_def plugin_handled_def NewServer_def)

end
