(* ===== verification/Admin.thy ===== *)
theory Admin
  imports Routing GoText
begin

text \<open>
  The management API, \<^verbatim>\<open>internal/star/starserver/admin_server.go\<close>. The HTTP library routes a request
  to a handler by method and path pattern; the model starts from the outcome of that, an
  \<open>admin_call\<close> with its path values, query flag or body text (none when no pattern matches, \<open>hqMiss\<close> being the library's status), and
  keeps the decision between API and static files and the Bearer check. Bodies are decoded by the
  JSON model of theory GoJson; a response is a status code and the value that is encoded. The control
  listeners share one hub: \<open>adHub\<close> is it, and each call on a listener runs on it.
\<close>

section \<open>Requests and responses\<close>

datatype admin_call =
    GetStatus | GetClients | GetStreams | GetConns | GetConnects | GetCredentials
  | PostCredential string
  | DeleteCredential string string bool
  | PostConnect string
  | DeleteConnect string string string
  | PostKick string

record status_body =
  sbName :: string
  sbUptime :: nat
  sbClients :: nat
  sbStreams :: nat
  sbConns :: nat
  sbInBytes :: u64
  sbOutBytes :: u64

datatype admin_body =
    ErrorBody string
  | OkBody string "string option"
  | StatusBody status_body
  | ClientsBody "ClientInfo list"
  | StreamsBody "StreamStat list"
  | ConnsBody "ConnStat list"
  | ConnectsBody "(string \<times> ConnectItem list) list"
  | CredentialsBody "ClientProxy list"
  | KickedBody nat
  | WebAsset string

record http_request =
  hqPath :: string
  hqAuthorization :: string
  hqCall :: "admin_call option"
  hqMiss :: nat

record AdminServer =
  adName :: string
  adSettings :: Settings
  adHub :: CtrlHub
  adConnects :: ConnectTable
  adCtrls :: "CtrlProxyServer list"
  adStarted :: nat

definition NewAdminServer :: "string \<Rightarrow> Settings \<Rightarrow> CtrlHub \<Rightarrow> ConnectTable \<Rightarrow> CtrlProxyServer list \<Rightarrow> nat \<Rightarrow> AdminServer" where
  "NewAdminServer name settings hub connects ctrls now =
     \<lparr>adName = name, adSettings = settings, adHub = hub, adConnects = connects, adCtrls = ctrls, adStarted = now\<rparr>"

section \<open>Authentication\<close>

text \<open>\<^verbatim>\<open>subtleComp\<close>: the loop that collects the differing bits.\<close>

definition subtleComp :: "string \<Rightarrow> string \<Rightarrow> bool" where
  "subtleComp a b =
     (if length a \<noteq> length b then False
      else fold (\<lambda>i v. or v (xor (byte_of_char (a ! i)) (byte_of_char (b ! i)))) [0..<length a] (0 :: byte) = 0)"

definition bearer :: string where
  "bearer = ''Bearer ''"

definition token_good :: "string \<Rightarrow> string \<Rightarrow> bool" where
  "token_good token password \<longleftrightarrow>
     length bearer < length token \<and> take (length bearer) token = bearer \<and> subtleComp (drop (length bearer) token) password"

section \<open>Queries\<close>

definition countClients :: "AdminServer \<Rightarrow> nat" where
  "countClients s = sum_list (map (\<lambda>c. length (Clients (c\<lparr>psHub := adHub s\<rparr>))) (adCtrls s))"

definition handleStatus :: "nat \<Rightarrow> AdminServer \<Rightarrow> nat \<times> admin_body" where
  "handleStatus now s =
     (let streams = Snapshot (chStreams (adHub s)) in
      (200, StatusBody \<lparr>sbName = adName s, sbUptime = now - adStarted s, sbClients = countClients s,
              sbStreams = length streams, sbConns = ConnCount (adHub s),
              sbInBytes = sum_list (map stInBytes streams), sbOutBytes = sum_list (map stOutBytes streams)\<rparr>))"

definition handleClients :: "AdminServer \<Rightarrow> nat \<times> admin_body" where
  "handleClients s = (200, ClientsBody (concat (map (\<lambda>c. Clients (c\<lparr>psHub := adHub s\<rparr>)) (adCtrls s))))"

text \<open>The first definition of each name and stream; the key joins them with a slash.\<close>

fun first_of_key :: "string list \<Rightarrow> ClientProxy list \<Rightarrow> ClientProxy list" where
  "first_of_key seen [] = []"
| "first_of_key seen (cp # cps) =
     (let key = cpClientProxyName cp @ ''/'' @ cpStreamId cp in
      if key \<in> set seen then first_of_key seen cps else cp # first_of_key (key # seen) cps)"

definition handleListClientProxies :: "AdminServer \<Rightarrow> nat \<times> admin_body" where
  "handleListClientProxies s = (200, CredentialsBody (first_of_key [] (concat (map ClientProxies (adCtrls s)))))"

section \<open>Changes\<close>

text \<open>\<^verbatim>\<open>json.NewDecoder(body).Decode\<close>: the first value of the text; what follows is not looked at.\<close>

definition json_Decode :: "(string \<Rightarrow> json \<Rightarrow> 'r \<Rightarrow> 'r option) \<Rightarrow> 'r \<Rightarrow> string \<Rightarrow> 'r option" where
  "json_Decode fld zero s =
     (case jvalue (2 * length s + 1) s of None \<Rightarrow> None | Some (v, _) \<Rightarrow> decode_struct fld zero v)"

definition ClientProxy_field :: "string \<Rightarrow> json \<Rightarrow> ClientProxy \<Rightarrow> ClientProxy option" where
  "ClientProxy_field k v r =
     (if key_is ''clientProxyName'' k then map_option (\<lambda>x. r\<lparr>cpClientProxyName := x\<rparr>) (set_string v (cpClientProxyName r))
      else if key_is ''streamId'' k then map_option (\<lambda>x. r\<lparr>cpStreamId := x\<rparr>) (set_string v (cpStreamId r))
      else if key_is ''addr'' k then map_option (\<lambda>x. r\<lparr>cpAddr := x\<rparr>) (set_string v (cpAddr r))
      else if key_is ''transport'' k then map_option (\<lambda>x. r\<lparr>cpTransport := x\<rparr>) (set_string v (cpTransport r))
      else if key_is ''keyPassword'' k then map_option (\<lambda>x. r\<lparr>cpKeyPassword := x\<rparr>) (set_string v (cpKeyPassword r))
      else Some r)"

definition ConnectItem_field :: "string \<Rightarrow> json \<Rightarrow> ConnectItem \<Rightarrow> ConnectItem option" where
  "ConnectItem_field k v r =
     (if key_is ''proxyName'' k then map_option (\<lambda>x. r\<lparr>ciProxyName := x\<rparr>) (set_string v (ciProxyName r))
      else if key_is ''bridgeName'' k then map_option (\<lambda>x. r\<lparr>ciBridgeName := x\<rparr>) (set_string v (ciBridgeName r))
      else if key_is ''clientProxyName'' k then map_option (\<lambda>x. r\<lparr>ciClientProxyName := x\<rparr>) (set_string v (ciClientProxyName r))
      else if key_is ''streamId'' k then map_option (\<lambda>x. r\<lparr>ciStreamId := x\<rparr>) (set_string v (ciStreamId r))
      else Some r)"

definition kick_field :: "string \<Rightarrow> json \<Rightarrow> string \<Rightarrow> string option" where
  "kick_field k v r = (if key_is ''clientProxyName'' k then set_string v r else Some r)"

definition zero_client_proxy :: ClientProxy where
  "zero_client_proxy = \<lparr>cpClientProxyName = [], cpStreamId = [], cpAddr = [], cpTransport = [], cpKeyPassword = []\<rparr>"

definition zero_connect_item :: ConnectItem where
  "zero_connect_item = \<lparr>ciProxyName = [], ciBridgeName = [], ciClientProxyName = [], ciStreamId = []\<rparr>"

text \<open>A call on every control listener in turn; whether one of them reported a change.\<close>

fun each_ctrl :: "(CtrlProxyServer \<Rightarrow> bool \<times> CtrlProxyServer) \<Rightarrow> CtrlProxyServer list \<Rightarrow> bool \<times> CtrlProxyServer list" where
  "each_ctrl f [] = (False, [])"
| "each_ctrl f (c # cs) = (let (b, c') = f c; (r, cs') = each_ctrl f cs in (b \<or> r, c' # cs'))"

definition handleAddClientProxy :: "string \<Rightarrow> AdminServer \<Rightarrow> (nat \<times> admin_body) \<times> AdminServer" where
  "handleAddClientProxy body s =
     (case json_Decode ClientProxy_field zero_client_proxy body of
        None \<Rightarrow> ((400, ErrorBody ''bad json''), s)
      | Some cp \<Rightarrow>
          if cpClientProxyName cp = [] \<or> cpStreamId cp = [] \<or> cpKeyPassword cp = []
          then ((400, ErrorBody ''clientProxyName, streamId, keyPassword are required''), s)
          else let (added, cs) = each_ctrl (AddClientProxy cp) (adCtrls s) in
            if \<not> added then ((409, ErrorBody ''clientProxy already exists''), s\<lparr>adCtrls := cs\<rparr>)
            else ((200, OkBody ''added'' None), s\<lparr>adCtrls := cs\<rparr>))"

text \<open>\<^verbatim>\<open>kick\<close>: the shared hub goes through the listeners.\<close>

fun kick_all :: "string \<Rightarrow> CtrlProxyServer list \<Rightarrow> CtrlHub \<Rightarrow> nat \<times> CtrlHub" where
  "kick_all name [] h = (0, h)"
| "kick_all name (c # cs) h =
     (let (n, c') = Kick name (c\<lparr>psHub := h\<rparr>); (m, h') = kick_all name cs (psHub c') in (n + m, h'))"

definition kick :: "string \<Rightarrow> AdminServer \<Rightarrow> nat \<times> AdminServer" where
  "kick name s = (let (n, h) = kick_all name (adCtrls s) (adHub s) in (n, s\<lparr>adHub := h\<rparr>))"

definition handleDeleteClientProxy :: "string \<Rightarrow> string \<Rightarrow> bool \<Rightarrow> AdminServer \<Rightarrow> (nat \<times> admin_body) \<times> AdminServer" where
  "handleDeleteClientProxy name streamId kick1 s =
     (let (removed, cs) = each_ctrl (RemoveClientProxy name streamId) (adCtrls s); s1 = s\<lparr>adCtrls := cs\<rparr> in
      if \<not> removed then ((404, ErrorBody ''clientProxy not found''), s1)
      else if kick1 then (let (n, s2) = kick name s1 in ((200, OkBody ''removed'' (Some (print_nat n))), s2))
      else ((200, OkBody ''removed'' None), s1))"

definition handleAddConnect :: "string \<Rightarrow> AdminServer \<Rightarrow> (nat \<times> admin_body) \<times> AdminServer" where
  "handleAddConnect body s =
     (case json_Decode ConnectItem_field zero_connect_item body of
        None \<Rightarrow> ((400, ErrorBody ''bad json''), s)
      | Some rule \<Rightarrow>
          if ciProxyName rule = [] \<or> ciClientProxyName rule = [] \<or> ciStreamId rule = []
          then ((400, ErrorBody ''proxyName, clientProxyName, streamId are required''), s)
          else let (ok, t) = ConnectTable_Add rule (adConnects s) in
            if \<not> ok then ((409, ErrorBody ''connect rule already exists''), s)
            else ((200, OkBody ''added'' None), s\<lparr>adConnects := t\<rparr>))"

definition handleDeleteConnect :: "string \<Rightarrow> string \<Rightarrow> string \<Rightarrow> AdminServer \<Rightarrow> (nat \<times> admin_body) \<times> AdminServer" where
  "handleDeleteConnect proxyName name streamId s =
     (let (ok, t) = ConnectTable_Remove proxyName name streamId (adConnects s) in
      if \<not> ok then ((404, ErrorBody ''connect rule not found''), s)
      else ((200, OkBody ''removed'' None), s\<lparr>adConnects := t\<rparr>))"

definition handleKick :: "string \<Rightarrow> AdminServer \<Rightarrow> (nat \<times> admin_body) \<times> AdminServer" where
  "handleKick body s =
     (case json_Decode kick_field [] body of
        None \<Rightarrow> ((400, ErrorBody ''clientProxyName is required''), s)
      | Some name \<Rightarrow>
          if name = [] then ((400, ErrorBody ''clientProxyName is required''), s)
          else let (n, s') = kick name s in ((200, KickedBody n), s'))"

section \<open>The server\<close>

definition api :: "nat \<Rightarrow> http_request \<Rightarrow> AdminServer \<Rightarrow> (nat \<times> admin_body) \<times> AdminServer" where
  "api now r s =
     (case hqCall r of
        None \<Rightarrow> ((hqMiss r, ErrorBody []), s)
      | Some GetStatus \<Rightarrow> (handleStatus now s, s)
      | Some GetClients \<Rightarrow> (handleClients s, s)
      | Some GetStreams \<Rightarrow> ((200, StreamsBody (Snapshot (chStreams (adHub s)))), s)
      | Some GetConns \<Rightarrow> ((200, ConnsBody (SnapshotConns (adHub s))), s)
      | Some GetConnects \<Rightarrow> ((200, ConnectsBody (ConnectTable_All (adConnects s))), s)
      | Some GetCredentials \<Rightarrow> (handleListClientProxies s, s)
      | Some (PostCredential body) \<Rightarrow> handleAddClientProxy body s
      | Some (DeleteCredential name sid k) \<Rightarrow> handleDeleteClientProxy name sid k s
      | Some (PostConnect body) \<Rightarrow> handleAddConnect body s
      | Some (DeleteConnect p c sid) \<Rightarrow> handleDeleteConnect p c sid s
      | Some (PostKick body) \<Rightarrow> handleKick body s)"

definition auth :: "string \<Rightarrow> (AdminServer \<Rightarrow> (nat \<times> admin_body) \<times> AdminServer) \<Rightarrow> AdminServer \<Rightarrow> (nat \<times> admin_body) \<times> AdminServer" where
  "auth token next_handler s =
     (if setAdminPassword (adSettings s) = [] then ((403, ErrorBody ''admin password not configured''), s)
      else if \<not> token_good token (setAdminPassword (adSettings s)) then ((401, ErrorBody ''unauthorized''), s)
      else next_handler s)"

text \<open>\<open>web\<close> is the status of the file server for a path of the embedded console.\<close>

definition admin_serve :: "(string \<Rightarrow> nat) \<Rightarrow> nat \<Rightarrow> http_request \<Rightarrow> AdminServer \<Rightarrow> (nat \<times> admin_body) \<times> AdminServer" where
  "admin_serve web now r s =
     (if has_prefix (hqPath r) ''/api/'' then auth (hqAuthorization r) (api now r) s
      else ((web (hqPath r), WebAsset (hqPath r)), s))"

section \<open>Authentication is required\<close>

lemma or_zero_iff: "or a b = (0 :: byte) \<longleftrightarrow> a = 0 \<and> b = 0"
  by (auto simp: bit_eq_iff bit_simps)

lemma fold_or_zero:
  "fold (\<lambda>i v. or v (f i)) xs w = (0 :: byte) \<longleftrightarrow> w = 0 \<and> (\<forall>i \<in> set xs. f i = 0)"
  by (induction xs arbitrary: w) (simp_all add: or_zero_iff)

lemma xor_zero_iff: "xor a b = (0 :: byte) \<longleftrightarrow> a = b"
  by (auto simp: bit_eq_iff bit_simps)

lemma subtleComp_eq: "subtleComp a b \<longleftrightarrow> a = b"
  unfolding subtleComp_def fold_or_zero xor_zero_iff byte_of_char_eq_iff list_eq_iff_nth_eq by (simp add: Ball_def)

lemma token_good_eq: "password \<noteq> [] \<Longrightarrow> token_good token password \<longleftrightarrow> token = bearer @ password"
proof -
  assume p: "password \<noteq> []"
  have "token = bearer @ password \<Longrightarrow> token_good token password"
    using p by (simp add: token_good_def subtleComp_eq)
  moreover have "token_good token password \<Longrightarrow> token = bearer @ password"
    unfolding token_good_def subtleComp_eq by (metis append_take_drop_id)
  ultimately show ?thesis by blast
qed

text \<open>
  C21: the management API answers no one without the password. For a path under \<^verbatim>\<open>/api/\<close> the handlers run
  if and only if a password is configured and the header is exactly the Bearer token with it
  (the constant-time comparison is equality); otherwise the answer is 403 or 401 and nothing
  changes. Paths outside the API change nothing whatever the header.
\<close>

theorem admin_auth_required:
  "admin_serve web now r s =
    (if \<not> has_prefix (hqPath r) ''/api/'' then ((web (hqPath r), WebAsset (hqPath r)), s)
     else if setAdminPassword (adSettings s) = [] then ((403, ErrorBody ''admin password not configured''), s)
     else if hqAuthorization r \<noteq> ''Bearer '' @ setAdminPassword (adSettings s) then ((401, ErrorBody ''unauthorized''), s)
     else api now r s)"
  using token_good_eq [of "setAdminPassword (adSettings s)" "hqAuthorization r"]
  by (simp add: admin_serve_def auth_def bearer_def)

section \<open>Credentials issued at run time\<close>

lemma remove_first_append:
  assumes "\<not> list_ex p xs" "p x"
  shows "remove_first p (xs @ [x]) = (True, xs)"
  using assms by (induction xs) auto

definition lists_credential :: "string \<Rightarrow> string \<Rightarrow> CtrlProxyServer \<Rightarrow> bool" where
  "lists_credential name sid c \<longleftrightarrow> list_ex (same_client_proxy name sid) (setClientProxy (psSettings c))"

lemma each_ctrl_add:
  "snd (each_ctrl (AddClientProxy cp) cs) = map (\<lambda>c. snd (AddClientProxy cp c)) cs"
  "fst (each_ctrl (AddClientProxy cp) cs) \<longleftrightarrow> (\<exists>c \<in> set cs. \<not> lists_credential (cpClientProxyName cp) (cpStreamId cp) c)"
  by (induction cs) (auto simp: AddClientProxy_def lists_credential_def Let_def split: prod.splits if_splits)

lemma AddClientProxy_lists: "lists_credential (cpClientProxyName cp) (cpStreamId cp) (snd (AddClientProxy cp c))"
  by (auto simp: AddClientProxy_def lists_credential_def same_client_proxy_def Let_def)

lemma remove_added:
  assumes "\<not> lists_credential (cpClientProxyName cp) (cpStreamId cp) c"
  shows "RemoveClientProxy (cpClientProxyName cp) (cpStreamId cp) (snd (AddClientProxy cp c)) = (True, c)"
proof -
  have "remove_first (same_client_proxy (cpClientProxyName cp) (cpStreamId cp)) (setClientProxy (psSettings c) @ [cp])
      = (True, setClientProxy (psSettings c))"
    using assms by (intro remove_first_append) (simp_all add: lists_credential_def same_client_proxy_def)
  with assms show ?thesis
    by (simp add: RemoveClientProxy_def AddClientProxy_def lists_credential_def)
qed

lemma each_ctrl_remove_added:
  assumes "\<forall>c \<in> set cs. \<not> lists_credential (cpClientProxyName cp) (cpStreamId cp) c"
  shows "each_ctrl (RemoveClientProxy (cpClientProxyName cp) (cpStreamId cp)) (map (\<lambda>c. snd (AddClientProxy cp c)) cs) = (cs \<noteq> [], cs)"
  using assms by (induction cs) (auto simp: remove_added)

text \<open>
  Issuing a credential and revoking it. A complete credential that no control listener lists is
  accepted and afterwards listed by every one of them; issuing it again is a conflict; and
  revoking it answers success and restores the server exactly, so nothing of a revoked
  credential is left in the configuration.
\<close>

theorem credential_issue_revoke:
  assumes "json_Decode ClientProxy_field zero_client_proxy body = Some cp"
    and "cpClientProxyName cp \<noteq> []" "cpStreamId cp \<noteq> []" "cpKeyPassword cp \<noteq> []"
    and "adCtrls s \<noteq> []" "\<forall>c \<in> set (adCtrls s). \<not> lists_credential (cpClientProxyName cp) (cpStreamId cp) c"
  defines "s1 \<equiv> snd (handleAddClientProxy body s)"
  shows "fst (handleAddClientProxy body s) = (200, OkBody ''added'' None)
    \<and> (\<forall>c \<in> set (adCtrls s1). lists_credential (cpClientProxyName cp) (cpStreamId cp) c)
    \<and> handleAddClientProxy body s1 = ((409, ErrorBody ''clientProxy already exists''), s1)
    \<and> handleDeleteClientProxy (cpClientProxyName cp) (cpStreamId cp) False s1 = ((200, OkBody ''removed'' None), s)"
proof -
  let ?cs = "map (\<lambda>c. snd (AddClientProxy cp c)) (adCtrls s)"
  obtain c where "c \<in> set (adCtrls s)" using assms(5) by (cases "adCtrls s") auto
  with assms(6) each_ctrl_add(2) have "fst (each_ctrl (AddClientProxy cp) (adCtrls s))" by blast
  with each_ctrl_add(1) have e: "each_ctrl (AddClientProxy cp) (adCtrls s) = (True, ?cs)" by (metis prod.collapse)
  have h: "handleAddClientProxy body s = ((200, OkBody ''added'' None), s\<lparr>adCtrls := ?cs\<rparr>)"
    using assms(1-4) e by (simp add: handleAddClientProxy_def)
  then have s1: "s1 = s\<lparr>adCtrls := ?cs\<rparr>" by (simp add: s1_def)
  have l: "\<forall>c \<in> set ?cs. lists_credential (cpClientProxyName cp) (cpStreamId cp) c" using AddClientProxy_lists by auto
  have again: "snd (AddClientProxy cp c) = c" if "lists_credential (cpClientProxyName cp) (cpStreamId cp) c" for c
    using that by (simp add: AddClientProxy_def lists_credential_def)
  have "each_ctrl (AddClientProxy cp) ?cs = (False, ?cs)"
  proof -
    have "\<not> fst (each_ctrl (AddClientProxy cp) ?cs)" using l each_ctrl_add(2) by blast
    moreover have "snd (each_ctrl (AddClientProxy cp) ?cs) = ?cs"
      unfolding each_ctrl_add(1) using l again by (simp add: map_idI)
    ultimately show ?thesis by (metis (full_types) prod.collapse)
  qed
  then have "handleAddClientProxy body s1 = ((409, ErrorBody ''clientProxy already exists''), s1)"
    using assms(1-4) by (simp add: handleAddClientProxy_def s1)
  moreover have "handleDeleteClientProxy (cpClientProxyName cp) (cpStreamId cp) False s1 = ((200, OkBody ''removed'' None), s)"
    using each_ctrl_remove_added [OF assms(6)] assms(5) by (simp add: handleDeleteClientProxy_def s1)
  ultimately show ?thesis using h l by (simp add: s1)
qed

section \<open>A concrete server\<close>

definition demo_body :: string where
  "demo_body = json_object [(''clientProxyName'', SStr ''a''), (''streamId'', SStr ''b''), (''keyPassword'', SStr ''k'')]"

definition demo_admin :: AdminServer where
  "demo_admin = (let hub = NewCtrlHub (\<lambda>_. NewSession []) in
     NewAdminServer ''adm'' no_settings hub NewConnectTable [NewCtrlProxyServer no_settings hub] 0)"

definition demo_cp :: ClientProxy where
  "demo_cp = \<lparr>cpClientProxyName = ''a'', cpStreamId = ''b'', cpAddr = [], cpTransport = [], cpKeyPassword = ''k''\<rparr>"

lemma credential_issue_revoke_witness:
  "handleDeleteClientProxy ''a'' ''b'' False (snd (handleAddClientProxy demo_body demo_admin)) = ((200, OkBody ''removed'' None), demo_admin)"
proof -
  have d: "json_Decode ClientProxy_field zero_client_proxy demo_body = Some demo_cp" by code_simp
  have "adCtrls demo_admin \<noteq> []" "\<forall>c \<in> set (adCtrls demo_admin). \<not> lists_credential (cpClientProxyName demo_cp) (cpStreamId demo_cp) c"
    by (simp_all add: demo_admin_def Let_def NewAdminServer_def lists_credential_def NewCtrlProxyServer_def no_settings_def)
  from credential_issue_revoke [OF d _ _ _ this] show ?thesis by (simp add: demo_cp_def)
qed

end
