(* ===== verification/Dns.thy ===== *)
theory Dns
  imports WsFrame GoText "HOL-Library.AList"
begin

text \<open>
  \<^verbatim>\<open>internal/handler/dns/dns.go\<close>: authoritative A records from zone tables, forwarding to upstream
  servers in turn, and DNS messages in frames with a two-byte length. The message library is outside
  the repository: parsing and printing messages, building a record and asking an upstream are
  arguments. A zone table is an association list in the order in which the map is traversed.
\<close>

section \<open>Zones\<close>

type_synonym zones = "(string \<times> (string \<times> string) list) list"

definition TrimSuffix :: "string \<Rightarrow> string \<Rightarrow> string" where
  "TrimSuffix s suf = (if length suf \<le> length s \<and> drop (length s - length suf) s = suf then take (length s - length suf) s else s)"

definition HasSuffix :: "string \<Rightarrow> string \<Rightarrow> bool" where
  "HasSuffix s suf \<longleftrightarrow> length suf \<le> length s \<and> drop (length s - length suf) s = suf"

definition normal_name :: "string \<Rightarrow> string" where
  "normal_name s = ToLower (TrimSuffix (ToLower s) ''.'')"

definition normalizeZones :: "zones \<Rightarrow> zones" where
  "normalizeZones zs =
     fold (\<lambda>(zone, hosts) nz.
       AList.update (normal_name zone)
         (fold (\<lambda>(hostname, ip) inner. AList.update (normal_name hostname) ip inner) hosts []) nz) zs []"

record Handler =
  dhName :: string
  dhZones :: zones
  dhUpstreams :: "string list"
  dhRR :: u64

definition dns_New :: "string \<Rightarrow> zones \<Rightarrow> string list \<Rightarrow> Handler" where
  "dns_New name zs upstreams = \<lparr>dhName = name, dhZones = normalizeZones zs, dhUpstreams = upstreams, dhRR = 0\<rparr>"

definition Zones :: "Handler \<Rightarrow> zones" where
  "Zones h = dhZones h"

definition replaceAll :: "zones \<Rightarrow> Handler \<Rightarrow> Handler" where
  "replaceAll zs h = h\<lparr>dhZones := normalizeZones zs\<rparr>"

fun lookup_zones :: "zones \<Rightarrow> string \<Rightarrow> string option" where
  "lookup_zones [] name = None"
| "lookup_zones ((zone, hosts) # zs) name =
     (if name = zone then lookup_zones zs name
      else if HasSuffix name (''.'' @ zone) then
        (case map_of hosts (TrimSuffix name (''.'' @ zone)) of
           Some ip \<Rightarrow> Some ip
         | None \<Rightarrow> lookup_zones zs name)
      else lookup_zones zs name)"

definition lookup :: "string \<Rightarrow> Handler \<Rightarrow> string option" where
  "lookup qname h = lookup_zones (dhZones h) (ToLower (TrimSuffix qname ''.''))"

section \<open>Answers\<close>

text \<open>
  The reply to a query: the records found here, the reply of an upstream passed on, or a server failure.
  \<open>new_rr\<close> is \<^verbatim>\<open>dns.NewRR\<close> on the text of an A record, \<open>exchange\<close> the question to an upstream.
\<close>

datatype ('rr, 'm) reply = LocalReply "'rr list" | UpstreamReply 'm | ServerFailure

definition local_answers :: "(string \<Rightarrow> string \<Rightarrow> 'rr option) \<Rightarrow> string list \<Rightarrow> Handler \<Rightarrow> 'rr list" where
  "local_answers new_rr names h =
     List.map_filter (\<lambda>n. case lookup n h of None \<Rightarrow> None | Some ip \<Rightarrow> new_rr n ip) names"

definition answer ::
    "(string \<Rightarrow> string \<Rightarrow> 'rr option) \<Rightarrow> (string \<Rightarrow> 'm option) \<Rightarrow> string list \<Rightarrow> Handler \<Rightarrow> ('rr, 'm) reply \<times> Handler" where
  "answer new_rr exchange names h =
     (let ans = local_answers new_rr names h in
      if ans = [] \<and> names \<noteq> [] \<and> dhUpstreams h \<noteq> [] then
        (let idx = dhRR h + 1; h1 = h\<lparr>dhRR := idx\<rparr>;
             upstream = dhUpstreams h ! (unat idx mod length (dhUpstreams h)) in
         case exchange upstream of
           Some m \<Rightarrow> (UpstreamReply m, h1)
         | None \<Rightarrow> (ServerFailure, h1))
      else (LocalReply ans, h))"

section \<open>Serving a connection\<close>

definition dns_frame :: "bytes \<Rightarrow> bytes" where
  "dns_frame packed = be_bytes 2 (length packed) @ packed"

text \<open>One frame: its body and the rest; none when the loop of \<^verbatim>\<open>serveConn\<close> returns.\<close>

definition read_dns :: "bytes \<Rightarrow> (bytes \<times> bytes) option" where
  "read_dns inp =
     (case read_full 2 inp of
        Inl _ \<Rightarrow> None
      | Inr (lenBuf, r) \<Rightarrow>
          if be_nat lenBuf = 0 \<or> 65536 < be_nat lenBuf then None
          else (case read_full (be_nat lenBuf) r of Inl _ \<Rightarrow> None | Inr p \<Rightarrow> Some p))"

lemma read_dns_shorter: "read_dns inp = Some (b, r) \<Longrightarrow> length r < length inp"
  by (auto simp: read_dns_def read_full_Inr split: sum.splits if_splits)

text \<open>
  The loop on a connection with the input \<open>inp\<close> whose writes succeed \<open>ok\<close> times: what was written and
  the handler afterwards. \<open>respond\<close> is \<^verbatim>\<open>Unpack\<close>, \<open>answer\<close> and \<^verbatim>\<open>Pack\<close> of one message, none when the
  library rejects it.
\<close>

function serve_dns :: "(bytes \<Rightarrow> Handler \<Rightarrow> (bytes \<times> Handler) option) \<Rightarrow> nat \<Rightarrow> bytes \<Rightarrow> Handler \<Rightarrow> bytes \<times> Handler" where
  "serve_dns respond ok inp h =
     (case read_dns inp of
        None \<Rightarrow> ([], h)
      | Some (buf, r) \<Rightarrow>
          (case respond buf h of
             None \<Rightarrow> ([], h)
           | Some (packed, h1) \<Rightarrow>
               if ok = 0 then ([], h1)
               else let (out, h2) = serve_dns respond (ok - 1) r h1 in (dns_frame packed @ out, h2)))"
  by pat_completeness auto
termination
  by (relation "measure (\<lambda>(respond, ok, inp, h). length inp)") (auto dest: read_dns_shorter)

declare serve_dns.simps [simp del]

section \<open>Lookup\<close>

text \<open>The zones and hosts that a name splits into.\<close>

definition records :: "zones \<Rightarrow> string \<Rightarrow> string set" where
  "records zs name = {ip. \<exists>zone hosts host. (zone, hosts) \<in> set zs \<and> name = host @ ''.'' @ zone \<and> map_of hosts host = Some ip}"

lemma HasSuffix_iff: "HasSuffix s suf \<longleftrightarrow> (\<exists>p. s = p @ suf)"
proof
  assume "HasSuffix s suf"
  then have "s = take (length s - length suf) s @ suf" unfolding HasSuffix_def by (metis append_take_drop_id)
  then show "\<exists>p. s = p @ suf" by blast
qed (auto simp: HasSuffix_def)

lemma TrimSuffix_append [simp]: "TrimSuffix (p @ suf) suf = p"
  by (simp add: TrimSuffix_def)

lemma lookup_zones_Cons:
  "lookup_zones ((zone, hosts) # zs) name =
     (case (if HasSuffix name (''.'' @ zone) then map_of hosts (TrimSuffix name (''.'' @ zone)) else None) of
        Some ip \<Rightarrow> Some ip | None \<Rightarrow> lookup_zones zs name)"
proof -
  have "\<not> HasSuffix zone (''.'' @ zone)" by (simp add: HasSuffix_def)
  then show ?thesis by (auto split: option.splits)
qed

lemma lookup_zones_records:
  "(case lookup_zones zs name of None \<Rightarrow> records zs name = {} | Some ip \<Rightarrow> ip \<in> records zs name)"
proof (induction zs)
  case Nil
  then show ?case by (simp add: records_def)
next
  case (Cons z zs)
  obtain zone hosts where z: "z = (zone, hosts)" by fastforce
  define here where "here = (if HasSuffix name (''.'' @ zone) then map_of hosts (TrimSuffix name (''.'' @ zone)) else None)"
  have h: "here = Some ip \<longleftrightarrow> (\<exists>host. name = host @ ''.'' @ zone \<and> map_of hosts host = Some ip)" for ip
    by (auto simp: here_def HasSuffix_iff)
  have r: "records (z # zs) name = {ip. here = Some ip} \<union> records zs name"
    unfolding h by (auto simp: records_def z)
  have "lookup_zones (z # zs) name = (case here of Some ip \<Rightarrow> Some ip | None \<Rightarrow> lookup_zones zs name)"
    unfolding z lookup_zones_Cons here_def ..
  then show ?case using Cons r by (cases here) (auto split: option.splits)
qed

text \<open>
  DNS lookup is exact. A queried name, lower-cased and without its final dot, is answered with an address if
  and only if some zone is a suffix of it after a dot and lists what stands before as a host, and then
  with the address of such a record.
\<close>

theorem dns_lookup_exact:
  "case lookup qname h of
     None \<Rightarrow> records (dhZones h) (ToLower (TrimSuffix qname ''.'')) = {}
   | Some ip \<Rightarrow> ip \<in> records (dhZones h) (ToLower (TrimSuffix qname ''.''))"
  unfolding lookup_def by (rule lookup_zones_records)

text \<open>With overlapping zones the answer depends on the order in which the map is traversed.\<close>

lemma overlapping_zones_ambiguous:
  "let z1 = (''org'', [(''a.b'', ''1.1.1.1'')]); z2 = (''b.org'', [(''a'', ''2.2.2.2'')]) in
     lookup_zones [z1, z2] ''a.b.org'' = Some ''1.1.1.1'' \<and> lookup_zones [z2, z1] ''a.b.org'' = Some ''2.2.2.2''"
  by code_simp

text \<open>Without upstreams an unknown name is answered by an empty success reply, not by a name error.\<close>

lemma unknown_name_is_success:
  assumes "dhUpstreams h = []" "\<forall>n \<in> set names. lookup n h = None"
  shows "fst (answer new_rr exchange names h) = LocalReply []"
proof -
  have "local_answers new_rr names h = []"
    using assms(2) by (induction names) (auto simp: local_answers_def List.map_filter_simps)
  then show ?thesis using assms(1) by (simp add: answer_def Let_def)
qed

text \<open>Forwarded queries take the upstreams in turn, whatever the counter's value.\<close>

lemma upstream_in_turn:
  assumes "local_answers new_rr names h = []" "names \<noteq> []" "dhUpstreams h \<noteq> []" "exchange = Some"
  shows "fst (answer new_rr exchange names h) = UpstreamReply (dhUpstreams h ! (unat (dhRR h + 1) mod length (dhUpstreams h)))"
    and "dhRR (snd (answer new_rr exchange names h)) = dhRR h + 1"
  using assms by (simp_all add: answer_def Let_def)

section \<open>Frames\<close>

definition dns_ok :: "bytes \<Rightarrow> bool" where
  "dns_ok b \<longleftrightarrow> b \<noteq> [] \<and> length b < 65536"

lemma read_dns_frame: "dns_ok b \<Longrightarrow> read_dns (dns_frame b @ rest) = Some (b, rest)"
  by (simp add: read_dns_def dns_frame_def dns_ok_def)

interpretation dns_wire: framing dns_frame read_dns dns_ok
  by unfold_locales (rule read_dns_frame)

fun respond_all :: "(bytes \<Rightarrow> Handler \<Rightarrow> (bytes \<times> Handler) option) \<Rightarrow> bytes list \<Rightarrow> Handler \<Rightarrow> (bytes list \<times> Handler) option" where
  "respond_all respond [] h = Some ([], h)"
| "respond_all respond (q # qs) h =
     (case respond q h of
        None \<Rightarrow> None
      | Some (p, h1) \<Rightarrow> map_option (\<lambda>(ps, h2). (p # ps, h2)) (respond_all respond qs h1))"

text \<open>
  Every well-framed query of a connection is answered in order by one frame, and a client that reads the frames
  back gets exactly the responses.
\<close>

theorem dns_serves_in_order:
  assumes "list_all dns_ok qs" "respond_all respond qs h = Some (ps, h')" "length qs \<le> ok" "read_dns rest = None"
  shows "serve_dns respond ok (concat (map dns_frame qs) @ rest) h = (concat (map dns_frame ps), h')
    \<and> (list_all dns_ok ps \<longrightarrow> dec_many read_dns (length ps) (concat (map dns_frame ps)) = Some (ps, []))"
proof -
  have "serve_dns respond ok (concat (map dns_frame qs) @ rest) h = (concat (map dns_frame ps), h')"
    using assms
  proof (induction qs arbitrary: h ps ok)
    case Nil
    then show ?case by (simp add: serve_dns.simps)
  next
    case (Cons q qs)
    then obtain p h1 ps' where r: "respond q h = Some (p, h1)" "respond_all respond qs h1 = Some (ps', h')" "ps = p # ps'"
      by (auto split: option.splits)
    have "read_dns (concat (map dns_frame (q # qs)) @ rest) = Some (q, concat (map dns_frame qs) @ rest)"
      using Cons.prems(1) by (simp add: read_dns_frame)
    moreover have "serve_dns respond (ok - 1) (concat (map dns_frame qs) @ rest) h1 = (concat (map dns_frame ps'), h')"
      using Cons r by (intro Cons.IH) auto
    ultimately show ?case using r Cons.prems(3) by (subst serve_dns.simps) simp
  qed
  moreover have "list_all dns_ok ps \<Longrightarrow> dec_many read_dns (length ps) (concat (map dns_frame ps)) = Some (ps, [])"
    using dns_wire.dec_stream [of ps "[]"] by simp
  ultimately show ?thesis by blast
qed

end
