(* ===== verification/ConfigStore.thy ===== *)
theory ConfigStore
  imports GoText "HOL-Library.AList"
begin

text \<open>
  \<^verbatim>\<open>internal/configstore\<close>: a key-value store whose keys are relative paths below a directory. The file
  system is a finite table of files with their contents and modification times (a positive number;
  zero is Go's zero time). Each of the three calls of \<^verbatim>\<open>writeFile\<close> may fail: \<open>fault\<close> says which, if any,
  and a failed call changes nothing. \<^verbatim>\<open>path.Clean\<close> follows its documented rules.
\<close>

section \<open>Paths and keys\<close>

fun split_slash :: "string \<Rightarrow> string list" where
  "split_slash [] = [[]]"
| "split_slash (c # s) =
     (if c = CHR ''/'' then [] # split_slash s
      else case split_slash s of [] \<Rightarrow> [[c]] | w # ws \<Rightarrow> (c # w) # ws)"

text \<open>The elements kept so far, the last one first.\<close>

fun clean_step :: "bool \<Rightarrow> string \<Rightarrow> string list \<Rightarrow> string list" where
  "clean_step rooted w acc =
     (if w = [] \<or> w = ''.'' then acc
      else if w = ''..'' then
        (case acc of
           [] \<Rightarrow> if rooted then [] else [w]
         | a # as \<Rightarrow> if a = ''..'' then w # acc else as)
      else w # acc)"

definition path_Clean :: "string \<Rightarrow> string" where
  "path_Clean p =
     (let rooted = has_prefix p ''/'';
          body = join_with ''/'' (rev (fold (clean_step rooted) (split_slash p) [])) in
      if rooted then ''/'' @ body else if body = [] then ''.'' else body)"

datatype store_error = ErrNotFound | ErrInvalidKey string | ErrIO

definition ValidKey :: "string \<Rightarrow> store_error option" where
  "ValidKey key =
     (if key = [] \<or> has_prefix key ''/'' \<or> Contains key ''..'' then Some (ErrInvalidKey key)
      else if path_Clean key \<noteq> key then Some (ErrInvalidKey key)
      else None)"

section \<open>Files\<close>

type_synonym files = "(string \<times> (bytes \<times> nat)) list"

definition readFile :: "files \<Rightarrow> string \<Rightarrow> bytes option" where
  "readFile fs p = map_option fst (map_of fs p)"

definition modTime :: "files \<Rightarrow> string \<Rightarrow> nat option" where
  "modTime fs p = map_option snd (map_of fs p)"

datatype fault = NoFault | MkdirFails | WriteFails | RenameFails

definition rename :: "string \<Rightarrow> string \<Rightarrow> files \<Rightarrow> files" where
  "rename a b fs = (case map_of fs a of None \<Rightarrow> fs | Some f \<Rightarrow> AList.update b f (AList.delete a fs))"

definition writeFile :: "fault \<Rightarrow> nat \<Rightarrow> string \<Rightarrow> bytes \<Rightarrow> files \<Rightarrow> store_error option \<times> files" where
  "writeFile fl now p val fs =
     (if fl = MkdirFails then (Some ErrIO, fs)
      else let tmp = p @ ''.tmp'' in
        if fl = WriteFails then (Some ErrIO, fs)
        else let fs1 = AList.update tmp (val, now) fs in
          if fl = RenameFails then (Some ErrIO, fs1) else (None, rename tmp p fs1))"

section \<open>The store\<close>

definition store_path :: "string \<Rightarrow> string \<Rightarrow> store_error + string" where
  "store_path root key = (case ValidKey key of Some e \<Rightarrow> Inl e | None \<Rightarrow> Inr (root @ ''/'' @ key))"

definition store_Get :: "string \<Rightarrow> string \<Rightarrow> files \<Rightarrow> store_error + bytes" where
  "store_Get root key fs =
     (case store_path root key of
        Inl e \<Rightarrow> Inl e
      | Inr p \<Rightarrow> (case readFile fs p of None \<Rightarrow> Inl ErrNotFound | Some d \<Rightarrow> Inr d))"

definition store_Put :: "fault \<Rightarrow> nat \<Rightarrow> string \<Rightarrow> string \<Rightarrow> bytes \<Rightarrow> files \<Rightarrow> store_error option \<times> files" where
  "store_Put fl now root key val fs =
     (case store_path root key of Inl e \<Rightarrow> (Some e, fs) | Inr p \<Rightarrow> writeFile fl now p val fs)"

text \<open>\<^verbatim>\<open>Watch\<close>: the baseline and one tick; a result says what is sent and whether the goroutine ends.\<close>

datatype watch_event = Changed bytes | WatchError store_error

definition watch_start :: "string \<Rightarrow> string \<Rightarrow> files \<Rightarrow> nat" where
  "watch_start root key fs = (case modTime fs (root @ ''/'' @ key) of None \<Rightarrow> 0 | Some m \<Rightarrow> m)"

definition watch_tick :: "string \<Rightarrow> string \<Rightarrow> files \<Rightarrow> nat \<Rightarrow> watch_event option \<times> nat \<times> bool" where
  "watch_tick root key fs last_mod =
     (case store_path root key of
        Inl e \<Rightarrow> (Some (WatchError e), last_mod, True)
      | Inr p \<Rightarrow>
          (case modTime fs p of
             None \<Rightarrow> if last_mod \<noteq> 0 then (Some (WatchError ErrNotFound), 0, True) else (None, last_mod, False)
           | Some m \<Rightarrow>
               if last_mod < m then
                 (case store_Get root key fs of
                    Inl e \<Rightarrow> (Some (WatchError e), m, True)
                  | Inr v \<Rightarrow> (Some (Changed v), m, False))
               else (None, last_mod, False)))"

section \<open>Keys stay below the root\<close>

lemma split_slash_ne [simp]: "split_slash s \<noteq> []"
  by (induction s) (auto split: list.splits)

lemma join_split: "join_with ''/'' (split_slash s) = s"
proof (induction s)
  case (Cons c s)
  obtain w ws where w: "split_slash s = w # ws" by (metis neq_Nil_conv split_slash_ne)
  have "join_with ''/'' ((c # w) # ws) = c # join_with ''/'' (w # ws)" by (cases ws) simp_all
  with Cons w show ?case by simp
qed simp

lemma split_no_slash: "w \<in> set (split_slash s) \<Longrightarrow> CHR ''/'' \<notin> set w"
proof (induction s arbitrary: w)
  case (Cons c s)
  obtain v vs where v: "split_slash s = v # vs" by (metis neq_Nil_conv split_slash_ne)
  with Cons show ?case by (auto split: if_splits)
qed simp

lemma split_slash_join:
  assumes "ws \<noteq> []" "\<forall>w \<in> set ws. CHR ''/'' \<notin> set w"
  shows "split_slash (join_with ''/'' ws) = ws"
  using assms
proof (induction "''/''" ws rule: join_with.induct)
  case (2 s)
  then have "CHR ''/'' \<notin> set s" by simp
  then show ?case by (induction s) auto
next
  case (3 s t ts)
  have "CHR ''/'' \<notin> set s" using 3 by simp
  then have "split_slash (s @ CHR ''/'' # r) = s # split_slash r" for r by (induction s) auto
  with 3 show ?case by simp
qed simp

text \<open>The elements that cleaning keeps are never empty or a single dot.\<close>

definition plain :: "string \<Rightarrow> bool" where
  "plain w \<longleftrightarrow> w \<noteq> [] \<and> w \<noteq> ''.'' \<and> CHR ''/'' \<notin> set w"

lemma clean_step_plain:
  "list_all plain acc \<Longrightarrow> CHR ''/'' \<notin> set w \<Longrightarrow> list_all plain (clean_step rooted w acc)"
  by (auto simp: plain_def split: list.splits)

lemma fold_clean_plain:
  "list_all plain acc \<Longrightarrow> \<forall>w \<in> set ws. CHR ''/'' \<notin> set w \<Longrightarrow> list_all plain (fold (clean_step rooted) ws acc)"
  by (induction ws arbitrary: acc) (simp_all add: clean_step_plain del: clean_step.simps)

lemma infix_contains: "s = a @ sub @ b \<Longrightarrow> Contains s sub"
  unfolding Contains_def by (rule bexI [of _ "length a"]) (auto simp: has_prefix_def)

lemma split_infix: "w \<in> set (split_slash s) \<Longrightarrow> \<exists>a b. s = a @ w @ b"
proof (induction s arbitrary: w)
  case (Cons c s)
  obtain v vs where v: "split_slash s = v # vs" by (metis neq_Nil_conv split_slash_ne)
  show ?case
  proof (cases "w \<in> set (split_slash s) \<and> (c = CHR ''/'' \<or> w \<in> set vs)")
    case True
    then obtain a b where "s = a @ w @ b" using Cons.IH by blast
    then have "c # s = (c # a) @ w @ b" by simp
    then show ?thesis by blast
  next
    case False
    then have "w = [] \<or> w = c # v" using Cons.prems v by (auto split: if_splits)
    moreover have "\<exists>b. s = v @ b" using join_split [of s] v by (cases vs) auto
    ultimately show ?thesis by (metis append_Cons append_Nil)
  qed
qed simp

text \<open>
  A valid key cannot leave the root directory: none of its path elements is empty or the parent directory, and
  none is the current directory except in the key that consists of a single dot.
\<close>

theorem valid_key_confined:
  assumes "ValidKey key = None"
  shows "\<forall>w \<in> set (split_slash key). w \<noteq> ''..'' \<and> (key = ''.'' \<or> plain w)"
proof
  fix w assume w: "w \<in> set (split_slash key)"
  from assms have nd: "\<not> Contains key ''..''" and nr: "\<not> has_prefix key ''/''" and cl: "path_Clean key = key"
    by (auto simp: ValidKey_def split: if_splits)
  have "w \<noteq> ''..''" using split_infix [OF w] nd infix_contains by blast
  moreover have "key = ''.'' \<or> plain w"
  proof -
    let ?acc = "rev (fold (clean_step False) (split_slash key) [])"
    have "(if join_with ''/'' ?acc = [] then ''.'' else join_with ''/'' ?acc) = key"
      using cl nr by (simp add: path_Clean_def Let_def)
    moreover have "list_all plain (fold (clean_step False) (split_slash key) [])"
      using split_no_slash by (intro fold_clean_plain) auto
    then have pl: "\<forall>v \<in> set ?acc. plain v" by (simp add: list_all_iff)
    ultimately consider "key = ''.''" | "join_with ''/'' ?acc = key" "?acc \<noteq> []"
      by (cases "?acc = []") (auto split: if_splits)
    then show ?thesis
    proof cases
      case 2
      then have "split_slash key = ?acc" using split_slash_join [of ?acc] pl by (auto simp: plain_def)
      with w pl show ?thesis by auto
    qed simp
  qed
  ultimately show "w \<noteq> ''..'' \<and> (key = ''.'' \<or> plain w)" by blast
qed

section \<open>Put and get\<close>

lemma tmp_neq [simp]: "p @ ''.tmp'' \<noteq> p" by simp

lemma Put_atomic:
  assumes "ValidKey key = None"
  shows "fst (store_Put fl now root key val fs) = None \<longleftrightarrow> fl = NoFault"
    and "fl \<noteq> NoFault \<Longrightarrow> store_Get root key (snd (store_Put fl now root key val fs)) = store_Get root key fs"
    and "fl = NoFault \<Longrightarrow> store_Get root key (snd (store_Put fl now root key val fs)) = Inr val"
proof -
  have p: "store_path root key = Inr (root @ ''/'' @ key)" using assms by (simp add: store_path_def)
  show "fst (store_Put fl now root key val fs) = None \<longleftrightarrow> fl = NoFault"
    by (cases fl) (simp_all add: store_Put_def p writeFile_def Let_def)
  show "fl \<noteq> NoFault \<Longrightarrow> store_Get root key (snd (store_Put fl now root key val fs)) = store_Get root key fs"
    by (cases fl) (simp_all add: store_Put_def p writeFile_def Let_def store_Get_def readFile_def AList.update_conv')
  show "fl = NoFault \<Longrightarrow> store_Get root key (snd (store_Put fl now root key val fs)) = Inr val"
    by (simp add: store_Put_def p writeFile_def Let_def store_Get_def readFile_def rename_def AList.update_conv')
qed

text \<open>
  The temporary file of a key is itself a valid key: storing \<^verbatim>\<open>a\<close> overwrites and then removes what is stored
  under \<^verbatim>\<open>a.tmp\<close>.
\<close>

lemma put_destroys_tmp_key:
  "let fs = snd (store_Put NoFault 1 ''r'' ''a.tmp'' [7] []); fs' = snd (store_Put NoFault 2 ''r'' ''a'' [8] fs) in
     store_Get ''r'' ''a.tmp'' fs = Inr [7] \<and> store_Get ''r'' ''a.tmp'' fs' = Inl ErrNotFound"
  by code_simp

section \<open>Watching\<close>

text \<open>A tick reports a file that is newer than the last report, with its contents, and then not again.\<close>

lemma watch_reports:
  assumes "ValidKey key = None" "map_of fs (root @ ''/'' @ key) = Some (v, m)" "last_mod < m"
  shows "watch_tick root key fs last_mod = (Some (Changed v), m, False)"
    and "watch_tick root key fs m = (None, m, False)"
  using assms by (simp_all add: watch_tick_def store_path_def modTime_def store_Get_def readFile_def)

lemma valid_key_confined_witness: "plain ''zones''"
proof -
  have "ValidKey ''dns/zones'' = None" by code_simp
  moreover have "''zones'' \<in> set (split_slash ''dns/zones'')" by code_simp
  ultimately show ?thesis using valid_key_confined [of "''dns/zones''"] by fastforce
qed

end
