(* ===== verification/DnsApi.thy ===== *)
theory DnsApi
  imports Dns ConfigStore "HOL-Library.List_Lexorder"
begin

text \<open>
  The control plane of \<^verbatim>\<open>internal/handler/dns/dns.go\<close>: the routes that read and replace the zone table, the JSON of nested
  maps they exchange, the optional store behind them, and the parts of a server the handler offers. A decoded map is an
  association list with distinct keys, none when the JSON value was \<^verbatim>\<open>null\<close>; printing sorts the keys.
\<close>

section \<open>JSON of nested maps\<close>

type_synonym raw_zones = "(string \<times> (string \<times> string) list option) list option"

definition byte_order :: "string \<times> 'v \<Rightarrow> nat list" where
  "byte_order kv = map of_char (fst kv)"

definition hosts_text :: "(string \<times> string) list option \<Rightarrow> string" where
  "hosts_text hosts = (case hosts of None \<Rightarrow> ''null'' | Some hs \<Rightarrow> json_object (map (\<lambda>(k, v). (k, SStr v)) (sort_by byte_order hs)))"

fun zones_members :: "(string \<times> (string \<times> string) list option) list \<Rightarrow> string" where
  "zones_members [] = []"
| "zones_members [(z, hs)] = print_string z @ '':'' @ hosts_text hs"
| "zones_members ((z, hs) # zs) = print_string z @ '':'' @ hosts_text hs @ '','' @ zones_members zs"

definition zones_Marshal :: "raw_zones \<Rightarrow> string" where
  "zones_Marshal zones = (case zones of None \<Rightarrow> ''null'' | Some zs \<Rightarrow> ''{'' @ zones_members (sort_by byte_order zs) @ ''}'')"

text \<open>Decoding into a map: a later member replaces an earlier one; \<^verbatim>\<open>null\<close> is the zero value.\<close>

fun map_members :: "(json \<Rightarrow> 'v option) \<Rightarrow> (string \<times> json) list \<Rightarrow> (string \<times> 'v) list \<Rightarrow> (string \<times> 'v) list option" where
  "map_members dec [] acc = Some acc"
| "map_members dec ((k, j) # ms) acc =
     (case dec j of None \<Rightarrow> None | Some v \<Rightarrow> map_members dec ms (AList.update k v acc))"

fun dec_map :: "(json \<Rightarrow> 'v option) \<Rightarrow> json \<Rightarrow> (string \<times> 'v) list option option" where
  "dec_map dec JNull = Some None"
| "dec_map dec (JObj ms) = map_option Some (map_members dec ms [])"
| "dec_map dec _ = None"

fun dec_text :: "json \<Rightarrow> string option" where
  "dec_text JNull = Some []"
| "dec_text (JStr s) = Some s"
| "dec_text _ = None"

text \<open>\<^verbatim>\<open>json.NewDecoder(body).Decode(&zones)\<close>: the first value of the text.\<close>

definition zones_Decode :: "string \<Rightarrow> raw_zones option" where
  "zones_Decode body =
     (case jvalue (2 * length body + 1) body of None \<Rightarrow> None | Some (v, _) \<Rightarrow> dec_map (dec_map dec_text) v)"

section \<open>The handler behind its routes\<close>

record DnsService =
  dsHandler :: Handler
  dsStore :: "string option"
  dsStoreKey :: string
  dsInjected :: "nat option"

definition dns_service :: "string \<Rightarrow> zones \<Rightarrow> string list \<Rightarrow> DnsService" where
  "dns_service name zs upstreams = \<lparr>dsHandler = dns_New name zs upstreams, dsStore = None, dsStoreKey = [], dsInjected = None\<rparr>"

definition UseStore :: "string \<Rightarrow> string \<Rightarrow> DnsService \<Rightarrow> DnsService" where
  "UseStore root key d = d\<lparr>dsStore := Some root, dsStoreKey := key\<rparr>"

text \<open>The zones as \<^verbatim>\<open>normalizeZones\<close> traverses them: a nil map has no entries.\<close>

definition table_of :: "raw_zones \<Rightarrow> zones" where
  "table_of zones = (case zones of None \<Rightarrow> [] | Some zs \<Rightarrow> map (\<lambda>(z, hs). (z, case hs of None \<Rightarrow> [] | Some h \<Rightarrow> h)) zs)"

definition raw_of :: "zones \<Rightarrow> raw_zones" where
  "raw_of zs = Some (map (\<lambda>(z, hs). (z, Some hs)) zs)"

definition get_zones :: "DnsService \<Rightarrow> nat \<times> string" where
  "get_zones d = (200, zones_Marshal (raw_of (Zones (dsHandler d))) @ [CHR 0x0A])"

text \<open>\<open>fl\<close> and \<open>now\<close> are how the file system behaves and the time of a write; failing to store is ignored.\<close>

definition put_zones :: "fault \<Rightarrow> nat \<Rightarrow> string \<Rightarrow> DnsService \<times> files \<Rightarrow> nat \<times> DnsService \<times> files" where
  "put_zones fl now body s =
     (case s of (d, fs) \<Rightarrow>
      case zones_Decode body of
        None \<Rightarrow> (400, d, fs)
      | Some zones \<Rightarrow>
          (let d1 = d\<lparr>dsHandler := replaceAll (table_of zones) (dsHandler d)\<rparr> in
           case dsStore d of
             None \<Rightarrow> (200, d1, fs)
           | Some root \<Rightarrow> (200, d1, snd (store_Put fl now root (dsStoreKey d) (bytes_of_string (zones_Marshal zones)) fs))))"

definition api_prefix :: "DnsService \<Rightarrow> string" where
  "api_prefix d = ''/api/dns/'' @ dhName (dsHandler d) @ ''/zones''"

text \<open>The two routes of \<^verbatim>\<open>RegisterAPI\<close> on the mux: status, body, and the state afterwards.\<close>

definition dns_api :: "fault \<Rightarrow> nat \<Rightarrow> string \<Rightarrow> string \<Rightarrow> string \<Rightarrow> DnsService \<times> files \<Rightarrow> (nat \<times> string) \<times> DnsService \<times> files" where
  "dns_api fl now meth path body s =
     (if path \<noteq> api_prefix (fst s) then ((404, []), s)
      else if meth = ''GET'' \<or> meth = ''HEAD'' then (get_zones (fst s), s)
      else if meth = ''PUT'' then (case put_zones fl now body s of (code, s1) \<Rightarrow> ((code, if code = 200 then [] else ''{\"error\":\"bad json\"}''), s1))
      else ((405, []), s))"

section \<open>The handler as a server\<close>

definition dns_Listen :: "DnsService \<Rightarrow> nat option" where
  "dns_Listen d = dsInjected d"

definition UseListener :: "nat \<Rightarrow> DnsService \<Rightarrow> DnsService" where
  "UseListener ln d = d\<lparr>dsInjected := Some ln\<rparr>"

text \<open>
  The accept loop over what the listener returns, in order: the connections served, and the error it ends with and whether the
  listener was closed; without a listener it returns at once, and on an exhausted list it is still waiting.
\<close>

fun dns_accept :: "(ioerr + 'c) list \<Rightarrow> 'c list \<times> (ioerr \<times> bool) option" where
  "dns_accept [] = ([], None)"
| "dns_accept (Inl e # rs) = ([], Some (e, False))"
| "dns_accept (Inr c # rs) = (let (cs, out) = dns_accept rs in (c # cs, out))"

definition dns_Serve :: "nat option \<Rightarrow> (ioerr + 'c) list \<Rightarrow> 'c list \<times> (ioerr \<times> bool) option" where
  "dns_Serve l rs = (case l of None \<Rightarrow> ([], None) | Some _ \<Rightarrow> dns_accept rs)"

definition dns_Name :: "DnsService \<Rightarrow> string" where
  "dns_Name d = ''dns:'' @ dhName (dsHandler d)"

section \<open>Printed zones are read back\<close>

lemma map_of_sort_by:
  assumes "distinct (map fst kvs)"
  shows "map_of (sort_by f kvs) = map_of kvs" "distinct (map fst (sort_by f kvs))"
proof -
  show d: "distinct (map fst (sort_by f kvs))" using assms by (simp add: distinct_map)
  show "map_of (sort_by f kvs) = map_of kvs"
    by (rule map_of_inject_set [THEN iffD2, OF d assms]) simp
qed

lemma jvalue_null: "jvalue (Suc f) (''null'' @ rest) = Some (JNull, rest)"
  by (simp add: jvalue.simps skip_ws_def is_ws_def ch_quote_def)

lemma jvalue_json_object:
  assumes "length kvs < f"
  shows "jvalue (Suc f) (json_object kvs @ rest) = Some (JObj (map (map_prod to_valid json_of) kvs), rest)"
proof (cases "kvs = []")
  case True
  then show ?thesis by (simp add: json_object_def jvalue.simps)
next
  case False
  then obtain r where r: "print_members kvs = ch_quote # r" using print_members_start by blast
  show ?thesis using jmembers_print [OF False assms, of rest]
    by (simp add: json_object_def jvalue.simps r) (simp add: ch_quote_def)
qed

text \<open>What the text of a zone's hosts parses to, and how much fuel a table needs.\<close>

definition hosts_json :: "(string \<times> string) list option \<Rightarrow> json" where
  "hosts_json hosts =
     (case hosts of None \<Rightarrow> JNull | Some hs \<Rightarrow> JObj (map (\<lambda>(k, v). (to_valid k, JStr (to_valid v))) (sort_by byte_order hs)))"

definition hosts_size :: "(string \<times> string) list option \<Rightarrow> nat" where
  "hosts_size hosts = (case hosts of None \<Rightarrow> 0 | Some hs \<Rightarrow> length hs)"

definition zones_size :: "(string \<times> (string \<times> string) list option) list \<Rightarrow> nat" where
  "zones_size zs = sum_list (map (\<lambda>(z, hs). Suc (hosts_size hs)) zs)"

lemma jvalue_hosts: "hosts_size hosts < f \<Longrightarrow> jvalue (Suc f) (hosts_text hosts @ rest) = Some (hosts_json hosts, rest)"
proof (cases hosts)
  case None
  then show ?thesis using jvalue_null [of f rest] by (simp add: hosts_text_def hosts_json_def)
next
  case (Some hs)
  moreover assume "hosts_size hosts < f"
  ultimately show ?thesis
    using jvalue_json_object [of "map (\<lambda>(k, v). (k, SStr v)) (sort_by byte_order hs)" f rest]
    by (simp add: hosts_text_def hosts_json_def hosts_size_def comp_def case_prod_beta map_prod_def)
qed

lemma jmembers_zone:
  assumes "hosts_size hs < g" "ends_value d"
  shows "jmembers (Suc (Suc g)) (print_string z @ '':'' @ hosts_text hs @ d # rest) =
     (if d = CHR '','' then map_option (apfst ((#) (to_valid z, hosts_json hs))) (jmembers (Suc g) rest)
      else Some ([(to_valid z, hosts_json hs)], rest))"
proof -
  have "jmembers (Suc (Suc g)) (print_string z @ '':'' @ hosts_text hs @ d # rest) =
     (case skip_ws (d # rest) of [] \<Rightarrow> None
      | e # r4 \<Rightarrow> if e = CHR '','' then map_option (apfst ((#) (to_valid z, hosts_json hs))) (jmembers (Suc g) r4)
                  else if e = CHR ''}'' then Some ([(to_valid z, hosts_json hs)], r4) else None)"
    unfolding jmembers.simps(2) [of "Suc g"] using jvalue_hosts [OF assms(1), of "d # rest"] by (simp add: print_string_def)
  with assms(2) show ?thesis by (auto simp: ends_value_def)
qed

lemma jmembers_zones:
  "zs \<noteq> [] \<Longrightarrow> Suc (zones_size zs) < f \<Longrightarrow>
     jmembers f (zones_members zs @ CHR ''}'' # rest) = Some (map (\<lambda>(z, hs). (to_valid z, hosts_json hs)) zs, rest)"
proof (induction zs arbitrary: f rule: zones_members.induct)
  case (2 z hs)
  then obtain g where "f = Suc (Suc g)" "hosts_size hs < g" by (auto simp: zones_size_def less_iff_Suc_add)
  then show ?case using jmembers_zone [of hs g "CHR ''}''" z rest] by (simp add: ends_value_def)
next
  case (3 z hs y ys)
  then obtain g where g: "f = Suc (Suc g)" "hosts_size hs < g" "Suc (zones_size (y # ys)) < Suc g"
    by (auto simp: zones_size_def less_iff_Suc_add)
  have "jmembers (Suc g) (zones_members (y # ys) @ CHR ''}'' # rest) = Some (map (\<lambda>(z, hs). (to_valid z, hosts_json hs)) (y # ys), rest)"
    using g(3) by (intro "3.IH") simp_all
  then show ?case using jmembers_zone [OF g(2), of "CHR '',''" z] by (simp add: g(1) ends_value_def)
qed simp

lemma hosts_text_long: "hosts_size hs \<le> length (hosts_text hs)"
  using length_print_members [of "map (\<lambda>(k, v). (k, SStr v)) (sort_by byte_order (the hs))"]
  by (cases hs) (simp_all add: hosts_size_def hosts_text_def json_object_def)

lemma zones_members_long: "zones_size zs \<le> length (zones_members zs)"
proof (induction zs rule: zones_members.induct)
  case (2 z hs)
  then show ?case using hosts_text_long [of hs] by (simp add: zones_size_def print_string_def)
next
  case (3 z hs y ys)
  then show ?case using hosts_text_long [of hs] by (simp add: zones_size_def print_string_def)
qed (simp add: zones_size_def)

lemma zones_members_start: "zs \<noteq> [] \<Longrightarrow> \<exists>r. zones_members zs = ch_quote # r"
  by (cases zs rule: zones_members.cases) (simp_all add: print_string_def)

lemma jvalue_zones:
  "jvalue (2 * length (zones_Marshal (Some zs) @ rest) + 1) (zones_Marshal (Some zs) @ rest) =
     Some (JObj (map (\<lambda>(z, hs). (to_valid z, hosts_json hs)) (sort_by byte_order zs)), rest)"
proof (cases "sort_by byte_order zs = []")
  case True
  then show ?thesis by (simp add: zones_Marshal_def jvalue.simps)
next
  case False
  let ?zs = "sort_by byte_order zs"
  obtain r where r: "zones_members ?zs = ch_quote # r" using zones_members_start [OF False] by blast
  have "jmembers (2 * length (zones_Marshal (Some zs) @ rest)) (zones_members ?zs @ CHR ''}'' # rest)
      = Some (map (\<lambda>(z, hs). (to_valid z, hosts_json hs)) ?zs, rest)"
    using zones_members_long [of ?zs] by (intro jmembers_zones [OF False]) (simp add: zones_Marshal_def)
  then show ?thesis by (simp add: zones_Marshal_def jvalue.simps r) (simp add: ch_quote_def)
qed

section \<open>Decoded maps\<close>

text \<open>Distinct keys at both levels, and text that JSON can carry.\<close>

definition hosts_ok :: "(string \<times> string) list option \<Rightarrow> bool" where
  "hosts_ok hosts \<longleftrightarrow>
     (case hosts of None \<Rightarrow> True | Some hs \<Rightarrow> distinct (map fst hs) \<and> list_all (\<lambda>(k, v). valid_utf8 k \<and> valid_utf8 v) hs)"

definition zones_ok :: "raw_zones \<Rightarrow> bool" where
  "zones_ok zones \<longleftrightarrow>
     (case zones of None \<Rightarrow> True | Some zs \<Rightarrow> distinct (map fst zs) \<and> list_all (\<lambda>(z, hs). valid_utf8 z \<and> hosts_ok hs) zs)"

lemma update_new: "k \<notin> fst ` set acc \<Longrightarrow> AList.update k v acc = acc @ [(k, v)]"
  by (induction acc) auto

lemma map_members_distinct:
  assumes "\<And>x. x \<in> set xs \<Longrightarrow> dec (j x) = Some (v x)" "distinct (map k xs)" "k ` set xs \<inter> fst ` set acc = {}"
  shows "map_members dec (map (\<lambda>x. (k x, j x)) xs) acc = Some (acc @ map (\<lambda>x. (k x, v x)) xs)"
  using assms
proof (induction xs arbitrary: acc)
  case (Cons x xs)
  have "map_members dec (map (\<lambda>x. (k x, j x)) xs) (acc @ [(k x, v x)]) = Some ((acc @ [(k x, v x)]) @ map (\<lambda>x. (k x, v x)) xs)"
    using Cons.prems by (intro Cons.IH) auto
  moreover have "k x \<notin> fst ` set acc" using Cons.prems(3) by auto
  ultimately show ?case using Cons.prems(1) by (simp add: update_new)
qed simp

lemma dec_hosts:
  assumes "hosts_ok hosts"
  shows "dec_map dec_text (hosts_json hosts) = Some (map_option (sort_by byte_order) hosts)"
proof (cases hosts)
  case None
  then show ?thesis by (simp add: hosts_json_def)
next
  case (Some hs)
  let ?hs = "sort_by byte_order hs"
  have ok: "distinct (map fst ?hs)" "\<forall>x \<in> set ?hs. valid_utf8 (fst x) \<and> valid_utf8 (snd x)"
    using assms by (auto simp: hosts_ok_def Some map_of_sort_by(2) list_all_iff)
  have "map_members dec_text (map (\<lambda>x. (fst x, JStr (snd x))) ?hs) [] = Some ([] @ map (\<lambda>x. (fst x, snd x)) ?hs)"
    using ok(1) by (intro map_members_distinct) simp_all
  moreover have m: "map (\<lambda>(k, v). (to_valid k, JStr (to_valid v))) ?hs = map (\<lambda>x. (fst x, JStr (snd x))) ?hs"
    using ok(2) by (auto simp: valid_utf8_def)
  ultimately show ?thesis unfolding hosts_json_def Some option.case m by simp
qed

definition sorted_zones :: "raw_zones \<Rightarrow> raw_zones" where
  "sorted_zones zones = map_option (\<lambda>zs. map (\<lambda>(z, hs). (z, map_option (sort_by byte_order) hs)) (sort_by byte_order zs)) zones"

text \<open>The zone table as the nested map it stands for.\<close>

definition zone_maps :: "raw_zones \<Rightarrow> (string \<rightharpoonup> (string \<rightharpoonup> string) option) option" where
  "zone_maps zones = map_option (\<lambda>zs. map_of (map (\<lambda>(z, hs). (z, map_option map_of hs)) zs)) zones"

lemma zones_roundtrip:
  assumes "zones_ok zones"
  shows "zones_Decode (zones_Marshal zones @ rest) = Some (sorted_zones zones)"
proof (cases zones)
  case None
  have "jvalue (2 * length (''null'' @ rest) + 1) (''null'' @ rest) = Some (JNull, rest)" unfolding Suc_eq_plus1 [symmetric] by (rule jvalue_null)
  then show ?thesis unfolding zones_Decode_def zones_Marshal_def None option.case by (simp add: sorted_zones_def)
next
  case (Some zs)
  let ?zs = "sort_by byte_order zs"
  have ok: "distinct (map fst ?zs)" "\<forall>x \<in> set ?zs. valid_utf8 (fst x) \<and> hosts_ok (snd x)"
    using assms by (auto simp: zones_ok_def Some map_of_sort_by(2) list_all_iff)
  have "map_members (dec_map dec_text) (map (\<lambda>x. (fst x, hosts_json (snd x))) ?zs) []
      = Some ([] @ map (\<lambda>x. (fst x, map_option (sort_by byte_order) (snd x))) ?zs)"
    using ok by (intro map_members_distinct) (simp_all add: dec_hosts)
  moreover have m: "map (\<lambda>(z, hs). (to_valid z, hosts_json hs)) ?zs = map (\<lambda>x. (fst x, hosts_json (snd x))) ?zs"
    using ok(2) by (auto simp: valid_utf8_def)
  ultimately show ?thesis
    unfolding zones_Decode_def Some jvalue_zones m by (simp add: sorted_zones_def case_prod_beta)
qed

lemma zone_maps_sorted:
  assumes "zones_ok zones"
  shows "zone_maps (sorted_zones zones) = zone_maps zones"
proof (cases zones)
  case (Some zs)
  have ok: "distinct (map fst zs)" "\<forall>x \<in> set zs. hosts_ok (snd x)" using assms by (auto simp: zones_ok_def Some list_all_iff)
  let ?f = "\<lambda>x. (fst x, map_option map_of (snd x))"
  have "map_option map_of (map_option (sort_by byte_order) (snd x)) = map_option map_of (snd x)" if "x \<in> set zs" for x
    using ok(2) that by (cases "snd x") (auto simp: hosts_ok_def map_of_sort_by(1) dest!: bspec)
  then have m: "map (\<lambda>x. (fst x, map_option map_of (map_option (sort_by byte_order) (snd x)))) (sort_by byte_order zs) = map ?f (sort_by byte_order zs)"
    by simp
  moreover have "map_of (map ?f (sort_by byte_order zs)) = map_of (map ?f zs)"
    using map_of_sort_by [OF ok(1), of byte_order] ok(1)
    by (intro map_of_inject_set [THEN iffD2]) (simp_all add: comp_def)
  ultimately have "map_of (map (\<lambda>x. (fst x, map_option map_of (map_option (sort_by byte_order) (snd x)))) (sort_by byte_order zs)) = map_of (map ?f zs)"
    by (simp only: m)
  then show ?thesis unfolding zone_maps_def sorted_zones_def Some option.map map_map case_prod_beta comp_def by simp
qed (simp add: zone_maps_def sorted_zones_def)

section \<open>The routes\<close>

text \<open>The keys of a decoded map are distinct, whatever the text repeats.\<close>

lemma map_members_keys: "map_members dec ms acc = Some kvs \<Longrightarrow> distinct (map fst acc) \<Longrightarrow> distinct (map fst kvs)"
proof (induction ms arbitrary: acc)
  case (Cons m ms)
  obtain k j v where "m = (k, j)" "map_members dec ms (AList.update k v acc) = Some kvs"
    using Cons.prems(1) by (cases m) (auto split: option.splits)
  then show ?case using Cons.IH AList.distinct_update [OF Cons.prems(2)] by blast
qed simp

lemma Decode_distinct: "zones_Decode body = Some (Some zs) \<Longrightarrow> distinct (map fst zs)"
  by (auto simp: zones_Decode_def split: option.splits prod.splits elim!: dec_map.elims dest: map_members_keys dest!: sym [of "Some (Some zs)"])



text \<open>Names that differ in case or a final dot fall together: the entry that the traversal of the map meets last wins.\<close>

lemma equal_names_ambiguous:
  "normalizeZones [(''Org'', [(''a'', ''1'')]), (''org.'', [(''a'', ''2'')])] = [(''org'', [(''a'', ''2'')])]"
  "normalizeZones [(''org.'', [(''a'', ''2'')]), (''Org'', [(''a'', ''1'')])] = [(''org'', [(''a'', ''1'')])]"
  by code_simp+

text \<open>Without an injected listener nothing is served.\<close>

lemma dns_not_served: "dns_Serve (dns_Listen (dns_service name zs ups)) rs = ([], None)"
  by (simp add: dns_Serve_def dns_Listen_def dns_service_def)

end
