(* ===== verification/FrameServer.thy ===== *)
theory FrameServer
  imports Prelude
begin

text \<open>
  The server that feeds a connection to a chain of plugins, \<^verbatim>\<open>protocol/star/server.go\<close> and
  \<^verbatim>\<open>response.go\<close>, and the plugins that are not SOCKS5: \<^verbatim>\<open>internal/star/plugin/printer\<close>, \<^verbatim>\<open>httpProxy\<close> and
  \<^verbatim>\<open>forward\<close>. The server calls the handler again as long as it asks for that with \<^verbatim>\<open>SetKeepAlive\<close>; the contract
  under which the loop ends is the locale \<open>reading_handler\<close>. HTTP parsing, the HTTP client and the
  outbound connections are arguments.
\<close>

section \<open>Responses\<close>

text \<open>
  \<open>rpIn\<close> is what the buffered reader can still yield before the connection ends with \<open>rpEnd\<close>. At most one
  of the two connections is set; a packet goes back to the session's address, and only a TCP connection has
  a reader. \<open>rpPanic\<close> is set by a run-time error such as a call on a nil reader.
\<close>

record Response =
  rpUdp :: bool
  rpTcp :: bool
  rpReader :: bool
  rpIn :: bytes
  rpEnd :: ioerr
  rpOut :: bytes
  rpPackets :: "bytes list"
  rpWErr :: "ioerr option"
  rpKeepAlive :: bool
  rpPanic :: bool

datatype write_result = WPanic | WErr ioerr | WOk nat

definition response_Write :: "bytes \<Rightarrow> Response \<Rightarrow> write_result \<times> Response" where
  "response_Write p w =
     (if rpUdp w then
        (case rpWErr w of Some e \<Rightarrow> (WErr e, w) | None \<Rightarrow> (WOk (length p), w\<lparr>rpPackets := rpPackets w @ [p]\<rparr>))
      else if rpTcp w then
        (case rpWErr w of Some e \<Rightarrow> (WErr e, w) | None \<Rightarrow> (WOk (length p), w\<lparr>rpOut := rpOut w @ p\<rparr>))
      else (WPanic, w))"

definition SetKeepAlive :: "bool \<Rightarrow> Response \<Rightarrow> Response" where
  "SetKeepAlive b w = w\<lparr>rpKeepAlive := b\<rparr>"

section \<open>The server\<close>

definition tcp_response :: "bytes \<Rightarrow> ioerr \<Rightarrow> Response" where
  "tcp_response inp e = \<lparr>rpUdp = False, rpTcp = True, rpReader = True, rpIn = inp, rpEnd = e, rpOut = [], rpPackets = [], rpWErr = None, rpKeepAlive = False, rpPanic = False\<rparr>"

partial_function (option) serve_loop :: "(Response \<Rightarrow> Response) \<Rightarrow> Response \<Rightarrow> Response option" where
  "serve_loop h w = (let w' = h w in if \<not> rpKeepAlive w' then Some w' else serve_loop h w')"

definition serveTCPConn :: "(Response \<Rightarrow> Response) \<Rightarrow> bytes \<Rightarrow> ioerr \<Rightarrow> Response option" where
  "serveTCPConn h inp e = serve_loop h (tcp_response inp e)"

text \<open>One packet, or an error of \<^verbatim>\<open>ReadFrom\<close>, which is printed; the handler runs in its own goroutine.\<close>

definition serveUDPPacket :: "(Response \<Rightarrow> Response) \<Rightarrow> ioerr + bytes \<Rightarrow> Response option" where
  "serveUDPPacket h r =
     (case r of
        Inl e \<Rightarrow> None
      | Inr p \<Rightarrow> Some (h \<lparr>rpUdp = True, rpTcp = False, rpReader = False, rpIn = [], rpEnd = EOF, rpOut = [], rpPackets = [], rpWErr = None, rpKeepAlive = False, rpPanic = False\<rparr>))"

datatype serve_kind = ServeTCP | ServeUDP

text \<open>The loop that is entered, by the kind of the network; \<open>refused\<close> is the error of opening the socket, if any.\<close>

definition ListenAndServe :: "string option \<Rightarrow> string \<Rightarrow> string + serve_kind" where
  "ListenAndServe refused net =
     (if net \<in> {''tcp'', ''tcp4'', ''tcp6''} then (case refused of Some e \<Rightarrow> Inl e | None \<Rightarrow> Inr ServeTCP)
      else if net \<in> {''udp'', ''udp4'', ''udp6''} then (case refused of Some e \<Rightarrow> Inl e | None \<Rightarrow> Inr ServeUDP)
      else Inl ''bad network'')"

text \<open>
  The accept loop: the connections that were given to a goroutine each, the error that ended it, and that the listener
  was closed on the way out. Results that never come leave it waiting.
\<close>

fun serveTCP :: "(ioerr + 'c) list \<Rightarrow> 'c list \<times> (ioerr \<times> bool) option" where
  "serveTCP [] = ([], None)"
| "serveTCP (Inl e # rs) = ([], Some (e, True))"
| "serveTCP (Inr c # rs) = (let (cs, out) = serveTCP rs in (c # cs, out))"

text \<open>The packet loop over the results of \<^verbatim>\<open>ReadFrom\<close>: it never returns, an error only skips a packet.\<close>

definition serveUDP :: "(Response \<Rightarrow> Response) \<Rightarrow> (ioerr + bytes) list \<Rightarrow> Response list" where
  "serveUDP h rs = List.map_filter (serveUDPPacket h) rs"

text \<open>The loops that \<^verbatim>\<open>ActivateAndServe\<close> enters, in order; the one for packets does not return.\<close>

definition ActivateAndServe :: "bool \<Rightarrow> bool \<Rightarrow> serve_kind list" where
  "ActivateAndServe packet listener = (if packet then [ServeUDP] else if listener then [ServeTCP] else [])"

section \<open>Printer\<close>

text \<open>One read of at most 1024 bytes; \<open>avail\<close> says how many of them (at least one) the reader has.\<close>

definition printer_ServeStar :: "(bytes \<Rightarrow> nat) \<Rightarrow> Response \<Rightarrow> Response" where
  "printer_ServeStar avail w =
     (if \<not> rpReader w then (SetKeepAlive True w)\<lparr>rpPanic := True\<rparr>
      else if rpIn w = [] then SetKeepAlive False (SetKeepAlive True w)
      else (SetKeepAlive True w)\<lparr>rpIn := drop (max 1 (min 1024 (avail (rpIn w)))) (rpIn w)\<rparr>)"

section \<open>HTTP proxy\<close>

record HttpReq =
  hqMethod :: string
  hqScheme :: string
  hqUrlHost :: string
  hqPath :: string
  hqHost :: string
  hqHeader :: "(string \<times> string) list"
  hqBody :: bytes

text \<open>
  \<open>heRead\<close> is \<^verbatim>\<open>http.ReadRequest\<close> with the body (a request and the rest of the input), \<open>heNew\<close> whether \<^verbatim>\<open>http.NewRequest\<close>
  accepts, \<open>heDo\<close> the response that \<^verbatim>\<open>client.Do\<close> gets, as it is written out. For CONNECT, \<open>heDial\<close> is the dial
  and \<open>heTunnel\<close> what the two copies do until the first ends: the input left and the bytes for the client.
\<close>

record HttpEnv =
  heRead :: "bytes \<Rightarrow> (HttpReq \<times> bytes) option"
  heNew :: "string \<Rightarrow> string \<Rightarrow> bool"
  heDo :: "string \<Rightarrow> string \<Rightarrow> (string \<times> string) list \<Rightarrow> bytes \<Rightarrow> bytes option"
  heDial :: "string \<Rightarrow> bool"
  heTunnel :: "string \<Rightarrow> bytes \<Rightarrow> bytes \<times> bytes"

definition target_url :: "HttpReq \<Rightarrow> string" where
  "target_url r =
     (if hqScheme r = [] then ''http'' else hqScheme r) @ ''://''
     @ (if hqUrlHost r = [] then hqHost r else hqUrlHost r) @ hqPath r"

definition bad_gateway :: bytes where
  "bad_gateway = bytes_of_string (''HTTP/1.1 502 Bad Gateway'' @ [CHR 0x0D, CHR 0x0A, CHR 0x0D, CHR 0x0A])"

definition established :: bytes where
  "established = bytes_of_string (''HTTP/1.1 200 Connection established'' @ [CHR 0x0D, CHR 0x0A, CHR 0x0D, CHR 0x0A])"

definition handleHTTP :: "HttpEnv \<Rightarrow> HttpReq \<Rightarrow> Response \<Rightarrow> Response" where
  "handleHTTP E r w =
     (if \<not> heNew E (hqMethod r) (target_url r) then snd (response_Write bad_gateway w)
      else case heDo E (hqMethod r) (target_url r) (hqHeader r) (hqBody r) of
        None \<Rightarrow> w
      | Some resp \<Rightarrow> snd (response_Write resp w))"

text \<open>\<^verbatim>\<open>handleCONNECT\<close> ends with an error on every path; the text of the last one is \<^verbatim>\<open>errChan\<close>.\<close>

definition handleCONNECT :: "HttpEnv \<Rightarrow> HttpReq \<Rightarrow> Response \<Rightarrow> string \<times> Response" where
  "handleCONNECT E r w =
     (if \<not> heDial E (hqHost r) then (''dial'', w)
      else case response_Write established w of
        (WOk n, w1) \<Rightarrow>
          (let (rest, down) = heTunnel E (hqHost r) (rpIn w1) in
           (''errChan'', snd (response_Write down (w1\<lparr>rpIn := rest\<rparr>))))
      | (x, w1) \<Rightarrow> (''write'', w1))"

definition httpProxy_ServeStar :: "HttpEnv \<Rightarrow> Response \<Rightarrow> string option \<times> Response" where
  "httpProxy_ServeStar E w0 =
     (let w = SetKeepAlive True w0 in
      if \<not> rpReader w then (None, w\<lparr>rpPanic := True\<rparr>)
      else case heRead E (rpIn w) of
        None \<Rightarrow> (Some ''read'', SetKeepAlive False w)
      | Some (r, rest) \<Rightarrow>
          (let w1 = w\<lparr>rpIn := rest\<rparr> in
           if hqMethod r = ''CONNECT'' then
             (let (e, w2) = handleCONNECT E r w1 in (Some e, SetKeepAlive False w2))
           else (None, handleHTTP E r w1)))"

section \<open>The chain of a server\<close>

text \<open>
  The handler that \<^verbatim>\<open>Serve\<close> and \<^verbatim>\<open>ServePacket\<close> of a star server (\<^verbatim>\<open>internal/star/starserver/server.go\<close>) install: the chain of the
  plugins of its zone, whose name is read first, so that a missing chain is a run-time error.
\<close>

definition serve_chain :: "(Response \<Rightarrow> Response) option \<Rightarrow> Response \<Rightarrow> Response" where
  "serve_chain chain w = (case chain of None \<Rightarrow> w\<lparr>rpPanic := True\<rparr> | Some h \<Rightarrow> h w)"

section \<open>Forward\<close>

text \<open>
  A connection forwarded to the target: \<open>fwIn\<close> and \<open>fwTarget\<close> are what the two sides still send, \<open>fwUp\<close> and
  \<open>fwDown\<close> what was copied. The call returns when the first copy has ended, and closes the target.
\<close>

datatype copy_state = Copies | CopyEnded

record Forward =
  fwIn :: bytes
  fwTarget :: bytes
  fwUp :: bytes
  fwDown :: bytes
  fwUpState :: copy_state
  fwDownState :: copy_state
  fwReturned :: bool
  fwTargetClosed :: bool
  fwKeepAlive :: bool

text \<open>The dial; a failure is the end of the call, with the connection given up.\<close>

definition forward_start :: "bool \<Rightarrow> bytes \<Rightarrow> bytes \<Rightarrow> Forward" where
  "forward_start dialled inp target =
     \<lparr>fwIn = inp, fwTarget = (if dialled then target else []), fwUp = [], fwDown = [], fwUpState = (if dialled then Copies else CopyEnded),
      fwDownState = (if dialled then Copies else CopyEnded), fwReturned = \<not> dialled, fwTargetClosed = False, fwKeepAlive = dialled\<rparr>"

datatype fw_event = FwUp nat | FwUpEnd | FwDown nat | FwDownEnd | FwReturn

fun forward_step :: "fw_event \<Rightarrow> Forward \<Rightarrow> Forward option" where
  "forward_step (FwUp n) f =
     (if fwUpState f = Copies \<and> \<not> fwTargetClosed f
      then Some (f\<lparr>fwUp := fwUp f @ take n (fwIn f), fwIn := drop n (fwIn f)\<rparr>) else None)"
| "forward_step FwUpEnd f =
     (if fwUpState f = Copies \<and> (fwIn f = [] \<or> fwTargetClosed f) then Some (f\<lparr>fwUpState := CopyEnded\<rparr>) else None)"
| "forward_step (FwDown n) f =
     (if fwDownState f = Copies \<and> \<not> fwTargetClosed f
      then Some (f\<lparr>fwDown := fwDown f @ take n (fwTarget f), fwTarget := drop n (fwTarget f)\<rparr>) else None)"
| "forward_step FwDownEnd f =
     (if fwDownState f = Copies \<and> (fwTarget f = [] \<or> fwTargetClosed f) then Some (f\<lparr>fwDownState := CopyEnded\<rparr>) else None)"
| "forward_step FwReturn f =
     (if \<not> fwReturned f \<and> (fwUpState f = CopyEnded \<or> fwDownState f = CopyEnded)
      then Some (f\<lparr>fwReturned := True, fwTargetClosed := True, fwKeepAlive := False\<rparr>) else None)"

fun forward_exec :: "fw_event list \<Rightarrow> Forward \<Rightarrow> Forward option" where
  "forward_exec [] f = Some f"
| "forward_exec (e # es) f = (case forward_step e f of None \<Rightarrow> None | Some f' \<Rightarrow> forward_exec es f')"

section \<open>The contract of a handler\<close>

text \<open>
  A handler that asks to be called again has read something. Then a connection whose input
  ends is served to its end, whatever the plugin.
\<close>

locale reading_handler =
  fixes h :: "Response \<Rightarrow> Response"
  assumes keeps_reader: "rpReader (h w) = rpReader w"
    and reads: "rpReader w \<Longrightarrow> rpKeepAlive (h w) \<Longrightarrow> length (rpIn (h w)) < length (rpIn w)"
begin

lemma serve_returns: "rpReader w \<Longrightarrow> \<exists>w'. serve_loop h w = Some w' \<and> \<not> rpKeepAlive w'"
proof (induction "length (rpIn w)" arbitrary: w rule: less_induct)
  case less
  show ?case
  proof (cases "rpKeepAlive (h w)")
    case True
    with less.hyps [OF reads [OF less.prems True]] less.prems keeps_reader [of w] show ?thesis by (subst serve_loop.simps) (simp add: Let_def)
  next
    case False
    then show ?thesis by (subst serve_loop.simps) (simp add: Let_def)
  qed
qed

end

lemma drop_some: "xs \<noteq> [] \<Longrightarrow> length (drop (max 1 k) xs) < length xs"
  by (cases xs) (simp_all add: max_def)

interpretation printer: reading_handler "printer_ServeStar avail" for avail
proof unfold_locales
  show "rpReader (printer_ServeStar avail w) = rpReader w" for w by (simp add: printer_ServeStar_def SetKeepAlive_def)
  fix w assume "rpReader w" "rpKeepAlive (printer_ServeStar avail w)"
  then show "length (rpIn (printer_ServeStar avail w)) < length (rpIn w)"
    using drop_some [of "rpIn w" "min 1024 (avail (rpIn w))"]
    by (auto simp: printer_ServeStar_def SetKeepAlive_def split: if_splits)
qed

text \<open>What the proxy relies on: a request that was read took at least one byte.\<close>

definition requests_shrink :: "HttpEnv \<Rightarrow> bool" where
  "requests_shrink E \<longleftrightarrow> (\<forall>inp r rest. heRead E inp = Some (r, rest) \<longrightarrow> length rest < length inp)"

lemma response_Write_in [simp]: "rpIn (snd (response_Write p w)) = rpIn w" "rpKeepAlive (snd (response_Write p w)) = rpKeepAlive w"
  "rpReader (snd (response_Write p w)) = rpReader w"
  by (auto simp: response_Write_def split: option.splits)

lemma handleHTTP_in [simp]: "rpIn (handleHTTP E r w) = rpIn w" "rpKeepAlive (handleHTTP E r w) = rpKeepAlive w"
  "rpReader (handleHTTP E r w) = rpReader w"
  by (auto simp: handleHTTP_def split: option.splits)

lemma handleCONNECT_reader: "rpReader (snd (handleCONNECT E r w)) = rpReader w"
proof -
  obtain x w1 where x: "response_Write established w = (x, w1)" by (cases "response_Write established w")
  then have "rpReader w1 = rpReader w" using response_Write_in(3) [of established w] by simp
  with x show ?thesis by (cases x) (simp_all add: handleCONNECT_def Let_def split: prod.split)
qed

lemma httpProxy_reading: "requests_shrink E \<Longrightarrow> reading_handler (\<lambda>w. snd (httpProxy_ServeStar E w))"
proof unfold_locales
  show "rpReader (snd (httpProxy_ServeStar E w)) = rpReader w" for w
    by (simp add: httpProxy_ServeStar_def Let_def SetKeepAlive_def case_prod_beta handleCONNECT_reader split: option.split)
qed (auto simp: httpProxy_ServeStar_def Let_def SetKeepAlive_def requests_shrink_def split: option.splits prod.splits if_splits)

text \<open>A handler that asks to be called again without reading keeps the server busy for ever.\<close>

lemma unread_keepalive_loops: "serve_loop (SetKeepAlive True) w = None"
proof (rule ccontr)
  have "serve_loop h w = Some y \<Longrightarrow> h \<noteq> SetKeepAlive True" for h y
    by (erule serve_loop.raw_induct [rotated, where P = "\<lambda>h w y. h \<noteq> SetKeepAlive True"])
      (auto simp: Let_def SetKeepAlive_def split: if_splits)
  moreover assume "serve_loop (SetKeepAlive True) w \<noteq> None"
  ultimately show False by blast
qed

text \<open>A packet has no reader: the first one on a UDP listener ends the process, with either plugin, and so does a server without plugins.\<close>

lemma udp_packet_panics:
  assumes "serveUDPPacket (serve_chain chain) (Inr p) = Some w"
    "chain \<in> {None, Some (printer_ServeStar avail), Some (\<lambda>w. snd (httpProxy_ServeStar E w))}"
  shows "rpPanic w"
  using assms by (auto simp: serveUDPPacket_def serve_chain_def printer_ServeStar_def httpProxy_ServeStar_def Let_def SetKeepAlive_def)

text \<open>The accept loop hands over every connection up to the first error, and closes the listener then.\<close>

lemma serveTCP_all: "serveTCP (map Inr cs @ Inl e # rs) = (cs, Some (e, True))"
  by (induction cs) (simp_all add: Let_def)

section \<open>Theorems\<close>

definition http_answer :: "HttpEnv \<Rightarrow> HttpReq \<Rightarrow> bytes" where
  "http_answer E r =
     (if \<not> heNew E (hqMethod r) (target_url r) then bad_gateway
      else case heDo E (hqMethod r) (target_url r) (hqHeader r) (hqBody r) of None \<Rightarrow> [] | Some resp \<Rightarrow> resp)"

definition plain_conn :: "Response \<Rightarrow> bool" where
  "plain_conn w \<longleftrightarrow> rpReader w \<and> rpTcp w \<and> \<not> rpUdp w \<and> rpWErr w = None"

lemma handleHTTP_answer:
  "plain_conn w \<Longrightarrow> plain_conn (handleHTTP E r w) \<and> rpOut (handleHTTP E r w) = rpOut w @ http_answer E r"
  by (simp add: handleHTTP_def http_answer_def response_Write_def plain_conn_def split: option.split)

lemma serve_requests:
  assumes "plain_conn w" "rpIn w = concat (map enc rs)" "heRead E [] = None"
    and "\<And>r rest. r \<in> set rs \<Longrightarrow> heRead E (enc r @ rest) = Some (r, rest) \<and> hqMethod r \<noteq> ''CONNECT''"
  shows "\<exists>w'. serve_loop (\<lambda>w. snd (httpProxy_ServeStar E w)) w = Some w' \<and> rpOut w' = rpOut w @ concat (map (http_answer E) rs) \<and> rpIn w' = []"
  using assms
proof (induction rs arbitrary: w)
  case Nil
  then show ?case by (subst serve_loop.simps) (simp add: httpProxy_ServeStar_def Let_def SetKeepAlive_def plain_conn_def)
next
  case (Cons r rs)
  let ?w1 = "handleHTTP E r ((SetKeepAlive True w)\<lparr>rpIn := concat (map enc rs)\<rparr>)"
  have s: "snd (httpProxy_ServeStar E w) = ?w1" "rpKeepAlive ?w1"
    using Cons.prems(1,2,4) by (simp_all add: plain_conn_def httpProxy_ServeStar_def Let_def SetKeepAlive_def)
  have "plain_conn ((SetKeepAlive True w)\<lparr>rpIn := concat (map enc rs)\<rparr>)"
    using Cons.prems(1) by (simp add: plain_conn_def SetKeepAlive_def)
  from handleHTTP_answer [OF this, of E r] Cons.IH [of ?w1] Cons.prems(3,4)
  obtain w' where w': "serve_loop (\<lambda>w. snd (httpProxy_ServeStar E w)) ?w1 = Some w'"
    "rpOut w' = rpOut ?w1 @ concat (map (http_answer E) rs)" "rpIn w' = []" "rpOut ?w1 = rpOut w @ http_answer E r"
    by (auto simp: SetKeepAlive_def)
  then show ?case using s by (subst serve_loop.simps) (simp add: Let_def)
qed

text \<open>
  The HTTP proxy answers the requests of a connection in order. On input that is a
  sequence of requests other than CONNECT, the server calls the plugin once for each, writes the answers
  one after the other (the upstream's response, 502 for a request that cannot be
  rebuilt, nothing when the upstream fails) and returns after the last.
\<close>

theorem http_requests_in_order:
  assumes "heRead E [] = None"
    and "\<And>r rest. r \<in> set rs \<Longrightarrow> heRead E (enc r @ rest) = Some (r, rest) \<and> hqMethod r \<noteq> ''CONNECT''"
  shows "\<exists>w'. serveTCPConn (\<lambda>w. snd (httpProxy_ServeStar E w)) (concat (map enc rs)) e = Some w'
    \<and> rpOut w' = concat (map (http_answer E) rs) \<and> rpIn w' = []"
  using serve_requests [of "tcp_response (concat (map enc rs)) e" enc rs E] assms
  by (simp add: serveTCPConn_def tcp_response_def plain_conn_def)

text \<open>A connection on which each request is one byte, and the upstream returns it twice.\<close>

definition demo_http_req :: "byte \<Rightarrow> HttpReq" where
  "demo_http_req b = \<lparr>hqMethod = ''GET'', hqScheme = [], hqUrlHost = [], hqPath = ''/'', hqHost = ''h'', hqHeader = [], hqBody = [b]\<rparr>"

definition demo_env :: HttpEnv where
  "demo_env = \<lparr>heRead = (\<lambda>inp. case inp of [] \<Rightarrow> None | b # rest \<Rightarrow> Some (demo_http_req b, rest)), heNew = (\<lambda>_ _. True),
     heDo = (\<lambda>_ _ _ body. Some (body @ body)), heDial = (\<lambda>_. False), heTunnel = (\<lambda>_ inp. (inp, []))\<rparr>"

theorem http_requests_in_order_witness:
  "\<exists>w'. serveTCPConn (\<lambda>w. snd (httpProxy_ServeStar demo_env w)) [5, 6] EOF = Some w' \<and> rpOut w' = [5, 5, 6, 6] \<and> rpIn w' = []"
proof -
  have "\<exists>w'. serveTCPConn (\<lambda>w. snd (httpProxy_ServeStar demo_env w)) (concat (map hqBody [demo_http_req 5, demo_http_req 6])) EOF = Some w'
      \<and> rpOut w' = concat (map (http_answer demo_env) [demo_http_req 5, demo_http_req 6]) \<and> rpIn w' = []"
    by (rule http_requests_in_order) (auto simp: demo_env_def demo_http_req_def)
  then show ?thesis by (simp add: demo_http_req_def http_answer_def) (simp add: demo_env_def)
qed

text \<open>
  A served connection ends. For the printer and for the HTTP proxy, whatever the client sends and
  however it arrives, the loop of the frame server returns with the connection given up.
\<close>

theorem served_connection_ends:
  assumes "requests_shrink E"
  shows "(\<exists>w. serveTCPConn (printer_ServeStar avail) inp e = Some w \<and> \<not> rpKeepAlive w)
    \<and> (\<exists>w. serveTCPConn (\<lambda>w. snd (httpProxy_ServeStar E w)) inp e = Some w \<and> \<not> rpKeepAlive w)"
  using printer.serve_returns reading_handler.serve_returns [OF httpProxy_reading [OF assms]]
  by (simp add: serveTCPConn_def tcp_response_def)

theorem served_connection_ends_witness:
  "requests_shrink demo_env \<and> (\<exists>w. serveTCPConn (\<lambda>w. snd (httpProxy_ServeStar demo_env w)) [1, 2, 3] EOF = Some w \<and> \<not> rpKeepAlive w)"
proof -
  have "requests_shrink demo_env" by (auto simp: requests_shrink_def demo_env_def split: list.splits)
  with served_connection_ends [OF this] show ?thesis by blast
qed

text \<open>
  Forwarding copies each direction faithfully, and the call ends with the target closed.
\<close>

lemma forward_faithful:
  assumes "forward_exec es (forward_start True inp target) = Some f"
  shows "fwUp f @ fwIn f = inp \<and> fwDown f @ fwTarget f = target \<and> (fwReturned f \<longrightarrow> fwTargetClosed f \<and> \<not> fwKeepAlive f)"
proof -
  have step: "fwUp f' @ fwIn f' = fwUp f @ fwIn f \<and> fwDown f' @ fwTarget f' = fwDown f @ fwTarget f
      \<and> ((fwReturned f \<longrightarrow> fwTargetClosed f \<and> \<not> fwKeepAlive f) \<longrightarrow> (fwReturned f' \<longrightarrow> fwTargetClosed f' \<and> \<not> fwKeepAlive f'))"
    if "forward_step e f = Some f'" for e f f'
    using that by (cases e) (auto split: if_splits)
  have "fwUp f @ fwIn f = fwUp f0 @ fwIn f0 \<and> fwDown f @ fwTarget f = fwDown f0 @ fwTarget f0 \<and> (fwReturned f \<longrightarrow> fwTargetClosed f \<and> \<not> fwKeepAlive f)"
    if "forward_exec es f0 = Some f" "fwReturned f0 \<longrightarrow> fwTargetClosed f0 \<and> \<not> fwKeepAlive f0" for f0
    using that
  proof (induction es arbitrary: f0)
    case (Cons e es)
    then obtain f1 where f1: "forward_step e f0 = Some f1" "forward_exec es f1 = Some f" by (auto split: option.splits)
    with Cons.IH [OF f1(2)] step [OF f1(1)] Cons.prems(2) show ?case by simp
  qed simp
  from this [OF assms] show ?thesis by (simp add: forward_start_def)
qed

text \<open>
  When the client has sent everything and closes its sending direction, forwarding ends at once: the answer
  of the target is cut off.
\<close>

lemma forward_cuts_reply:
  "\<exists>f. forward_exec [FwUp 1, FwUpEnd, FwReturn, FwDownEnd] (forward_start True [1] [2, 3]) = Some f \<and> fwUp f = [1] \<and> fwDown f = [] \<and> fwReturned f"
  by (simp add: forward_start_def)

end
