(* ===== verification/Instance.thy ===== *)
theory Instance
  imports Schema
begin

text \<open>
  The plugin framework, \<^verbatim>\<open>pluginer\<close>, and the reload of a running server,
  \<^verbatim>\<open>internal/star/starserver/star.go\<close>. A plugin's setup acts on the plugin zones of the server under
  construction; the servers are those of theory Schema. Opening a listener is an argument (whether
  the operating system grants it); an open listener is named by its address.
\<close>

section \<open>Plugins\<close>

record Controller =
  ctlKey :: string
  ctlNetwork :: string
  ctlAddress :: string

type_synonym 'c setup_fun = "Controller \<Rightarrow> 'c \<Rightarrow> string + 'c"

type_synonym 'c plugins = "(string \<times> (string \<times> 'c setup_fun) list) list"

text \<open>\<^verbatim>\<open>RegisterPlugin\<close> panics on an empty or taken name: none.\<close>

definition RegisterPlugin :: "string \<Rightarrow> string \<Rightarrow> 'c setup_fun \<Rightarrow> 'c plugins \<Rightarrow> 'c plugins option" where
  "RegisterPlugin name stype action ps =
     (if name = [] then None
      else let tbl = (case map_of ps stype of None \<Rightarrow> [] | Some t \<Rightarrow> t) in
        if map_of tbl name \<noteq> None then None
        else Some (AList.update stype (AList.update name action tbl) ps))"

definition plugin_in :: "string \<Rightarrow> string \<Rightarrow> 'c plugins \<Rightarrow> 'c setup_fun option" where
  "plugin_in stype dir ps = (case map_of ps stype of None \<Rightarrow> None | Some t \<Rightarrow> map_of t dir)"

definition DirectiveAction :: "string \<Rightarrow> string \<Rightarrow> 'c plugins \<Rightarrow> string + 'c setup_fun" where
  "DirectiveAction stype dir ps =
     (case plugin_in stype dir ps of
        Some a \<Rightarrow> Inr a
      | None \<Rightarrow>
          (case plugin_in [] dir ps of
             Some a \<Rightarrow> Inr a
           | None \<Rightarrow> Inl (''no action found for directive '' @ dir)))"

fun run_plugins :: "'c plugins \<Rightarrow> string \<Rightarrow> Host \<Rightarrow> string list \<Rightarrow> 'c \<Rightarrow> string + 'c" where
  "run_plugins ps stype host [] c = Inr c"
| "run_plugins ps stype host (p # rest) c =
     (case DirectiveAction stype p ps of
        Inl e \<Rightarrow> Inl e
      | Inr action \<Rightarrow>
          (case action \<lparr>ctlKey = keyForConfig (hoNetwork host) (hoAddress host), ctlNetwork = hoNetwork host, ctlAddress = hoAddress host\<rparr> c of
             Inl e \<Rightarrow> Inl e
           | Inr c' \<Rightarrow> run_plugins ps stype host rest c'))"

fun run_hosts :: "'c plugins \<Rightarrow> string \<Rightarrow> Host list \<Rightarrow> 'c \<Rightarrow> string + 'c" where
  "run_hosts ps stype [] c = Inr c"
| "run_hosts ps stype (h # hs) c = rbind (run_plugins ps stype h (hoPlugin h) c) (run_hosts ps stype hs)"

fun executeDirectives :: "'c plugins \<Rightarrow> string \<Rightarrow> (string \<times> string \<times> Host list) list \<Rightarrow> 'c \<Rightarrow> string + 'c" where
  "executeDirectives ps stype [] c = Inr c"
| "executeDirectives ps stype ((name, ty, hosts) # ss) c =
     (if ty \<noteq> stype then executeDirectives ps stype ss c
      else rbind (run_hosts ps stype hosts c) (executeDirectives ps stype ss))"

section \<open>Instances\<close>

record 's Instance =
  inServers :: "('s \<times> string) list"
  inStopped :: bool
  inShutdowns :: nat

definition no_instance :: "'s Instance" where
  "no_instance = \<lparr>inServers = [], inStopped = False, inShutdowns = 0\<rparr>"

text \<open>
  \<^verbatim>\<open>startServers\<close>: listeners are opened in order; \<open>listens\<close> says whether a server's listener opens and
  where. The first failure returns with those before it open.
\<close>

fun startServers :: "('s \<Rightarrow> string + string) \<Rightarrow> 's list \<Rightarrow> ('s \<times> string) list \<Rightarrow> string option \<times> ('s \<times> string) list" where
  "startServers listens [] open_ls = (None, open_ls)"
| "startServers listens (s # ss) open_ls =
     (case listens s of
        Inl e \<Rightarrow> (Some (''Listen: '' @ e), open_ls)
      | Inr l \<Rightarrow> startServers listens ss (open_ls @ [(s, l)]))"

text \<open>\<^verbatim>\<open>Start\<close>: \<open>build\<close> is the construction of the servers from the file (directives and \<^verbatim>\<open>MakeServers\<close>).\<close>

definition Start :: "('s \<Rightarrow> string + string) \<Rightarrow> string + 's list \<Rightarrow> string option \<times> 's Instance" where
  "Start listens build =
     (case build of
        Inl e \<Rightarrow> (Some e, no_instance)
      | Inr servers \<Rightarrow>
          (let (err, ls) = startServers listens servers [] in (err, no_instance\<lparr>inServers := ls\<rparr>)))"

definition Stop :: "'s Instance \<Rightarrow> 's Instance" where
  "Stop i = i\<lparr>inStopped := True, inShutdowns := inShutdowns i + 1\<rparr>"

text \<open>The addresses on which an instance accepts connections.\<close>

definition serving :: "'s Instance \<Rightarrow> string list" where
  "serving i = (if inStopped i then [] else map snd (inServers i))"

section \<open>Reload\<close>

text \<open>
  \<open>check\<close> is what \<^verbatim>\<open>config.Load\<close> says of the file, \<open>build\<close> the construction from it. The result is the
  error, the old instance as it is left, and the new one.
\<close>

definition Reload :: "('s \<Rightarrow> string + string) \<Rightarrow> config_error + Root \<Rightarrow> string + 's list \<Rightarrow> 's Instance
    \<Rightarrow> (string option \<times> 's Instance) \<times> 's Instance" where
  "Reload listens check build old =
     (case check of
        Inl _ \<Rightarrow> ((Some ''config'', old), old)
      | Inr _ \<Rightarrow> (Start listens build, Stop old))"

text \<open>The loop of \<^verbatim>\<open>Run\<close> on SIGHUP: the instance it holds afterwards. An instance is changed in place by \<^verbatim>\<open>Stop\<close>.\<close>

definition on_hup :: "('s \<Rightarrow> string + string) \<Rightarrow> config_error + Root \<Rightarrow> string + 's list \<Rightarrow> 's Instance \<Rightarrow> 's Instance" where
  "on_hup listens check build inst =
     (let ((err, newInst), old) = Reload listens check build inst in if err = None then newInst else old)"

section \<open>Lemmas\<close>

lemma register_lookup:
  assumes "RegisterPlugin name stype action ps = Some ps'"
  shows "DirectiveAction stype name ps' = Inr action"
    and "(st, n) \<noteq> (stype, name) \<Longrightarrow> plugin_in st n ps' = plugin_in st n ps"
proof -
  have p: "ps' = AList.update stype (AList.update name action (case map_of ps stype of None \<Rightarrow> [] | Some t \<Rightarrow> t)) ps"
    using assms by (auto simp: RegisterPlugin_def Let_def split: if_splits)
  show "DirectiveAction stype name ps' = Inr action"
    by (simp add: p DirectiveAction_def plugin_in_def AList.update_conv')
  show "(st, n) \<noteq> (stype, name) \<Longrightarrow> plugin_in st n ps' = plugin_in st n ps"
    by (auto simp: p plugin_in_def AList.update_conv' split: option.splits)
qed

lemma startServers_ok:
  "startServers listens ss ls = (None, ls') \<Longrightarrow> map fst ls' = map fst ls @ ss"
  by (induction listens ss ls rule: startServers.induct) (auto split: sum.splits)

text \<open>
  A rejected configuration leaves the running server untouched and serving; an accepted one that starts replaces it
  by an instance that serves every server of the new configuration, with the old one stopped.
\<close>

theorem reload_safe:
  "(\<forall>e. check = Inl e \<longrightarrow> on_hup listens check build inst = inst)
   \<and> (\<forall>root servers new. check = Inr root \<longrightarrow> build = Inr servers \<longrightarrow> Start listens build = (None, new) \<longrightarrow>
        on_hup listens check build inst = new \<and> map fst (inServers new) = servers \<and> length (serving new) = length servers
        \<and> serving (snd (Reload listens check build inst)) = [])"
proof (intro conjI allI impI)
  fix root servers new
  assume a: "check = Inr root" "build = Inr servers" "Start listens build = (None, new)"
  then obtain ls where ls: "startServers listens servers [] = (None, ls)" "new = no_instance\<lparr>inServers := ls\<rparr>"
    by (auto simp: Start_def split: prod.splits)
  with startServers_ok [OF ls(1)] have "map fst ls = servers" by simp
  then show "map fst (inServers new) = servers" "length (serving new) = length servers"
    using ls by (auto simp: no_instance_def serving_def)
  show "on_hup listens check build inst = new" "serving (snd (Reload listens check build inst)) = []"
    using a by (simp_all add: on_hup_def Reload_def serving_def Stop_def)
qed (simp add: on_hup_def Reload_def)

text \<open>
  When the configuration is valid but a listener cannot be opened, the reload fails after the old
  instance was stopped: the instance that is kept serves nothing.
\<close>

lemma failed_restart_stops_service:
  assumes "check = Inr root" "fst (Start listens build) = Some e"
  shows "serving (on_hup listens check build inst) = []"
  using assms by (auto simp: on_hup_def Reload_def serving_def Stop_def split: prod.splits)

end
