(* ===== verification/CustomServer.thy ===== *)
theory CustomServer
  imports Instance
begin

text \<open>
  The demonstration server type, \<^verbatim>\<open>internal/custom\<close> and \<^verbatim>\<open>protocol/custom\<close>: its configuration, the
  plugins \<^verbatim>\<open>printer\<close> and \<^verbatim>\<open>writer\<close>, the construction of the servers through the plugin framework of theory
  Instance, and what a server does with a message. The configuration file is an argument, decoded. A nil
  pointer that is used, and an explicit panic, are the result \<open>AsmPanic\<close>.
\<close>

section \<open>Configuration\<close>

record CHost =
  chKey :: string
  chNetwork :: string
  chAddress :: string
  chPlugin :: "string list"

record CService =
  csName :: string
  csProtocol :: string
  csHost :: "CHost list"

definition custom_serverType :: string where "custom_serverType = ''custom''"

text \<open>The copy that \<^verbatim>\<open>GetConfig\<close> makes for the plugin framework, on the configuration and on the context.\<close>

definition custom_config_GetConfig :: "CService list \<Rightarrow> (string \<times> string \<times> Host list) list" where
  "custom_config_GetConfig ss =
     map (\<lambda>s. (csName s, csProtocol s,
            map (\<lambda>h. \<lparr>hoNetwork = chNetwork h, hoAddress = chAddress h, hoPlugin = chPlugin h\<rparr>) (csHost s))) ss"

definition custom_ctx_GetConfig :: "CService list \<Rightarrow> (string \<times> string \<times> Host list) list" where
  "custom_ctx_GetConfig ss =
     map (\<lambda>s. (csName s, csProtocol s,
            map (\<lambda>h. \<lparr>hoNetwork = chNetwork h, hoAddress = chAddress h, hoPlugin = chPlugin h\<rparr>) (csHost s))) ss"

section \<open>Plugins\<close>

datatype chandler = CPrinter "chandler option" | CWriter "chandler option"

fun chandler_Name :: "chandler \<Rightarrow> string" where
  "chandler_Name (CPrinter n) = ''printer''"
| "chandler_Name (CWriter n) = ''writer''"

type_synonym czones = "(string \<times> chandler ZoneConfig) list"

text \<open>The zone of the block of a controller, created on first use.\<close>

definition custom_GetConfig :: "Controller \<Rightarrow> czones \<Rightarrow> chandler ZoneConfig" where
  "custom_GetConfig c zones =
     (case map_of zones (keyForConfig (ctlNetwork c) (ctlAddress c)) of Some z \<Rightarrow> z | None \<Rightarrow> empty_zone)"

definition custom_AddPlugin :: "(chandler option \<Rightarrow> chandler) \<Rightarrow> Controller \<Rightarrow> czones \<Rightarrow> czones" where
  "custom_AddPlugin m c zones =
     AList.update (keyForConfig (ctlNetwork c) (ctlAddress c)) (AddPlugin m (custom_GetConfig c zones)) zones"

definition printer_setup :: "czones setup_fun" where
  "printer_setup c zones = Inr (custom_AddPlugin CPrinter c zones)"

definition writer_setup :: "czones setup_fun" where
  "writer_setup c zones = Inr (custom_AddPlugin CWriter c zones)"

definition custom_plugins :: "czones plugins" where
  "custom_plugins =
     the (Option.bind (RegisterPlugin ''printer'' custom_serverType printer_setup []) (RegisterPlugin ''writer'' custom_serverType writer_setup))"

definition custom_Directives :: "string list" where
  "custom_Directives = [''printer'', ''writer'']"

definition custom_RegisterHandler :: "chandler \<Rightarrow> chandler ZoneConfig \<Rightarrow> chandler ZoneConfig" where
  "custom_RegisterHandler h c = RegisterHandler chandler_Name h c"

definition custom_Handler :: "string \<Rightarrow> chandler ZoneConfig \<Rightarrow> chandler option" where
  "custom_Handler name c = zone_Handler name c"

definition custom_Handlers :: "chandler ZoneConfig \<Rightarrow> chandler list" where
  "custom_Handlers c = (case zcRegistry c of None \<Rightarrow> [] | Some _ \<Rightarrow> List.map_filter (\<lambda>k. custom_Handler k c) custom_Directives)"

section \<open>Servers\<close>

record CServer =
  svKey :: string
  svAddr :: string
  svNet :: string
  svService :: string
  svChain :: "chandler option"

text \<open>Without a zone \<^verbatim>\<open>NewServer\<close> returns a nil pointer and no error.\<close>

definition custom_NewServer :: "string \<Rightarrow> CHost \<Rightarrow> chandler ZoneConfig option \<Rightarrow> CServer option" where
  "custom_NewServer name host config =
     map_option (\<lambda>z. \<lparr>svKey = chKey host, svAddr = chAddress host, svNet = chNetwork host, svService = name,
                      svChain = plugin_stack (zcPlugin z)\<rparr>) config"

definition served_host :: "CHost \<Rightarrow> bool" where
  "served_host h \<longleftrightarrow> chNetwork h = ''tcp'' \<or> chNetwork h = ''udp''"

definition custom_makeServersForGroup :: "czones \<Rightarrow> CService list \<Rightarrow> CServer option list" where
  "custom_makeServersForGroup zones ss =
     concat (map (\<lambda>s. if csProtocol s \<noteq> custom_serverType then []
                      else map (\<lambda>h. custom_NewServer (csName s) h (map_of zones (chNetwork h @ ''://'' @ chAddress h)))
                             (filter served_host (csHost s))) ss)"

definition custom_MakeServers :: "czones \<Rightarrow> CService list \<Rightarrow> CServer option list asm_result" where
  "custom_MakeServers zones ss = (if ss = [] then AsmError ''service is empty'' else AsmOk (custom_makeServersForGroup zones ss))"

text \<open>
  Opening the listeners: the method is called on every server, also on a nil one, whose field it
  reads. \<open>grant\<close> says whether the operating system lets a server listen.
\<close>

fun custom_listen :: "(CServer \<Rightarrow> bool) \<Rightarrow> CServer option list \<Rightarrow> CServer list asm_result" where
  "custom_listen grant [] = AsmOk []"
| "custom_listen grant (None # ss) = AsmPanic"
| "custom_listen grant (Some s # ss) =
     (if grant s then asm_bind (custom_listen grant ss) (\<lambda>rest. AsmOk (s # rest)) else AsmError ''Listen'')"

definition custom_Run :: "(CServer \<Rightarrow> bool) \<Rightarrow> CService list \<Rightarrow> CServer list asm_result" where
  "custom_Run grant ss =
     (case executeDirectives custom_plugins custom_serverType (custom_ctx_GetConfig ss) [] of
        Inl e \<Rightarrow> AsmError e
      | Inr zones \<Rightarrow> asm_bind (custom_MakeServers zones ss) (custom_listen grant))"

section \<open>Serving\<close>

text \<open>
  A message: \<^verbatim>\<open>serveCustom\<close> first writes to the packet connection, which a TCP connection does not have, and then runs the
  chain, whose name is read first. None is a nil dereference; otherwise the packets sent and the lines that the first
  plugin of the chain prints (neither plugin calls the next).
\<close>

fun chandler_ServeCustom :: "chandler \<Rightarrow> string list" where
  "chandler_ServeCustom (CPrinter nxt) = [''custom printer'']"
| "chandler_ServeCustom (CWriter nxt) = [''custom printer'']"

definition serveCustom :: "chandler option \<Rightarrow> bool \<Rightarrow> bytes \<Rightarrow> (bytes list \<times> string list) option" where
  "serveCustom chain udp m =
     (if \<not> udp then None
      else case chain of None \<Rightarrow> None | Some h \<Rightarrow> Some ([bytes_of_string ''echo''], chandler_ServeCustom h))"

text \<open>The loop over the reads of a TCP connection until one fails, and one packet.\<close>

fun custom_serveTCPConn :: "chandler option \<Rightarrow> bytes list \<Rightarrow> (bytes list \<times> string list) option" where
  "custom_serveTCPConn chain [] = Some ([], [])"
| "custom_serveTCPConn chain (m # ms) =
     (case serveCustom chain False m of
        None \<Rightarrow> None
      | Some (out, ls) \<Rightarrow> map_option (\<lambda>(out', ls'). (out @ out', ls @ ls')) (custom_serveTCPConn chain ms))"

definition custom_serveUDPPacket :: "chandler option \<Rightarrow> ioerr + bytes \<Rightarrow> (bytes list \<times> string list) option" where
  "custom_serveUDPPacket chain r = (case r of Inl e \<Rightarrow> Some ([], []) | Inr m \<Rightarrow> serveCustom chain True m)"

section \<open>Which zones a configuration gives\<close>

lemma custom_action:
  "DirectiveAction custom_serverType ''printer'' custom_plugins = Inr printer_setup"
  "DirectiveAction custom_serverType ''writer'' custom_plugins = Inr writer_setup"
  by (simp_all add: custom_plugins_def RegisterPlugin_def DirectiveAction_def plugin_in_def custom_serverType_def Let_def)

definition known_plugin :: "string \<Rightarrow> bool" where
  "known_plugin p \<longleftrightarrow> p \<in> set custom_Directives"

lemma known_plugin_action:
  assumes "known_plugin p"
  obtains m where "DirectiveAction custom_serverType p custom_plugins = Inr (\<lambda>c zones. Inr (custom_AddPlugin m c zones))"
  using assms that [of CPrinter] that [of CWriter]
  by (auto simp: known_plugin_def custom_Directives_def custom_action printer_setup_def [abs_def] writer_setup_def [abs_def])

text \<open>Zones with at least one plugin stay so, and the zone of the block gets one.\<close>

definition zones_grow :: "czones \<Rightarrow> czones \<Rightarrow> bool" where
  "zones_grow zs zs' \<longleftrightarrow> (\<forall>k z. map_of zs k = Some z \<and> zcPlugin z \<noteq> [] \<longrightarrow> (\<exists>z'. map_of zs' k = Some z' \<and> zcPlugin z' \<noteq> []))"

definition zone_set :: "czones \<Rightarrow> string \<Rightarrow> bool" where
  "zone_set zs k \<longleftrightarrow> (\<exists>z. map_of zs k = Some z \<and> zcPlugin z \<noteq> [])"

lemma zones_grow_set: "zones_grow zs zs' \<longleftrightarrow> (\<forall>k. zone_set zs k \<longrightarrow> zone_set zs' k)"
  by (auto simp: zones_grow_def zone_set_def)

lemma custom_AddPlugin_zone:
  "zone_set (custom_AddPlugin m c zs) (keyForConfig (ctlNetwork c) (ctlAddress c))" "zones_grow zs (custom_AddPlugin m c zs)"
  by (auto simp: zone_set_def zones_grow_def custom_AddPlugin_def AddPlugin_def AList.update_conv')

definition host_key :: "Host \<Rightarrow> string" where
  "host_key h = keyForConfig (hoNetwork h) (hoAddress h)"

lemma run_plugins_zones:
  assumes "list_all known_plugin ps"
  shows "\<exists>zs'. run_plugins custom_plugins custom_serverType h ps zs = Inr zs' \<and> zones_grow zs zs' \<and> (ps \<noteq> [] \<longrightarrow> zone_set zs' (host_key h))"
  using assms
proof (induction ps arbitrary: zs)
  case Nil
  then show ?case by (simp add: zones_grow_set)
next
  case (Cons p ps)
  let ?c = "\<lparr>ctlKey = keyForConfig (hoNetwork h) (hoAddress h), ctlNetwork = hoNetwork h, ctlAddress = hoAddress h\<rparr>"
  have "known_plugin p" using Cons.prems by simp
  then obtain m where m: "DirectiveAction custom_serverType p custom_plugins = Inr (\<lambda>c zones. Inr (custom_AddPlugin m c zones))"
    by (rule known_plugin_action)
  let ?zs1 = "custom_AddPlugin m ?c zs"
  have z1: "zone_set ?zs1 (host_key h)" "zones_grow zs ?zs1"
    using custom_AddPlugin_zone(1) [of m ?c zs] custom_AddPlugin_zone(2) [of zs m ?c] by (simp_all add: host_key_def)
  obtain zs' where "run_plugins custom_plugins custom_serverType h ps ?zs1 = Inr zs'" "zones_grow ?zs1 zs'"
    using Cons.IH [of ?zs1] Cons.prems by auto
  with m z1 show ?case by (auto simp: zones_grow_set)
qed

definition host_ok :: "Host \<Rightarrow> bool" where
  "host_ok h \<longleftrightarrow> list_all known_plugin (hoPlugin h)"

lemma run_hosts_zones:
  assumes "list_all host_ok hs"
  shows "\<exists>zs'. run_hosts custom_plugins custom_serverType hs zs = Inr zs' \<and> zones_grow zs zs'
    \<and> (\<forall>h \<in> set hs. hoPlugin h \<noteq> [] \<longrightarrow> zone_set zs' (host_key h))"
  using assms
proof (induction hs arbitrary: zs)
  case Nil
  then show ?case by (simp add: zones_grow_set)
next
  case (Cons h hs)
  obtain zs1 where 1: "run_plugins custom_plugins custom_serverType h (hoPlugin h) zs = Inr zs1" "zones_grow zs zs1"
    "hoPlugin h \<noteq> [] \<longrightarrow> zone_set zs1 (host_key h)"
    using run_plugins_zones [of "hoPlugin h" h zs] Cons.prems by (auto simp: host_ok_def)
  obtain zs' where 2: "run_hosts custom_plugins custom_serverType hs zs1 = Inr zs'" "zones_grow zs1 zs'"
    "\<forall>h \<in> set hs. hoPlugin h \<noteq> [] \<longrightarrow> zone_set zs' (host_key h)"
    using Cons.IH [of zs1] Cons.prems by auto
  from 1 2 show ?case by (auto simp: zones_grow_set)
qed

lemma executeDirectives_zones:
  assumes "\<forall>(n, ty, hs) \<in> set ss. ty = custom_serverType \<longrightarrow> list_all host_ok hs"
  shows "\<exists>zs'. executeDirectives custom_plugins custom_serverType ss zs = Inr zs' \<and> zones_grow zs zs'
    \<and> (\<forall>(n, ty, hs) \<in> set ss. ty = custom_serverType \<longrightarrow> (\<forall>h \<in> set hs. hoPlugin h \<noteq> [] \<longrightarrow> zone_set zs' (host_key h)))"
  using assms
proof (induction ss arbitrary: zs)
  case Nil
  then show ?case by (simp add: zones_grow_set)
next
  case (Cons s ss)
  obtain n ty hs where s: "s = (n, ty, hs)" by (cases s)
  show ?case
  proof (cases "ty = custom_serverType")
    case False
    with Cons s show ?thesis by simp
  next
    case True
    obtain zs1 where 1: "run_hosts custom_plugins custom_serverType hs zs = Inr zs1" "zones_grow zs zs1"
      "\<forall>h \<in> set hs. hoPlugin h \<noteq> [] \<longrightarrow> zone_set zs1 (host_key h)"
      using run_hosts_zones [of hs zs] Cons.prems s True by auto
    obtain zs' where 2: "executeDirectives custom_plugins custom_serverType ss zs1 = Inr zs'" "zones_grow zs1 zs'"
      "\<forall>(n, ty, hs) \<in> set ss. ty = custom_serverType \<longrightarrow> (\<forall>h \<in> set hs. hoPlugin h \<noteq> [] \<longrightarrow> zone_set zs' (host_key h))"
      using Cons.IH [of zs1] Cons.prems by auto
    from 1 2 s True show ?thesis by (auto simp: zones_grow_set)
  qed
qed

section \<open>Theorems\<close>

definition custom_hosts :: "CService list \<Rightarrow> (string \<times> CHost) list" where
  "custom_hosts ss = concat (map (\<lambda>s. map (\<lambda>h. (csName s, h)) (filter served_host (csHost s)))
     (filter (\<lambda>s. csProtocol s = custom_serverType) ss))"

lemma group_servers:
  "custom_makeServersForGroup zones ss =
     map (\<lambda>(n, h). custom_NewServer n h (map_of zones (chNetwork h @ ''://'' @ chAddress h))) (custom_hosts ss)"
  by (induction ss) (simp_all add: custom_makeServersForGroup_def custom_hosts_def comp_def)

lemma custom_listen_all: "list_all grant ss \<Longrightarrow> custom_listen grant (map Some ss) = AsmOk ss"
  by (induction ss) simp_all

text \<open>
  A complete demonstration configuration starts. When every host of the custom services
  names known plugins, and each one to be served at least one, and the listeners are granted,
  the start yields one server for every TCP or UDP host, in the order of the file, each with its plugin chain.
\<close>

theorem custom_starts:
  assumes "ss \<noteq> []" "\<And>s. grant s"
    and "\<And>s h. s \<in> set ss \<Longrightarrow> csProtocol s = custom_serverType \<Longrightarrow> h \<in> set (csHost s) \<Longrightarrow>
           list_all known_plugin (chPlugin h) \<and> (served_host h \<longrightarrow> chPlugin h \<noteq> [])"
  shows "\<exists>svs. custom_Run grant ss = AsmOk svs
    \<and> map (\<lambda>s. (svService s, svNet s, svAddr s)) svs = map (\<lambda>(n, h). (n, chNetwork h, chAddress h)) (custom_hosts ss)
    \<and> list_all (\<lambda>s. svChain s \<noteq> None) svs"
proof -
  let ?hosts = "\<lambda>s. map (\<lambda>h. \<lparr>hoNetwork = chNetwork h, hoAddress = chAddress h, hoPlugin = chPlugin h\<rparr>) (csHost s)"
  have "\<forall>(n, ty, hs) \<in> set (custom_ctx_GetConfig ss). ty = custom_serverType \<longrightarrow> list_all host_ok hs"
    using assms(3) by (auto simp: custom_ctx_GetConfig_def host_ok_def list_all_iff)
  from executeDirectives_zones [OF this, of "[]"] obtain zones where
    z: "executeDirectives custom_plugins custom_serverType (custom_ctx_GetConfig ss) [] = Inr zones"
    "\<forall>(n, ty, hs) \<in> set (custom_ctx_GetConfig ss). ty = custom_serverType \<longrightarrow> (\<forall>h \<in> set hs. hoPlugin h \<noteq> [] \<longrightarrow> zone_set zones (host_key h))"
    by blast
  have set: "zone_set zones (chNetwork h @ ''://'' @ chAddress h)" if nh: "(n, h) \<in> set (custom_hosts ss)" for n h
  proof -
    obtain s where s: "s \<in> set ss" "csProtocol s = custom_serverType" "h \<in> set (csHost s)" "served_host h"
      using nh by (auto simp: custom_hosts_def)
    have "(csName s, csProtocol s, ?hosts s) \<in> set (custom_ctx_GetConfig ss)" using s(1) by (auto simp: custom_ctx_GetConfig_def)
    with z(2) s assms(3) [OF s(1-3)] show ?thesis by (fastforce simp: host_key_def keyForConfig_def)
  qed
  define zone where "zone h = the (map_of zones (chNetwork h @ ''://'' @ chAddress h))" for h :: CHost
  define svs where "svs = map (\<lambda>(n, h). the (custom_NewServer n h (Some (zone h)))) (custom_hosts ss)"
  have zone: "map_of zones (chNetwork h @ ''://'' @ chAddress h) = Some (zone h) \<and> zcPlugin (zone h) \<noteq> []"
    if "(n, h) \<in> set (custom_hosts ss)" for n h
    using set [OF that] by (auto simp: zone_set_def zone_def)
  have "custom_makeServersForGroup zones ss = map Some svs"
    using zone by (auto simp: group_servers svs_def custom_NewServer_def)
  moreover have "custom_listen grant (map Some svs) = AsmOk svs" using assms(2) by (intro custom_listen_all) (simp add: list_all_iff)
  ultimately have "custom_Run grant ss = AsmOk svs" using z(1) assms(1) by (simp add: custom_Run_def custom_MakeServers_def)
  moreover have "list_all (\<lambda>s. svChain s \<noteq> None) svs"
  proof -
    have "plugin_stack ps \<noteq> None" if "ps \<noteq> []" for ps :: "(chandler option \<Rightarrow> chandler) list"
      using that by (cases ps) (simp_all add: plugin_stack_def)
    with zone show ?thesis by (auto simp: svs_def list_all_iff custom_NewServer_def)
  qed
  moreover have "map (\<lambda>s. (svService s, svNet s, svAddr s)) svs = map (\<lambda>(n, h). (n, chNetwork h, chAddress h)) (custom_hosts ss)"
    by (auto simp: svs_def custom_NewServer_def)
  ultimately show ?thesis by blast
qed

definition demo_custom :: "string list \<Rightarrow> CService list" where
  "demo_custom ps = [\<lparr>csName = ''s'', csProtocol = ''custom'', csHost = [\<lparr>chKey = [], chNetwork = ''udp'', chAddress = '':9'', chPlugin = ps\<rparr>]\<rparr>]"

theorem custom_starts_witness:
  "\<exists>svs. custom_Run (\<lambda>_. True) (demo_custom [''printer'', ''writer'']) = AsmOk svs \<and> map svAddr svs = ['':9'']"
proof -
  have "\<exists>svs. custom_Run (\<lambda>_. True) (demo_custom [''printer'', ''writer'']) = AsmOk svs
    \<and> map (\<lambda>s. (svService s, svNet s, svAddr s)) svs = map (\<lambda>(n, h). (n, chNetwork h, chAddress h)) (custom_hosts (demo_custom [''printer'', ''writer'']))
    \<and> list_all (\<lambda>s. svChain s \<noteq> None) svs"
    by (rule custom_starts) (auto simp: demo_custom_def known_plugin_def custom_Directives_def)
  then show ?thesis by (auto simp: custom_hosts_def demo_custom_def served_host_def custom_serverType_def)
qed

text \<open>A host without plugins has no zone: its server is a nil pointer and the start panics.\<close>

lemma custom_bare_host_panics: "custom_Run grant (demo_custom []) = AsmPanic"
  by (simp add: custom_Run_def demo_custom_def custom_ctx_GetConfig_def custom_serverType_def custom_MakeServers_def
      custom_makeServersForGroup_def custom_NewServer_def served_host_def)

text \<open>The first message of any TCP connection is fatal: the answer is written to a packet connection that is nil.\<close>

lemma custom_tcp_panics: "custom_serveTCPConn chain (m # ms) = None"
  by (simp add: serveCustom_def)

end
