(* ===== verification/AcceptLoops.thy ===== *)
theory AcceptLoops
  imports FrameServer Socks5 CustomServer DnsApi
begin

text \<open>
  The accept loops: \<^verbatim>\<open>Serve\<close>, \<^verbatim>\<open>ServeConn\<close> and \<^verbatim>\<open>ListenAndServe\<close> of the SOCKS5 plugin's server, those of
  \<^verbatim>\<open>protocol/custom/server.go\<close>, and the contract they share with the frame server and the DNS handler. A loop is
  given what its listener returns, in order; it has ended when it met an error, and otherwise is waiting.
\<close>

section \<open>The stand-alone SOCKS5 server\<close>

text \<open>\<^verbatim>\<open>ServeConn\<close> is \<^verbatim>\<open>ServeHandle\<close> on a reader of its own, and closes the connection whatever happens: the flag.\<close>

definition ServeConn :: "SocksServer \<Rightarrow> dialler \<Rightarrow> copy_run \<Rightarrow> AddrSpec option \<Rightarrow> sconn \<Rightarrow> ((socks_error + unit) \<times> bool) \<times> sconn" where
  "ServeConn s dial cr remote c =
     (case io_bind read_byte (\<lambda>version.
             if version \<noteq> socks5Version then io_fail (UnsupportedVersion version)
             else
           io_bind (authenticate (svAuthMethods s)) (\<lambda>authContext.
           io_bind read_request (\<lambda>request.
             handleRequest s dial cr (request\<lparr>rqAuthContext := Some authContext, rqRemoteAddr := remote\<rparr>)))) c
      of (r, c') \<Rightarrow> ((r, True), c'))"

fun socks_Serve :: "(ioerr + 'c) list \<Rightarrow> 'c list \<times> (ioerr \<times> bool) option" where
  "socks_Serve [] = ([], None)"
| "socks_Serve (Inl e # rs) = ([], Some (e, False))"
| "socks_Serve (Inr c # rs) = (let (cs, out) = socks_Serve rs in (c # cs, out))"

text \<open>\<open>refused\<close> is the error of \<^verbatim>\<open>net.Listen\<close>, if any.\<close>

definition socks_ListenAndServe :: "string option \<Rightarrow> (ioerr + 'c) list \<Rightarrow> string + ('c list \<times> (ioerr \<times> bool) option)" where
  "socks_ListenAndServe refused rs = (case refused of Some e \<Rightarrow> Inl e | None \<Rightarrow> Inr (socks_Serve rs))"

section \<open>The demonstration server\<close>

definition custom_ListenAndServe :: "string option \<Rightarrow> string \<Rightarrow> string + serve_kind" where
  "custom_ListenAndServe refused net =
     (if net \<in> {''tcp'', ''tcp4'', ''tcp6''} then (case refused of Some e \<Rightarrow> Inl e | None \<Rightarrow> Inr ServeTCP)
      else if net \<in> {''udp'', ''udp4'', ''udp6''} then (case refused of Some e \<Rightarrow> Inl e | None \<Rightarrow> Inr ServeUDP)
      else Inl ''bad network'')"

text \<open>The loops entered, in order: the one over packets never returns.\<close>

definition custom_ActivateAndServe :: "bool \<Rightarrow> bool \<Rightarrow> serve_kind list" where
  "custom_ActivateAndServe packet listener = (if packet then [ServeUDP] else if listener then [ServeTCP] else [])"

fun custom_serveTCP :: "(ioerr + 'c) list \<Rightarrow> 'c list \<times> (ioerr \<times> bool) option" where
  "custom_serveTCP [] = ([], None)"
| "custom_serveTCP (Inl e # rs) = ([], Some (e, True))"
| "custom_serveTCP (Inr c # rs) = (let (cs, out) = custom_serveTCP rs in (c # cs, out))"

text \<open>Every packet read, with errors skipped; none when a goroutine panics.\<close>

fun custom_serveUDP :: "chandler option \<Rightarrow> (ioerr + bytes) list \<Rightarrow> (bytes list \<times> string list) option" where
  "custom_serveUDP chain [] = Some ([], [])"
| "custom_serveUDP chain (r # rs) =
     (case custom_serveUDPPacket chain r of
        None \<Rightarrow> None
      | Some (out, ls) \<Rightarrow> map_option (\<lambda>(out', ls'). (out @ out', ls @ ls')) (custom_serveUDP chain rs))"

text \<open>\<^verbatim>\<open>Serve\<close> and \<^verbatim>\<open>ServePacket\<close> of \<^verbatim>\<open>customserver\<close> hand what they were given, if anything, to a server whose
  handler runs the plugin chain (timeouts are not modelled).\<close>

definition custom_Serve :: "chandler option \<Rightarrow> bool \<Rightarrow> chandler option \<times> serve_kind list" where
  "custom_Serve chain has_listener = (chain, custom_ActivateAndServe False has_listener)"

definition custom_ServePacket :: "chandler option \<Rightarrow> bool \<Rightarrow> chandler option \<times> serve_kind list" where
  "custom_ServePacket chain has_packet_conn = (chain, custom_ActivateAndServe has_packet_conn False)"

section \<open>The listeners of the star server\<close>

text \<open>Control, admin and proxy listeners, and the dispatcher of a shared port, which closes itself when accepting fails.\<close>

fun ctrl_Serve :: "(ioerr + 'c) list \<Rightarrow> 'c list \<times> (ioerr \<times> bool) option" where
  "ctrl_Serve [] = ([], None)"
| "ctrl_Serve (Inl e # rs) = ([], Some (e, False))"
| "ctrl_Serve (Inr c # rs) = (let (cs, out) = ctrl_Serve rs in (c # cs, out))"

fun proxy_accept :: "(ioerr + 'c) list \<Rightarrow> 'c list \<times> (ioerr \<times> bool) option" where
  "proxy_accept [] = ([], None)"
| "proxy_accept (Inl e # rs) = ([], Some (e, False))"
| "proxy_accept (Inr c # rs) = (let (cs, out) = proxy_accept rs in (c # cs, out))"

fun dispatcher_loop :: "(ioerr + 'c) list \<Rightarrow> 'c list \<times> (ioerr \<times> bool) option" where
  "dispatcher_loop [] = ([], None)"
| "dispatcher_loop (Inl e # rs) = ([], Some (e, True))"
| "dispatcher_loop (Inr c # rs) = (let (cs, out) = dispatcher_loop rs in (c # cs, out))"

text \<open>An injected listener comes before the one of the address.\<close>

definition ctrl_Listen :: "(string \<Rightarrow> string \<Rightarrow> bool) \<Rightarrow> 'l option \<Rightarrow> string \<Rightarrow> Settings \<Rightarrow> string + ('l + tcp_listener)" where
  "ctrl_Listen loads injected addr settings =
     (case injected of Some l \<Rightarrow> Inr (Inl l) | None \<Rightarrow> (case listenTCP loads addr settings of Inl e \<Rightarrow> Inl e | Inr t \<Rightarrow> Inr (Inr t)))"

definition admin_Listen :: "(string \<Rightarrow> string \<Rightarrow> bool) \<Rightarrow> 'l option \<Rightarrow> string \<Rightarrow> Settings \<Rightarrow> string + ('l + tcp_listener)" where
  "admin_Listen loads injected addr settings =
     (case injected of Some l \<Rightarrow> Inr (Inl l) | None \<Rightarrow> (case listenTCP loads addr settings of Inl e \<Rightarrow> Inl e | Inr t \<Rightarrow> Inr (Inr t)))"

section \<open>What an accept loop promises\<close>

locale accept_loop =
  fixes serve :: "(ioerr + 'c) list \<Rightarrow> 'c list \<times> (ioerr \<times> bool) option"
    and closes :: bool
  assumes serve_wait: "serve [] = ([], None)"
    and serve_error: "serve (Inl e # rs) = ([], Some (e, closes))"
    and serve_conn: "serve (Inr c # rs) = (c # fst (serve rs), snd (serve rs))"
begin

lemma serves_all: "serve (map Inr cs) = (cs, None)"
  by (induction cs) (simp_all add: serve_wait serve_conn)

lemma ends_at_error: "serve (map Inr cs @ Inl e # rs) = (cs, Some (e, closes))"
  by (induction cs) (simp_all add: serve_error serve_conn)

lemma serves_each_once: "\<exists>n. fst (serve rs) = List.map_filter (\<lambda>r. case r of Inl _ \<Rightarrow> None | Inr c \<Rightarrow> Some c) (take n rs)"
proof (induction rs)
  case Nil
  then show ?case by (simp add: serve_wait List.map_filter_simps)
next
  case (Cons r rs)
  show ?case
  proof (cases r)
    case (Inl e)
    then show ?thesis by (intro exI [of _ 0]) (simp add: serve_error List.map_filter_simps)
  next
    case (Inr c)
    obtain n where "fst (serve rs) = List.map_filter (\<lambda>r. case r of Inl _ \<Rightarrow> None | Inr c \<Rightarrow> Some c) (take n rs)" using Cons by blast
    then show ?thesis by (intro exI [of _ "Suc n"]) (simp add: Inr serve_conn List.map_filter_simps)
  qed
qed

end

interpretation frame_loop: accept_loop serveTCP True
  by unfold_locales (simp_all add: case_prod_beta)

interpretation socks_loop: accept_loop socks_Serve False
  by unfold_locales (simp_all add: case_prod_beta)

interpretation custom_loop: accept_loop custom_serveTCP True
  by unfold_locales (simp_all add: case_prod_beta)

interpretation ctrl_loop: accept_loop ctrl_Serve False
  by unfold_locales (simp_all add: case_prod_beta)

interpretation proxy_loop: accept_loop proxy_accept False
  by unfold_locales (simp_all add: case_prod_beta)

interpretation dispatcher: accept_loop dispatcher_loop True
  by unfold_locales (simp_all add: case_prod_beta)

interpretation dns_loop: accept_loop dns_accept False
  by unfold_locales (simp_all add: case_prod_beta)

text \<open>A connection served on its own is handled as one handed over by the plugin, and closed.\<close>

lemma ServeConn_handles: "ServeConn s dial cr remote c = ((fst (ServeHandle s dial cr remote c), True), snd (ServeHandle s dial cr remote c))"
  by (simp add: ServeConn_def ServeHandle_def case_prod_beta)

text \<open>A packet server without plugins panics at the first packet; with one it answers each packet once.\<close>

lemma custom_udp_needs_chain: "custom_serveUDP None (Inr m # rs) = None"
  by (simp add: custom_serveUDPPacket_def serveCustom_def)

lemma custom_udp_echoes:
  "custom_serveUDP (Some h) rs =
     Some (replicate (length (filter (\<lambda>r. \<not> isl r) rs)) (bytes_of_string ''echo''), concat (map (\<lambda>_. chandler_ServeCustom h) (filter (\<lambda>r. \<not> isl r) rs)))"
proof (induction rs)
  case (Cons r rs)
  then show ?case by (cases r) (simp_all add: custom_serveUDPPacket_def serveCustom_def)
qed simp

end
