(* ===== verification/Reconnect.thy ===== *)
theory Reconnect
  imports Main
begin

text \<open>
  \<^verbatim>\<open>internal/client/dialer.go\<close>: the loop that keeps a client connected. \<^verbatim>\<open>Run\<close> is cut at its blocking
  points; an event says which of the things it waits for happens, and \<^verbatim>\<open>Close\<close> may come at any time.
  Times are seconds. A session is represented by whether \<^verbatim>\<open>Close\<close> was called on it; once closed it
  ends (theory CtrlClient), which is the event \<open>SessionEnds\<close>.
\<close>

definition reconnectBase :: nat where "reconnectBase = 1"
definition reconnectMax :: nat where "reconnectMax = 30"

text \<open>Where \<^verbatim>\<open>Run\<close> is: at the top of the loop, in \<^verbatim>\<open>dial\<close>, waiting to retry, in the session, pausing, returned.\<close>

datatype phase = Top nat | Dialing nat | Waiting nat | Running | Pausing | Returned

text \<open>\<open>dlClient\<close>: no client, or whether the current one has been closed.\<close>

record Dialer =
  dlPhase :: phase
  dlStop :: bool
  dlClient :: "bool option"

definition NewDialer :: Dialer where
  "NewDialer = \<lparr>dlPhase = Top reconnectBase, dlStop = False, dlClient = None\<rparr>"

datatype event = CheckStop | DialFails | DialSucceeds | SessionEnds | TimerFires | StopSeen | CloseCalled

definition dialer_Close :: "Dialer \<Rightarrow> Dialer" where
  "dialer_Close d = d\<lparr>dlStop := True, dlClient := map_option (\<lambda>_. True) (dlClient d)\<rparr>"

fun dialer_step :: "event \<Rightarrow> Dialer \<Rightarrow> Dialer option" where
  "dialer_step CheckStop d =
     (case dlPhase d of
        Top b \<Rightarrow> Some (d\<lparr>dlPhase := (if dlStop d then Returned else Dialing b)\<rparr>)
      | _ \<Rightarrow> None)"
| "dialer_step DialFails d = (case dlPhase d of Dialing b \<Rightarrow> Some (d\<lparr>dlPhase := Waiting b\<rparr>) | _ \<Rightarrow> None)"
| "dialer_step DialSucceeds d =
     (case dlPhase d of Dialing b \<Rightarrow> Some (d\<lparr>dlPhase := Running, dlClient := Some False\<rparr>) | _ \<Rightarrow> None)"
| "dialer_step SessionEnds d =
     (case dlPhase d of Running \<Rightarrow> Some (d\<lparr>dlPhase := Pausing, dlClient := None\<rparr>) | _ \<Rightarrow> None)"
| "dialer_step TimerFires d =
     (case dlPhase d of
        Waiting b \<Rightarrow> Some (d\<lparr>dlPhase := Top (min (b * 2) reconnectMax)\<rparr>)
      | Pausing \<Rightarrow> Some (d\<lparr>dlPhase := Top reconnectBase\<rparr>)
      | _ \<Rightarrow> None)"
| "dialer_step StopSeen d =
     (case dlPhase d of
        Waiting b \<Rightarrow> if dlStop d then Some (d\<lparr>dlPhase := Returned\<rparr>) else None
      | Pausing \<Rightarrow> if dlStop d then Some (d\<lparr>dlPhase := Returned\<rparr>) else None
      | _ \<Rightarrow> None)"
| "dialer_step CloseCalled d = Some (dialer_Close d)"

fun dialer_run :: "event list \<Rightarrow> Dialer \<Rightarrow> Dialer option" where
  "dialer_run [] d = Some d"
| "dialer_run (e # es) d = (case dialer_step e d of None \<Rightarrow> None | Some d' \<Rightarrow> dialer_run es d')"

inductive dialer_reach :: "Dialer \<Rightarrow> bool" where
  start: "dialer_reach NewDialer"
| step: "dialer_reach d \<Longrightarrow> dialer_step e d = Some d' \<Longrightarrow> dialer_reach d'"

section \<open>Back-off\<close>

fun backoff_of :: "phase \<Rightarrow> nat option" where
  "backoff_of (Top b) = Some b"
| "backoff_of (Dialing b) = Some b"
| "backoff_of (Waiting b) = Some b"
| "backoff_of _ = None"

text \<open>The waits of a run of failures: one second, doubled each time, at most thirty.\<close>

definition failures :: "nat \<Rightarrow> event list" where
  "failures k = concat (replicate k [CheckStop, DialFails, TimerFires])"

lemma dialer_run_append:
  "dialer_run (xs @ ys) d = (case dialer_run xs d of None \<Rightarrow> None | Some d' \<Rightarrow> dialer_run ys d')"
  by (induction xs arbitrary: d) (auto split: option.splits)

lemma failures_backoff:
  "dialer_run (failures k) NewDialer = Some (NewDialer\<lparr>dlPhase := Top (min (2 ^ k) reconnectMax)\<rparr>)"
proof (induction k)
  case 0
  then show ?case by (simp add: failures_def NewDialer_def reconnectBase_def reconnectMax_def)
next
  case (Suc k)
  have f: "failures (Suc k) = failures k @ [CheckStop, DialFails, TimerFires]"
    by (simp add: failures_def replicate_append_same [symmetric] del: replicate_append_same)
  have "min (min (2 ^ k) reconnectMax * 2) reconnectMax = min (2 ^ Suc k) reconnectMax"
    by (simp add: reconnectMax_def min_def)
  with Suc show ?case by (simp add: f dialer_run_append NewDialer_def)
qed

lemma dialer_backoff_bounds:
  assumes "dialer_reach d" "backoff_of (dlPhase d) = Some b"
  shows "reconnectBase \<le> b \<and> b \<le> reconnectMax"
  using assms
proof (induction arbitrary: b)
  case start
  then show ?case by (simp add: NewDialer_def reconnectBase_def reconnectMax_def)
next
  case (step d e d')
  then show ?case
    by (cases e; cases "dlPhase d")
      (auto simp: dialer_Close_def reconnectBase_def reconnectMax_def split: if_splits)
qed

section \<open>Closing\<close>

text \<open>How far \<^verbatim>\<open>Run\<close> is from returning once it has been told to stop, when it is not dialling.\<close>

fun stop_distance :: "phase \<Rightarrow> nat" where
  "stop_distance Running = 3"
| "stop_distance Pausing = 2"
| "stop_distance (Waiting b) = 2"
| "stop_distance (Top b) = 1"
| "stop_distance Returned = 0"
| "stop_distance (Dialing b) = 0"

definition stopping :: "Dialer \<Rightarrow> bool" where
  "stopping d \<longleftrightarrow> dlStop d \<and> (case dlPhase d of Dialing _ \<Rightarrow> False | _ \<Rightarrow> True)"

text \<open>
  After \<^verbatim>\<open>Close\<close>, unless a dial is under way at that moment, \<^verbatim>\<open>Run\<close> returns: it never dials again, every
  event but another \<^verbatim>\<open>Close\<close> brings it closer, some event is always possible until it has returned,
  and the session it had is closed.
\<close>

theorem dialer_close_returns:
  assumes "stopping d"
  shows "(\<forall>e d'. dialer_step e d = Some d' \<longrightarrow> stopping d' \<and> (e = CloseCalled \<or> stop_distance (dlPhase d') < stop_distance (dlPhase d)))
    \<and> (dlPhase d \<noteq> Returned \<longrightarrow> (\<exists>e d'. e \<noteq> CloseCalled \<and> dialer_step e d = Some d'))"
proof (intro conjI allI impI)
  fix e d' assume "dialer_step e d = Some d'"
  with assms show "stopping d'" "e = CloseCalled \<or> stop_distance (dlPhase d') < stop_distance (dlPhase d)"
    by (cases e; cases "dlPhase d"; auto simp: stopping_def dialer_Close_def split: if_splits)+
next
  assume "dlPhase d \<noteq> Returned"
  then show "\<exists>e d'. e \<noteq> CloseCalled \<and> dialer_step e d = Some d'"
    using assms by (cases "dlPhase d")
      (auto simp: stopping_def intro: exI [of _ CheckStop] exI [of _ StopSeen] exI [of _ SessionEnds])
qed

lemma close_stops: "\<not> (\<exists>b. dlPhase d = Dialing b) \<Longrightarrow> stopping (dialer_Close d) \<and> dlClient (dialer_Close d) \<noteq> Some False"
  by (cases "dlPhase d"; cases "dlClient d") (auto simp: stopping_def dialer_Close_def)

text \<open>
  A \<^verbatim>\<open>Close\<close> during a dial has no effect on the session that the dial then opens: the client is not
  yet stored, and \<^verbatim>\<open>Run\<close> does not look at the stop channel before it serves the new session.
\<close>

lemma close_during_dial_ignored:
  "dialer_run [CheckStop, CloseCalled, DialSucceeds] NewDialer =
     Some \<lparr>dlPhase = Running, dlStop = True, dlClient = Some False\<rparr>"
  by (simp add: NewDialer_def dialer_Close_def)

lemma dialer_close_returns_witness:
  "let d = dialer_Close NewDialer; d' = the (dialer_step CheckStop d) in
     stopping d' \<and> stop_distance (dlPhase d') < stop_distance (dlPhase d)"
proof -
  let ?d = "dialer_Close NewDialer"
  have "stopping ?d" by (simp add: stopping_def dialer_Close_def NewDialer_def)
  moreover have "dialer_step CheckStop ?d = Some (the (dialer_step CheckStop ?d))" by (simp add: dialer_Close_def NewDialer_def)
  ultimately show ?thesis using dialer_close_returns [of ?d, THEN conjunct1] by (metis event.distinct(11))
qed

end
