(* ===== verification/Decorator.thy ===== *)
theory Decorator
  imports Routing
begin

text \<open>
  Connections and what is wrapped around them: \<^verbatim>\<open>pkg/rainnet\<close> (metadata, error kinds) and
  \<^verbatim>\<open>internal/decorator\<close> (traffic counters and the admission gate). The gate is modelled step by
  step, with its atomic loads and compare-and-swaps, for any number of goroutines at once. Whether the token bucket of
  an identity has a token is an argument here: theory Limiter has the bucket.
\<close>

section \<open>Error kinds\<close>

datatype ErrKind = KindUnknown | KindNetwork | KindProtocol | KindPolicy

fun ErrKind_String :: "ErrKind \<Rightarrow> string" where
  "ErrKind_String KindNetwork = ''network''"
| "ErrKind_String KindProtocol = ''protocol''"
| "ErrKind_String KindPolicy = ''policy''"
| "ErrKind_String KindUnknown = ''unknown''"

text \<open>An error is plain, wraps another (\<^verbatim>\<open>%w\<close>), or carries a kind; the wrapped error may be nil.\<close>

datatype goerr = PlainErr string | WrapErr string goerr | KindErr ErrKind "goerr option"

definition NetworkError :: "goerr option \<Rightarrow> goerr option" where
  "NetworkError err = Some (KindErr KindNetwork err)"

definition ProtocolError :: "goerr option \<Rightarrow> goerr option" where
  "ProtocolError err = (case err of None \<Rightarrow> None | Some e \<Rightarrow> Some (KindErr KindProtocol (Some e)))"

definition PolicyError :: "goerr option \<Rightarrow> goerr option" where
  "PolicyError err = (case err of None \<Rightarrow> None | Some e \<Rightarrow> Some (KindErr KindPolicy (Some e)))"

text \<open>\<^verbatim>\<open>errors.As\<close> for the classified error: the first one along the chain of wrapped errors.\<close>

fun first_kind :: "goerr \<Rightarrow> ErrKind option" where
  "first_kind (PlainErr _) = None"
| "first_kind (WrapErr _ e) = first_kind e"
| "first_kind (KindErr k _) = Some k"

definition KindOf :: "goerr option \<Rightarrow> ErrKind" where
  "KindOf err = (case err of None \<Rightarrow> KindUnknown | Some e \<Rightarrow> (case first_kind e of Some k \<Rightarrow> k | None \<Rightarrow> KindUnknown))"

section \<open>Wrapped connections\<close>

record wrapped =
  wrMeta :: Meta
  wrTargetSet :: bool

definition pad6 :: "string \<Rightarrow> string" where
  "pad6 s = replicate (6 - length s) (CHR ''0'') @ s"

text \<open>\<^verbatim>\<open>Wrap\<close>: \<open>seq\<close> is the process-wide counter, \<open>remote\<close> the address of the connection, if it has one.\<close>

definition Wrap :: "u64 \<Rightarrow> string option \<Rightarrow> Meta \<Rightarrow> wrapped \<times> u64" where
  "Wrap seq remote meta =
     (let (meta1, seq1) = (if metaID meta = [] then (meta\<lparr>metaID := ''conn-'' @ pad6 (print_nat (unat (seq + 1)))\<rparr>, seq + 1) else (meta, seq));
          meta2 = (case remote of Some a \<Rightarrow> if metaRemote meta1 = [] then meta1\<lparr>metaRemote := a\<rparr> else meta1 | None \<Rightarrow> meta1) in
      (\<lparr>wrMeta = meta2, wrTargetSet = False\<rparr>, seq1))"

definition SetTarget :: "string \<Rightarrow> wrapped \<Rightarrow> wrapped" where
  "SetTarget target w =
     (if wrTargetSet w then w else w\<lparr>wrTargetSet := True, wrMeta := (wrMeta w)\<lparr>metaTarget := target\<rparr>\<rparr>)"

section \<open>Traffic counters\<close>

record Counters =
  cntIn :: u64
  cntOut :: u64

datatype transfer = ReadBytes nat | WroteBytes nat

fun account :: "transfer \<Rightarrow> Counters \<Rightarrow> Counters" where
  "account (ReadBytes n) c = c\<lparr>cntIn := cntIn c + word_of_nat n\<rparr>"
| "account (WroteBytes n) c = c\<lparr>cntOut := cntOut c + word_of_nat n\<rparr>"

section \<open>The admission gate\<close>

text \<open>
  Where a goroutine is in \<^verbatim>\<open>Acquire\<close>: outside, between load and compare-and-swap, past it and before
  the bucket, or admitted.
\<close>

datatype gpc = GOut | GLoaded int | GTaken | GHeld

record Gate =
  gaMax :: int
  gaCur :: int
  gaPcs :: "gpc list"

definition NewGate :: "int \<Rightarrow> nat \<Rightarrow> Gate" where
  "NewGate maxConns n = \<lparr>gaMax = maxConns, gaCur = 0, gaPcs = replicate n GOut\<rparr>"

definition gate_load :: "nat \<Rightarrow> Gate \<Rightarrow> Gate" where
  "gate_load t g =
     (if gaMax g > 0 \<and> gaCur g \<ge> gaMax g then g else g\<lparr>gaPcs := (gaPcs g)[t := GLoaded (gaCur g)]\<rparr>)"

definition gate_cas :: "nat \<Rightarrow> int \<Rightarrow> Gate \<Rightarrow> Gate" where
  "gate_cas t cur g =
     (if gaCur g = cur then g\<lparr>gaCur := cur + 1, gaPcs := (gaPcs g)[t := GTaken]\<rparr>
      else g\<lparr>gaPcs := (gaPcs g)[t := GOut]\<rparr>)"

definition gate_Release :: "nat \<Rightarrow> Gate \<Rightarrow> Gate" where
  "gate_Release t g = g\<lparr>gaCur := gaCur g - 1, gaPcs := (gaPcs g)[t := GOut]\<rparr>"

text \<open>\<open>token\<close>: no identity limit applies, or the bucket had a token.\<close>

definition gate_bucket :: "nat \<Rightarrow> bool \<Rightarrow> Gate \<Rightarrow> Gate" where
  "gate_bucket t token g = (if token then g\<lparr>gaPcs := (gaPcs g)[t := GHeld]\<rparr> else gate_Release t g)"

inductive gate_step :: "Gate \<Rightarrow> Gate \<Rightarrow> bool" where
  load: "t < length (gaPcs g) \<Longrightarrow> gaPcs g ! t = GOut \<Longrightarrow> gate_step g (gate_load t g)"
| cas: "t < length (gaPcs g) \<Longrightarrow> gaPcs g ! t = GLoaded cur \<Longrightarrow> gate_step g (gate_cas t cur g)"
| bucket: "t < length (gaPcs g) \<Longrightarrow> gaPcs g ! t = GTaken \<Longrightarrow> gate_step g (gate_bucket t token g)"
| release: "t < length (gaPcs g) \<Longrightarrow> gaPcs g ! t = GHeld \<Longrightarrow> gate_step g (gate_Release t g)"

inductive gate_reach :: "int \<Rightarrow> nat \<Rightarrow> Gate \<Rightarrow> bool" for m n where
  start: "gate_reach m n (NewGate m n)"
| step: "gate_reach m n g \<Longrightarrow> gate_step g g' \<Longrightarrow> gate_reach m n g'"

inductive_cases gate_stepE: "gate_step g g'"

section \<open>Lemmas\<close>

lemma SetTarget_once: "SetTarget b (SetTarget a w) = SetTarget a w"
  by (simp add: SetTarget_def)

lemma SetTarget_first: "\<not> wrTargetSet w \<Longrightarrow> metaTarget (wrMeta (SetTarget a w)) = a"
  by (simp add: SetTarget_def)

lemma KindOf_wrapped: "KindOf (Some (WrapErr m e)) = KindOf (Some e)"
  by (simp add: KindOf_def)

lemma kinds_roundtrip:
  "KindOf (NetworkError (Some e)) = KindNetwork" "KindOf (ProtocolError (Some e)) = KindProtocol" "KindOf (PolicyError (Some e)) = KindPolicy"
  by (simp_all add: KindOf_def NetworkError_def ProtocolError_def PolicyError_def)

text \<open>Unlike the two others, \<^verbatim>\<open>NetworkError\<close> makes an error of no error.\<close>

lemma network_error_of_nil: "NetworkError None \<noteq> None" "ProtocolError None = None" "PolicyError None = None"
  by (simp_all add: NetworkError_def ProtocolError_def PolicyError_def)

lemma account_total:
  "cntIn (fold account ts c) = cntIn c + word_of_nat (sum_list (map (\<lambda>t. case t of ReadBytes n \<Rightarrow> n | _ \<Rightarrow> 0) ts))"
  "cntOut (fold account ts c) = cntOut c + word_of_nat (sum_list (map (\<lambda>t. case t of WroteBytes n \<Rightarrow> n | _ \<Rightarrow> 0) ts))"
  by (induction ts arbitrary: c) (auto split: transfer.splits simp: algebra_simps)

text \<open>The goroutines that count: past the compare-and-swap.\<close>

definition counted :: "gpc \<Rightarrow> bool" where
  "counted p \<longleftrightarrow> p = GTaken \<or> p = GHeld"

definition gate_inv :: "Gate \<Rightarrow> bool" where
  "gate_inv g \<longleftrightarrow> gaCur g = int (length (filter counted (gaPcs g)))
     \<and> (gaMax g > 0 \<longrightarrow> gaCur g \<le> gaMax g)
     \<and> (\<forall>c. GLoaded c \<in> set (gaPcs g) \<longrightarrow> gaMax g > 0 \<longrightarrow> c < gaMax g)"

lemma count_update:
  assumes "t < length ps"
  shows "int (length (filter counted (ps[t := p]))) =
    int (length (filter counted ps)) - (if counted (ps ! t) then 1 else 0) + (if counted p then 1 else 0)"
proof -
  have "ps = take t ps @ ps ! t # drop (Suc t) ps" using id_take_nth_drop [OF assms] .
  then have "length (filter counted ps) = length (filter counted (take t ps @ ps ! t # drop (Suc t) ps))" by argo
  moreover have "ps[t := p] = take t ps @ p # drop (Suc t) ps" using assms by (simp add: upd_conv_take_nth_drop)
  ultimately show ?thesis by simp
qed

lemma gate_step_inv:
  assumes "gate_inv g" "gate_step g g'"
  shows "gate_inv g'"
  using assms(2)
proof (cases rule: gate_step.cases)
  case (load t)
  with assms(1) show ?thesis
    by (auto simp: gate_inv_def gate_load_def count_update counted_def dest!: set_update_subset_insert [THEN subsetD])
next
  case (cas t cur)
  then have "GLoaded cur \<in> set (gaPcs g)" using nth_mem by metis
  with cas assms(1) show ?thesis
    by (auto simp: gate_inv_def gate_cas_def count_update counted_def dest!: set_update_subset_insert [THEN subsetD])
next
  case (bucket t token)
  with assms(1) show ?thesis
    by (auto simp: gate_inv_def gate_bucket_def gate_Release_def count_update counted_def
        dest!: set_update_subset_insert [THEN subsetD])
next
  case (release t)
  with assms(1) show ?thesis
    by (auto simp: gate_inv_def gate_Release_def count_update counted_def dest!: set_update_subset_insert [THEN subsetD])
qed

text \<open>
  C34: in every interleaving of any number of goroutines the gate admits at most \<^verbatim>\<open>maxConns\<close> connections at a time
  when a limit is set, and its counter is the number of goroutines that hold a place or are being checked.
\<close>

theorem gate_limit:
  assumes "gate_reach m n g"
  shows "gaMax g = m \<and> gaCur g = int (length (filter counted (gaPcs g)))
    \<and> (m > 0 \<longrightarrow> int (length (filter (\<lambda>p. p = GHeld) (gaPcs g))) \<le> m)"
proof -
  have "gate_inv g \<and> gaMax g = m" using assms
  proof induction
    case start
    then show ?case by (auto simp: gate_inv_def NewGate_def counted_def)
  next
    case (step g g')
    then show ?case using gate_step_inv [of g g']
      by (auto elim!: gate_stepE simp: gate_load_def gate_cas_def gate_bucket_def gate_Release_def)
  qed
  moreover have "length (filter (\<lambda>p. p = GHeld) ps) \<le> length (filter counted ps)" for ps
    by (induction ps) (auto simp: counted_def)
  ultimately show ?thesis unfolding gate_inv_def by (smt (verit) of_nat_mono)
qed

lemma gate_limit_witness:
  "let g = gate_bucket 0 True (gate_cas 0 0 (gate_load 0 (NewGate 1 2))) in
     gaCur g = 1 \<and> int (length (filter (\<lambda>p. p = GHeld) (gaPcs g))) \<le> 1"
proof -
  let ?g = "NewGate 1 2"
  have "gate_step ?g (gate_load 0 ?g)" by (rule gate_step.load) (simp_all add: NewGate_def)
  with gate_reach.start have l: "gate_reach 1 2 (gate_load 0 ?g)" by (rule gate_reach.step)
  have "gate_step (gate_load 0 ?g) (gate_cas 0 0 (gate_load 0 ?g))"
    by (rule gate_step.cas) (simp_all add: NewGate_def gate_load_def)
  with l have c: "gate_reach 1 2 (gate_cas 0 0 (gate_load 0 ?g))" by (rule gate_reach.step)
  have "gate_step (gate_cas 0 0 (gate_load 0 ?g)) (gate_bucket 0 True (gate_cas 0 0 (gate_load 0 ?g)))"
    by (rule gate_step.bucket) (simp_all add: NewGate_def gate_load_def gate_cas_def)
  with c have "gate_reach 1 2 (gate_bucket 0 True (gate_cas 0 0 (gate_load 0 ?g)))" by (rule gate_reach.step)
  from gate_limit [OF this] show ?thesis
    by (simp add: NewGate_def gate_load_def gate_cas_def gate_bucket_def)
qed

end
