(* ===== verification/Limiter.thy ===== *)
theory Limiter
  imports Decorator Complex_Main
begin

text \<open>
  The token bucket of \<^verbatim>\<open>internal/decorator/limiter.go\<close>, the rate-limited connection of \<^verbatim>\<open>ratelimit.go\<close> and the
  per-identity part of the gate in \<^verbatim>\<open>admission.go\<close>. Tokens are rational numbers, where the code has
  \<^verbatim>\<open>float64\<close>: rounding is not modelled. Times are readings of the monotonic clock in nanoseconds. What a
  bucket does while it holds its mutex is one step, so any number of goroutines is a sequence of such
  steps in the order of their clock readings.
\<close>

section \<open>The bucket\<close>

record bucket =
  bkRate :: rat
  bkTokens :: rat
  bkLast :: "int option"

definition newBucket :: "rat \<Rightarrow> bucket" where
  "newBucket rate = \<lparr>bkRate = rate, bkTokens = rate, bkLast = None\<rparr>"

text \<open>\<^verbatim>\<open>now.Sub(b.last)\<close>: the difference saturates, and from the zero time it always does.\<close>

definition maxDuration :: int where "maxDuration = 2 ^ 63 - 1"

definition time_Sub :: "int \<Rightarrow> int option \<Rightarrow> int" where
  "time_Sub now t = (case t of None \<Rightarrow> maxDuration | Some u \<Rightarrow> max (- maxDuration - 1) (min maxDuration (now - u)))"

definition Seconds :: "int \<Rightarrow> rat" where
  "Seconds d = of_int d / 1000000000"

definition refill :: "int \<Rightarrow> bucket \<Rightarrow> bucket" where
  "refill now b =
     (let tokens = bkTokens b + Seconds (time_Sub now (bkLast b)) * bkRate b in
      b\<lparr>bkTokens := (if tokens > bkRate b then bkRate b else tokens), bkLast := Some now\<rparr>)"

text \<open>One turn of the loop of \<^verbatim>\<open>take\<close> under the mutex: what is left to take, and the bucket.\<close>

definition take_once :: "int \<Rightarrow> rat \<Rightarrow> bucket \<Rightarrow> rat \<times> bucket" where
  "take_once now remaining b =
     (let b1 = refill now b; took = min (bkTokens b1) remaining in
      if took > 0 then (remaining - took, b1\<lparr>bkTokens := bkTokens b1 - took\<rparr>) else (remaining, b1))"

definition tryTake :: "int \<Rightarrow> rat \<Rightarrow> bucket \<Rightarrow> bool \<times> bucket" where
  "tryTake now n b =
     (let b1 = refill now b in
      if bkTokens b1 \<ge> n then (True, b1\<lparr>bkTokens := bkTokens b1 - n\<rparr>) else (False, b1))"

text \<open>
  The pause between two turns, in nanoseconds. Converting a float that is out of range to a
  \<^verbatim>\<open>Duration\<close> gives the smallest one on amd64; in every case the pause is clamped.
\<close>

definition pause :: "rat \<Rightarrow> int" where
  "pause rate =
     (let d = \<lfloor>1 / rate * 1000000000\<rfloor>; wait = (if d > maxDuration then - maxDuration - 1 else d) in
      if wait > 100000000 then 100000000 else if wait < 1000000 then 1000000 else wait)"

text \<open>
  \<^verbatim>\<open>take\<close>: \<open>clock k\<close> is the time read in turn \<open>k\<close> and \<open>cancelled k\<close> whether the context is done when
  turn \<open>k\<close> selects. The result is whether the context ended the call, the turn it returned in, and the bucket.
\<close>

partial_function (option) take_loop ::
    "(nat \<Rightarrow> int) \<Rightarrow> (nat \<Rightarrow> bool) \<Rightarrow> nat \<Rightarrow> rat \<Rightarrow> bucket \<Rightarrow> (bool \<times> nat \<times> bucket) option" where
  "take_loop clock cancelled k remaining b =
     (case take_once (clock k) remaining b of (r1, b1) \<Rightarrow>
      if r1 \<le> 1 / 1000000000 then Some (False, k, b1)
      else if cancelled k then Some (True, k, b1)
      else take_loop clock cancelled (Suc k) r1 b1)"

declare take_loop.simps [code]

definition bucket_take :: "(nat \<Rightarrow> int) \<Rightarrow> (nat \<Rightarrow> bool) \<Rightarrow> rat \<Rightarrow> bucket \<Rightarrow> (bool \<times> nat \<times> bucket) option" where
  "bucket_take clock cancelled n b = take_loop clock cancelled 0 n b"

section \<open>The rate-limited connection\<close>

text \<open>\<open>inner\<close> is the wrapped connection, its reads and writes arguments; no bucket means no limit.\<close>

record 'c rateLimitedConn =
  rlInner :: 'c
  rlBkt :: "bucket option"

definition NewRateLimit :: "'c \<Rightarrow> rat \<Rightarrow> 'c rateLimitedConn" where
  "NewRateLimit c bytesPerSec =
     \<lparr>rlInner = c, rlBkt = (if bytesPerSec \<le> 0 then None else Some (newBucket bytesPerSec))\<rparr>"

text \<open>A call on the wrapped connection of a buffer of \<open>n\<close> bytes, after the bucket gave \<open>n\<close> tokens; the context is never done.\<close>

definition limited_call :: "(nat \<Rightarrow> int) \<Rightarrow> nat \<Rightarrow> ('c \<Rightarrow> 'r \<times> 'c) \<Rightarrow> 'c rateLimitedConn \<Rightarrow> ('r \<times> 'c rateLimitedConn) option" where
  "limited_call clock n call c =
     (case rlBkt c of
        None \<Rightarrow> (case call (rlInner c) of (res, i) \<Rightarrow> Some (res, c\<lparr>rlInner := i\<rparr>))
      | Some b \<Rightarrow>
          (case bucket_take clock (\<lambda>_. False) (of_nat n) b of
             None \<Rightarrow> None
           | Some (_, _, b1) \<Rightarrow> (case call (rlInner c) of (res, i) \<Rightarrow> Some (res, c\<lparr>rlInner := i, rlBkt := Some b1\<rparr>))))"

definition limited_Read :: "(nat \<Rightarrow> int) \<Rightarrow> (nat \<Rightarrow> 'c \<Rightarrow> 'r \<times> 'c) \<Rightarrow> nat \<Rightarrow> 'c rateLimitedConn \<Rightarrow> ('r \<times> 'c rateLimitedConn) option" where
  "limited_Read clock readc n = limited_call clock n (readc n)"

definition limited_Write :: "(nat \<Rightarrow> int) \<Rightarrow> (bytes \<Rightarrow> 'c \<Rightarrow> 'r \<times> 'c) \<Rightarrow> bytes \<Rightarrow> 'c rateLimitedConn \<Rightarrow> ('r \<times> 'c rateLimitedConn) option" where
  "limited_Write clock writec p = limited_call clock (length p) (writec p)"

section \<open>Identities\<close>

text \<open>The end of \<^verbatim>\<open>Acquire\<close>: the bucket of the identity, made on first use, and the gate released again when it is empty.\<close>

definition identity_token :: "rat \<Rightarrow> int \<Rightarrow> string \<Rightarrow> (string \<rightharpoonup> bucket) \<Rightarrow> bool \<times> (string \<rightharpoonup> bucket)" where
  "identity_token qps now identity bs =
     (if qps > 0 \<and> identity \<noteq> [] then
        (let b = (case bs identity of None \<Rightarrow> newBucket qps | Some b \<Rightarrow> b); (ok, b1) = tryTake now 1 b in
         (ok, bs(identity \<mapsto> b1)))
      else (True, bs))"

definition Acquire_identity :: "nat \<Rightarrow> rat \<Rightarrow> int \<Rightarrow> string \<Rightarrow> Gate \<times> (string \<rightharpoonup> bucket) \<Rightarrow> goerr option \<times> Gate \<times> (string \<rightharpoonup> bucket)" where
  "Acquire_identity t qps now identity s =
     (case s of (g, bs) \<Rightarrow>
      case identity_token qps now identity bs of (ok, bs1) \<Rightarrow>
        (if ok then None else PolicyError (Some (PlainErr ''admission: identity rate exceeded'')), gate_bucket t ok g, bs1))"

section \<open>One step of a bucket\<close>

text \<open>Any use of the bucket by any goroutine, and the tokens it is granted.\<close>

datatype bucket_use = Taking rat | Trying rat

fun wanted :: "bucket_use \<Rightarrow> rat" where
  "wanted (Taking n) = n"
| "wanted (Trying n) = n"

fun use_bucket :: "int \<Rightarrow> bucket_use \<Rightarrow> bucket \<Rightarrow> rat \<times> bucket" where
  "use_bucket now (Taking remaining) b = (case take_once now remaining b of (r1, b1) \<Rightarrow> (remaining - r1, b1))"
| "use_bucket now (Trying n) b = (case tryTake now n b of (ok, b1) \<Rightarrow> (if ok then n else 0, b1))"

fun use_all :: "(int \<times> bucket_use) list \<Rightarrow> bucket \<Rightarrow> rat list \<times> bucket" where
  "use_all [] b = ([], b)"
| "use_all ((now, u) # us) b =
     (case use_bucket now u b of (g, b1) \<Rightarrow> case use_all us b1 of (gs, b2) \<Rightarrow> (g # gs, b2))"

definition bucket_ok :: "bucket \<Rightarrow> bool" where
  "bucket_ok b \<longleftrightarrow> 0 < bkRate b \<and> 0 \<le> bkTokens b \<and> bkTokens b \<le> bkRate b"

definition not_after :: "bucket \<Rightarrow> int \<Rightarrow> bool" where
  "not_after b now \<longleftrightarrow> (case bkLast b of None \<Rightarrow> True | Some t \<Rightarrow> t \<le> now)"

lemma newBucket_ok: "0 < rate \<Longrightarrow> bucket_ok (newBucket rate)"
  by (simp add: bucket_ok_def newBucket_def)

lemma newBucket_fresh: "not_after (newBucket rate) now"
  by (simp add: not_after_def newBucket_def)

lemma not_after_mono: "not_after b s \<Longrightarrow> s \<le> t \<Longrightarrow> not_after b t"
  by (auto simp: not_after_def split: option.splits)

lemma time_Sub_nonneg: "not_after b now \<Longrightarrow> 0 \<le> time_Sub now (bkLast b)"
  by (auto simp: time_Sub_def not_after_def maxDuration_def split: option.splits)

lemma time_Sub_le: "t \<le> now \<Longrightarrow> time_Sub now (Some t) \<le> now - t"
  by (simp add: time_Sub_def maxDuration_def)

lemma Seconds_mono: "a \<le> b \<Longrightarrow> Seconds a \<le> Seconds b"
  by (simp add: Seconds_def)

lemma Seconds_nonneg: "0 \<le> a \<Longrightarrow> 0 \<le> Seconds a"
  by (simp add: Seconds_def)

lemma Seconds_add: "Seconds (a + b) = Seconds a + Seconds b"
  by (simp add: Seconds_def add_divide_distrib)

lemma refill_simps [simp]: "bkRate (refill now b) = bkRate b" "bkLast (refill now b) = Some now"
  by (simp_all add: refill_def Let_def)

lemma refill_ok:
  assumes "bucket_ok b" "not_after b now"
  shows "bucket_ok (refill now b)" "bkTokens b \<le> bkTokens (refill now b)"
proof -
  have "0 \<le> Seconds (time_Sub now (bkLast b)) * bkRate b"
    using assms by (simp add: bucket_ok_def Seconds_nonneg time_Sub_nonneg)
  then show "bucket_ok (refill now b)" "bkTokens b \<le> bkTokens (refill now b)"
    using assms(1) by (auto simp: refill_def bucket_ok_def Let_def)
qed

lemma refill_fresh: "bucket_ok b \<Longrightarrow> bkLast b = None \<Longrightarrow> bkTokens (refill now b) = bkRate b"
  by (auto simp: refill_def bucket_ok_def Let_def time_Sub_def maxDuration_def Seconds_def)

lemma refill_growth:
  assumes "bucket_ok b" "bkLast b = Some t" "t \<le> now"
  shows "bkTokens (refill now b) \<le> bkTokens b + Seconds (now - t) * bkRate b"
proof -
  have "Seconds (time_Sub now (Some t)) * bkRate b \<le> Seconds (now - t) * bkRate b"
    using assms by (intro mult_right_mono Seconds_mono time_Sub_le) (auto simp: bucket_ok_def)
  then show ?thesis using assms(2) by (auto simp: refill_def Let_def)
qed

text \<open>The tokens granted come out of the refilled bucket, and never more than were asked for.\<close>

lemma use_bucket_spec:
  assumes "bucket_ok b" "not_after b now" "0 \<le> wanted u" "use_bucket now u b = (g, b')"
  shows "0 \<le> g" "g \<le> wanted u" "bkTokens b' = bkTokens (refill now b) - g"
    and "bkRate b' = bkRate b" "bkLast b' = Some now" "bucket_ok b'"
proof -
  note ok = refill_ok(1) [OF assms(1,2)]
  have "0 \<le> g \<and> g \<le> wanted u \<and> g \<le> bkTokens (refill now b) \<and> bkTokens b' = bkTokens (refill now b) - g
      \<and> bkRate b' = bkRate b \<and> bkLast b' = Some now"
    using assms(3,4) ok
    by (cases u) (auto simp: take_once_def tryTake_def Let_def bucket_ok_def min_def split: if_splits prod.splits)
  then show "0 \<le> g" "g \<le> wanted u" "bkTokens b' = bkTokens (refill now b) - g"
    and "bkRate b' = bkRate b" "bkLast b' = Some now" "bucket_ok b'"
    using ok by (auto simp: bucket_ok_def)
qed

section \<open>The rate\<close>

definition uses_ok :: "(int \<times> bucket_use) list \<Rightarrow> bool" where
  "uses_ok us \<longleftrightarrow> sorted (map fst us) \<and> list_all (\<lambda>(_, u). 0 \<le> wanted u) us"

lemma uses_ok_Cons: "uses_ok ((now, u) # us) \<longleftrightarrow> 0 \<le> wanted u \<and> uses_ok us \<and> (\<forall>t \<in> fst ` set us. now \<le> t)"
  by (auto simp: uses_ok_def)

text \<open>After a use at time \<open>now\<close> a bucket may be used at every later time.\<close>

lemma use_all_inv:
  assumes "bucket_ok b" "\<forall>t \<in> fst ` set us. not_after b t" "uses_ok us" "use_all us b = (gs, b')"
  shows "bucket_ok b' \<and> bkRate b' = bkRate b \<and> length gs = length us
    \<and> bkLast b' = (if us = [] then bkLast b else Some (fst (last us)))"
  using assms
proof (induction us arbitrary: b gs)
  case (Cons x us)
  obtain now u where x: "x = (now, u)" by fastforce
  obtain g b1 gs1 where s: "use_bucket now u b = (g, b1)" "use_all us b1 = (gs1, b')" "gs = g # gs1"
    using Cons.prems(4) x by (auto split: prod.splits)
  note u = use_bucket_spec [OF Cons.prems(1) _ _ s(1)]
  have p: "not_after b now" "0 \<le> wanted u" "uses_ok us" "\<forall>t \<in> fst ` set us. now \<le> t"
    using Cons.prems(2,3) by (auto simp: x uses_ok_Cons)
  have "bucket_ok b' \<and> bkRate b' = bkRate b1 \<and> length gs1 = length us \<and> bkLast b' = (if us = [] then bkLast b1 else Some (fst (last us)))"
    using u [OF p(1,2)] p(3,4) s(2) by (intro Cons.IH) (auto simp: not_after_def)
  then show ?case using u [OF p(1,2)] by (simp add: x s(3))
qed simp

text \<open>What is granted from a time on, with what is left, is what was there and what has come in since.\<close>

lemma use_all_budget:
  assumes "bucket_ok b" "bkLast b = Some t0" "uses_ok us" "\<forall>t \<in> fst ` set us. t0 \<le> t" "use_all us b = (gs, b')"
  shows "sum_list gs + bkTokens b' \<le> bkTokens b + Seconds ((if us = [] then t0 else fst (last us)) - t0) * bkRate b"
  using assms
proof (induction us arbitrary: b t0 gs)
  case Nil
  then show ?case by (simp add: Seconds_def)
next
  case (Cons x us)
  obtain now u where x: "x = (now, u)" by fastforce
  obtain g b1 gs1 where s: "use_bucket now u b = (g, b1)" "use_all us b1 = (gs1, b')" "gs = g # gs1"
    using Cons.prems(5) x by (auto split: prod.splits)
  have p: "0 \<le> wanted u" "uses_ok us" "\<forall>t \<in> fst ` set us. now \<le> t" "t0 \<le> now"
    using Cons.prems(3,4) by (auto simp: x uses_ok_Cons)
  have na: "not_after b now" using Cons.prems(2) p(4) by (simp add: not_after_def)
  note u = use_bucket_spec [OF Cons.prems(1) na p(1) s(1)]
  let ?tl = "if us = [] then now else fst (last us)"
  have "sum_list gs1 + bkTokens b' \<le> bkTokens b1 + Seconds (?tl - now) * bkRate b1"
    by (rule Cons.IH [OF u(6,5) p(2,3) s(2)])
  moreover have "g + bkTokens b1 \<le> bkTokens b + Seconds (now - t0) * bkRate b"
    using refill_growth [OF Cons.prems(1,2) p(4)] u(3) by simp
  moreover have "Seconds (?tl - now) * bkRate b + Seconds (now - t0) * bkRate b = Seconds (?tl - t0) * bkRate b"
    using Seconds_add [of "?tl - now" "now - t0"] by (simp add: distrib_right [symmetric] del: of_int_diff)
  ultimately show ?case using u(4) by (auto simp: x s(3) split: if_splits)
qed

lemma use_all_grants:
  assumes "bucket_ok b" "\<forall>t \<in> fst ` set us. not_after b t" "uses_ok us" "use_all us b = (gs, b')"
  shows "list_all2 (\<lambda>g (_, u). 0 \<le> g \<and> g \<le> wanted u) gs us"
  using assms
proof (induction us arbitrary: b gs)
  case (Cons x us)
  obtain now u where x: "x = (now, u)" by fastforce
  obtain g b1 gs1 where s: "use_bucket now u b = (g, b1)" "use_all us b1 = (gs1, b')" "gs = g # gs1"
    using Cons.prems(4) x by (auto split: prod.splits)
  have p: "not_after b now" "0 \<le> wanted u" "uses_ok us" "\<forall>t \<in> fst ` set us. now \<le> t"
    using Cons.prems(2,3) by (auto simp: x uses_ok_Cons)
  note u = use_bucket_spec [OF Cons.prems(1) p(1,2) s(1)]
  have "list_all2 (\<lambda>g (_, u). 0 \<le> g \<and> g \<le> wanted u) gs1 us"
    using u(5,6) p(3,4) s(2) by (intro Cons.IH) (auto simp: not_after_def)
  then show ?case using u(1,2) by (simp add: x s(3))
qed simp

text \<open>In a window that begins with a use of the bucket, at most one full bucket and what comes in during the window is granted.\<close>

lemma window_budget:
  assumes "bucket_ok b" "not_after b now" "uses_ok ((now, u) # us)" "use_all ((now, u) # us) b = (gs, b')"
  shows "sum_list gs \<le> bkRate b + Seconds (fst (last ((now, u) # us)) - now) * bkRate b"
proof -
  obtain g b1 gs1 where s: "use_bucket now u b = (g, b1)" "use_all us b1 = (gs1, b')" "gs = g # gs1"
    using assms(4) by (auto split: prod.splits)
  have p: "0 \<le> wanted u" "uses_ok us" "\<forall>t \<in> fst ` set us. now \<le> t" using assms(3) by (simp_all add: uses_ok_Cons)
  note u = use_bucket_spec [OF assms(1,2) p(1) s(1)]
  have "sum_list gs1 + bkTokens b' \<le> bkTokens b1 + Seconds ((if us = [] then now else fst (last us)) - now) * bkRate b1"
    by (rule use_all_budget [OF u(6,5) p(2,3) s(2)])
  moreover have "g + bkTokens b1 \<le> bkRate b"
    using u(3) refill_ok(1) [OF assms(1,2)] by (simp add: bucket_ok_def)
  moreover have "0 \<le> bkTokens b'"
    using use_all_inv [OF u(6) _ p(2) s(2)] p(3) u(5) by (auto simp: not_after_def bucket_ok_def)
  ultimately show ?thesis using u(4) by (auto simp: s(3) split: if_splits)
qed

text \<open>A stretch of uses, after any others: the bucket it meets, and what it is granted.\<close>

lemma stretch_start:
  assumes "0 < rate" "uses_ok (before @ stretch)" "use_all before (newBucket rate) = (gs, b)"
  shows "bucket_ok b" "bkRate b = rate" "\<forall>t \<in> fst ` set stretch. not_after b t" "uses_ok stretch"
proof -
  have ord: "uses_ok before" "uses_ok stretch" "before \<noteq> [] \<Longrightarrow> \<forall>t \<in> fst ` set stretch. fst (last before) \<le> t"
    using assms(2) by (auto simp: uses_ok_def sorted_append)
  note b = use_all_inv [OF newBucket_ok [OF assms(1)] _ ord(1) assms(3)]
  show "bucket_ok b" "bkRate b = rate" "\<forall>t \<in> fst ` set stretch. not_after b t" "uses_ok stretch"
    using b ord(2,3) by (auto simp: newBucket_fresh newBucket_def not_after_def)
qed

lemma stretch_budget:
  assumes "0 < rate" "uses_ok (before @ stretch)" "stretch \<noteq> []"
    and "use_all before (newBucket rate) = (gs, b)" "use_all stretch b = (hs, b')"
  shows "sum_list hs \<le> rate + Seconds (fst (last stretch) - fst (hd stretch)) * rate"
proof -
  from assms(3) obtain now u us where w: "stretch = (now, u) # us" by (cases stretch) auto
  note st = stretch_start [OF assms(1,2,4)]
  show ?thesis using window_budget [OF st(1) _ _ assms(5) [unfolded w]] st(2-4) by (simp add: w)
qed

text \<open>
  C18: the limiter keeps its rate. However many goroutines take tokens from a bucket, waiting or not, in whatever
  order and whatever they ask for: in every stretch of uses the tokens granted are at most one second's
  quota and the quota of the time the stretch lasts, no grant exceeds its request, and the level stays
  between zero and the quota. The clock readings are those of a monotonic clock.
\<close>

theorem limiter_rate_bound:
  assumes "0 < rate" "uses_ok (before @ stretch)" "stretch \<noteq> []"
    and "use_all before (newBucket rate) = (gs, b)" "use_all stretch b = (hs, b')"
  shows "sum_list hs \<le> rate + Seconds (fst (last stretch) - fst (hd stretch)) * rate
    \<and> list_all2 (\<lambda>h (_, u). 0 \<le> h \<and> h \<le> wanted u) hs stretch \<and> bucket_ok b'"
proof -
  note st = stretch_start [OF assms(1,2,4)]
  show ?thesis
    using stretch_budget [OF assms] use_all_grants [OF st(1,3,4) assms(5)] use_all_inv [OF st(1,3,4) assms(5)] by blast
qed

theorem limiter_rate_bound_witness:
  "sum_list (fst (use_all [(0, Trying 1), (100000000, Taking 5), (500000000, Trying 1)] (newBucket 2)))
     \<le> 2 + Seconds (500000000 - 0) * 2"
  using limiter_rate_bound [of 2 "[]" "[(0, Trying 1), (100000000, Taking 5), (500000000, Trying 1)]" "[]" "newBucket 2"
      "fst (use_all [(0, Trying 1), (100000000, Taking 5), (500000000, Trying 1)] (newBucket 2))"
      "snd (use_all [(0, Trying 1), (100000000, Taking 5), (500000000, Trying 1)] (newBucket 2))"]
  by (simp add: uses_ok_def)

section \<open>Waiting for tokens\<close>

lemma pause_bounds: "1000000 \<le> pause rate" "pause rate \<le> 100000000"
  by (auto simp: pause_def Let_def)

text \<open>A refill after a pause brings a thousandth of the quota.\<close>

lemma refill_after_pause:
  assumes "bucket_ok b" "bkLast b = Some t" "t + pause (bkRate b) \<le> now"
  shows "bkRate b / 1000 \<le> bkTokens (refill now b)"
proof -
  have "1000000 \<le> time_Sub now (Some t)"
    using assms(3) pause_bounds(1) [of "bkRate b"] by (auto simp: time_Sub_def maxDuration_def)
  then have "Seconds 1000000 \<le> Seconds (time_Sub now (Some t))" by (rule Seconds_mono)
  then have "bkRate b / 1000 \<le> Seconds (time_Sub now (Some t)) * bkRate b"
    using assms(1) mult_right_mono [of "1 / 1000" "Seconds (time_Sub now (Some t))" "bkRate b"] by (simp add: Seconds_def bucket_ok_def)
  moreover have "bkTokens (refill now b) = min (bkRate b) (bkTokens b + Seconds (time_Sub now (Some t)) * bkRate b)"
    using assms(2) by (simp add: refill_def Let_def min_def)
  ultimately show ?thesis using assms(1) unfolding bucket_ok_def by linarith
qed

text \<open>A turn that does not finish has emptied the bucket.\<close>

lemma take_once_spec:
  assumes "bucket_ok b" "not_after b now" "0 \<le> n" "take_once now n b = (r1, b1)"
  shows "0 \<le> r1" "bucket_ok b1" "bkRate b1 = bkRate b" "bkLast b1 = Some now" "use_bucket now (Taking n) b = (n - r1, b1)"
    and "0 < r1 \<Longrightarrow> n - r1 = bkTokens (refill now b)"
proof -
  have u: "use_bucket now (Taking n) b = (n - r1, b1)" using assms(4) by simp
  note s = use_bucket_spec [OF assms(1,2) _ u]
  show "0 \<le> r1" "bucket_ok b1" "bkRate b1 = bkRate b" "bkLast b1 = Some now" "use_bucket now (Taking n) b = (n - r1, b1)"
    using s assms(3) u by simp_all
  show "0 < r1 \<Longrightarrow> n - r1 = bkTokens (refill now b)"
    using assms(3,4) refill_ok(1) [OF assms(1,2)]
    by (auto simp: take_once_def Let_def bucket_ok_def min_def split: if_splits)
qed

definition paced :: "(nat \<Rightarrow> int) \<Rightarrow> rat \<Rightarrow> bool" where
  "paced clock rate \<longleftrightarrow> (\<forall>k. clock k + pause rate \<le> clock (Suc k))"

lemma paced_mono:
  assumes "paced clock rate" "i \<le> j"
  shows "clock i \<le> clock j"
  using assms(2)
proof (rule lift_Suc_mono_le [rotated])
  fix n
  show "clock n \<le> clock (Suc n)"
    using assms(1) pause_bounds(1) [of rate] unfolding paced_def by (smt (verit))
qed

text \<open>
  How a call that begins in turn \<open>k\<close> ends: it used the bucket once in every turn, and it was cancelled or got its tokens,
  up to the tolerance of the code.
\<close>

definition take_ends :: "(nat \<Rightarrow> int) \<Rightarrow> (nat \<Rightarrow> bool) \<Rightarrow> nat \<Rightarrow> rat \<Rightarrow> bucket \<Rightarrow> bool \<times> nat \<times> bucket \<Rightarrow> bool" where
  "take_ends clock cancelled k n b res \<longleftrightarrow>
     (case res of (e, k', b') \<Rightarrow> \<exists>us gs. uses_ok us \<and> map fst us = map clock [k..<Suc k'] \<and> k \<le> k' \<and> use_all us b = (gs, b')
        \<and> (e \<longrightarrow> cancelled k') \<and> (\<not> e \<longrightarrow> n - 1 / 1000000000 \<le> sum_list gs))"

lemma take_ends_now:
  assumes "0 \<le> n" "use_bucket (clock k) (Taking n) b = (n - r1, b1)" "e \<longrightarrow> cancelled k" "\<not> e \<longrightarrow> r1 \<le> 1 / 1000000000"
  shows "take_ends clock cancelled k n b (e, k, b1)"
  using assms unfolding take_ends_def
  by (intro case_prodI exI [of _ "[(clock k, Taking n)]"] exI [of _ "[n - r1]"]) (auto simp: uses_ok_def)

lemma take_ends_later:
  assumes "0 \<le> n" "use_bucket (clock k) (Taking n) b = (n - r1, b1)" "paced clock rate"
    and "take_ends clock cancelled (Suc k) r1 b1 res"
  shows "take_ends clock cancelled k n b res"
proof -
  obtain e k' b' us gs where r: "res = (e, k', b')" "uses_ok us" "map fst us = map clock [Suc k..<Suc k']" "Suc k \<le> k'"
    "use_all us b1 = (gs, b')" "e \<longrightarrow> cancelled k'" "\<not> e \<longrightarrow> r1 - 1 / 1000000000 \<le> sum_list gs"
    using assms(4) by (auto simp: take_ends_def)
  have "fst ` set us = set (map clock [Suc k..<Suc k'])" using r(3) by (metis list.set_map)
  then have "\<forall>t \<in> fst ` set us. clock k \<le> t" using paced_mono [OF assms(3)] by auto
  then have "uses_ok ((clock k, Taking n) # us)" using r(2) assms(1) by (simp add: uses_ok_Cons)
  moreover have "map fst ((clock k, Taking n) # us) = map clock [k..<Suc k']" using r(3,4) by (simp add: upt_conv_Cons)
  moreover have "use_all ((clock k, Taking n) # us) b = ((n - r1) # gs, b')" using assms(2) r(5) by simp
  moreover have "\<not> e \<longrightarrow> n - 1 / 1000000000 \<le> sum_list ((n - r1) # gs)" using r(7) by auto
  ultimately show ?thesis unfolding take_ends_def r(1) using r(4,6)
    by (intro case_prodI exI [of _ "(clock k, Taking n) # us"] exI [of _ "(n - r1) # gs"]) auto
qed

text \<open>One turn: the call returns here, or it goes on with what is left, and then the bucket was emptied.\<close>

lemma take_turn:
  assumes "bucket_ok b" "not_after b (clock k)" "0 \<le> n" "paced clock (bkRate b)"
    and "\<And>r1 b1. 0 \<le> r1 \<Longrightarrow> bucket_ok b1 \<Longrightarrow> bkRate b1 = bkRate b \<Longrightarrow> bkLast b1 = Some (clock k)
      \<Longrightarrow> n - r1 = bkTokens (refill (clock k) b)
      \<Longrightarrow> \<exists>e k' b'. take_loop clock cancelled (Suc k) r1 b1 = Some (e, k', b') \<and> k' \<le> K \<and> take_ends clock cancelled (Suc k) r1 b1 (e, k', b')"
    and "k \<le> K"
  shows "\<exists>e k' b'. take_loop clock cancelled k n b = Some (e, k', b') \<and> k' \<le> K \<and> take_ends clock cancelled k n b (e, k', b')"
proof -
  obtain r1 b1 where t1: "take_once (clock k) n b = (r1, b1)" by fastforce
  note s = take_once_spec [OF assms(1-3) t1]
  show ?thesis
  proof (cases "r1 \<le> 1 / 1000000000 \<or> cancelled k")
    case True
    let ?e = "\<not> r1 \<le> 1 / 1000000000"
    have "take_ends clock cancelled k n b (?e, k, b1)"
      by (rule take_ends_now [where clock = clock and k = k and cancelled = cancelled, OF assms(3) s(5)]) (use True in auto)
    moreover have "take_loop clock cancelled k n b = Some (?e, k, b1)"
      using True by (subst take_loop.simps) (simp only: t1 prod.case, auto)
    ultimately show ?thesis using assms(6) by blast
  next
    case False
    then have "n - r1 = bkTokens (refill (clock k) b)" by (intro s(6)) auto
    then obtain e k' b' where l: "take_loop clock cancelled (Suc k) r1 b1 = Some (e, k', b')" "k' \<le> K"
        "take_ends clock cancelled (Suc k) r1 b1 (e, k', b')"
      using assms(5) [OF s(1-4)] by blast
    moreover have "take_ends clock cancelled k n b (e, k', b')"
      by (rule take_ends_later [where clock = clock and k = k, OF assms(3) s(5) assms(4) l(3)])
    moreover have "take_loop clock cancelled k n b = take_loop clock cancelled (Suc k) r1 b1"
      using False by (subst take_loop.simps) (simp only: t1 prod.case de_Morgan_disj if_False)
    ultimately show ?thesis by auto
  qed
qed

lemma loop_returns:
  assumes "bucket_ok b" "bkLast b = Some t" "t + pause (bkRate b) \<le> clock k" "paced clock (bkRate b)"
    and "0 \<le> n" "n \<le> of_nat m * (bkRate b / 1000)"
  shows "\<exists>e k' b'. take_loop clock cancelled k n b = Some (e, k', b') \<and> k' \<le> k + m \<and> take_ends clock cancelled k n b (e, k', b')"
  using assms
proof (induction m arbitrary: b t k n)
  case 0
  then have "not_after b (clock k)" using pause_bounds(1) [of "bkRate b"] by (simp add: not_after_def)
  moreover obtain r1 b1 where t1: "take_once (clock k) n b = (r1, b1)" by fastforce
  ultimately have s: "use_bucket (clock k) (Taking n) b = (n - r1, b1)" using take_once_spec(5) 0 by blast
  have "r1 \<le> 1 / 1000000000" using t1 0 by (auto simp: take_once_def Let_def split: if_splits)
  then show ?case using take_ends_now [where clock = clock and k = k and cancelled = cancelled and e = False, OF 0(5) s] by (subst take_loop.simps) (auto simp: t1)
next
  case (Suc m)
  have na: "not_after b (clock k)" using Suc.prems(2,3) pause_bounds(1) [of "bkRate b"] by (simp add: not_after_def)
  show ?case
  proof (rule take_turn [OF Suc.prems(1) na Suc.prems(5,4)])
    fix r1 b1
    assume s: "0 \<le> r1" "bucket_ok b1" "bkRate b1 = bkRate b" "bkLast b1 = Some (clock k)" "n - r1 = bkTokens (refill (clock k) b)"
    have "bkRate b / 1000 \<le> n - r1" using s(5) refill_after_pause [OF Suc.prems(1-3)] by simp
    then have "r1 \<le> of_nat m * (bkRate b1 / 1000)" using Suc.prems(6) s(3) by (simp add: field_simps)
    moreover have "clock k + pause (bkRate b1) \<le> clock (Suc k)" "paced clock (bkRate b1)"
      using Suc.prems(4) s(3) by (auto simp: paced_def)
    ultimately show "\<exists>e k' b'. take_loop clock cancelled (Suc k) r1 b1 = Some (e, k', b') \<and> k' \<le> k + Suc m
        \<and> take_ends clock cancelled (Suc k) r1 b1 (e, k', b')"
      using Suc.IH [OF s(2,4)] s(1) by fastforce
  qed simp
qed

lemma bucket_take_returns:
  assumes "bucket_ok b" "not_after b (clock 0)" "paced clock (bkRate b)" "0 \<le> n"
  shows "\<exists>e k b'. bucket_take clock cancelled n b = Some (e, k, b') \<and> k \<le> Suc (nat \<lceil>1000 * n / bkRate b\<rceil>)
    \<and> take_ends clock cancelled 0 n b (e, k, b')"
  unfolding bucket_take_def
proof (rule take_turn [OF assms(1,2,4,3)])
  fix r1 b1
  let ?m = "nat \<lceil>1000 * n / bkRate b\<rceil>"
  assume s: "0 \<le> r1" "bucket_ok b1" "bkRate b1 = bkRate b" "bkLast b1 = Some (clock 0)" "n - r1 = bkTokens (refill (clock 0) b)"
  have "r1 \<le> n" using s(5) refill_ok(1) [OF assms(1,2)] by (simp add: bucket_ok_def)
  moreover have "1000 * n / bkRate b \<le> of_nat ?m" by (rule of_nat_ceiling)
  ultimately have "r1 \<le> of_nat ?m * (bkRate b1 / 1000)" using assms(1) s(3) by (simp add: field_simps bucket_ok_def)
  moreover have "clock 0 + pause (bkRate b1) \<le> clock (Suc 0)" "paced clock (bkRate b1)"
    using assms(3) s(3) by (auto simp: paced_def)
  ultimately show "\<exists>e k' b'. take_loop clock cancelled (Suc 0) r1 b1 = Some (e, k', b') \<and> k' \<le> Suc ?m
      \<and> take_ends clock cancelled (Suc 0) r1 b1 (e, k', b')"
    using loop_returns [OF s(2,4)] s(1) by fastforce
qed simp



section \<open>Connections and identities\<close>

text \<open>
  The wrapper delays a call but changes neither what it does to the connection nor its result.
  A read is charged for its whole buffer, whatever it returns.
\<close>

lemma limited_call_transparent:
  assumes "\<And>b. rlBkt c = Some b \<Longrightarrow> bucket_ok b \<and> not_after b (clock 0) \<and> paced clock (bkRate b)"
  shows "\<exists>b'. limited_call clock n call c = Some (fst (call (rlInner c)), c\<lparr>rlInner := snd (call (rlInner c)), rlBkt := b'\<rparr>)"
proof (cases "rlBkt c")
  case None
  then have "c\<lparr>rlInner := x, rlBkt := None\<rparr> = c\<lparr>rlInner := x\<rparr>" for x by (cases c) simp
  then show ?thesis using None by (intro exI [of _ None]) (simp add: limited_call_def split: prod.split)
next
  case (Some b)
  from assms [OF this] obtain e k b' where "bucket_take clock (\<lambda>_. False) (of_nat n) b = Some (e, k, b')"
    using bucket_take_returns [of b clock "of_nat n"] by fastforce
  then show ?thesis using Some by (intro exI [of _ "Some b'"]) (simp add: limited_call_def split: prod.split)
qed

text \<open>A quota below one request per second admits nobody: the bucket never holds a whole token.\<close>

lemma small_quota_never_admits:
  assumes "bucket_ok b" "not_after b now" "bkRate b < 1"
  shows "\<not> fst (tryTake now 1 b)"
  using refill_ok(1) [OF assms(1,2)] assms(3) by (auto simp: tryTake_def Let_def bucket_ok_def)

lemma Acquire_identity_error:
  "KindOf (fst (Acquire_identity t qps now identity s)) = (if fst (identity_token qps now identity (snd s)) then KindUnknown else KindPolicy)"
  by (cases s) (simp add: Acquire_identity_def KindOf_def PolicyError_def split: prod.split)

text \<open>Connections asking for a token one after another, each with its time and identity; which of them got it.\<close>

fun token_all :: "rat \<Rightarrow> (int \<times> string) list \<Rightarrow> (string \<rightharpoonup> bucket) \<Rightarrow> bool list \<times> (string \<rightharpoonup> bucket)" where
  "token_all qps [] bs = ([], bs)"
| "token_all qps ((now, i) # rs) bs =
     (case identity_token qps now i bs of (ok, bs1) \<Rightarrow> case token_all qps rs bs1 of (oks, bs2) \<Rightarrow> (ok # oks, bs2))"

definition admitted :: "string \<Rightarrow> (int \<times> string) list \<Rightarrow> bool list \<Rightarrow> nat" where
  "admitted i rs oks = length (filter (\<lambda>((_, j), ok). j = i \<and> ok) (zip rs oks))"

definition tries :: "string \<Rightarrow> (int \<times> string) list \<Rightarrow> (int \<times> bucket_use) list" where
  "tries i rs = map (\<lambda>(now, _). (now, Trying 1)) (filter (\<lambda>(_, j). j = i) rs)"

definition bucket_of :: "rat \<Rightarrow> (string \<rightharpoonup> bucket) \<Rightarrow> string \<Rightarrow> bucket" where
  "bucket_of qps bs i = (case bs i of None \<Rightarrow> newBucket qps | Some b \<Rightarrow> b)"

text \<open>Seen from one identity, the others do not exist: its bucket sees its own requests only.\<close>

lemma token_all_projects:
  assumes "0 < qps" "i \<noteq> []" "token_all qps rs bs = (oks, bs')" "use_all (tries i rs) (bucket_of qps bs i) = (gs, b')"
  shows "bucket_of qps bs' i = b' \<and> of_nat (admitted i rs oks) = sum_list gs"
  using assms(3,4)
proof (induction rs arbitrary: bs oks gs)
  case Nil
  then show ?case by (simp add: tries_def admitted_def)
next
  case (Cons r rs)
  obtain now j where r: "r = (now, j)" by fastforce
  obtain ok bs1 oks1 where s: "identity_token qps now j bs = (ok, bs1)" "token_all qps rs bs1 = (oks1, bs')" "oks = ok # oks1"
    using Cons.prems(1) r by (auto split: prod.splits)
  show ?case
  proof (cases "j = i")
    case True
    then have t: "tryTake now 1 (bucket_of qps bs i) = (ok, bucket_of qps bs1 i)"
      using s(1) assms(1,2) by (auto simp: identity_token_def Let_def bucket_of_def split: prod.splits)
    obtain gs1 where g: "use_all (tries i rs) (bucket_of qps bs1 i) = (gs1, b')" "gs = (if ok then 1 else 0) # gs1"
      using Cons.prems(2) t True by (auto simp: r tries_def split: prod.splits)
    show ?thesis using Cons.IH [OF s(2) g(1)] True by (simp add: admitted_def r s(3) g(2))
  next
    case False
    then have "bs1 i = bs i"
      using s(1) by (auto simp: identity_token_def Let_def split: if_splits prod.splits)
    then have "use_all (tries i rs) (bucket_of qps bs1 i) = (gs, b')"
      using Cons.prems(2) False by (simp add: r tries_def bucket_of_def)
    then show ?thesis using Cons.IH [OF s(2)] False by (simp add: admitted_def r s(3))
  qed
qed

lemma tries_ok: "sorted (map fst rs) \<Longrightarrow> uses_ok (tries i rs)"
  by (induction rs) (auto simp: uses_ok_def tries_def)

text \<open>
  C19: the gate limits every identity by itself. Whatever connections arrive, from whatever identities and in whatever order: in every
  stretch of time the connections of one identity that get a token are at most the quota of one
  second and the quota of the time the stretch lasts, whatever the other identities did.
\<close>

theorem identity_rate_bound:
  assumes "0 < qps" "i \<noteq> []" "sorted (map fst (before @ rs))" "\<forall>r \<in> set rs. t0 \<le> fst r \<and> fst r \<le> t1" "t0 \<le> t1"
    and "token_all qps before Map.empty = (oks0, bs)" "token_all qps rs bs = (oks, bs')"
  shows "of_nat (admitted i rs oks) \<le> qps + Seconds (t1 - t0) * qps"
proof -
  obtain gs0 b where u0: "use_all (tries i before) (newBucket qps) = (gs0, b)" by fastforce
  obtain gs b' where u1: "use_all (tries i rs) b = (gs, b')" by fastforce
  have b: "bucket_of qps bs i = b"
    using token_all_projects [OF assms(1,2,6)] u0 by (simp add: bucket_of_def)
  have n: "of_nat (admitted i rs oks) = sum_list gs"
    using token_all_projects [OF assms(1,2,7)] u1 b by simp
  have ok: "uses_ok (tries i before @ tries i rs)"
    using tries_ok [OF assms(3), of i] by (simp add: tries_def)
  have "\<forall>u \<in> set (tries i rs). t0 \<le> fst u \<and> fst u \<le> t1"
    using assms(4) by (auto simp: tries_def)
  then have span: "fst (last (tries i rs)) - fst (hd (tries i rs)) \<le> t1 - t0" if ne: "tries i rs \<noteq> []"
    using last_in_set [OF ne] hd_in_set [OF ne] by (intro diff_mono) blast+
  have "sum_list gs \<le> qps + Seconds (t1 - t0) * qps"
  proof (cases "tries i rs = []")
    case True
    then show ?thesis using u1 assms(1,5) by (simp add: Seconds_nonneg)
  next
    case False
    have "Seconds (fst (last (tries i rs)) - fst (hd (tries i rs))) * qps \<le> Seconds (t1 - t0) * qps"
      using assms(1) by (intro mult_right_mono Seconds_mono span [OF False]) simp
    then show ?thesis using stretch_budget [OF assms(1) ok False u0 u1] by simp
  qed
  then show ?thesis by (simp add: n)
qed

theorem identity_rate_bound_witness:
  "(of_nat (admitted ''a'' [(0, ''a''), (0, ''b''), (100, ''a''), (200, ''a'')]
      (fst (token_all 2 [(0, ''a''), (0, ''b''), (100, ''a''), (200, ''a'')] Map.empty))) :: rat) \<le> 2 + Seconds (200 - 0) * 2"
  using identity_rate_bound [of 2 "''a''" "[]" "[(0, ''a''), (0, ''b''), (100, ''a''), (200, ''a'')]" 0 200 "[]" Map.empty
      "fst (token_all 2 [(0, ''a''), (0, ''b''), (100, ''a''), (200, ''a'')] Map.empty)"
      "snd (token_all 2 [(0, ''a''), (0, ''b''), (100, ''a''), (200, ''a'')] Map.empty)"]
  by simp

end
