(* ===== verification/WsTransport.thy ===== *)
theory WsTransport
  imports WsFrame StreamAdapter
begin

text \<open>
  The websocket transport, \<^verbatim>\<open>internal/transport/ws/ws.go\<close>: a connection that carries a byte
  stream in binary frames. The frame library that it calls (\<^verbatim>\<open>ws.ReadHeader\<close>, \<^verbatim>\<open>ws.Cipher\<close>,
  \<^verbatim>\<open>wsutil.WriteClientMessage\<close> and \<^verbatim>\<open>wsutil.WriteServerMessage\<close>) is the record \<open>WsLib\<close>, an argument
  of every operation; what the code relies on is the locale \<open>ws_frames\<close>, interpreted on the frames of
  \<^verbatim>\<open>protocol/ws\<close>. The listener of this transport is in \<open>TransportListen\<close>.
\<close>

section \<open>The frame library\<close>

record WsHeader =
  whOp :: byte
  whMasked :: bool
  whMask :: bytes
  whLength :: int

text \<open>
  \<open>wlReadHeader\<close> gives what it leaves of the input too; \<open>wlMessage\<close> takes the role, the random masking
  key of a client, the opcode and the payload, and gives the bytes put on the wire.
\<close>

record WsLib =
  wlReadHeader :: "bytes \<Rightarrow> (ioerr + WsHeader) \<times> bytes"
  wlMessage :: "bool \<Rightarrow> bytes \<Rightarrow> byte \<Rightarrow> bytes \<Rightarrow> bytes"
  wlCipher :: "bytes \<Rightarrow> bytes \<Rightarrow> bytes"

section \<open>The connection\<close>

definition maxFrameSize :: nat where "maxFrameSize = 1048576"

definition handshakePath :: "string \<Rightarrow> string" where
  "handshakePath path = (if path = [] then ''/'' else path)"

definition ws_dial_url :: "string \<Rightarrow> string \<Rightarrow> string" where
  "ws_dial_url path addr = ''ws://'' @ addr @ handshakePath path"

datatype twerr = TwIO ioerr | TwTooLarge int | TwOpcode byte | TwPanic

text \<open>
  \<open>twBuf\<close> is what the handshake left in the buffered reader (empty also when there is none) and
  \<open>twRaw\<close> what can still be read from the connection below. That connection accepts \<open>twRoom\<close>
  more bytes before its writes fail.
\<close>

record TwConn =
  twBuf :: bytes
  twRaw :: bytes
  twPending :: bytes
  twClient :: bool
  twOut :: bytes
  twRoom :: "nat option"
  twClosed :: bool

definition newServerConn :: "bytes option \<Rightarrow> bytes \<Rightarrow> nat option \<Rightarrow> TwConn" where
  "newServerConn rw raw room =
     \<lparr>twBuf = (case rw of None \<Rightarrow> [] | Some b \<Rightarrow> b), twRaw = raw, twPending = [], twClient = False, twOut = [],
      twRoom = room, twClosed = False\<rparr>"

text \<open>A missing reader is replaced by one on the connection itself, with nothing buffered.\<close>

definition newClientConn :: "bytes option \<Rightarrow> bytes \<Rightarrow> nat option \<Rightarrow> TwConn" where
  "newClientConn br raw room =
     \<lparr>twBuf = (case br of None \<Rightarrow> [] | Some b \<Rightarrow> b), twRaw = raw, twPending = [], twClient = True, twOut = [],
      twRoom = room, twClosed = False\<rparr>"

definition raw_left :: "TwConn \<Rightarrow> bytes" where
  "raw_left c = (if twClosed c then [] else twRaw c)"

definition tw_stream :: "TwConn \<Rightarrow> bytes" where
  "tw_stream c = twBuf c @ raw_left c"

text \<open>The end of the stream is the error of a closed connection once it was closed here.\<close>

definition end_err :: "TwConn \<Rightarrow> ioerr \<Rightarrow> ioerr" where
  "end_err c e = (if twClosed c \<and> (e = EOF \<or> e = UnexpectedEOF) then ErrClosed else e)"

text \<open>
  The state once the reader chosen for a frame has left \<open>rest\<close>. A buffered reader that ran
  out of its buffer has fetched more from below, \<open>fill\<close> bytes beyond what was asked for.
\<close>

definition tw_advance :: "nat \<Rightarrow> bytes \<Rightarrow> TwConn \<Rightarrow> TwConn" where
  "tw_advance fill rest c =
     (let raw = raw_left c;
          k = (if twBuf c = [] then 0
               else if length raw \<le> length rest then length rest - length raw else fill) in
      c\<lparr>twBuf := take k rest, twRaw := drop k rest\<rparr>)"

definition raw_write :: "bytes \<Rightarrow> TwConn \<Rightarrow> (ioerr + unit) \<times> TwConn" where
  "raw_write bs c =
     (if twClosed c then (Inl ErrClosed, c)
      else case twRoom c of
        None \<Rightarrow> (Inr (), c\<lparr>twOut := twOut c @ bs\<rparr>)
      | Some k \<Rightarrow>
          if length bs \<le> k then (Inr (), c\<lparr>twOut := twOut c @ bs, twRoom := Some (k - length bs)\<rparr>)
          else (Inl ErrOther, c\<lparr>twOut := twOut c @ take k bs, twRoom := Some 0\<rparr>))"

definition tw_writeControl :: "WsLib \<Rightarrow> bytes \<Rightarrow> byte \<Rightarrow> bytes \<Rightarrow> TwConn \<Rightarrow> (ioerr + unit) \<times> TwConn" where
  "tw_writeControl L key op p c = raw_write (wlMessage L (twClient c) key op p) c"

definition tw_handleFrame :: "WsLib \<Rightarrow> nat \<Rightarrow> bytes \<Rightarrow> WsHeader \<Rightarrow> bytes \<Rightarrow> TwConn \<Rightarrow> (twerr + unit) \<times> TwConn" where
  "tw_handleFrame L fill key h r c =
     (if whLength h > int maxFrameSize then (Inl (TwTooLarge (whLength h)), tw_advance fill r c)
      else if whLength h < 0 then (Inl TwPanic, tw_advance fill r c)
      else case read_full (nat (whLength h)) r of
        Inl e \<Rightarrow> (Inl (TwIO (end_err c e)), tw_advance fill [] c)
      | Inr (body, rest) \<Rightarrow>
          (let p = (if whMasked h then wlCipher L (whMask h) body else body); c1 = tw_advance fill rest c in
           if whOp h = OpBinary \<or> whOp h = OpText \<or> whOp h = OpContinuation then (Inr (), c1\<lparr>twPending := p\<rparr>)
           else if whOp h = OpPing then
             (case tw_writeControl L key OpPong p c1 of (Inl e, c2) \<Rightarrow> (Inl (TwIO e), c2) | (Inr _, c2) \<Rightarrow> (Inr (), c2))
           else if whOp h = OpPong then (Inr (), c1)
           else if whOp h = OpClose then (Inl (TwIO EOF), snd (tw_writeControl L key OpClose p c1))
           else (Inl (TwOpcode (whOp h)), c1)))"

text \<open>
  \<^verbatim>\<open>Read\<close> with a buffer of \<open>n\<close> bytes; \<open>env\<close> gives, for what is left of the stream when an iteration
  begins, the number of bytes prefetched and the masking key of an answer.
\<close>

partial_function (option) tw_Read :: "WsLib \<Rightarrow> (bytes \<Rightarrow> nat \<times> bytes) \<Rightarrow> nat \<Rightarrow> TwConn \<Rightarrow> ((twerr + bytes) \<times> TwConn) option" where
  "tw_Read L env n c =
     (if twPending c \<noteq> [] then Some (Inr (take n (twPending c)), c\<lparr>twPending := drop n (twPending c)\<rparr>)
      else case wlReadHeader L (tw_stream c) of
        (Inl e, r) \<Rightarrow> Some (Inl (TwIO (end_err c e)), tw_advance (fst (env (tw_stream c))) r c)
      | (Inr h, r) \<Rightarrow>
          (case tw_handleFrame L (fst (env (tw_stream c))) (snd (env (tw_stream c))) h r c of
             (Inl e, c1) \<Rightarrow> Some (Inl e, c1)
           | (Inr _, c1) \<Rightarrow> tw_Read L env n c1))"

text \<open>\<^verbatim>\<open>Write\<close> from offset \<open>off\<close>, one frame for each \<open>maxFrameSize\<close> bytes; \<open>keys\<close> gives the masking keys.\<close>

function tw_write_from :: "WsLib \<Rightarrow> (nat \<Rightarrow> bytes) \<Rightarrow> bytes \<Rightarrow> nat \<Rightarrow> TwConn \<Rightarrow> (nat \<times> ioerr option) \<times> TwConn" where
  "tw_write_from L keys p off c =
     (if off < length p then
        (case raw_write (wlMessage L (twClient c) (keys off) OpBinary (take maxFrameSize (drop off p))) c of
           (Inl e, c1) \<Rightarrow> ((off, Some e), c1)
         | (Inr _, c1) \<Rightarrow> tw_write_from L keys p (off + maxFrameSize) c1)
      else ((length p, None), c))"
  by pat_completeness auto
termination
  by (relation "measure (\<lambda>(_, _, p, off, _). length p - off)") (auto simp: maxFrameSize_def)

declare tw_write_from.simps [simp del]

definition tw_Write :: "WsLib \<Rightarrow> (nat \<Rightarrow> bytes) \<Rightarrow> bytes \<Rightarrow> TwConn \<Rightarrow> (nat \<times> ioerr option) \<times> TwConn" where
  "tw_Write L keys p c = tw_write_from L keys p 0 c"

definition tw_Close :: "WsLib \<Rightarrow> bytes \<Rightarrow> TwConn \<Rightarrow> TwConn" where
  "tw_Close L key c = (snd (raw_write (wlMessage L (twClient c) key OpClose []) c))\<lparr>twClosed := True\<rparr>"

section \<open>Frames and bytes\<close>

lemma tw_advance_stream:
  "length rest \<le> length (tw_stream c) \<Longrightarrow> tw_stream (tw_advance fill rest c) = rest"
  by (auto simp: tw_advance_def tw_stream_def raw_left_def Let_def)

lemma tw_advance_fields [simp]:
  "twPending (tw_advance fill r c) = twPending c" "twClient (tw_advance fill r c) = twClient c"
  "twOut (tw_advance fill r c) = twOut c" "twRoom (tw_advance fill r c) = twRoom c"
  "twClosed (tw_advance fill r c) = twClosed c"
  by (simp_all add: tw_advance_def Let_def)

lemma tw_stream_frame [simp]:
  "tw_stream (c\<lparr>twPending := x\<rparr>) = tw_stream c" "tw_stream (c\<lparr>twOut := w\<rparr>) = tw_stream c"
  "tw_stream (c\<lparr>twRoom := k\<rparr>) = tw_stream c"
  by (simp_all add: tw_stream_def raw_left_def)

lemma raw_write_stream [simp]: "tw_stream (snd (raw_write bs c)) = tw_stream c"
  by (simp add: raw_write_def split: option.split)

text \<open>What a frame that is read to its end leaves behind.\<close>

lemma handleFrame_stream:
  assumes "tw_handleFrame L fill key h r c = (x, c1)" "length r \<le> length (tw_stream c)"
  shows "length (tw_stream c1) \<le> length r"
  using assms
  by (auto simp: tw_handleFrame_def Let_def tw_writeControl_def tw_advance_stream read_full_Inr
        split: if_splits sum.splits prod.splits dest: arg_cong [where f = "\<lambda>z. tw_stream (snd z)"])

section \<open>What the code relies on\<close>

text \<open>
  The bytes of the data frames in front of the first frame that ends the stream. The fuel \<open>k\<close> is a
  number of frames; \<open>tw_content\<close> takes the length of the stream, and every frame has a byte.
\<close>

fun data_ahead :: "WsLib \<Rightarrow> nat \<Rightarrow> bytes \<Rightarrow> bytes" where
  "data_ahead L 0 bs = []"
| "data_ahead L (Suc k) bs =
     (case wlReadHeader L bs of
        (Inl e, r) \<Rightarrow> []
      | (Inr h, r) \<Rightarrow>
          if whLength h < 0 \<or> whLength h > int maxFrameSize then []
          else case read_full (nat (whLength h)) r of
            Inl e \<Rightarrow> []
          | Inr (body, rest) \<Rightarrow>
              if whOp h = OpBinary \<or> whOp h = OpText \<or> whOp h = OpContinuation
              then (if whMasked h then wlCipher L (whMask h) body else body) @ data_ahead L k rest
              else if whOp h = OpPing \<or> whOp h = OpPong then data_ahead L k rest else [])"

definition tw_content :: "WsLib \<Rightarrow> TwConn \<Rightarrow> bytes" where
  "tw_content L c = twPending c @ data_ahead L (length (tw_stream c)) (tw_stream c)"

record msg_frame =
  mfClient :: bool
  mfKey :: bytes
  mfOp :: byte
  mfData :: bytes

definition msg_ok :: "msg_frame \<Rightarrow> bool" where
  "msg_ok f \<longleftrightarrow> length (mfKey f) = 4 \<and> length (mfData f) \<le> maxFrameSize
     \<and> (mfOp f = OpBinary \<or> mfOp f = OpText \<or> mfOp f = OpContinuation \<or> mfOp f = OpPing \<or> mfOp f = OpPong)"

definition msg_bytes :: "WsLib \<Rightarrow> msg_frame \<Rightarrow> bytes" where
  "msg_bytes L f = wlMessage L (mfClient f) (mfKey f) (mfOp f) (mfData f)"

definition msg_data :: "msg_frame \<Rightarrow> bytes" where
  "msg_data f = (if mfOp f = OpPing \<or> mfOp f = OpPong then [] else mfData f)"

definition open_conn :: "TwConn \<Rightarrow> bool" where
  "open_conn c \<longleftrightarrow> \<not> twClosed c \<and> twRoom c = None"

fun tw_got :: "twerr + bytes \<Rightarrow> bytes" where
  "tw_got (Inl e) = []"
| "tw_got (Inr d) = d"

text \<open>The frames that a write is cut into.\<close>

function write_frames :: "bool \<Rightarrow> (nat \<Rightarrow> bytes) \<Rightarrow> bytes \<Rightarrow> nat \<Rightarrow> msg_frame list" where
  "write_frames client keys p off =
     (if off < length p then
        \<lparr>mfClient = client, mfKey = keys off, mfOp = OpBinary, mfData = take maxFrameSize (drop off p)\<rparr>
        # write_frames client keys p (off + maxFrameSize)
      else [])"
  by pat_completeness auto
termination
  by (relation "measure (\<lambda>(_, _, p, off). length p - off)") (auto simp: maxFrameSize_def)

declare write_frames.simps [simp del]

lemma write_frames_data: "concat (map msg_data (write_frames client keys p off)) = drop off p"
proof (induction client keys p off rule: write_frames.induct)
  case (1 client keys p off)
  have "drop (off + maxFrameSize) p = drop maxFrameSize (drop off p)" by (simp add: add.commute)
  moreover have "msg_data \<lparr>mfClient = client, mfKey = k, mfOp = OpBinary, mfData = x\<rparr> = x" for k x
    by (simp add: msg_data_def op_defs)
  ultimately show ?case using 1 by (subst write_frames.simps) (simp del: drop_drop)
qed

lemma write_frames_ok: "\<forall>k. length (keys k) = 4 \<Longrightarrow> list_all msg_ok (write_frames client keys p off)"
proof (induction client keys p off rule: write_frames.induct)
  case (1 client keys p off)
  moreover have "msg_ok \<lparr>mfClient = client, mfKey = keys off, mfOp = OpBinary, mfData = take maxFrameSize x\<rparr>" for x
    using "1.prems" by (simp add: msg_ok_def)
  ultimately show ?case by (subst write_frames.simps) simp
qed

text \<open>Two ends of a connection: one writes, the other reads what it put out.\<close>

definition link_ok :: "WsLib \<Rightarrow> (nat \<Rightarrow> bytes) \<Rightarrow> TwConn \<times> TwConn \<Rightarrow> bool" where
  "link_ok L keys = (\<lambda>(w, c). open_conn w \<and> open_conn c \<and> (\<forall>k. length (keys k) = 4)
     \<and> (\<exists>fs. list_all msg_ok fs \<and> tw_stream c = concat (map (msg_bytes L) fs)))"

definition link_content :: "WsLib \<Rightarrow> TwConn \<times> TwConn \<Rightarrow> bytes" where
  "link_content L s = tw_content L (snd s)"

definition link_put :: "WsLib \<Rightarrow> (nat \<Rightarrow> bytes) \<Rightarrow> bytes \<Rightarrow> TwConn \<times> TwConn \<Rightarrow> (TwConn \<times> TwConn) option" where
  "link_put L keys d = (\<lambda>(w, c).
     case tw_Write L keys d w of
       ((n, None), w') \<Rightarrow> Some (w', c\<lparr>twRaw := twRaw c @ drop (length (twOut w)) (twOut w')\<rparr>)
     | ((n, Some e), w') \<Rightarrow> None)"

definition link_get :: "WsLib \<Rightarrow> (bytes \<Rightarrow> nat \<times> bytes) \<Rightarrow> nat \<Rightarrow> TwConn \<times> TwConn \<Rightarrow> bytes \<times> (TwConn \<times> TwConn)" where
  "link_get L env n = (\<lambda>(w, c).
     case tw_Read L env n c of None \<Rightarrow> ([], (w, c)) | Some (x, c') \<Rightarrow> (tw_got x, (w, c')))"

definition puts_of :: "pipe_op list \<Rightarrow> bytes" where
  "puts_of ops = concat (map (\<lambda>op. case op of PPut d \<Rightarrow> d | PGet n \<Rightarrow> []) ops)"

locale ws_frames =
  fixes L :: WsLib
  assumes header_rest: "length (snd (wlReadHeader L bs)) \<le> length bs"
    and header_shorter: "wlReadHeader L bs = (Inr h, r) \<Longrightarrow> length r < length bs"
    and message_header: "length p \<le> maxFrameSize \<Longrightarrow> length key = 4 \<Longrightarrow> op < 16 \<Longrightarrow>
      \<exists>h body. wlReadHeader L (wlMessage L client key op p @ rest) = (Inr h, body @ rest)
        \<and> whOp h = op \<and> whLength h = int (length body) \<and> length body = length p
        \<and> (if whMasked h then wlCipher L (whMask h) body else body) = p"
begin

lemma read_total: "\<exists>y. tw_Read L env n c = Some y"
proof (induction "length (tw_stream c)" arbitrary: c rule: less_induct)
  case less
  show ?case
  proof (cases "twPending c = []")
    case True
    obtain x r where xr: "wlReadHeader L (tw_stream c) = (x, r)" by force
    show ?thesis
    proof (cases x)
      case (Inl e)
      with True xr show ?thesis by (subst tw_Read.simps) simp
    next
      case (Inr h)
      note lt = header_shorter [OF xr [unfolded Inr]]
      obtain y c1 where yc: "tw_handleFrame L (fst (env (tw_stream c))) (snd (env (tw_stream c))) h r c = (y, c1)" by force
      with lt handleFrame_stream [OF yc] have "length (tw_stream c1) < length (tw_stream c)" by simp
      from less [OF this] show ?thesis
        using True xr Inr yc by (subst tw_Read.simps) (cases y; simp)
    qed
  next
    case False
    then show ?thesis by (subst tw_Read.simps) simp
  qed
qed

lemma read_returns:
  obtains x c' where "tw_Read L env n c = Some (x, c')"
  using read_total [of env n c] by auto

lemma msg_header:
  assumes "msg_ok f"
  obtains h body where "wlReadHeader L (msg_bytes L f @ rest) = (Inr h, body @ rest)" "whOp h = mfOp f"
    "whLength h = int (length body)" "length body \<le> maxFrameSize"
    "(if whMasked h then wlCipher L (whMask h) body else body) = mfData f"
proof -
  have "mfOp f < 16" using assms by (auto simp: msg_ok_def op_defs)
  with assms message_header [of "mfData f" "mfKey f" "mfOp f" "mfClient f" rest] show thesis
    by (auto simp: msg_ok_def msg_bytes_def intro: that)
qed

lemma msg_nonempty: "msg_ok f \<Longrightarrow> msg_bytes L f \<noteq> []"
proof
  assume "msg_ok f" and e: "msg_bytes L f = []"
  then obtain h body where "wlReadHeader L ([] @ []) = (Inr h, body @ [])" using msg_header [of f "[]"] by metis
  with header_shorter [of "[]" h body] show False by simp
qed

lemma header_nil: "\<exists>e. wlReadHeader L [] = (Inl e, [])"
  using header_rest [of "[]"] header_shorter [of "[]"]
  by (cases "wlReadHeader L []"; cases "fst (wlReadHeader L [])") auto

lemma data_ahead_nil [simp]: "data_ahead L k [] = []"
  using header_nil by (cases k) auto

lemma data_ahead_msgs:
  "list_all msg_ok fs \<Longrightarrow> length fs \<le> k \<Longrightarrow> data_ahead L k (concat (map (msg_bytes L) fs)) = concat (map msg_data fs)"
proof (induction fs arbitrary: k)
  case Nil
  then show ?case by simp
next
  case (Cons f fs)
  then obtain j where k: "k = Suc j" by (cases k) auto
  obtain h body where b: "wlReadHeader L (msg_bytes L f @ concat (map (msg_bytes L) fs)) = (Inr h, body @ concat (map (msg_bytes L) fs))"
    "whOp h = mfOp f" "whLength h = int (length body)" "length body \<le> maxFrameSize"
    "(if whMasked h then wlCipher L (whMask h) body else body) = mfData f"
    using Cons.prems(1) msg_header [of f] by auto
  with Cons k show ?case by (auto simp: msg_data_def msg_ok_def op_defs)
qed

lemma msgs_length: "list_all msg_ok fs \<Longrightarrow> length fs \<le> length (concat (map (msg_bytes L) fs))"
proof (induction fs)
  case (Cons f fs)
  with msg_nonempty [of f] show ?case by (cases "msg_bytes L f") auto
qed simp

lemma content_msgs:
  "list_all msg_ok fs \<Longrightarrow> tw_stream c = concat (map (msg_bytes L) fs) \<Longrightarrow> tw_content L c = twPending c @ concat (map msg_data fs)"
  using data_ahead_msgs [of fs] msgs_length [of fs] by (simp add: tw_content_def)

text \<open>A frame in front of the stream is taken whole, and what it held is pending.\<close>

lemma handle_msg:
  assumes "msg_ok f" "tw_stream c = msg_bytes L f @ rest" "open_conn c" "twPending c = []"
  obtains h r c1 where "wlReadHeader L (tw_stream c) = (Inr h, r)" "tw_handleFrame L fill key h r c = (Inr (), c1)"
    "tw_stream c1 = rest" "open_conn c1" "twPending c1 = msg_data f"
proof -
  obtain h body where b: "wlReadHeader L (msg_bytes L f @ rest) = (Inr h, body @ rest)" "whOp h = mfOp f"
    "whLength h = int (length body)" "length body \<le> maxFrameSize"
    "(if whMasked h then wlCipher L (whMask h) body else body) = mfData f"
    using msg_header [OF assms(1)] .
  let ?a = "tw_advance fill rest c"
  have a: "tw_stream ?a = rest" using assms(2) by (intro tw_advance_stream) simp
  have p: "raw_write bs ?a = (Inr (), ?a\<lparr>twOut := twOut c @ bs\<rparr>)" for bs
    using assms(3) by (simp add: raw_write_def open_conn_def)
  consider (data) "mfOp f = OpBinary \<or> mfOp f = OpText \<or> mfOp f = OpContinuation" "msg_data f = mfData f"
    | (ping) "mfOp f = OpPing" "msg_data f = []" | (pong) "mfOp f = OpPong" "msg_data f = []"
    using assms(1) by (auto simp: msg_ok_def msg_data_def op_defs)
  then show thesis
  proof cases
    case data
    with b a assms show thesis
      by (intro that [of h "body @ rest" "?a\<lparr>twPending := mfData f\<rparr>"])
        (auto simp: tw_handleFrame_def open_conn_def Let_def)
  next
    case ping
    with b a p assms show thesis
      by (intro that [of h "body @ rest" "?a\<lparr>twOut := twOut c @ wlMessage L (twClient c) key OpPong (mfData f)\<rparr>"])
        (auto simp: tw_handleFrame_def tw_writeControl_def open_conn_def Let_def op_defs)
  next
    case pong
    with b a assms show thesis
      by (intro that [of h "body @ rest" ?a]) (auto simp: tw_handleFrame_def open_conn_def Let_def op_defs)
  qed
qed

lemma read_msgs:
  assumes "tw_Read L env n c = Some (x, c')" "open_conn c" "list_all msg_ok fs" "tw_stream c = concat (map (msg_bytes L) fs)"
  shows "open_conn c' \<and> (\<exists>gs. list_all msg_ok gs \<and> tw_stream c' = concat (map (msg_bytes L) gs))
    \<and> tw_content L c = tw_got x @ tw_content L c' \<and> (0 < n \<longrightarrow> tw_content L c \<noteq> [] \<longrightarrow> tw_got x \<noteq> [])"
  using assms
proof (induction fs arbitrary: c)
  case Nil
  show ?case
  proof (cases "twPending c = []")
    case True
    obtain e where e: "wlReadHeader L [] = (Inl e, [])" using header_nil by blast
    have s: "tw_stream c = []" using Nil by simp
    have "x = Inl (TwIO (end_err c e))" "c' = tw_advance (fst (env [])) [] c"
      using Nil.prems(1) True e s by (subst (asm) tw_Read.simps, simp)+
    moreover have "tw_stream (tw_advance (fst (env [])) [] c) = []" by (rule tw_advance_stream) simp
    ultimately show ?thesis
      using Nil.prems(2) True s by (auto simp: open_conn_def tw_content_def intro: exI [of _ "[]"])
  next
    case False
    with Nil show ?thesis
      by (subst (asm) tw_Read.simps) (auto simp: open_conn_def tw_content_def intro: exI [of _ "[]"])
  qed
next
  case (Cons f fs)
  show ?case
  proof (cases "twPending c = []")
    case True
    obtain h r c1 where h: "wlReadHeader L (tw_stream c) = (Inr h, r)"
      "tw_handleFrame L (fst (env (tw_stream c))) (snd (env (tw_stream c))) h r c = (Inr (), c1)"
      "tw_stream c1 = concat (map (msg_bytes L) fs)" "open_conn c1" "twPending c1 = msg_data f"
      by (rule handle_msg [OF _ _ Cons.prems(2) True, of f "concat (map (msg_bytes L) fs)"
            "fst (env (tw_stream c))" "snd (env (tw_stream c))"]) (use Cons.prems(3,4) in simp_all)
    have r1: "tw_Read L env n c1 = Some (x, c')"
      using Cons.prems(1) True h(1,2) by (subst (asm) tw_Read.simps) simp
    have eq: "tw_content L c1 = tw_content L c"
      using content_msgs [of "f # fs" c] content_msgs [of fs c1] Cons.prems(3,4) h(3,5) True by simp
    have "list_all msg_ok fs" using Cons.prems(3) by simp
    from Cons.IH [OF r1 h(4) this h(3)] show ?thesis unfolding eq .
  next
    case False
    have "tw_Read L env n c = Some (Inr (take n (twPending c)), c\<lparr>twPending := drop n (twPending c)\<rparr>)"
      using False by (subst tw_Read.simps) simp
    with Cons.prems False show ?thesis
      by (auto simp: open_conn_def tw_content_def intro!: exI [of _ "f # fs"])
  qed
qed

text \<open>What a write of an open connection puts out.\<close>

lemma write_open:
  "open_conn c \<Longrightarrow> tw_write_from L keys p off c =
     ((length p, None), c\<lparr>twOut := twOut c @ concat (map (msg_bytes L) (write_frames (twClient c) keys p off))\<rparr>)"
proof (induction L keys p off c rule: tw_write_from.induct)
  case (1 L keys p off c)
  let ?m = "wlMessage L (twClient c) (keys off) OpBinary (take maxFrameSize (drop off p))"
  have w: "raw_write ?m c = (Inr (), c\<lparr>twOut := twOut c @ ?m\<rparr>)"
    using "1.prems" by (simp add: raw_write_def open_conn_def)
  show ?case
  proof (cases "off < length p")
    case True
    then have "tw_write_from L keys p (off + maxFrameSize) (c\<lparr>twOut := twOut c @ ?m\<rparr>) =
       ((length p, None), c\<lparr>twOut := twOut c @ ?m @ concat (map (msg_bytes L) (write_frames (twClient c) keys p (off + maxFrameSize)))\<rparr>)"
      using "1.IH" [OF True w [symmetric]] "1.prems" by (simp add: open_conn_def)
    with True w show ?thesis
      by (subst tw_write_from.simps) (subst write_frames.simps, simp add: msg_bytes_def)
  next
    case False
    then show ?thesis by (subst tw_write_from.simps) (subst write_frames.simps, simp)
  qed
qed

end

sublocale ws_frames \<subseteq> byte_pipe "link_ok L keys" "link_content L" "link_put L keys" "link_get L env" for keys env
proof unfold_locales
  fix s d s' assume s: "link_ok L keys s" and p: "link_put L keys d s = Some s'"
  obtain w c fs where wc: "s = (w, c)" "open_conn w" "open_conn c" "list_all msg_ok fs" "\<forall>k. length (keys k) = 4"
    "tw_stream c = concat (map (msg_bytes L) fs)" using s by (auto simp: link_ok_def)
  let ?gs = "write_frames (twClient w) keys d 0"
  have s': "s' = (w\<lparr>twOut := twOut w @ concat (map (msg_bytes L) ?gs)\<rparr>, c\<lparr>twRaw := twRaw c @ concat (map (msg_bytes L) ?gs)\<rparr>)"
    using p wc(1,2) by (simp add: link_put_def tw_Write_def write_open)
  have st: "tw_stream (snd s') = concat (map (msg_bytes L) (fs @ ?gs))"
    using wc(3,6) by (simp add: s' tw_stream_def raw_left_def open_conn_def)
  have ok: "list_all msg_ok (fs @ ?gs)" using wc(4,5) write_frames_ok [of keys] by simp
  have "link_ok L keys s'" using ok st wc(2,3,5) unfolding link_ok_def s'
    by (auto simp: open_conn_def intro!: exI [of _ "fs @ ?gs"])
  moreover have "link_content L s' = link_content L s @ d"
    using content_msgs [OF ok st] content_msgs [OF wc(4,6)] by (simp add: link_content_def wc(1) s' write_frames_data)
  ultimately show "link_ok L keys s' \<and> link_content L s' = link_content L s @ d" ..
next
  fix s n d s' assume s: "link_ok L keys s" and g: "link_get L env n s = (d, s')"
  obtain w c fs where wc: "s = (w, c)" "open_conn w" "open_conn c" "list_all msg_ok fs" "\<forall>k. length (keys k) = 4"
    "tw_stream c = concat (map (msg_bytes L) fs)" using s by (auto simp: link_ok_def)
  obtain x c' where r: "tw_Read L env n c = Some (x, c')" by (rule read_returns)
  have "d = tw_got x" "s' = (w, c')" using g r by (simp_all add: link_get_def wc(1))
  with read_msgs [OF r wc(3,4,6)] wc(1,2,5) show "link_ok L keys s' \<and> link_content L s = d @ link_content L s'"
    by (auto simp: link_ok_def link_content_def)
next
  fix s and n :: nat assume s: "link_ok L keys s" and n: "0 < n" "link_content L s \<noteq> []"
  obtain w c fs where wc: "s = (w, c)" "open_conn c" "list_all msg_ok fs" "tw_stream c = concat (map (msg_bytes L) fs)"
    using s by (auto simp: link_ok_def)
  obtain x c' where r: "tw_Read L env n c = Some (x, c')" by (rule read_returns)
  from read_msgs [OF r wc(2-4)] have "0 < n \<longrightarrow> tw_content L c \<noteq> [] \<longrightarrow> tw_got x \<noteq> []" by blast
  with r n show "fst (link_get L env n s) \<noteq> []" by (simp add: link_get_def link_content_def wc(1))
qed

context ws_frames
begin

lemma link_put_accepts:
  assumes "link_ok L keys s"
  shows "\<exists>s'. link_put L keys d s = Some s' \<and> link_ok L keys s'"
proof -
  have "link_put L keys d s \<noteq> None"
    using assms by (cases s) (auto simp: link_put_def link_ok_def tw_Write_def write_open)
  then show ?thesis using put_content [OF assms] by blast
qed

lemma link_get_ok: "link_ok L keys s \<Longrightarrow> link_ok L keys (snd (link_get L env n s))"
  using get_content [of keys s env n] by (cases "link_get L env n s") simp

lemma link_ins:
  "link_ok L keys s \<Longrightarrow> pipe_run (link_put L keys) (link_get L env) ops s = (ins, outs, z) \<Longrightarrow> ins = puts_of ops"
proof (induction ops arbitrary: s ins outs)
  case Nil
  then show ?case by (simp add: puts_of_def)
next
  case (Cons op ops)
  show ?case
  proof (cases op)
    case (PPut d)
    obtain s1 where "link_put L keys d s = Some s1" "link_ok L keys s1" using link_put_accepts [OF Cons.prems(1)] by blast
    with Cons PPut show ?thesis by (auto simp: puts_of_def split: prod.splits)
  next
    case (PGet n)
    with Cons link_get_ok [OF Cons.prems(1), of env n] show ?thesis
      by (auto simp: puts_of_def split: prod.splits)
  qed
qed

lemma link_fifo:
  "link_ok L keys s \<Longrightarrow> pipe_run (link_put L keys) (link_get L env) ops s = (ins, outs, z)
    \<Longrightarrow> link_ok L keys z \<and> link_content L s @ ins = outs @ link_content L z"
  by (rule run_fifo)

lemma link_drain:
  "link_ok L keys s \<Longrightarrow> length (link_content L s) \<le> k
    \<Longrightarrow> \<exists>z. pipe_run (link_put L keys) (link_get L env) (replicate k (PGet (Suc m))) s = ([], link_content L s, z)
      \<and> link_ok L keys z \<and> link_content L z = []"
  by (rule drain)

end

section \<open>The frames of this repository as the library\<close>

definition own_header :: "bytes \<Rightarrow> (ioerr + WsHeader) \<times> bytes" where
  "own_header inp =
     (case read_full 2 inp of
        Inl e \<Rightarrow> (Inl e, [])
      | Inr (head, r1) \<Rightarrow>
          (case read_length (head ! 1 AND 0x7f) r1 of
             Inl e \<Rightarrow> (Inl e, [])
           | Inr (len, r2) \<Rightarrow>
               (case read_full (if head ! 1 AND 0x80 \<noteq> 0 then 4 else 0) r2 of
                  Inl e \<Rightarrow> (Inl e, [])
                | Inr (key, r3) \<Rightarrow>
                    (Inr \<lparr>whOp = head ! 0 AND 0x0f, whMasked = (head ! 1 AND 0x80 \<noteq> 0), whMask = key, whLength = int len\<rparr>, r3))))"

definition own_lib :: WsLib where
  "own_lib = \<lparr>wlReadHeader = own_header,
     wlMessage = (\<lambda>client key op p. frame_bytes client key \<lparr>wfFin = True, wfOp = op, wfPayload = p\<rparr>), wlCipher = mask_bytes\<rparr>"

lemma own_header_message:
  assumes "length p \<le> maxFrameSize" "length key = 4" "op < 16"
  shows "\<exists>h body. own_header (frame_bytes client key \<lparr>wfFin = True, wfOp = op, wfPayload = p\<rparr> @ rest) = (Inr h, body @ rest)
    \<and> whOp h = op \<and> whLength h = int (length body) \<and> length body = length p
    \<and> (if whMasked h then mask_bytes (whMask h) body else body) = p"
proof -
  obtain l ext where l: "length_code (length p) = (l, ext)" by force
  have n: "length p \<le> MaxMessageSize" using assms(1) by (simp add: maxFrameSize_def MaxMessageSize_def)
  note bits = op_bits [OF assms(3)] len_bits [OF length_code_bits [OF l]]
  have "read_full 4 (key @ mask_bytes key p @ rest) = Inr (key, mask_bytes key p @ rest)"
    using assms(2) by simp
  with bits show ?thesis
    by (cases client)
      (simp_all add: frame_bytes_def own_header_def l Let_def read_length_code [OF l n] mask_mask assms(2))
qed

interpretation own: ws_frames own_lib
proof unfold_locales
  fix bs h r
  have "length (snd (own_header bs)) \<le> length bs \<and> (own_header bs = (Inr h, r) \<longrightarrow> length r < length bs)"
    by (auto simp: own_header_def read_length_def split: sum.splits if_splits dest!: read_full_length)
  then show "length (snd (wlReadHeader own_lib bs)) \<le> length bs"
    and "wlReadHeader own_lib bs = (Inr h, r) \<Longrightarrow> length r < length bs" by (simp_all add: own_lib_def)
qed (use own_header_message in \<open>unfold own_lib_def WsLib.simps, blast\<close>)

section \<open>Theorems\<close>

text \<open>
  C15: A websocket connection is a byte stream. Whatever the two ends do, in any order, with any
  write sizes, buffer sizes, prefetching and masking keys, and with pings in between, every write
  is accepted, and the bytes written are the bytes read followed by those still to be read, in
  order; reading on returns exactly these.
\<close>

theorem ws_stream_fifo:
  assumes "ws_frames L" "link_ok L keys s"
    and "pipe_run (link_put L keys) (link_get L env) ops s = (ins, outs, z)"
  shows "ins = puts_of ops \<and> link_content L s @ ins = outs @ link_content L z
    \<and> (\<exists>z'. pipe_run (link_put L keys) (link_get L env) (replicate (length (link_content L z)) (PGet (Suc m))) z
          = ([], link_content L z, z') \<and> link_content L z' = [])"
  using ws_frames.link_ins [OF assms] ws_frames.link_fifo [OF assms]
    ws_frames.link_drain [OF assms(1), of keys z "length (link_content L z)" env m] by auto

definition demo_keys :: "nat \<Rightarrow> bytes" where "demo_keys k = [1, 2, 3, 4]"

text \<open>A client that writes and a server whose buffered reader holds the start of a ping.\<close>

definition demo_link :: "TwConn \<times> TwConn" where
  "demo_link = (newClientConn None [] None, newServerConn (Some [0x89]) [0x01, 0x07] None)"

lemma demo_link_ok: "link_ok own_lib demo_keys demo_link" "link_content own_lib demo_link = []"
proof -
  let ?f = "\<lparr>mfClient = False, mfKey = [0, 0, 0, 0], mfOp = OpPing, mfData = [7]\<rparr>"
  have "msg_bytes own_lib ?f = [0x89, 0x01, 0x07]" by code_simp
  then have st: "tw_stream (snd demo_link) = concat (map (msg_bytes own_lib) [?f])"
    by (simp add: demo_link_def newServerConn_def tw_stream_def raw_left_def)
  have ok: "list_all msg_ok [?f]" by (simp add: msg_ok_def maxFrameSize_def)
  show "link_content own_lib demo_link = []"
    using own.content_msgs [OF ok st] by (simp add: link_content_def msg_data_def demo_link_def newServerConn_def)
  have "\<exists>fs. list_all msg_ok fs \<and> tw_stream (snd demo_link) = concat (map (msg_bytes own_lib) fs)" using ok st by blast
  then show "link_ok own_lib demo_keys demo_link"
    by (simp add: link_ok_def demo_link_def open_conn_def newClientConn_def newServerConn_def demo_keys_def)
qed

theorem ws_stream_fifo_witness:
  "fst (snd (pipe_run (link_put own_lib demo_keys) (link_get own_lib (\<lambda>_. (1, []))) [PPut [10, 20, 30], PGet 2, PGet 2] demo_link))
     @ link_content own_lib (snd (snd (pipe_run (link_put own_lib demo_keys) (link_get own_lib (\<lambda>_. (1, [])))
          [PPut [10, 20, 30], PGet 2, PGet 2] demo_link)))
   = [10, 20, 30]"
proof -
  obtain ins outs z where r: "pipe_run (link_put own_lib demo_keys) (link_get own_lib (\<lambda>_. (1, [])))
      [PPut [10, 20, 30], PGet 2, PGet 2] demo_link = (ins, outs, z)" by (metis prod_cases3)
  from ws_stream_fifo [where m = 0, OF own.ws_frames_axioms demo_link_ok(1) r] demo_link_ok(2)
  have "outs @ link_content own_lib z = [10, 20, 30]" by (auto simp: puts_of_def)
  then show ?thesis by (simp only: r fst_conv snd_conv)
qed

lemma read_one:
  assumes "twPending c = []" "wlReadHeader L (tw_stream c) = (Inr h, r)"
    "tw_handleFrame L (fst (env (tw_stream c))) (snd (env (tw_stream c))) h r c = (Inl e, c1)"
  shows "tw_Read L env n c = Some (Inl e, c1)"
  using assms by (subst tw_Read.simps) simp

lemma write_closed: "twClosed c \<Longrightarrow> p \<noteq> [] \<Longrightarrow> tw_Write L keys p c = ((0, Some ErrClosed), c)"
  unfolding tw_Write_def by (subst tw_write_from.simps) (simp add: raw_write_def)



end
