(* ===== verification/TransportListen.thy ===== *)
theory TransportListen
  imports WsTransport "HOL-Library.Multiset" "HOL-Library.Sublist"
begin

text \<open>
  The facade listeners of the websocket, HTTP/2, KCP and QUIC transports
  (\<^verbatim>\<open>internal/transport/*/*.go\<close>): each hands the logical connections that its server goroutines
  produce to \<^verbatim>\<open>Accept\<close> through a channel, and is closed by closing the channel \<^verbatim>\<open>done\<close>. The model is
  a step function for each transport over one state; a step is what a goroutine does between
  two points where another can run. Go's runtime errors are states of the model: after \<open>lnPanic\<close> no
  step is possible.
\<close>

section \<open>State\<close>

text \<open>Where a goroutine that closes the listener stands; the middle ones are inside \<^verbatim>\<open>once.Do\<close>.\<close>

datatype closer = ClStart | ClOnceIn | ClOnceChecked | ClOnceRaw | ClIdle | ClChecked | ClFinished

datatype once_state = OnceNew | OnceBusy | OnceDone

text \<open>
  \<open>lnWaiting\<close> are the connections whose goroutine is in the \<^verbatim>\<open>select\<close> that sends on the channel, \<open>lnQueue\<close>
  the buffer of the channel. \<open>lnOffered\<close>, \<open>lnTaken\<close> and \<open>lnClosedConns\<close> record what was sent to that
  \<^verbatim>\<open>select\<close>, what \<^verbatim>\<open>Accept\<close> returned, and what was closed because the listener was. \<open>lnBelow\<close> says that
  the listener underneath has been closed.
\<close>

record Ln =
  lnCap :: nat
  lnWaiting :: "nat list"
  lnQueue :: "nat list"
  lnDone :: bool
  lnOffered :: "nat list"
  lnTaken :: "nat list"
  lnClosedConns :: "nat list"
  lnOnce :: once_state
  lnClosers :: "closer list"
  lnBelow :: bool
  lnPanic :: bool

definition new_ln :: "nat \<Rightarrow> closer list \<Rightarrow> Ln" where
  "new_ln cap closers = \<lparr>lnCap = cap, lnWaiting = [], lnQueue = [], lnDone = False, lnOffered = [], lnTaken = [],
     lnClosedConns = [], lnOnce = OnceNew, lnClosers = closers, lnBelow = False, lnPanic = False\<rparr>"

section \<open>The channel\<close>

definition chan_offer :: "nat \<Rightarrow> Ln \<Rightarrow> Ln" where
  "chan_offer c l = l\<lparr>lnWaiting := lnWaiting l @ [c], lnOffered := lnOffered l @ [c]\<rparr>"

definition chan_send :: "nat \<Rightarrow> Ln \<Rightarrow> Ln option" where
  "chan_send c l =
     (if c \<in> set (lnWaiting l) \<and> length (lnQueue l) < lnCap l
      then Some (l\<lparr>lnWaiting := remove1 c (lnWaiting l), lnQueue := lnQueue l @ [c]\<rparr>) else None)"

text \<open>\<^verbatim>\<open>Accept\<close> by the branch that its \<^verbatim>\<open>select\<close> takes: a connection, or the listener is closed.\<close>

definition chan_Accept :: "nat option \<Rightarrow> Ln \<Rightarrow> ((ioerr + nat) \<times> Ln) option" where
  "chan_Accept choice l =
     (case choice of
        None \<Rightarrow> if lnDone l then Some (Inl ErrClosed, l) else None
      | Some c \<Rightarrow>
          if lnCap l = 0 then
            (if c \<in> set (lnWaiting l)
             then Some (Inr c, l\<lparr>lnWaiting := remove1 c (lnWaiting l), lnTaken := lnTaken l @ [c]\<rparr>) else None)
          else (case lnQueue l of
              [] \<Rightarrow> None
            | d # q \<Rightarrow> if d = c then Some (Inr c, l\<lparr>lnQueue := q, lnTaken := lnTaken l @ [c]\<rparr>) else None))"

definition chan_refuse :: "nat \<Rightarrow> Ln \<Rightarrow> Ln option" where
  "chan_refuse c l =
     (if c \<in> set (lnWaiting l) \<and> lnDone l
      then Some (l\<lparr>lnWaiting := remove1 c (lnWaiting l), lnClosedConns := lnClosedConns l @ [c]\<rparr>) else None)"

datatype 'r ln_event = EvRequest 'r nat | EvSend nat | EvAccept "nat option" | EvRefuse nat | EvCloser nat

section \<open>Closing\<close>

definition set_pc :: "nat \<Rightarrow> closer \<Rightarrow> Ln \<Rightarrow> Ln" where
  "set_pc i p l = l\<lparr>lnClosers := (lnClosers l)[i := p]\<rparr>"

text \<open>
  The \<^verbatim>\<open>Close\<close> of the websocket and the HTTP/2 listener looks whether \<^verbatim>\<open>done\<close> is closed, and closes it in
  the \<^verbatim>\<open>default\<close> branch: two steps. Closing a closed channel panics.
\<close>

definition close_select :: "nat \<Rightarrow> closer \<Rightarrow> closer \<Rightarrow> Ln \<Rightarrow> Ln" where
  "close_select i checked after l = (if lnDone l then set_pc i after l else set_pc i checked l)"

definition close_chan :: "nat \<Rightarrow> closer \<Rightarrow> Ln \<Rightarrow> Ln" where
  "close_chan i after l = (if lnDone l then l\<lparr>lnPanic := True\<rparr> else set_pc i after (l\<lparr>lnDone := True\<rparr>))"

text \<open>A goroutine in \<^verbatim>\<open>ln.Close\<close> proper, as the watcher of the context and the end of \<^verbatim>\<open>guard.Close\<close> are.\<close>

definition select_Close :: "nat \<Rightarrow> Ln \<Rightarrow> Ln option" where
  "select_Close i l =
     (if i < length (lnClosers l) then
        (case lnClosers l ! i of
           ClIdle \<Rightarrow> Some (close_select i ClChecked ClFinished l)
         | ClChecked \<Rightarrow> Some (close_chan i ClFinished l)
         | _ \<Rightarrow> None)
      else None)"

section \<open>Websocket\<close>

text \<open>
  A request with its path and whether the upgrade succeeds; another path is answered with 404.
  Goroutine 0 is the watcher of the context, which closes only the facade.
\<close>

definition ws_request :: "string \<Rightarrow> string \<times> bool \<Rightarrow> nat \<Rightarrow> Ln \<Rightarrow> Ln" where
  "ws_request path = (\<lambda>(p, upgraded) c l.
     if p \<noteq> handshakePath path then l else if \<not> upgraded then l else chan_offer c l)"

definition ws_guard_Close :: "nat \<Rightarrow> Ln \<Rightarrow> Ln option" where
  "ws_guard_Close i l =
     (if i < length (lnClosers l) \<and> lnClosers l ! i = ClStart
      then Some (set_pc i ClIdle (if lnOnce l = OnceNew then l\<lparr>lnOnce := OnceDone, lnBelow := True\<rparr> else l))
      else select_Close i l)"

definition ws_ln_step :: "string \<Rightarrow> (string \<times> bool) ln_event \<Rightarrow> Ln \<Rightarrow> Ln option" where
  "ws_ln_step path e l =
     (if lnPanic l then None
      else case e of
        EvRequest r c \<Rightarrow> Some (ws_request path r c l)
      | EvSend c \<Rightarrow> chan_send c l
      | EvAccept choice \<Rightarrow> map_option snd (chan_Accept choice l)
      | EvRefuse c \<Rightarrow> chan_refuse c l
      | EvCloser i \<Rightarrow> ws_guard_Close i l)"

definition ws_Listen :: "nat \<Rightarrow> Ln" where
  "ws_Listen guards = new_ln 0 (ClIdle # replicate guards ClStart)"

section \<open>HTTP/2\<close>

text \<open>
  Here \<^verbatim>\<open>onClose\<close> closes the facade too, and the accept loop (goroutine 1) closes it when
  the listener underneath fails.
\<close>

definition h2_request :: "string \<Rightarrow> string \<Rightarrow> nat \<Rightarrow> Ln \<Rightarrow> Ln" where
  "h2_request path p c l = (if p \<noteq> path then l else chan_offer c l)"

definition h2_guard_Close :: "nat \<Rightarrow> Ln \<Rightarrow> Ln option" where
  "h2_guard_Close i l =
     (if i < length (lnClosers l) then
        (case lnClosers l ! i of
           ClStart \<Rightarrow>
             (case lnOnce l of
                OnceNew \<Rightarrow> Some (set_pc i ClOnceIn (l\<lparr>lnOnce := OnceBusy\<rparr>))
              | OnceBusy \<Rightarrow> None
              | OnceDone \<Rightarrow> Some (set_pc i ClIdle l))
         | ClOnceIn \<Rightarrow> Some (close_select i ClOnceChecked ClOnceRaw l)
         | ClOnceChecked \<Rightarrow> Some (close_chan i ClOnceRaw l)
         | ClOnceRaw \<Rightarrow> Some (set_pc i ClIdle (l\<lparr>lnOnce := OnceDone, lnBelow := True\<rparr>))
         | _ \<Rightarrow> select_Close i l)
      else None)"

definition h2_ln_step :: "string \<Rightarrow> string ln_event \<Rightarrow> Ln \<Rightarrow> Ln option" where
  "h2_ln_step path e l =
     (if lnPanic l then None
      else case e of
        EvRequest p c \<Rightarrow> Some (h2_request path p c l)
      | EvSend c \<Rightarrow> chan_send c l
      | EvAccept choice \<Rightarrow> map_option snd (chan_Accept choice l)
      | EvRefuse c \<Rightarrow> chan_refuse c l
      | EvCloser i \<Rightarrow> h2_guard_Close i l)"

definition h2_Listen :: "nat \<Rightarrow> Ln" where
  "h2_Listen guards = new_ln 0 (ClIdle # ClIdle # replicate guards ClStart)"

section \<open>KCP and QUIC\<close>

text \<open>
  \<^verbatim>\<open>Close\<close> runs under \<^verbatim>\<open>sync.Once\<close>; the KCP listener closes the one underneath outside of it, at every
  call. The request is a stream of a session whose set-up may have failed (KCP only).
\<close>

definition kcp_Close :: "nat \<Rightarrow> Ln \<Rightarrow> Ln option" where
  "kcp_Close i l =
     (if i < length (lnClosers l) \<and> lnClosers l ! i = ClIdle
      then Some (set_pc i ClFinished (l\<lparr>lnDone := True, lnOnce := OnceDone, lnBelow := True\<rparr>)) else None)"

definition quic_Close :: "nat \<Rightarrow> Ln \<Rightarrow> Ln option" where
  "quic_Close i l =
     (if i < length (lnClosers l) \<and> lnClosers l ! i = ClIdle
      then Some (set_pc i ClFinished
             (if lnOnce l = OnceNew then l\<lparr>lnDone := True, lnOnce := OnceDone, lnBelow := True\<rparr> else l)) else None)"

definition kcp_ln_step :: "bool ln_event \<Rightarrow> Ln \<Rightarrow> Ln option" where
  "kcp_ln_step e l =
     (if lnPanic l then None
      else case e of
        EvRequest smux_ok c \<Rightarrow> Some (if smux_ok then chan_offer c l else l)
      | EvSend c \<Rightarrow> chan_send c l
      | EvAccept choice \<Rightarrow> map_option snd (chan_Accept choice l)
      | EvRefuse c \<Rightarrow> chan_refuse c l
      | EvCloser i \<Rightarrow> kcp_Close i l)"

definition kcp_Listen :: "nat \<Rightarrow> Ln" where
  "kcp_Listen callers = new_ln 16 (replicate (2 + callers) ClIdle)"

definition quic_ln_step :: "unit ln_event \<Rightarrow> Ln \<Rightarrow> Ln option" where
  "quic_ln_step e l =
     (if lnPanic l then None
      else case e of
        EvRequest _ c \<Rightarrow> Some (chan_offer c l)
      | EvSend c \<Rightarrow> chan_send c l
      | EvAccept choice \<Rightarrow> map_option snd (chan_Accept choice l)
      | EvRefuse c \<Rightarrow> chan_refuse c l
      | EvCloser i \<Rightarrow> quic_Close i l)"

definition quic_Listen :: "nat \<Rightarrow> Ln" where
  "quic_Listen callers = new_ln 0 (replicate (2 + callers) ClIdle)"

section \<open>The contract\<close>

text \<open>
  Every connection that was offered is in exactly one place, the buffer is within its
  capacity, connections are closed only by a closed listener, and a \<^verbatim>\<open>Close\<close> that has
  returned has closed it.
\<close>

definition ln_ok :: "Ln \<Rightarrow> bool" where
  "ln_ok l \<longleftrightarrow> mset (lnOffered l) = mset (lnTaken l) + mset (lnClosedConns l) + mset (lnWaiting l) + mset (lnQueue l)
     \<and> length (lnQueue l) \<le> lnCap l \<and> (lnClosedConns l \<noteq> [] \<longrightarrow> lnDone l) \<and> (ClFinished \<in> set (lnClosers l) \<longrightarrow> lnDone l)"

text \<open>What a step may change: connections are only added to the records, and a closed listener stays closed.\<close>

definition ln_grows :: "Ln \<Rightarrow> Ln \<Rightarrow> bool" where
  "ln_grows l l' \<longleftrightarrow> lnCap l' = lnCap l \<and> (lnDone l \<longrightarrow> lnDone l')
     \<and> prefix (lnOffered l) (lnOffered l') \<and> prefix (lnTaken l) (lnTaken l') \<and> prefix (lnClosedConns l) (lnClosedConns l')"

definition once_inv :: "Ln \<Rightarrow> bool" where
  "once_inv l \<longleftrightarrow> \<not> lnPanic l \<and> (lnOnce l \<noteq> OnceNew \<longrightarrow> lnDone l \<and> lnBelow l) \<and> (lnDone l \<longrightarrow> lnOnce l \<noteq> OnceNew)"

inductive ln_run :: "('e \<Rightarrow> Ln \<Rightarrow> Ln option) \<Rightarrow> Ln \<Rightarrow> Ln \<Rightarrow> bool" for step l0 where
  ln_start: "ln_run step l0 l0"
| ln_next: "ln_run step l0 l \<Longrightarrow> step e l = Some l' \<Longrightarrow> ln_run step l0 l'"

fun ln_exec :: "('e \<Rightarrow> Ln \<Rightarrow> Ln option) \<Rightarrow> 'e list \<Rightarrow> Ln \<Rightarrow> Ln option" where
  "ln_exec step [] l = Some l"
| "ln_exec step (e # es) l = (case step e l of None \<Rightarrow> None | Some l' \<Rightarrow> ln_exec step es l')"

lemma ln_exec_run: "ln_run step l0 l \<Longrightarrow> ln_exec step es l = Some l' \<Longrightarrow> ln_run step l0 l'"
  by (induction es arbitrary: l) (auto split: option.splits intro: ln_next)

locale listener =
  fixes step :: "'e \<Rightarrow> Ln \<Rightarrow> Ln option" and inv :: "Ln \<Rightarrow> bool"
  assumes step_ok: "ln_ok l \<Longrightarrow> inv l \<Longrightarrow> step e l = Some l' \<Longrightarrow> ln_ok l' \<and> inv l'"
    and step_grows: "step e l = Some l' \<Longrightarrow> ln_grows l l'"
begin

lemma run_ok: "ln_run step l0 l \<Longrightarrow> ln_ok l0 \<Longrightarrow> inv l0 \<Longrightarrow> ln_ok l \<and> inv l"
  by (induction rule: ln_run.induct) (auto dest: step_ok)

lemma run_grows: "ln_run step l0 l \<Longrightarrow> ln_grows l0 l"
proof (induction rule: ln_run.induct)
  case (ln_next l e l')
  with step_grows [of e l l'] show ?case by (auto simp: ln_grows_def intro: prefix_order.trans)
qed (simp add: ln_grows_def)

end

locale once_listener = listener +
  assumes inv_no_panic: "inv l \<Longrightarrow> \<not> lnPanic l"
    and inv_below: "inv l \<Longrightarrow> lnDone l \<Longrightarrow> lnBelow l"
begin

lemma run_safe:
  assumes "ln_run step l0 l" "ln_ok l0" "inv l0"
  shows "\<not> lnPanic l \<and> (ClFinished \<in> set (lnClosers l) \<longrightarrow> lnDone l \<and> lnBelow l)"
  using run_ok [OF assms] inv_no_panic inv_below by (auto simp: ln_ok_def)

end

section \<open>The transports keep the contract\<close>

lemma new_ln_ok: "ClFinished \<notin> set closers \<Longrightarrow> ln_ok (new_ln cap closers) \<and> once_inv (new_ln cap closers)"
  by (simp add: ln_ok_def new_ln_def once_inv_def)

lemma chan_offer_ok: "ln_ok l \<Longrightarrow> ln_ok (chan_offer c l)" "ln_grows l (chan_offer c l)"
  by (auto simp: ln_ok_def chan_offer_def ln_grows_def)

lemma chan_send_ok: "chan_send c l = Some l' \<Longrightarrow> (ln_ok l \<longrightarrow> ln_ok l') \<and> ln_grows l l'"
  by (auto simp: ln_ok_def chan_send_def ln_grows_def split: if_splits)

lemma chan_Accept_ok: "chan_Accept choice l = Some (r, l') \<Longrightarrow> (ln_ok l \<longrightarrow> ln_ok l') \<and> ln_grows l l'"
  by (auto simp: ln_ok_def chan_Accept_def ln_grows_def split: option.splits if_splits list.splits)

lemma chan_refuse_ok: "chan_refuse c l = Some l' \<Longrightarrow> (ln_ok l \<longrightarrow> ln_ok l') \<and> ln_grows l l'"
  by (auto simp: ln_ok_def chan_refuse_def ln_grows_def split: if_splits)

lemma chan_frame:
  "once_inv (chan_offer c l) = once_inv l"
  "chan_send c l = Some l' \<Longrightarrow> once_inv l' = once_inv l"
  "chan_Accept choice l = Some (r, l') \<Longrightarrow> once_inv l' = once_inv l"
  "chan_refuse c l = Some l' \<Longrightarrow> once_inv l' = once_inv l"
  by (auto simp: once_inv_def chan_offer_def chan_send_def chan_Accept_def chan_refuse_def
      split: if_splits option.splits list.splits)

lemmas chan_ok = chan_send_ok chan_Accept_ok chan_refuse_ok

text \<open>Moving a goroutine on, without or with the listener being closed.\<close>

lemma set_pc_ok: "ln_ok l \<Longrightarrow> p \<noteq> ClFinished \<or> lnDone l \<Longrightarrow> ln_ok (set_pc i p l)"
  using set_update_subset_insert [of "lnClosers l" i p] by (auto simp: ln_ok_def set_pc_def)

lemma set_pc_grows [simp]: "ln_grows l (set_pc i p l') = ln_grows l l'"
  by (simp add: ln_grows_def set_pc_def)

lemma set_pc_inv [simp]: "once_inv (set_pc i p l) = once_inv l"
  by (simp add: once_inv_def set_pc_def)

lemma ln_ok_upd:
  "ln_ok l \<Longrightarrow> ln_ok (l\<lparr>lnDone := True\<rparr>)" "ln_ok (l\<lparr>lnPanic := b\<rparr>) = ln_ok l" "ln_ok (l\<lparr>lnOnce := x\<rparr>) = ln_ok l"
  "ln_ok (l\<lparr>lnBelow := b\<rparr>) = ln_ok l" "ln_grows l l"
  "ln_grows l (l\<lparr>lnDone := True\<rparr>)" "ln_grows l (l'\<lparr>lnPanic := b\<rparr>) = ln_grows l l'" "ln_grows l (l'\<lparr>lnOnce := x\<rparr>) = ln_grows l l'"
  "ln_grows l (l'\<lparr>lnBelow := b\<rparr>) = ln_grows l l'"
  by (auto simp: ln_ok_def ln_grows_def)

lemma close_select_ok: "ln_ok l \<Longrightarrow> checked \<noteq> ClFinished \<Longrightarrow> ln_ok (close_select i checked after l)" "ln_grows l (close_select i checked after l)"
  by (auto simp: close_select_def set_pc_ok ln_ok_upd)

lemma close_chan_ok: "ln_ok l \<Longrightarrow> ln_ok (close_chan i after l)" "ln_grows l (close_chan i after l)"
  by (auto simp: close_chan_def ln_ok_upd intro!: set_pc_ok)

lemma select_Close_ok: "select_Close i l = Some l' \<Longrightarrow> (ln_ok l \<longrightarrow> ln_ok l') \<and> ln_grows l l'"
  by (auto simp: select_Close_def close_select_ok close_chan_ok split: if_splits closer.splits)

interpretation ws_ln: listener "ws_ln_step path" "\<lambda>_. True" for path
proof unfold_locales
  have "(ln_ok l \<longrightarrow> ln_ok l') \<and> ln_grows l l'" if "ws_ln_step path e l = Some l'" for e l l'
    using that
    by (auto simp: ws_ln_step_def ws_request_def ws_guard_Close_def ln_ok_upd
        dest: chan_ok select_Close_ok intro: chan_offer_ok set_pc_ok split: if_splits ln_event.splits)
  then show "ln_ok l \<Longrightarrow> True \<Longrightarrow> ws_ln_step path e l = Some l' \<Longrightarrow> ln_ok l' \<and> True"
    and "ws_ln_step path e l = Some l' \<Longrightarrow> ln_grows l l'" for l e l' by auto
qed

interpretation h2_ln: listener "h2_ln_step path" "\<lambda>_. True" for path
proof unfold_locales
  have "(ln_ok l \<longrightarrow> ln_ok l') \<and> ln_grows l l'" if "h2_ln_step path e l = Some l'" for e l l'
    using that
    by (auto simp: h2_ln_step_def h2_request_def h2_guard_Close_def ln_ok_upd close_select_ok close_chan_ok
        dest: chan_ok select_Close_ok intro: chan_offer_ok set_pc_ok split: if_splits ln_event.splits closer.splits once_state.splits)
  then show "ln_ok l \<Longrightarrow> True \<Longrightarrow> h2_ln_step path e l = Some l' \<Longrightarrow> ln_ok l' \<and> True"
    and "h2_ln_step path e l = Some l' \<Longrightarrow> ln_grows l l'" for l e l' by auto
qed

lemma kcp_Close_ok: "kcp_Close i l = Some l' \<Longrightarrow> (ln_ok l \<longrightarrow> ln_ok l') \<and> ln_grows l l' \<and> (once_inv l \<longrightarrow> once_inv l')"
  by (auto simp: kcp_Close_def ln_ok_upd once_inv_def ln_ok_def ln_grows_def set_pc_def split: if_splits)

lemma quic_Close_ok: "quic_Close i l = Some l' \<Longrightarrow> (ln_ok l \<and> once_inv l \<longrightarrow> ln_ok l') \<and> ln_grows l l' \<and> (once_inv l \<longrightarrow> once_inv l')"
  by (auto simp: quic_Close_def ln_ok_upd intro!: set_pc_ok split: if_splits) (auto simp: once_inv_def)

interpretation kcp_ln: once_listener kcp_ln_step once_inv
proof unfold_locales
  have "(ln_ok l \<longrightarrow> ln_ok l') \<and> ln_grows l l' \<and> (once_inv l \<longrightarrow> once_inv l')" if "kcp_ln_step e l = Some l'" for e l l'
    using that
    by (auto simp: kcp_ln_step_def ln_ok_upd chan_frame(1) dest: chan_ok chan_frame(2-) kcp_Close_ok
        intro: chan_offer_ok split: if_splits ln_event.splits)
  then show "ln_ok l \<Longrightarrow> once_inv l \<Longrightarrow> kcp_ln_step e l = Some l' \<Longrightarrow> ln_ok l' \<and> once_inv l'"
    and "kcp_ln_step e l = Some l' \<Longrightarrow> ln_grows l l'" for l e l' by auto
qed (auto simp: once_inv_def)

interpretation quic_ln: once_listener quic_ln_step once_inv
proof unfold_locales
  have "(ln_ok l \<and> once_inv l \<longrightarrow> ln_ok l') \<and> ln_grows l l' \<and> (once_inv l \<longrightarrow> once_inv l')" if "quic_ln_step e l = Some l'" for e l l'
    using that
    by (auto simp: quic_ln_step_def ln_ok_upd chan_frame(1) dest: chan_ok chan_frame(2-) quic_Close_ok
        intro: chan_offer_ok split: if_splits ln_event.splits)
  then show "ln_ok l \<Longrightarrow> once_inv l \<Longrightarrow> quic_ln_step e l = Some l' \<Longrightarrow> ln_ok l' \<and> once_inv l'"
    and "quic_ln_step e l = Some l' \<Longrightarrow> ln_grows l l'" for l e l' by auto
qed (auto simp: once_inv_def)

section \<open>Theorems\<close>

definition listener_reaches :: "Ln \<Rightarrow> bool" where
  "listener_reaches l \<longleftrightarrow> (\<exists>path n. ln_run (ws_ln_step path) (ws_Listen n) l) \<or> (\<exists>path n. ln_run (h2_ln_step path) (h2_Listen n) l)
     \<or> (\<exists>n. ln_run kcp_ln_step (kcp_Listen n) l) \<or> (\<exists>n. ln_run quic_ln_step (quic_Listen n) l)"

lemma listens_ok:
  "ln_ok (ws_Listen n)" "ln_ok (h2_Listen n)" "ln_ok (kcp_Listen n)" "once_inv (kcp_Listen n)" "ln_ok (quic_Listen n)" "once_inv (quic_Listen n)"
  using new_ln_ok by (auto simp: ws_Listen_def h2_Listen_def kcp_Listen_def quic_Listen_def)

lemma reaches_ok: "listener_reaches l \<Longrightarrow> ln_ok l"
  by (auto simp: listener_reaches_def listens_ok dest: ws_ln.run_ok h2_ln.run_ok kcp_ln.run_ok quic_ln.run_ok)



text \<open>
  The KCP and QUIC listeners can be closed by any number of goroutines. In every run
  no goroutine panics, and when a \<^verbatim>\<open>Close\<close> has returned the listener and the one below it are
  closed.
\<close>

theorem once_listeners_safe:
  assumes "ln_run kcp_ln_step (kcp_Listen n) l \<or> ln_run quic_ln_step (quic_Listen n) l"
  shows "\<not> lnPanic l \<and> (ClFinished \<in> set (lnClosers l) \<longrightarrow> lnDone l \<and> lnBelow l)"
  using assms kcp_ln.run_safe [OF _ listens_ok(3,4)] quic_ln.run_safe [OF _ listens_ok(5,6)] by blast

theorem once_listeners_safe_witness:
  "case ln_exec quic_ln_step [EvCloser 1, EvCloser 0] (quic_Listen 0) of None \<Rightarrow> False | Some l \<Rightarrow> \<not> lnPanic l \<and> lnDone l \<and> lnBelow l"
proof -
  obtain l where l: "ln_exec quic_ln_step [EvCloser 1, EvCloser 0] (quic_Listen 0) = Some l" and v: "ClFinished \<in> set (lnClosers l)"
    by (simp add: quic_ln_step_def quic_Listen_def new_ln_def quic_Close_def set_pc_def numeral_eq_Suc)
  with once_listeners_safe [of 0 l] ln_exec_run [OF ln_start l] show ?thesis by simp
qed

text \<open>
  The websocket and HTTP/2 listeners decide and close in two steps. The watcher of the context
  and a caller of \<^verbatim>\<open>Close\<close> can both find \<^verbatim>\<open>done\<close> open, and the second to close it panics.
\<close>

lemma ws_close_race: "\<exists>l. ln_run (ws_ln_step path) (ws_Listen 1) l \<and> lnPanic l"
proof -
  have "\<exists>l. ln_exec (ws_ln_step path) [EvCloser 1, EvCloser 0, EvCloser 1, EvCloser 0, EvCloser 1] (ws_Listen 1) = Some l \<and> lnPanic l"
    by (simp add: ws_ln_step_def ws_Listen_def new_ln_def ws_guard_Close_def select_Close_def close_select_def close_chan_def set_pc_def)
  then show ?thesis using ln_exec_run [OF ln_start] by blast
qed

lemma h2_close_race: "\<exists>l. ln_run (h2_ln_step path) (h2_Listen 0) l \<and> lnPanic l"
proof -
  have "\<exists>l. ln_exec (h2_ln_step path) [EvCloser 0, EvCloser 1, EvCloser 0, EvCloser 1] (h2_Listen 0) = Some l \<and> lnPanic l"
    by (simp add: h2_ln_step_def h2_Listen_def new_ln_def h2_guard_Close_def select_Close_def close_select_def close_chan_def set_pc_def)
  then show ?thesis using ln_exec_run [OF ln_start] by blast
qed

text \<open>
  Cancelling the context closes the facade only: the HTTP server and the socket of the websocket and
  HTTP/2 transports stay open, and a connection that arrives later is upgraded and then closed.
\<close>

lemma ws_cancel_keeps_server:
  "\<exists>l. ln_exec (ws_ln_step ''/'') [EvCloser 0, EvCloser 0, EvRequest (''/'', True) 7, EvRefuse 7] (ws_Listen 1) = Some l
     \<and> lnDone l \<and> \<not> lnBelow l \<and> lnClosedConns l = [7]"
  by (simp add: ws_ln_step_def ws_Listen_def new_ln_def ws_guard_Close_def select_Close_def close_select_def close_chan_def
      set_pc_def ws_request_def handshakePath_def chan_offer_def chan_refuse_def)

text \<open>Closing the KCP listener leaves connections in the buffer that nobody closes.\<close>

lemma kcp_close_strands:
  "\<exists>l. ln_exec kcp_ln_step [EvRequest True 4, EvSend 4, EvCloser 0, EvAccept None] (kcp_Listen 0) = Some l
     \<and> lnDone l \<and> lnQueue l = [4] \<and> lnClosedConns l = []"
  by (simp add: kcp_ln_step_def kcp_Listen_def new_ln_def chan_offer_def chan_send_def kcp_Close_def chan_Accept_def set_pc_def numeral_eq_Suc)

end
