(* ===== verification/SessionPool.thy ===== *)
theory SessionPool
  imports Prelude
begin

text \<open>
  The session pools of the KCP and QUIC transports (\<^verbatim>\<open>internal/transport/kcp/kcp.go\<close> and
  \<^verbatim>\<open>internal/transport/quic/quic.go\<close>): \<^verbatim>\<open>Dial\<close>, \<^verbatim>\<open>getPooled\<close> and \<^verbatim>\<open>drop\<close>, run by any number of
  goroutines. A step is what a goroutine does between two operations on the mutex or on a shared
  object; \<^verbatim>\<open>Lock\<close> is possible only while the mutex is free, and \<^verbatim>\<open>Unlock\<close> of a free mutex is
  fatal to the process, as in Go. The network is a choice \<open>ok\<close> at the steps that dial or open a stream.
\<close>

section \<open>State\<close>

text \<open>
  Sessions are numbered in the order they are dialled. \<open>plBad\<close> marks those whose state says closed
  (\<^verbatim>\<open>IsClosed\<close> of a session, the channel \<^verbatim>\<open>done\<close> of a pool entry), \<open>plDead\<close> those that can open no stream any more.
\<close>

record 'pc Pool =
  plLocked :: bool
  plMap :: "string \<rightharpoonup> nat"
  plBad :: "nat \<Rightarrow> bool"
  plDead :: "nat \<Rightarrow> bool"
  plNext :: nat
  plThreads :: "'pc list"
  plFatal :: bool

definition new_pool :: "'pc list \<Rightarrow> 'pc Pool" where
  "new_pool ts = \<lparr>plLocked = False, plMap = Map.empty, plBad = (\<lambda>_. False), plDead = (\<lambda>_. False), plNext = 0,
     plThreads = ts, plFatal = False\<rparr>"

definition goto_pc :: "nat \<Rightarrow> 'pc \<Rightarrow> 'pc Pool \<Rightarrow> 'pc Pool" where
  "goto_pc i pc p = p\<lparr>plThreads := (plThreads p)[i := pc]\<rparr>"

definition mu_Lock :: "nat \<Rightarrow> 'pc \<Rightarrow> 'pc Pool \<Rightarrow> 'pc Pool option" where
  "mu_Lock i pc p = (if plLocked p then None else Some (goto_pc i pc (p\<lparr>plLocked := True\<rparr>)))"

definition mu_Unlock :: "nat \<Rightarrow> 'pc \<Rightarrow> 'pc Pool \<Rightarrow> 'pc Pool" where
  "mu_Unlock i pc p = (if plLocked p then goto_pc i pc (p\<lparr>plLocked := False\<rparr>) else p\<lparr>plFatal := True\<rparr>)"

definition dial_new :: "nat \<Rightarrow> (nat \<Rightarrow> 'pc) \<Rightarrow> 'pc Pool \<Rightarrow> 'pc Pool" where
  "dial_new i pc p = goto_pc i (pc (plNext p)) (p\<lparr>plNext := Suc (plNext p)\<rparr>)"

definition mark_bad :: "nat \<Rightarrow> 'pc Pool \<Rightarrow> 'pc Pool" where
  "mark_bad s p = p\<lparr>plBad := (plBad p)(s := True), plDead := (plDead p)(s := True)\<rparr>"

datatype pool_event = PStep nat bool | PDie nat

section \<open>KCP\<close>

text \<open>
  The program counter of a goroutine in \<^verbatim>\<open>Dial\<close>: \<open>KDrop\<close> and \<open>KDropping\<close> are the call of \<^verbatim>\<open>drop\<close> in
  \<^verbatim>\<open>getPooled\<close>, \<open>KDropOpen\<close> and \<open>KDroppingOpen\<close> the one in \<^verbatim>\<open>Dial\<close>.
\<close>

datatype kpc =
    KStart string | KLooked string | KFound string nat | KDrop string nat | KDropping string nat | KUnlock string
  | KDial string | KDialled string nat | KInsert string nat | KSpare string nat nat
  | KOpen string nat | KDropOpen string nat | KDroppingOpen string nat | KDone string "nat option"

definition kcp_drop :: "string \<Rightarrow> nat \<Rightarrow> 'pc Pool \<Rightarrow> 'pc Pool" where
  "kcp_drop addr s p = mark_bad s (if plMap p addr = Some s then p\<lparr>plMap := (plMap p)(addr := None)\<rparr> else p)"

fun kcp_getPooled :: "nat \<Rightarrow> bool \<Rightarrow> kpc \<Rightarrow> kpc Pool \<Rightarrow> kpc Pool option" where
  "kcp_getPooled i ok (KStart a) p = mu_Lock i (KLooked a) p"
| "kcp_getPooled i ok (KLooked a) p =
     Some (case plMap p a of Some s \<Rightarrow> mu_Unlock i (KFound a s) p | None \<Rightarrow> goto_pc i (KUnlock a) p)"
| "kcp_getPooled i ok (KFound a s) p = Some (goto_pc i (if \<not> plBad p s then KOpen a s else KDrop a s) p)"
| "kcp_getPooled i ok (KDrop a s) p = mu_Lock i (KDropping a s) p"
| "kcp_getPooled i ok (KDropping a s) p = Some (mu_Unlock i (KUnlock a) (kcp_drop a s p))"
| "kcp_getPooled i ok (KUnlock a) p = Some (mu_Unlock i (KDial a) p)"
| "kcp_getPooled i ok (KDial a) p = Some (if ok then dial_new i (KDialled a) p else goto_pc i (KDone a None) p)"
| "kcp_getPooled i ok (KDialled a s) p = mu_Lock i (KInsert a s) p"
| "kcp_getPooled i ok (KInsert a s) p =
     Some (case plMap p a of
             Some e \<Rightarrow> if \<not> plBad p e then mu_Unlock i (KSpare a s e) p
                       else mu_Unlock i (KOpen a s) (p\<lparr>plMap := (plMap p)(a \<mapsto> s)\<rparr>)
           | None \<Rightarrow> mu_Unlock i (KOpen a s) (p\<lparr>plMap := (plMap p)(a \<mapsto> s)\<rparr>))"
| "kcp_getPooled i ok (KSpare a s e) p = Some (goto_pc i (KOpen a e) (mark_bad s p))"
| "kcp_getPooled i ok pc p = None"

fun kcp_Dial :: "nat \<Rightarrow> bool \<Rightarrow> kpc \<Rightarrow> kpc Pool \<Rightarrow> kpc Pool option" where
  "kcp_Dial i ok (KOpen a s) p =
     Some (goto_pc i (if ok \<and> \<not> plDead p s then KDone a (Some s) else KDropOpen a s) p)"
| "kcp_Dial i ok (KDropOpen a s) p = mu_Lock i (KDroppingOpen a s) p"
| "kcp_Dial i ok (KDroppingOpen a s) p = Some (mu_Unlock i (KDone a None) (kcp_drop a s p))"
| "kcp_Dial i ok pc p = kcp_getPooled i ok pc p"

fun kcp_pool_step :: "pool_event \<Rightarrow> kpc Pool \<Rightarrow> kpc Pool option" where
  "kcp_pool_step (PStep i ok) p =
     (if plFatal p \<or> length (plThreads p) \<le> i then None else kcp_Dial i ok (plThreads p ! i) p)"
| "kcp_pool_step (PDie s) p = (if plFatal p then None else Some (mark_bad s p))"

section \<open>QUIC\<close>

text \<open>
  \<open>QExist a e x\<close> is the goroutine that has dialled \<open>e\<close> and found the entry \<open>x\<close> in the pool. The channel \<^verbatim>\<open>done\<close>
  of an entry is closed by \<^verbatim>\<open>poolEntry.close\<close> only; a connection that dies leaves it open.
\<close>

datatype qpc =
    QStart string | QLooked string | QFound string nat | QUnlock string | QDial string | QDialled string nat
  | QInsert string nat | QExist string nat nat | QRelock string nat | QReinsert string nat
  | QOpen string nat | QDrop string nat | QDropping string nat | QDone string "nat option"

definition quic_drop :: "string \<Rightarrow> nat \<Rightarrow> 'pc Pool \<Rightarrow> 'pc Pool" where
  "quic_drop addr e p = (if plMap p addr = Some e then p\<lparr>plMap := (plMap p)(addr := None)\<rparr> else p)"

fun quic_getPooled :: "nat \<Rightarrow> bool \<Rightarrow> qpc \<Rightarrow> qpc Pool \<Rightarrow> qpc Pool option" where
  "quic_getPooled i ok (QStart a) p = mu_Lock i (QLooked a) p"
| "quic_getPooled i ok (QLooked a) p =
     Some (case plMap p a of Some e \<Rightarrow> mu_Unlock i (QFound a e) p | None \<Rightarrow> goto_pc i (QUnlock a) p)"
| "quic_getPooled i ok (QFound a e) p = Some (goto_pc i (if plBad p e then QUnlock a else QOpen a e) p)"
| "quic_getPooled i ok (QUnlock a) p = Some (mu_Unlock i (QDial a) p)"
| "quic_getPooled i ok (QDial a) p = Some (if ok then dial_new i (QDialled a) p else goto_pc i (QDone a None) p)"
| "quic_getPooled i ok (QDialled a e) p = mu_Lock i (QInsert a e) p"
| "quic_getPooled i ok (QInsert a e) p =
     Some (case plMap p a of
             Some x \<Rightarrow> mu_Unlock i (QExist a e x) p
           | None \<Rightarrow> mu_Unlock i (QOpen a e) (p\<lparr>plMap := (plMap p)(a \<mapsto> e)\<rparr>))"
| "quic_getPooled i ok (QExist a e x) p =
     Some (if plBad p x then goto_pc i (QRelock a e) p else goto_pc i (QOpen a x) (mark_bad e p))"
| "quic_getPooled i ok (QRelock a e) p = mu_Lock i (QReinsert a e) p"
| "quic_getPooled i ok (QReinsert a e) p = Some (mu_Unlock i (QOpen a e) (p\<lparr>plMap := (plMap p)(a \<mapsto> e)\<rparr>))"
| "quic_getPooled i ok pc p = None"

fun quic_Dial :: "nat \<Rightarrow> bool \<Rightarrow> qpc \<Rightarrow> qpc Pool \<Rightarrow> qpc Pool option" where
  "quic_Dial i ok (QOpen a e) p =
     Some (goto_pc i (if ok \<and> \<not> plDead p e then QDone a (Some e) else QDrop a e) p)"
| "quic_Dial i ok (QDrop a e) p = mu_Lock i (QDropping a e) p"
| "quic_Dial i ok (QDropping a e) p = Some (mu_Unlock i (QDone a None) (quic_drop a e p))"
| "quic_Dial i ok pc p = quic_getPooled i ok pc p"

fun quic_pool_step :: "pool_event \<Rightarrow> qpc Pool \<Rightarrow> qpc Pool option" where
  "quic_pool_step (PStep i ok) p =
     (if plFatal p \<or> length (plThreads p) \<le> i then None else quic_Dial i ok (plThreads p ! i) p)"
| "quic_pool_step (PDie s) p = (if plFatal p then None else Some (p\<lparr>plDead := (plDead p)(s := True)\<rparr>))"

section \<open>Runs\<close>

inductive pool_run :: "(pool_event \<Rightarrow> 'pc Pool \<Rightarrow> 'pc Pool option) \<Rightarrow> (pool_event \<Rightarrow> 'pc Pool \<Rightarrow> bool) \<Rightarrow> 'pc Pool \<Rightarrow> 'pc Pool \<Rightarrow> bool"
  for step allowed p0 where
  pool_start: "pool_run step allowed p0 p0"
| pool_next: "pool_run step allowed p0 p \<Longrightarrow> allowed e p \<Longrightarrow> step e p = Some p' \<Longrightarrow> pool_run step allowed p0 p'"

fun pool_exec :: "(pool_event \<Rightarrow> 'pc Pool \<Rightarrow> 'pc Pool option) \<Rightarrow> (pool_event \<Rightarrow> 'pc Pool \<Rightarrow> bool) \<Rightarrow> pool_event list \<Rightarrow> 'pc Pool \<Rightarrow> 'pc Pool option" where
  "pool_exec step allowed [] p = Some p"
| "pool_exec step allowed (e # es) p =
     (if allowed e p then case step e p of None \<Rightarrow> None | Some p' \<Rightarrow> pool_exec step allowed es p' else None)"

lemma pool_exec_run: "pool_run step allowed p0 p \<Longrightarrow> pool_exec step allowed es p = Some p' \<Longrightarrow> pool_run step allowed p0 p'"
  by (induction es arbitrary: p) (auto split: option.splits if_splits intro: pool_next)

text \<open>Runs with anything going wrong, and runs in which no session dies and every stream can be opened.\<close>

definition any_event :: "pool_event \<Rightarrow> 'pc Pool \<Rightarrow> bool" where
  "any_event e p = True"

definition kcp_healthy :: "pool_event \<Rightarrow> kpc Pool \<Rightarrow> bool" where
  "kcp_healthy e p =
     (case e of
        PDie s \<Rightarrow> False
      | PStep i ok \<Rightarrow> ok \<or> (case plThreads p ! i of KOpen a s \<Rightarrow> False | _ \<Rightarrow> True))"

section \<open>The invariant of a pool\<close>

text \<open>
  Three views of a program counter: does the goroutine hold the mutex, the session it
  has dialled and nobody else knows, and the sessions it took from the pool.
\<close>

definition pool_inv :: "('pc \<Rightarrow> bool) \<Rightarrow> ('pc \<Rightarrow> nat option) \<Rightarrow> ('pc \<Rightarrow> nat set) \<Rightarrow> 'pc Pool \<Rightarrow> bool" where
  "pool_inv holds own shared p \<longleftrightarrow> \<not> plFatal p
     \<and> (\<forall>i < length (plThreads p). holds (plThreads p ! i) \<longrightarrow> plLocked p)
     \<and> (\<forall>i < length (plThreads p). \<forall>j < length (plThreads p). holds (plThreads p ! i) \<and> holds (plThreads p ! j) \<longrightarrow> i = j)
     \<and> (\<forall>i < length (plThreads p). \<forall>e. own (plThreads p ! i) = Some e \<longrightarrow>
          e < plNext p \<and> \<not> plBad p e \<and> e \<notin> ran (plMap p)
          \<and> (\<forall>j < length (plThreads p). e \<notin> shared (plThreads p ! j) \<and> (own (plThreads p ! j) = Some e \<longrightarrow> j = i)))
     \<and> (\<forall>e \<ge> plNext p. \<not> plBad p e)
     \<and> (\<forall>e \<in> ran (plMap p). e < plNext p \<and> \<not> plBad p e)
     \<and> (\<forall>i < length (plThreads p). \<forall>e \<in> shared (plThreads p ! i). e < plNext p \<and> \<not> plBad p e)"

lemma pool_invD:
  assumes "pool_inv holds own shared p"
  shows "\<not> plFatal p"
    and "i < length (plThreads p) \<Longrightarrow> holds (plThreads p ! i) \<Longrightarrow> plLocked p"
    and "i < length (plThreads p) \<Longrightarrow> j < length (plThreads p) \<Longrightarrow> holds (plThreads p ! i) \<Longrightarrow> holds (plThreads p ! j) \<Longrightarrow> i = j"
    and "i < length (plThreads p) \<Longrightarrow> own (plThreads p ! i) = Some e \<Longrightarrow> e < plNext p \<and> \<not> plBad p e \<and> e \<notin> ran (plMap p)"
    and "i < length (plThreads p) \<Longrightarrow> j < length (plThreads p) \<Longrightarrow> own (plThreads p ! i) = Some e \<Longrightarrow> e \<notin> shared (plThreads p ! j)"
    and "i < length (plThreads p) \<Longrightarrow> j < length (plThreads p) \<Longrightarrow> own (plThreads p ! i) = Some e \<Longrightarrow> own (plThreads p ! j) = Some e \<Longrightarrow> j = i"
    and "plNext p \<le> e \<Longrightarrow> \<not> plBad p e"
    and "e \<in> ran (plMap p) \<Longrightarrow> e < plNext p \<and> \<not> plBad p e"
    and "i < length (plThreads p) \<Longrightarrow> e \<in> shared (plThreads p ! i) \<Longrightarrow> e < plNext p \<and> \<not> plBad p e"
  using assms unfolding pool_inv_def by blast+

lemma pool_invI:
  assumes "\<not> plFatal p"
    and "\<And>i. i < length (plThreads p) \<Longrightarrow> holds (plThreads p ! i) \<Longrightarrow> plLocked p"
    and "\<And>i j. i < length (plThreads p) \<Longrightarrow> j < length (plThreads p) \<Longrightarrow> holds (plThreads p ! i) \<Longrightarrow> holds (plThreads p ! j) \<Longrightarrow> i = j"
    and "\<And>i e. i < length (plThreads p) \<Longrightarrow> own (plThreads p ! i) = Some e \<Longrightarrow> e < plNext p \<and> \<not> plBad p e \<and> e \<notin> ran (plMap p)"
    and "\<And>i j e. i < length (plThreads p) \<Longrightarrow> j < length (plThreads p) \<Longrightarrow> own (plThreads p ! i) = Some e \<Longrightarrow> e \<notin> shared (plThreads p ! j)"
    and "\<And>i j e. i < length (plThreads p) \<Longrightarrow> j < length (plThreads p) \<Longrightarrow> own (plThreads p ! i) = Some e \<Longrightarrow> own (plThreads p ! j) = Some e \<Longrightarrow> j = i"
    and "\<And>e. plNext p \<le> e \<Longrightarrow> \<not> plBad p e"
    and "\<And>e. e \<in> ran (plMap p) \<Longrightarrow> e < plNext p \<and> \<not> plBad p e"
    and "\<And>i e. i < length (plThreads p) \<Longrightarrow> e \<in> shared (plThreads p ! i) \<Longrightarrow> e < plNext p \<and> \<not> plBad p e"
  shows "pool_inv holds own shared p"
  using assms unfolding pool_inv_def by blast

text \<open>What it says of the goroutine that is about to step.\<close>

lemma pool_inv_at:
  assumes "pool_inv holds own shared p" "i < length (plThreads p)"
  shows "\<not> plFatal p" and "holds (plThreads p ! i) \<Longrightarrow> plLocked p"
    and "own (plThreads p ! i) = Some e \<Longrightarrow> e \<notin> ran (plMap p) \<and> e \<notin> shared (plThreads p ! i)"
    and "e \<in> shared (plThreads p ! i) \<Longrightarrow> \<not> plBad p e"
    and "e \<in> ran (plMap p) \<Longrightarrow> e < plNext p"
    and "plMap p a = Some e \<Longrightarrow> \<not> plBad p e"
  using pool_invD [OF assms(1)] assms(2) ranI by fast+

lemma pool_inv_dead: "pool_inv holds own shared (p\<lparr>plDead := d\<rparr>) = pool_inv holds own shared p"
  by (cases p) (simp only: pool_inv_def Pool.select_convs Pool.update_convs)

text \<open>
  What a step of goroutine \<open>i\<close> to the program counter \<open>pc'\<close> may do: it takes the mutex only while it is free and frees it
  only while holding it, publishes only its own session, keeps or newly dials the session it
  owns, and closes only a session of its own that it forgets.
\<close>

definition pool_move :: "('pc \<Rightarrow> bool) \<Rightarrow> ('pc \<Rightarrow> nat option) \<Rightarrow> ('pc \<Rightarrow> nat set) \<Rightarrow> nat \<Rightarrow> 'pc \<Rightarrow> 'pc Pool \<Rightarrow> 'pc Pool \<Rightarrow> bool" where
  "pool_move holds own shared i pc' p p' \<longleftrightarrow> i < length (plThreads p) \<and> \<not> plFatal p' \<and> plThreads p' = (plThreads p)[i := pc'] \<and> plNext p \<le> plNext p'
     \<and> (holds pc' \<longrightarrow> plLocked p' \<and> (holds (plThreads p ! i) \<or> \<not> plLocked p)) \<and> (plLocked p \<longrightarrow> \<not> holds (plThreads p ! i) \<longrightarrow> plLocked p')
     \<and> (\<forall>e. own pc' = Some e \<longrightarrow> own (plThreads p ! i) = Some e \<or> (e = plNext p \<and> plNext p < plNext p'))
     \<and> ran (plMap p') \<subseteq> (ran (plMap p) \<union> set_option (own (plThreads p ! i))) - set_option (own pc')
     \<and> shared pc' \<subseteq> (shared (plThreads p ! i) \<union> ran (plMap p) \<union> set_option (own (plThreads p ! i))) - set_option (own pc')
     \<and> (\<forall>e. plBad p' e \<longrightarrow> plBad p e
          \<or> (own (plThreads p ! i) = Some e \<and> e \<notin> ran (plMap p') \<and> e \<notin> shared pc' \<and> own pc' \<noteq> Some e))"

lemma pool_moveD:
  assumes "pool_move holds own shared i pc' p p'"
  shows "i < length (plThreads p)" and "\<not> plFatal p'" and "plNext p \<le> plNext p'" and "length (plThreads p') = length (plThreads p)"
    and "j < length (plThreads p') \<Longrightarrow> plThreads p' ! j = (if j = i then pc' else plThreads p ! j)"
    and "holds pc' \<Longrightarrow> plLocked p' \<and> (holds (plThreads p ! i) \<or> \<not> plLocked p)" and "plLocked p \<Longrightarrow> \<not> holds (plThreads p ! i) \<Longrightarrow> plLocked p'"
    and "own pc' = Some e \<Longrightarrow> own (plThreads p ! i) = Some e \<or> (e = plNext p \<and> plNext p < plNext p')"
    and "ran (plMap p') \<subseteq> (ran (plMap p) \<union> set_option (own (plThreads p ! i))) - set_option (own pc')"
    and "shared pc' \<subseteq> (shared (plThreads p ! i) \<union> ran (plMap p) \<union> set_option (own (plThreads p ! i))) - set_option (own pc')"
    and "plBad p' e \<Longrightarrow> plBad p e \<or> (own (plThreads p ! i) = Some e \<and> e \<notin> ran (plMap p') \<and> e \<notin> shared pc' \<and> own pc' \<noteq> Some e)"
  using assms unfolding pool_move_def by (simp_all add: nth_list_update)

text \<open>The mutex; a session of the goroutine that moves is not one of the others; what it owns afterwards is good.\<close>

lemma move_lock:
  assumes "pool_inv holds own shared p" "pool_move holds own shared i pc' p p'"
  shows "j < length (plThreads p') \<Longrightarrow> holds (plThreads p' ! j) \<Longrightarrow> plLocked p'"
    and "j < length (plThreads p') \<Longrightarrow> k < length (plThreads p') \<Longrightarrow> holds (plThreads p' ! j) \<Longrightarrow> holds (plThreads p' ! k) \<Longrightarrow> j = k"
proof -
  note D = pool_invD [OF assms(1)] and M = pool_moveD [OF assms(2)]
  show "j < length (plThreads p') \<Longrightarrow> holds (plThreads p' ! j) \<Longrightarrow> plLocked p'"
    using M(4,6,7) M(5) [of j] D(2) [of j] D(3) [OF M(1), of j] by (cases "j = i") auto
  show "j < length (plThreads p') \<Longrightarrow> k < length (plThreads p') \<Longrightarrow> holds (plThreads p' ! j) \<Longrightarrow> holds (plThreads p' ! k) \<Longrightarrow> j = k"
    using M(1,4,6) M(5) [of j] M(5) [of k] D(2) [of j] D(2) [of k] D(3) [of j k] D(3) [of i j] D(3) [of i k]
    by (cases "j = i"; cases "k = i") auto
qed

lemma move_others:
  assumes "pool_inv holds own shared p" "pool_move holds own shared i pc' p p'"
    and "j < length (plThreads p)" "j \<noteq> i" "own (plThreads p ! j) = Some e \<or> e \<in> shared (plThreads p ! j)"
  shows "own (plThreads p ! i) \<noteq> Some e"
  using pool_invD(5,6) [OF assms(1) pool_moveD(1) [OF assms(2)] assms(3)] assms(4,5) by auto

lemma move_fresh:
  assumes "pool_inv holds own shared p" "pool_move holds own shared i pc' p p'" "own pc' = Some e"
  shows "e < plNext p' \<and> \<not> plBad p' e \<and> e \<notin> ran (plMap p')"
proof -
  note D = pool_invD [OF assms(1)] and M = pool_moveD [OF assms(2)]
  have "e \<notin> ran (plMap p')" using M(9) assms(3) by auto
  moreover have "\<not> plBad p' e" using M(11) [of e] M(8) [OF assms(3)] D(4) [OF M(1), of e] D(7) [of e] assms(3) by auto
  moreover have "e < plNext p'" using M(8) [OF assms(3)] D(4) [OF M(1), of e] M(3) by auto
  ultimately show ?thesis by simp
qed

lemma move_own:
  assumes inv: "pool_inv holds own shared p" and mv: "pool_move holds own shared i pc' p p'"
    and j: "j < length (plThreads p')" "own (plThreads p' ! j) = Some e" and k: "k < length (plThreads p')"
  shows "e < plNext p' \<and> \<not> plBad p' e \<and> e \<notin> ran (plMap p')" and "e \<notin> shared (plThreads p' ! k)"
    and "own (plThreads p' ! k) = Some e \<Longrightarrow> k = j"
proof -
  note D = pool_invD [OF inv] and M = pool_moveD [OF mv] and others = move_others [OF inv mv]
  note T = M(5) [OF j(1)] M(5) [OF k]
  consider (mine) "j = i" "own pc' = Some e" | (other) "j \<noteq> i" "j < length (plThreads p)" "own (plThreads p ! j) = Some e"
    using j T(1) M(4) by (cases "j = i") auto
  note who = this
  show "e < plNext p' \<and> \<not> plBad p' e \<and> e \<notin> ran (plMap p')"
    by (rule who) (use move_fresh [OF inv mv] in blast,
      use others [of j e] D(4) [of j e] M(3,9) M(11) [of e] in auto)
  show "e \<notin> shared (plThreads p' ! k)"
    by (rule who; cases "k = i")
      (use T(2) k M(1,4,10) M(8) [of e] D(5) [of i k e] D(9) [of k e] others [of j e] D(4,5) [of j e] D(5) [of j k e] in auto)
  have clash: False if "own pc' = Some e" "m < length (plThreads p)" "m \<noteq> i" "own (plThreads p ! m) = Some e" for m
    using M(8) [OF that(1)] others [OF that(2,3), of e] D(4) [OF that(2,4)] that(4) by auto
  show "own (plThreads p' ! k) = Some e \<Longrightarrow> k = j"
    by (rule who; cases "k = i") (use T(2) k M(4) D(6) [of j k e] clash [of j] clash [of k] in auto)
qed

lemma move_good:
  assumes inv: "pool_inv holds own shared p" and mv: "pool_move holds own shared i pc' p p'"
  shows "plNext p' \<le> e \<Longrightarrow> \<not> plBad p' e" and "e \<in> ran (plMap p') \<Longrightarrow> e < plNext p' \<and> \<not> plBad p' e"
    and "j < length (plThreads p') \<Longrightarrow> e \<in> shared (plThreads p' ! j) \<Longrightarrow> e < plNext p' \<and> \<not> plBad p' e"
proof -
  note D = pool_invD [OF inv] and M = pool_moveD [OF mv]
  show "plNext p' \<le> e \<Longrightarrow> \<not> plBad p' e" using M(11) [of e] D(7) [of e] D(4) [OF M(1), of e] M(3) by fastforce
  show "e \<in> ran (plMap p') \<Longrightarrow> e < plNext p' \<and> \<not> plBad p' e"
    using M(9) M(11) [of e] D(8) [of e] D(4) [OF M(1), of e] M(3) by fastforce
  assume j: "j < length (plThreads p')" "e \<in> shared (plThreads p' ! j)"
  show "e < plNext p' \<and> \<not> plBad p' e"
  proof (cases "j = i")
    case True
    with j M(5) have "e \<in> shared pc'" by simp
    with M(10) M(11) [of e] D(8) [of e] D(4) [OF M(1), of e] D(9) [OF M(1), of e] M(3) show ?thesis by fastforce
  next
    case False
    then have o: "e \<in> shared (plThreads p ! j)" "j < length (plThreads p)" using j M(4,5) by auto
    with move_others [OF inv mv o(2) False, of e] D(9) [OF o(2,1)] M(11) [of e] M(3) show ?thesis by auto
  qed
qed

lemma pool_move_inv:
  assumes "pool_inv holds own shared p" "pool_move holds own shared i pc' p p'"
  shows "pool_inv holds own shared p'"
  using move_lock [OF assms] move_own [OF assms] move_good [OF assms] pool_moveD(2) [OF assms(2)]
  by (intro pool_invI) blast+

lemma pool_inv_step:
  assumes inv: "pool_inv holds own shared p" and i: "i < length (plThreads p)" and pc: "plThreads p ! i = pc"
    and p': "\<not> plFatal p'" "plThreads p' = (plThreads p)[i := pc']" "plNext p \<le> plNext p'"
    and lock: "holds pc' \<Longrightarrow> plLocked p' \<and> (holds pc \<or> \<not> plLocked p)" "plLocked p \<Longrightarrow> \<not> holds pc \<Longrightarrow> plLocked p'"
    and own: "\<And>e. own pc' = Some e \<Longrightarrow> own pc = Some e \<or> (e = plNext p \<and> plNext p < plNext p')"
    and ran: "ran (plMap p') \<subseteq> (ran (plMap p) \<union> set_option (own pc)) - set_option (own pc')"
    and shared: "shared pc' \<subseteq> (shared pc \<union> ran (plMap p) \<union> set_option (own pc)) - set_option (own pc')"
    and bad: "\<And>e. plBad p' e \<Longrightarrow> plBad p e \<or> (own pc = Some e \<and> e \<notin> ran (plMap p') \<and> e \<notin> shared pc' \<and> own pc' \<noteq> Some e)"
  shows "pool_inv holds own shared p'"
proof -
  have "pool_move holds own shared i pc' p p'"
    unfolding pool_move_def pc using i p' lock own ran shared bad by blast
  then show ?thesis by (rule pool_move_inv [OF inv])
qed

locale session_pool =
  fixes step :: "pool_event \<Rightarrow> 'pc Pool \<Rightarrow> 'pc Pool option" and allowed :: "pool_event \<Rightarrow> 'pc Pool \<Rightarrow> bool"
    and holds :: "'pc \<Rightarrow> bool" and own :: "'pc \<Rightarrow> nat option" and shared :: "'pc \<Rightarrow> nat set"
    and extra :: "'pc Pool \<Rightarrow> bool" and start :: "'pc \<Rightarrow> bool"
  assumes keeps: "pool_inv holds own shared p \<Longrightarrow> extra p \<Longrightarrow> allowed e p \<Longrightarrow> step e p = Some p'
      \<Longrightarrow> pool_inv holds own shared p' \<and> extra p'"
    and start_idle: "start pc \<Longrightarrow> \<not> holds pc \<and> own pc = None \<and> shared pc = {}"
    and start_extra: "list_all start ts \<Longrightarrow> extra (new_pool ts)"
begin

lemma run_inv:
  assumes "pool_run step allowed (new_pool ts) p" "list_all start ts"
  shows "pool_inv holds own shared p \<and> extra p"
  using assms(1)
proof (induction rule: pool_run.induct)
  case pool_start
  have "start (ts ! i)" if "i < length ts" for i using assms(2) that by (simp add: list_all_length)
  then show ?case using start_idle start_extra [OF assms(2)] by (auto intro!: pool_invI simp: new_pool_def)
next
  case (pool_next p e p')
  then show ?case using keeps by blast
qed

end

lemmas pool_defs = goto_pc_def mu_Lock_def mu_Unlock_def mark_bad_def dial_new_def

section \<open>The QUIC pool\<close>

fun q_holds :: "qpc \<Rightarrow> bool" where
  "q_holds (QLooked a) = True" | "q_holds (QUnlock a) = True" | "q_holds (QInsert a e) = True" | "q_holds (QReinsert a e) = True"
| "q_holds (QDropping a e) = True" | "q_holds pc = False"

fun q_own :: "qpc \<Rightarrow> nat option" where
  "q_own (QDialled a e) = Some e" | "q_own (QInsert a e) = Some e" | "q_own (QExist a e x) = Some e" | "q_own (QRelock a e) = Some e"
| "q_own (QReinsert a e) = Some e" | "q_own pc = None"

fun q_shared :: "qpc \<Rightarrow> nat set" where
  "q_shared (QFound a e) = {e}" | "q_shared (QExist a e x) = {x}" | "q_shared (QOpen a e) = {e}" | "q_shared (QDrop a e) = {e}"
| "q_shared (QDropping a e) = {e}" | "q_shared (QDone a (Some e)) = {e}" | "q_shared pc = {}"

fun q_start :: "qpc \<Rightarrow> bool" where
  "q_start (QStart a) = True" | "q_start pc = False"

lemma quic_find_inv:
  assumes inv: "pool_inv q_holds q_own q_shared p" and i: "i < length (plThreads p)" and d: "quic_Dial i ok (plThreads p ! i) p = Some p'"
    and pc: "plThreads p ! i \<in> {QStart a, QLooked a, QFound a x, QUnlock a}"
  shows "pool_inv q_holds q_own q_shared p'"
proof -
  note at = pool_inv_at [OF inv i] and step = pool_inv_step [OF inv i refl]
  from pc consider "plThreads p ! i = QStart a" | "plThreads p ! i = QLooked a" | "plThreads p ! i = QFound a x" | "plThreads p ! i = QUnlock a"
    by blast
  then show ?thesis
  proof cases
    case 1
    with d at(1) show ?thesis by (intro step [where pc' = "QLooked a"]) (auto simp: pool_defs split: if_splits)
  next
    case 2
    with d at(1,2) show ?thesis
      by (intro step [where pc' = "case plMap p a of None \<Rightarrow> QUnlock a | Some y \<Rightarrow> QFound a y"])
        (auto simp: pool_defs ranI split: if_splits option.splits)
  next
    case 3
    with d at(1,4) show ?thesis by (intro step [where pc' = "QOpen a x"]) (auto simp: pool_defs)
  next
    case 4
    with d at(1,2) show ?thesis by (intro step [where pc' = "QDial a"]) (auto simp: pool_defs split: if_splits)
  qed
qed

lemma quic_insert_inv:
  assumes inv: "pool_inv q_holds q_own q_shared p" and i: "i < length (plThreads p)" and d: "quic_Dial i ok (plThreads p ! i) p = Some p'"
    and pc: "plThreads p ! i \<in> {QDial a, QDialled a x, QInsert a x, QExist a x y, QRelock a x, QReinsert a x}"
  shows "pool_inv q_holds q_own q_shared p'"
proof -
  note at = pool_inv_at [OF inv i] and step = pool_inv_step [OF inv i refl]
  from pc consider "plThreads p ! i = QDial a" | "plThreads p ! i = QDialled a x" | "plThreads p ! i = QInsert a x"
    | "plThreads p ! i = QExist a x y" | "plThreads p ! i = QRelock a x" | "plThreads p ! i = QReinsert a x" by blast
  then show ?thesis
  proof cases
    case 1
    with d at(1) at(5) [of "plNext p"] show ?thesis
      by (intro step [where pc' = "if ok then QDialled a (plNext p) else QDone a None"]) (auto simp: pool_defs split: if_splits)
  next
    case 2
    with d at(1,3) show ?thesis by (intro step [where pc' = "QInsert a x"]) (auto simp: pool_defs split: if_splits)
  next
    case 3
    with d at(1-3) show ?thesis
      by (intro step [where pc' = "case plMap p a of None \<Rightarrow> QOpen a x | Some z \<Rightarrow> QExist a x z"])
        (auto simp: pool_defs ranI ran_map_upd split: if_splits option.splits)
  next
    case 4
    with d at(1,3,4) show ?thesis by (intro step [where pc' = "QOpen a y"]) (auto simp: pool_defs split: if_splits)
  next
    case 5
    with d at(1,3) show ?thesis by (intro step [where pc' = "QReinsert a x"]) (auto simp: pool_defs split: if_splits)
  next
    case 6
    with d at(1,2) show ?thesis by (intro step [where pc' = "QOpen a x"]) (auto simp: pool_defs ran_def split: if_splits)
  qed
qed

lemma quic_open_inv:
  assumes inv: "pool_inv q_holds q_own q_shared p" and i: "i < length (plThreads p)" and d: "quic_Dial i ok (plThreads p ! i) p = Some p'"
    and pc: "plThreads p ! i \<in> {QOpen a x, QDrop a x, QDropping a x}"
  shows "pool_inv q_holds q_own q_shared p'"
proof -
  note at = pool_inv_at [OF inv i] and step = pool_inv_step [OF inv i refl]
  from pc consider "plThreads p ! i = QOpen a x" | "plThreads p ! i = QDrop a x" | "plThreads p ! i = QDropping a x" by blast
  then show ?thesis
  proof cases
    case 1
    with d at(1) show ?thesis
      by (intro step [where pc' = "if ok \<and> \<not> plDead p x then QDone a (Some x) else QDrop a x"]) (auto simp: pool_defs split: if_splits)
  next
    case 2
    with d at(1) show ?thesis by (intro step [where pc' = "QDropping a x"]) (auto simp: pool_defs split: if_splits)
  next
    case 3
    with d at(1,2) show ?thesis
      by (intro step [where pc' = "QDone a None"]) (auto simp: pool_defs quic_drop_def ran_def split: if_splits)
  qed
qed

lemma quic_step_inv:
  assumes inv: "pool_inv q_holds q_own q_shared p" and st: "quic_pool_step e p = Some p'"
  shows "pool_inv q_holds q_own q_shared p'"
proof (cases e)
  case (PDie s)
  then have "p' = p\<lparr>plDead := (plDead p)(s := True)\<rparr>" using st by (simp split: if_splits)
  then show ?thesis using inv by (simp only: pool_inv_dead)
next
  case (PStep i ok)
  then have i: "i < length (plThreads p)" and d: "quic_Dial i ok (plThreads p ! i) p = Some p'"
    using st by (auto split: if_splits)
  note steps = quic_find_inv [OF inv i d] quic_insert_inv [OF inv i d] quic_open_inv [OF inv i d]
  show ?thesis by (cases "plThreads p ! i") (use steps d in \<open>auto\<close>)
qed

interpretation quic_pool: session_pool quic_pool_step any_event q_holds q_own q_shared "\<lambda>_. True" q_start
proof unfold_locales
  fix pc :: qpc assume "q_start pc"
  then show "\<not> q_holds pc \<and> q_own pc = None \<and> q_shared pc = {}" by (cases pc) auto
qed (auto intro: quic_step_inv)

section \<open>KCP while no session dies\<close>

fun k_holds :: "kpc \<Rightarrow> bool" where
  "k_holds (KLooked a) = True" | "k_holds (KUnlock a) = True" | "k_holds (KInsert a s) = True" | "k_holds pc = False"

fun k_own :: "kpc \<Rightarrow> nat option" where
  "k_own (KDialled a s) = Some s" | "k_own (KInsert a s) = Some s" | "k_own (KSpare a s e) = Some s" | "k_own pc = None"

text \<open>The session that the goroutine found in the pool under an address, or that it was given for it.\<close>

fun k_at :: "kpc \<Rightarrow> (string \<times> nat) option" where
  "k_at (KFound a s) = Some (a, s)" | "k_at (KSpare a s e) = Some (a, e)" | "k_at (KOpen a s) = Some (a, s)"
| "k_at (KDone a (Some s)) = Some (a, s)" | "k_at pc = None"

definition k_shared :: "kpc \<Rightarrow> nat set" where
  "k_shared pc = set_option (map_option snd (k_at pc))"

fun calm :: "kpc \<Rightarrow> bool" where
  "calm (KDrop a s) = False" | "calm (KDropping a s) = False" | "calm (KDropOpen a s) = False" | "calm (KDroppingOpen a s) = False"
| "calm pc = True"

fun k_start :: "kpc \<Rightarrow> bool" where
  "k_start (KStart a) = True" | "k_start pc = False"

definition kcp_extra :: "kpc Pool \<Rightarrow> bool" where
  "kcp_extra p \<longleftrightarrow>
     (\<forall>i < length (plThreads p). calm (plThreads p ! i) \<and> (\<forall>a s. k_at (plThreads p ! i) = Some (a, s) \<longrightarrow> plMap p a = Some s))
     \<and> (\<forall>s < plNext p. plBad p s \<or> s \<in> ran (plMap p) \<or> (\<exists>i < length (plThreads p). k_own (plThreads p ! i) = Some s))"

lemma kcp_extra_step:
  assumes ex: "kcp_extra p" and i: "i < length (plThreads p)" and t: "plThreads p' = (plThreads p)[i := pc']"
    and pc': "calm pc'" "\<And>a s. k_at pc' = Some (a, s) \<Longrightarrow> plMap p' a = Some s"
    and map: "plMap p \<subseteq>\<^sub>m plMap p'" and bad: "\<And>s. plBad p s \<Longrightarrow> plBad p' s"
    and new: "\<And>s. s < plNext p' \<Longrightarrow> s < plNext p \<or> k_own pc' = Some s"
    and own: "\<And>s. k_own (plThreads p ! i) = Some s \<Longrightarrow> k_own pc' = Some s \<or> s \<in> ran (plMap p') \<or> plBad p' s"
  shows "kcp_extra p'"
proof -
  have T: "plThreads p' ! j = (if j = i then pc' else plThreads p ! j)" if "j < length (plThreads p)" for j
    using that i by (simp add: t nth_list_update)
  have n: "length (plThreads p') = length (plThreads p)" by (simp add: t)
  have grow: "plMap p a = Some s \<Longrightarrow> plMap p' a = Some s" for a s using map by (auto simp: map_le_def dom_def)
  then have ran: "s \<in> ran (plMap p) \<Longrightarrow> s \<in> ran (plMap p')" for s by (auto simp: ran_def)
  have "plBad p' s \<or> s \<in> ran (plMap p') \<or> (\<exists>j < length (plThreads p'). k_own (plThreads p' ! j) = Some s)" if s: "s < plNext p'" for s
  proof (cases "k_own pc' = Some s")
    case True
    then show ?thesis using T [OF i] n i by auto
  next
    case False
    then have "s < plNext p" using new [OF s] by simp
    then have "plBad p s \<or> s \<in> ran (plMap p) \<or> (\<exists>j < length (plThreads p). k_own (plThreads p ! j) = Some s)"
      using ex by (simp add: kcp_extra_def)
    then show ?thesis
    proof (elim disjE exE conjE)
      fix j assume j: "j < length (plThreads p)" "k_own (plThreads p ! j) = Some s"
      show ?thesis
      proof (cases "j = i")
        case True with own j False show ?thesis by auto
      next
        case False' : False
        with T [OF j(1)] j n show ?thesis by auto
      qed
    qed (use bad ran in auto)
  qed
  moreover have "calm (plThreads p' ! j) \<and> (\<forall>a s. k_at (plThreads p' ! j) = Some (a, s) \<longrightarrow> plMap p' a = Some s)"
    if "j < length (plThreads p')" for j
    using ex T that n pc' grow by (auto simp: kcp_extra_def)
  ultimately show ?thesis by (simp add: kcp_extra_def)
qed

lemma kcp_both_step:
  assumes "pool_inv k_holds k_own k_shared p" "kcp_extra p" "i < length (plThreads p)"
    and "\<not> plFatal p'" "plThreads p' = (plThreads p)[i := pc']" "plNext p \<le> plNext p'"
    and "k_holds pc' \<Longrightarrow> plLocked p' \<and> (k_holds (plThreads p ! i) \<or> \<not> plLocked p)" "plLocked p \<Longrightarrow> \<not> k_holds (plThreads p ! i) \<Longrightarrow> plLocked p'"
    and "\<And>e. k_own pc' = Some e \<Longrightarrow> k_own (plThreads p ! i) = Some e \<or> (e = plNext p \<and> plNext p < plNext p')"
    and "ran (plMap p') \<subseteq> (ran (plMap p) \<union> set_option (k_own (plThreads p ! i))) - set_option (k_own pc')"
    and "k_shared pc' \<subseteq> (k_shared (plThreads p ! i) \<union> ran (plMap p) \<union> set_option (k_own (plThreads p ! i))) - set_option (k_own pc')"
    and "\<And>e. plBad p' e \<Longrightarrow> plBad p e \<or> (k_own (plThreads p ! i) = Some e \<and> e \<notin> ran (plMap p') \<and> e \<notin> k_shared pc' \<and> k_own pc' \<noteq> Some e)"
    and "calm pc'" "\<And>a s. k_at pc' = Some (a, s) \<Longrightarrow> plMap p' a = Some s" "plMap p \<subseteq>\<^sub>m plMap p'" "\<And>s. plBad p s \<Longrightarrow> plBad p' s"
    and "\<And>s. s < plNext p' \<Longrightarrow> s < plNext p \<or> k_own pc' = Some s"
    and "\<And>s. k_own (plThreads p ! i) = Some s \<Longrightarrow> k_own pc' = Some s \<or> s \<in> ran (plMap p') \<or> plBad p' s"
    and "\<And>s. plDead p' s = plBad p' s"
  shows "pool_inv k_holds k_own k_shared p' \<and> kcp_extra p' \<and> (\<forall>s. plDead p' s = plBad p' s)"
  using pool_inv_step [OF assms(1,3) refl assms(4-12)] kcp_extra_step [OF assms(2,3,5,13-18)] assms(19) by blast

lemmas kcp_defs = pool_defs k_shared_def map_le_def

text \<open>What the two invariants say of the goroutine that is about to step.\<close>

lemma kcp_at:
  assumes inv: "pool_inv k_holds k_own k_shared p" and ex: "kcp_extra p" and i: "i < length (plThreads p)"
  shows "calm (plThreads p ! i)" and "k_at (plThreads p ! i) = Some (a, s) \<Longrightarrow> plMap p a = Some s"
    and "plMap p a = Some s \<Longrightarrow> k_own (plThreads p ! i) \<noteq> Some s"
  using pool_inv_at(3) [OF inv i, of s] ex i by (auto simp: kcp_extra_def ran_def)

definition kcp_inv :: "kpc Pool \<Rightarrow> bool" where
  "kcp_inv p \<longleftrightarrow> pool_inv k_holds k_own k_shared p \<and> kcp_extra p \<and> (\<forall>s. plDead p s = plBad p s)"

lemma kcp_find_inv:
  assumes inv: "kcp_inv p" and i: "i < length (plThreads p)" and d: "kcp_Dial i ok (plThreads p ! i) p = Some p'"
    and pc: "plThreads p ! i \<in> {KStart a, KLooked a, KFound a x, KUnlock a, KDial a}"
  shows "kcp_inv p'"
proof -
  from inv have p: "pool_inv k_holds k_own k_shared p" "kcp_extra p" and dead: "\<And>s. plDead p s = plBad p s" by (auto simp: kcp_inv_def)
  note at = pool_inv_at [OF p(1) i] and kat = kcp_at [OF p i] and step = kcp_both_step [OF p i, folded kcp_inv_def]
  from pc consider "plThreads p ! i = KStart a" | "plThreads p ! i = KLooked a" | "plThreads p ! i = KFound a x"
    | "plThreads p ! i = KUnlock a" | "plThreads p ! i = KDial a" by blast
  then show ?thesis
  proof cases
    case 1
    with d at(1) show ?thesis by (intro step [where pc' = "KLooked a"]) (auto simp: dead kcp_defs split: if_splits)
  next
    case 2
    with d at(1,2) show ?thesis
      by (intro step [where pc' = "case plMap p a of None \<Rightarrow> KUnlock a | Some y \<Rightarrow> KFound a y"])
        (auto simp: dead kcp_defs ranI split: if_splits option.splits)
  next
    case 3
    with kat(2) [of a x] at(6) [of a x] d at(1) show ?thesis
      by (intro step [where pc' = "KOpen a x"]) (auto simp: dead kcp_defs)
  next
    case 4
    with d at(1,2) show ?thesis by (intro step [where pc' = "KDial a"]) (auto simp: dead kcp_defs split: if_splits)
  next
    case 5
    with d at(1) at(5) [of "plNext p"] show ?thesis
      by (intro step [where pc' = "if ok then KDialled a (plNext p) else KDone a None"]) (auto simp: dead kcp_defs split: if_splits)
  qed
qed

lemma kcp_insert_inv:
  assumes inv: "kcp_inv p" and i: "i < length (plThreads p)" and d: "kcp_Dial i ok (plThreads p ! i) p = Some p'"
    and pc: "plThreads p ! i \<in> {KDialled a x, KInsert a x, KSpare a x y} \<or> plThreads p ! i = KOpen a x \<and> ok"
  shows "kcp_inv p'"
proof -
  from inv have p: "pool_inv k_holds k_own k_shared p" "kcp_extra p" and dead: "\<And>s. plDead p s = plBad p s" by (auto simp: kcp_inv_def)
  note at = pool_inv_at [OF p(1) i] and kat = kcp_at [OF p i] and step = kcp_both_step [OF p i, folded kcp_inv_def]
  from pc consider "plThreads p ! i = KDialled a x" | "plThreads p ! i = KInsert a x" | "plThreads p ! i = KSpare a x y"
    | "plThreads p ! i = KOpen a x" ok by blast
  then show ?thesis
  proof cases
    case 1
    with d at(1,3) show ?thesis by (intro step [where pc' = "KInsert a x"]) (auto simp: dead kcp_defs split: if_splits)
  next
    case 2
    with d at(1-3) at(6) [of a] kat(3) [of a] show ?thesis
      by (intro step [where pc' = "case plMap p a of None \<Rightarrow> KOpen a x | Some z \<Rightarrow> KSpare a x z"])
        (auto simp: dead kcp_defs ranI ran_map_upd split: if_splits option.splits)
  next
    case 3
    with kat(2) [of a y] kat(3) [of a y] d at(1,3) at(6) [of a y] show ?thesis
      by (intro step [where pc' = "KOpen a y"]) (auto simp: dead kcp_defs split: if_splits)
  next
    case 4
    with kat(2) [of a x] at(6) [of a x] d at(1) show ?thesis
      by (intro step [where pc' = "KDone a (Some x)"]) (auto simp: dead kcp_defs)
  qed
qed

lemma kcp_step_inv:
  assumes inv: "kcp_inv p" and al: "kcp_healthy e p" and st: "kcp_pool_step e p = Some p'"
  shows "kcp_inv p'"
proof -
  obtain i ok where e: "e = PStep i ok" using al by (cases e) (auto simp: kcp_healthy_def)
  have i: "i < length (plThreads p)" and d: "kcp_Dial i ok (plThreads p ! i) p = Some p'"
    using st e by (auto split: if_splits)
  have "calm (plThreads p ! i)" using kcp_at(1) i inv by (simp add: kcp_inv_def)
  moreover have "plThreads p ! i = KOpen a x \<Longrightarrow> ok" for a x using al e by (simp add: kcp_healthy_def)
  moreover note steps = kcp_find_inv [OF inv i d] kcp_insert_inv [OF inv i d]
  ultimately show ?thesis by (cases "plThreads p ! i") (use steps d in \<open>auto\<close>)
qed

interpretation kcp_pool: session_pool kcp_pool_step kcp_healthy k_holds k_own k_shared "\<lambda>p. kcp_extra p \<and> (\<forall>s. plDead p s = plBad p s)" k_start
proof unfold_locales
  fix pc :: kpc assume "k_start pc"
  then show "\<not> k_holds pc \<and> k_own pc = None \<and> k_shared pc = {}" by (cases pc) (auto simp: k_shared_def)
next
  fix ts assume ts: "list_all k_start ts"
  have "calm pc \<and> k_at pc = None" if "k_start pc" for pc using that by (cases pc) auto
  with ts show "kcp_extra (new_pool ts) \<and> (\<forall>s. plDead (new_pool ts) s = plBad (new_pool ts) s)"
    by (auto simp: kcp_extra_def new_pool_def list_all_length)
qed (use kcp_step_inv [unfolded kcp_inv_def] in blast)

section \<open>Theorems\<close>


text \<open>Two goroutines that both dial: the later one gives up its connection for the one in the pool.\<close>

definition quic_demo :: "pool_event list" where
  "quic_demo = replicate 4 (PStep 0 True) @ replicate 4 (PStep 1 True) @ replicate 3 (PStep 0 True) @ replicate 4 (PStep 1 True)"


text \<open>
  The KCP pool while its sessions live. In every interleaving of any number of dialling
  goroutines in which no session dies and streams can be opened, the mutex is never misused,
  all goroutines that dial the same address get the same session, which is the open session in the
  pool, and when all have finished every other session that was dialled has been closed.
\<close>

theorem kcp_pool_shares:
  assumes "pool_run kcp_pool_step kcp_healthy (new_pool (map KStart addrs)) p"
  shows "\<not> plFatal p
    \<and> (i < length (plThreads p) \<and> plThreads p ! i = KDone a (Some s) \<longrightarrow> plMap p a = Some s \<and> \<not> plBad p s)
    \<and> (i < length (plThreads p) \<and> j < length (plThreads p) \<and> plThreads p ! i = KDone a (Some s) \<and> plThreads p ! j = KDone a (Some s') \<longrightarrow> s = s')
    \<and> ((\<forall>pc. pc \<in> set (plThreads p) \<longrightarrow> (\<exists>a r. pc = KDone a r)) \<and> s < plNext p \<and> s \<notin> ran (plMap p) \<longrightarrow> plBad p s)"
proof -
  have "list_all k_start (map KStart addrs)" by (simp add: list_all_length)
  with kcp_pool.run_inv [OF assms] have inv: "pool_inv k_holds k_own k_shared p" and ex: "kcp_extra p" by blast+
  note D = pool_invD [OF inv]
  have at: "i < length (plThreads p) \<Longrightarrow> plThreads p ! i = KDone a (Some s) \<Longrightarrow> plMap p a = Some s \<and> \<not> plBad p s" for i s
  proof -
    assume i: "i < length (plThreads p)" "plThreads p ! i = KDone a (Some s)"
    then have "plMap p a = Some s" using ex by (simp add: kcp_extra_def)
    then show ?thesis using D(8) [of s] by (auto simp: ran_def)
  qed
  have rest: "plBad p s" if d: "\<forall>pc. pc \<in> set (plThreads p) \<longrightarrow> (\<exists>a r. pc = KDone a r)" and "s < plNext p" "s \<notin> ran (plMap p)"
  proof -
    have "k_own (plThreads p ! i) = None" if "i < length (plThreads p)" for i using d that nth_mem by fastforce
    then show ?thesis using ex that(2,3) by (auto simp: kcp_extra_def)
  qed
  show ?thesis using D(1) at [of i s] at [of j s'] rest by auto
qed

definition kcp_demo :: "pool_event list" where
  "kcp_demo = replicate 4 (PStep 0 True) @ replicate 4 (PStep 1 True) @ replicate 3 (PStep 0 True) @ replicate 4 (PStep 1 True)"

theorem kcp_pool_shares_witness:
  "case pool_exec kcp_pool_step kcp_healthy kcp_demo (new_pool (map KStart [''a'', ''a''])) of
     None \<Rightarrow> False
   | Some p \<Rightarrow> \<not> plFatal p \<and> plThreads p = [KDone ''a'' (Some 0), KDone ''a'' (Some 0)] \<and> plMap p ''a'' = Some 0 \<and> plBad p 1"
proof -
  obtain p where p: "pool_exec kcp_pool_step kcp_healthy kcp_demo (new_pool (map KStart [''a'', ''a''])) = Some p"
    and v: "plThreads p = [KDone ''a'' (Some 0), KDone ''a'' (Some 0)]" "plNext p = 2" "plMap p = [''a'' \<mapsto> 0]"
    by (simp add: kcp_demo_def kcp_healthy_def new_pool_def mu_Lock_def mu_Unlock_def goto_pc_def dial_new_def mark_bad_def numeral_eq_Suc)
  from kcp_pool_shares [OF pool_exec_run [OF pool_start p], of 0 "''a''" 1 1 0] p v show ?thesis by simp
qed

text \<open>
  The KCP pool when a session has died. A goroutine that finds the dead session drops it, which
  releases the mutex, and then releases it again: the process is killed.
\<close>

lemma kcp_dead_session_fatal:
  assumes "i < length (plThreads p)" "plThreads p ! i = KStart a" "\<not> plLocked p" "\<not> plFatal p" "plMap p a = Some s" "plBad p s"
  shows "\<exists>p'. pool_exec kcp_pool_step any_event (replicate 6 (PStep i True)) p = Some p' \<and> plFatal p'"
  using assms by (simp add: numeral_eq_Suc any_event_def mu_Lock_def mu_Unlock_def goto_pc_def kcp_drop_def mark_bad_def)

text \<open>
  The QUIC pool when a connection has died: \<^verbatim>\<open>done\<close> of its entry stays open, so the first \<^verbatim>\<open>Dial\<close> gets the
  dead connection, fails, and only removes it from the pool.
\<close>

lemma quic_dead_conn_fails:
  assumes "i < length (plThreads p)" "plThreads p ! i = QStart a" "\<not> plLocked p" "\<not> plFatal p" "plMap p a = Some e"
    "\<not> plBad p e" "plDead p e"
  shows "\<exists>p'. pool_exec quic_pool_step any_event (replicate 6 (PStep i True)) p = Some p' \<and> plThreads p' ! i = QDone a None
     \<and> plMap p' a = None \<and> plNext p' = plNext p"
  using assms by (simp add: numeral_eq_Suc any_event_def mu_Lock_def mu_Unlock_def goto_pc_def quic_drop_def)

end
