(* ===== verification/H2Conn.thy ===== *)
theory H2Conn
  imports GoJson
begin

text \<open>
  The connections of the HTTP/2 transport, \<^verbatim>\<open>internal/transport/h2/h2.go\<close>: one request is one
  logical connection. The dialling side has a goroutine (the read pump) that moves the response body
  into a bounded queue, and \<^verbatim>\<open>Read\<close> takes from the queue; the serving side writes through and flushes.
  The HTTP client and server are the environment: what the body yields, whether the pipe of
  the request body accepts a write, what \<^verbatim>\<open>client.Do\<close> returns.
\<close>

section \<open>The dialling side\<close>

definition defaultPath :: string where "defaultPath = ''/''"
definition readChunk :: nat where "readChunk = 16384"
definition readQueue :: nat where "readQueue = 64"

definition h2_path :: "string \<Rightarrow> string" where
  "h2_path path = (if path = [] then defaultPath else path)"

datatype streamItem = SData bytes | SErr ioerr

datatype read_pump = PumpRead | PumpSend bytes "ioerr option" | PumpErr ioerr | PumpExit

text \<open>
  \<open>ccBody\<close> are the results that the next reads of the response body will have: some bytes, and an
  error or none. \<open>ccDone\<close> is the channel of that name.
\<close>

record ClientStreamConn =
  ccBody :: "(bytes \<times> ioerr option) list"
  ccPump :: read_pump
  ccQueue :: "streamItem list"
  ccDeadline :: "nat option"
  ccPending :: bytes
  ccReadEOF :: bool
  ccWriteClosed :: bool
  ccCancelled :: bool
  ccDone :: bool
  ccSent :: bytes

definition newClientStreamConn :: ClientStreamConn where
  "newClientStreamConn = \<lparr>ccBody = [], ccPump = PumpRead, ccQueue = [], ccDeadline = None, ccPending = [], ccReadEOF = False,
     ccWriteClosed = False, ccCancelled = False, ccDone = False, ccSent = []\<rparr>"

text \<open>One step of the pump; at the two \<^verbatim>\<open>select\<close> statements \<open>stop\<close> chooses the branch of \<^verbatim>\<open>done\<close>.\<close>

definition pump_step :: "bool \<Rightarrow> ClientStreamConn \<Rightarrow> ClientStreamConn option" where
  "pump_step stop c =
     (case ccPump c of
        PumpRead \<Rightarrow>
          (case ccBody c of
             [] \<Rightarrow> None
           | (d, err) # rest \<Rightarrow>
               Some (c\<lparr>ccBody := rest,
                 ccPump := (if d \<noteq> [] then PumpSend d err else case err of Some e \<Rightarrow> PumpErr e | None \<Rightarrow> PumpRead)\<rparr>))
      | PumpSend d err \<Rightarrow>
          if stop then (if ccDone c then Some (c\<lparr>ccPump := PumpExit\<rparr>) else None)
          else if length (ccQueue c) < readQueue
          then Some (c\<lparr>ccQueue := ccQueue c @ [SData d], ccPump := (case err of Some e \<Rightarrow> PumpErr e | None \<Rightarrow> PumpRead)\<rparr>)
          else None
      | PumpErr e \<Rightarrow>
          if stop then (if ccDone c then Some (c\<lparr>ccPump := PumpExit\<rparr>) else None)
          else if length (ccQueue c) < readQueue then Some (c\<lparr>ccQueue := ccQueue c @ [SErr e], ccPump := PumpExit\<rparr>)
          else None
      | PumpExit \<Rightarrow> None)"

datatype h2_read_result = RdGot bytes | RdErr ioerr | RdBlock

text \<open>
  The \<^verbatim>\<open>select\<close> of \<^verbatim>\<open>Read\<close> with a buffer of \<open>n\<close> bytes, iterated over empty items. \<open>fired\<close> says that the
  timer of the deadline has fired, \<open>stop\<close> that the branch of a closed \<^verbatim>\<open>done\<close> is taken before one of the queue.
\<close>

fun read_queue :: "bool \<Rightarrow> bool \<Rightarrow> nat \<Rightarrow> streamItem list \<Rightarrow> ClientStreamConn \<Rightarrow> h2_read_result \<times> ClientStreamConn" where
  "read_queue fired stop n [] c =
     (if fired then (RdErr ErrDeadline, c\<lparr>ccQueue := []\<rparr>)
      else if ccDone c then (RdErr EOF, c\<lparr>ccQueue := [], ccReadEOF := True\<rparr>)
      else (RdBlock, c\<lparr>ccQueue := []\<rparr>))"
| "read_queue fired stop n (it # q) c =
     (if fired then (RdErr ErrDeadline, c\<lparr>ccQueue := it # q\<rparr>)
      else if stop \<and> ccDone c then (RdErr EOF, c\<lparr>ccQueue := it # q, ccReadEOF := True\<rparr>)
      else case it of
        SErr e \<Rightarrow>
          if e = EOF then (RdErr EOF, c\<lparr>ccQueue := q, ccReadEOF := True\<rparr>) else (RdErr e, c\<lparr>ccQueue := q\<rparr>)
      | SData d \<Rightarrow>
          if d = [] then read_queue fired stop n q c
          else (RdGot (take n d), c\<lparr>ccQueue := q, ccPending := drop n d\<rparr>))"

definition h2_Read :: "nat \<Rightarrow> bool \<Rightarrow> bool \<Rightarrow> nat \<Rightarrow> ClientStreamConn \<Rightarrow> h2_read_result \<times> ClientStreamConn" where
  "h2_Read now fired stop n c =
     (if ccReadEOF c then (RdErr EOF, c)
      else if ccPending c \<noteq> [] then (RdGot (take n (ccPending c)), c\<lparr>ccPending := drop n (ccPending c)\<rparr>)
      else case ccDeadline c of
        Some t \<Rightarrow> if t \<le> now then (RdErr ErrDeadline, c) else read_queue fired stop n (ccQueue c) c
      | None \<Rightarrow> read_queue False stop n (ccQueue c) c)"

text \<open>
  \<open>lost\<close> is the failure of the pipe of the request body, if any: the HTTP client stops reading it
  after so many bytes, with that error.
\<close>

definition h2_Write :: "(nat \<times> ioerr) option \<Rightarrow> bytes \<Rightarrow> ClientStreamConn \<Rightarrow> (nat \<times> ioerr option) \<times> ClientStreamConn" where
  "h2_Write lost p c =
     (if ccWriteClosed c then ((0, Some ErrClosed), c)
      else case lost of
        None \<Rightarrow> ((length p, None), c\<lparr>ccSent := ccSent c @ p\<rparr>)
      | Some (k, e) \<Rightarrow> ((min k (length p), Some e), c\<lparr>ccSent := ccSent c @ take k p\<rparr>))"

definition h2_CloseWrite :: "ClientStreamConn \<Rightarrow> ClientStreamConn" where
  "h2_CloseWrite c = c\<lparr>ccWriteClosed := True\<rparr>"

text \<open>\<^verbatim>\<open>Close\<close> cancels the request; it does not close \<^verbatim>\<open>done\<close>.\<close>

definition h2_Close :: "ClientStreamConn \<Rightarrow> ClientStreamConn" where
  "h2_Close c = (h2_CloseWrite c)\<lparr>ccCancelled := True\<rparr>"

definition h2_SetReadDeadline :: "nat option \<Rightarrow> ClientStreamConn \<Rightarrow> ClientStreamConn" where
  "h2_SetReadDeadline t c = c\<lparr>ccDeadline := t\<rparr>"

definition h2_SetDeadline :: "nat option \<Rightarrow> ClientStreamConn \<Rightarrow> ClientStreamConn" where
  "h2_SetDeadline t c = h2_SetReadDeadline t c"

definition h2_SetWriteDeadline :: "nat option \<Rightarrow> ClientStreamConn \<Rightarrow> ClientStreamConn" where
  "h2_SetWriteDeadline t c = c"

section \<open>Dialling\<close>

text \<open>
  The outcome of \<^verbatim>\<open>Dial\<close> and what it cleaned up: was the request cancelled, was the response body closed.
  The two arguments are an error of \<^verbatim>\<open>http.NewRequestWithContext\<close> and the result of \<^verbatim>\<open>client.Do\<close>.
\<close>

record dial_out =
  doConn :: "string + ClientStreamConn"
  doCancelled :: bool
  doBodyClosed :: bool

definition h2_Dial :: "string \<Rightarrow> string option \<Rightarrow> string + nat \<Rightarrow> dial_out" where
  "h2_Dial addr buildErr resp =
     (case buildErr of
        Some e \<Rightarrow> \<lparr>doConn = Inl (''h2: build request: '' @ e), doCancelled = True, doBodyClosed = False\<rparr>
      | None \<Rightarrow>
          (case resp of
             Inl e \<Rightarrow> \<lparr>doConn = Inl (''h2: dial '' @ addr @ '': '' @ e), doCancelled = True, doBodyClosed = False\<rparr>
           | Inr status \<Rightarrow>
               if status \<noteq> 200
               then \<lparr>doConn = Inl (''h2: dial '' @ addr @ '': unexpected status '' @ print_nat status),
                     doCancelled = True, doBodyClosed = True\<rparr>
               else \<lparr>doConn = Inr newClientStreamConn, doCancelled = False, doBodyClosed = False\<rparr>))"

section \<open>The serving side\<close>

text \<open>
  \<open>ssBuffered\<close> is what the response writer holds, \<open>ssFlushed\<close> what the peer can read; \<open>ssHandler\<close> says that
  the HTTP handler is still running, and it waits for \<^verbatim>\<open>done\<close>.
\<close>

record ServerStreamConn =
  ssIn :: bytes
  ssInEnd :: ioerr
  ssFlusher :: bool
  ssHeader :: bool
  ssBuffered :: bytes
  ssFlushed :: bytes
  ssDone :: bool
  ssHandler :: bool

definition ss_flush :: "ServerStreamConn \<Rightarrow> ServerStreamConn" where
  "ss_flush s = (if ssFlusher s then s\<lparr>ssFlushed := ssFlushed s @ ssBuffered s, ssBuffered := []\<rparr> else s)"

definition newServerStreamConn :: "bool \<Rightarrow> bytes \<Rightarrow> ioerr \<Rightarrow> ServerStreamConn" where
  "newServerStreamConn flusher body e = ss_flush \<lparr>ssIn = body, ssInEnd = e, ssFlusher = flusher, ssHeader = True,
     ssBuffered = [], ssFlushed = [], ssDone = False, ssHandler = True\<rparr>"

definition ss_Read :: "nat \<Rightarrow> ServerStreamConn \<Rightarrow> (ioerr + bytes) \<times> ServerStreamConn" where
  "ss_Read n s =
     (if ssIn s = [] then (Inl (ssInEnd s), ss_flush s)
      else (Inr (take n (ssIn s)), ss_flush (s\<lparr>ssIn := drop n (ssIn s)\<rparr>)))"

definition ss_Write :: "(nat \<times> ioerr) option \<Rightarrow> bytes \<Rightarrow> ServerStreamConn \<Rightarrow> (nat \<times> ioerr option) \<times> ServerStreamConn" where
  "ss_Write lost p s =
     (case lost of
        None \<Rightarrow> ((length p, None), ss_flush (s\<lparr>ssBuffered := ssBuffered s @ p\<rparr>))
      | Some (k, e) \<Rightarrow> ((min k (length p), Some e), ss_flush (s\<lparr>ssBuffered := ssBuffered s @ take k p\<rparr>)))"

definition ss_Close :: "ServerStreamConn \<Rightarrow> ServerStreamConn" where
  "ss_Close s = s\<lparr>ssDone := True\<rparr>"

definition handler_return :: "ServerStreamConn \<Rightarrow> ServerStreamConn option" where
  "handler_return s = (if ssHandler s \<and> ssDone s then Some (s\<lparr>ssHandler := False\<rparr>) else None)"

section \<open>Runs of a connection\<close>

fun rd_bytes :: "h2_read_result \<Rightarrow> bytes" where
  "rd_bytes (RdGot d) = d" | "rd_bytes r = []"

text \<open>\<open>h2_run arr got c\<close>: the body has yielded \<open>arr\<close> and reads have returned the bytes \<open>got\<close>.\<close>

inductive h2_run :: "(bytes \<times> ioerr option) list \<Rightarrow> bytes \<Rightarrow> ClientStreamConn \<Rightarrow> bool" where
  h2_start: "h2_run [] [] newClientStreamConn"
| h2_body: "h2_run arr got c \<Longrightarrow> length d \<le> readChunk \<Longrightarrow> h2_run (arr @ [(d, err)]) got (c\<lparr>ccBody := ccBody c @ [(d, err)]\<rparr>)"
| h2_pump: "h2_run arr got c \<Longrightarrow> pump_step stop c = Some c' \<Longrightarrow> h2_run arr got c'"
| h2_read: "h2_run arr got c \<Longrightarrow> h2_Read now fired stop n c = (r, c') \<Longrightarrow> h2_run arr (got @ rd_bytes r) c'"
| h2_write: "h2_run arr got c \<Longrightarrow> h2_Write lost p c = (r, c') \<Longrightarrow> h2_run arr got c'"
| h2_close: "h2_run arr got c \<Longrightarrow> c' \<in> {h2_CloseWrite c, h2_Close c, h2_SetDeadline t c, h2_SetWriteDeadline t c} \<Longrightarrow> h2_run arr got c'"

text \<open>The bytes of the body up to its first error, and that error.\<close>

fun body_data :: "(bytes \<times> ioerr option) list \<Rightarrow> bytes" where
  "body_data [] = []"
| "body_data ((d, Some e) # xs) = d"
| "body_data ((d, None) # xs) = d @ body_data xs"

fun body_err :: "(bytes \<times> ioerr option) list \<Rightarrow> ioerr option" where
  "body_err [] = None"
| "body_err ((d, Some e) # xs) = Some e"
| "body_err ((d, None) # xs) = body_err xs"

lemma body_append:
  "body_data (xs @ ys) = body_data xs @ (if body_err xs = None then body_data ys else [])"
  "body_err (xs @ ys) = (case body_err xs of None \<Rightarrow> body_err ys | Some e \<Rightarrow> Some e)"
  by (induction xs rule: body_data.induct) auto

text \<open>What is still to be read: the pending bytes, the queue up to an error, what the pump holds, the body.\<close>

fun queue_data :: "streamItem list \<Rightarrow> bytes \<Rightarrow> bytes" where
  "queue_data [] t = t"
| "queue_data (SData d # q) t = d @ queue_data q t"
| "queue_data (SErr e # q) t = []"

definition pump_ahead :: "ClientStreamConn \<Rightarrow> bytes" where
  "pump_ahead c =
     (case ccPump c of
        PumpRead \<Rightarrow> body_data (ccBody c)
      | PumpSend d None \<Rightarrow> d @ body_data (ccBody c)
      | PumpSend d (Some e) \<Rightarrow> d
      | _ \<Rightarrow> [])"

definition ahead :: "ClientStreamConn \<Rightarrow> bytes" where
  "ahead c = ccPending c @ queue_data (ccQueue c) (pump_ahead c)"

fun full_item :: "streamItem \<Rightarrow> bool" where
  "full_item (SData d) = (d \<noteq> [])" | "full_item (SErr e) = False"

text \<open>
  While the pump has not met an error, all that is in the queue is data and what has arrived is what it consumed followed by
  the rest of the body; afterwards the error closes what is ahead.
\<close>

definition pump_ok :: "(bytes \<times> ioerr option) list \<Rightarrow> ClientStreamConn \<Rightarrow> bool" where
  "pump_ok arr c =
     (case ccPump c of
        PumpRead \<Rightarrow> list_all full_item (ccQueue c) \<and> (\<exists>xs. arr = xs @ ccBody c \<and> body_err xs = None)
      | PumpSend d None \<Rightarrow> d \<noteq> [] \<and> list_all full_item (ccQueue c) \<and> (\<exists>xs. arr = xs @ ccBody c \<and> body_err xs = None)
      | PumpSend d (Some e) \<Rightarrow> d \<noteq> [] \<and> list_all full_item (ccQueue c) \<and> body_err arr = Some e
      | PumpErr e \<Rightarrow> list_all full_item (ccQueue c) \<and> body_err arr = Some e
      | PumpExit \<Rightarrow> body_err arr \<noteq> None \<and>
          (ccQueue c = [] \<or> (\<exists>q e. ccQueue c = q @ [SErr e] \<and> list_all full_item q \<and> body_err arr = Some e)))"

definition h2_inv :: "(bytes \<times> ioerr option) list \<Rightarrow> bytes \<Rightarrow> ClientStreamConn \<Rightarrow> bool" where
  "h2_inv arr got c \<longleftrightarrow> body_data arr = got @ ahead c \<and> pump_ok arr c \<and> \<not> ccDone c
     \<and> (ccReadEOF c \<longrightarrow> ahead c = [] \<and> body_err arr = Some EOF)"

lemma pump_ahead_frame [simp]:
  "pump_ahead (c\<lparr>ccQueue := q\<rparr>) = pump_ahead c" "pump_ahead (c\<lparr>ccPending := x\<rparr>) = pump_ahead c"
  by (simp_all add: pump_ahead_def split: read_pump.split option.split)

lemma h2_inv_frame [simp]:
  "h2_inv arr got (c\<lparr>ccSent := x\<rparr>) = h2_inv arr got c" "h2_inv arr got (c\<lparr>ccWriteClosed := b\<rparr>) = h2_inv arr got c"
  "h2_inv arr got (c\<lparr>ccCancelled := b\<rparr>) = h2_inv arr got c" "h2_inv arr got (c\<lparr>ccDeadline := t\<rparr>) = h2_inv arr got c"
  by (simp_all add: h2_inv_def pump_ok_def ahead_def pump_ahead_def split: read_pump.split option.split)

lemma queue_data_append: "list_all full_item q \<Longrightarrow> queue_data (q @ r) t = concat (map (\<lambda>it. case it of SData d \<Rightarrow> d | SErr e \<Rightarrow> []) q) @ queue_data r t"
  by (induction q) (auto split: streamItem.split elim: full_item.elims)

lemma queue_data_full: "list_all full_item q \<Longrightarrow> queue_data q t = concat (map (\<lambda>it. case it of SData d \<Rightarrow> d | SErr e \<Rightarrow> []) q) @ t"
  using queue_data_append [of q "[]" t] by simp

lemma pump_step_inv:
  assumes "h2_inv arr got c" "pump_step stop c = Some c'"
  shows "h2_inv arr got c'"
proof (cases "ccPump c")
  case PumpRead
  with assms(2) obtain d err rest where b: "ccBody c = (d, err) # rest"
    "c' = c\<lparr>ccBody := rest, ccPump := (if d \<noteq> [] then PumpSend d err else case err of Some e \<Rightarrow> PumpErr e | None \<Rightarrow> PumpRead)\<rparr>"
    by (auto simp: pump_step_def split: list.splits)
  obtain xs where xs: "arr = xs @ (d, err) # rest" "body_err xs = None" "list_all full_item (ccQueue c)"
    using assms(1) PumpRead b(1) by (auto simp: h2_inv_def pump_ok_def)
  have "arr = (xs @ [(d, err)]) @ rest" "err = None \<Longrightarrow> body_err (xs @ [(d, err)]) = None"
    using xs(1,2) by (simp_all add: body_append)
  with assms(1) PumpRead b xs(2,3) show ?thesis
    by (auto simp: h2_inv_def pump_ok_def ahead_def pump_ahead_def body_append split: option.splits)
next
  case (PumpSend d err)
  with assms have "c' = c\<lparr>ccQueue := ccQueue c @ [SData d], ccPump := (case err of Some e \<Rightarrow> PumpErr e | None \<Rightarrow> PumpRead)\<rparr>"
    by (auto simp: pump_step_def h2_inv_def split: if_splits)
  with assms(1) PumpSend show ?thesis
    by (auto simp: h2_inv_def pump_ok_def ahead_def pump_ahead_def queue_data_append queue_data_full split: option.splits)
next
  case (PumpErr e)
  with assms have "c' = c\<lparr>ccQueue := ccQueue c @ [SErr e], ccPump := PumpExit\<rparr>"
    by (auto simp: pump_step_def h2_inv_def split: if_splits)
  with assms(1) PumpErr show ?thesis
    by (auto simp: h2_inv_def pump_ok_def ahead_def pump_ahead_def queue_data_append queue_data_full)
next
  case PumpExit
  with assms(2) show ?thesis by (simp add: pump_step_def)
qed

lemma read_queue_inv:
  assumes "h2_inv arr got (c\<lparr>ccQueue := q\<rparr>)" "read_queue fired stop n q c = (r, c')" "ccPending c = []" "\<not> ccReadEOF c"
  shows "h2_inv arr (got @ rd_bytes r) c' \<and> (r = RdErr EOF \<longrightarrow> got = body_data arr \<and> body_err arr = Some EOF)"
  using assms
proof (cases q)
  case Nil
  with assms show ?thesis by (auto simp: h2_inv_def pump_ok_def ahead_def pump_ahead_def split: if_splits)
next
  case (Cons it q')
  show ?thesis
  proof (cases it)
    case (SErr e)
    with Cons assms(1) have x: "ccPump c = PumpExit" "q' = []" "body_err arr = Some e"
      by (auto simp: h2_inv_def pump_ok_def Cons_eq_append_conv split: read_pump.splits option.splits)
    with assms Cons SErr show ?thesis
      by (auto simp: h2_inv_def pump_ok_def ahead_def pump_ahead_def split: if_splits)
  next
    case (SData d)
    with Cons assms(1) have d: "d \<noteq> []"
      by (auto simp: h2_inv_def pump_ok_def Cons_eq_append_conv split: read_pump.splits option.splits)
    let ?c' = "c\<lparr>ccQueue := q', ccPending := drop n d\<rparr>"
    have "pump_ok arr ?c'"
      using assms(1) Cons SData
      by (auto simp: h2_inv_def pump_ok_def Cons_eq_append_conv split: read_pump.splits option.splits)
    moreover have "ahead (c\<lparr>ccQueue := q\<rparr>) = take n d @ ahead ?c'"
      using assms(3) Cons SData by (simp add: ahead_def)
    ultimately have "h2_inv arr (got @ take n d) ?c'" using assms(1,4) by (simp add: h2_inv_def)
    moreover have "\<not> ccDone c" using assms(1) by (simp add: h2_inv_def)
    ultimately show ?thesis using assms Cons SData d by (auto split: if_splits)
  qed
qed

lemma h2_Read_inv:
  assumes "h2_inv arr got c" "h2_Read now fired stop n c = (r, c')"
  shows "h2_inv arr (got @ rd_bytes r) c' \<and> (r = RdErr EOF \<longrightarrow> got = body_data arr \<and> body_err arr = Some EOF)"
proof -
  have q: "h2_inv arr got (c\<lparr>ccQueue := ccQueue c\<rparr>)" using assms(1) by simp
  consider (eof) "ccReadEOF c" | (pending) "\<not> ccReadEOF c" "ccPending c \<noteq> []"
    | (late) t where "\<not> ccReadEOF c" "ccPending c = []" "ccDeadline c = Some t" "t \<le> now"
    | (queue) f where "\<not> ccReadEOF c" "ccPending c = []" "h2_Read now fired stop n c = read_queue f stop n (ccQueue c) c"
    by (cases "ccDeadline c"; cases "the (ccDeadline c) \<le> now") (auto simp: h2_Read_def)
  then show ?thesis
  proof cases
    case eof
    with assms show ?thesis by (auto simp: h2_Read_def h2_inv_def)
  next
    case pending
    let ?c' = "c\<lparr>ccPending := drop n (ccPending c)\<rparr>"
    have "pump_ok arr ?c' = pump_ok arr c" by (simp add: pump_ok_def split: read_pump.split option.split)
    moreover have "ahead c = take n (ccPending c) @ ahead ?c'" by (simp add: ahead_def)
    ultimately have "h2_inv arr (got @ take n (ccPending c)) ?c'" using assms(1) pending by (simp add: h2_inv_def)
    with pending assms(2) show ?thesis by (auto simp: h2_Read_def)
  next
    case late
    with assms show ?thesis by (auto simp: h2_Read_def)
  next
    case queue
    with read_queue_inv [OF q] assms(2) show ?thesis by simp
  qed
qed

lemma h2_run_inv: "h2_run arr got c \<Longrightarrow> h2_inv arr got c"
proof (induction rule: h2_run.induct)
  case h2_start
  then show ?case by (simp add: h2_inv_def newClientStreamConn_def pump_ok_def ahead_def pump_ahead_def)
next
  case (h2_body arr got c d err)
  let ?x = "(d, err)" and ?c' = "c\<lparr>ccBody := ccBody c @ [(d, err)]\<rparr>"
  show ?case
  proof (cases "\<exists>xs. arr = xs @ ccBody c \<and> body_err xs = None \<and> list_all full_item (ccQueue c)
      \<and> (ccPump c = PumpRead \<or> (\<exists>d. ccPump c = PumpSend d None))")
    case True
    then obtain xs where xs: "arr = xs @ ccBody c" "body_err xs = None" "list_all full_item (ccQueue c)"
      "ccPump c = PumpRead \<or> (\<exists>d. ccPump c = PumpSend d None)" by blast
    have "ahead ?c' = ahead c @ (if body_err arr = None then d else [])"
      using xs by (cases err) (auto simp: ahead_def pump_ahead_def queue_data_full body_append)
    moreover have "body_data (arr @ [?x]) = body_data arr @ (if body_err arr = None then d else [])"
      by (cases err) (simp_all add: body_append)
    ultimately show ?thesis
      using h2_body.IH xs by (auto simp: h2_inv_def pump_ok_def body_append)
  next
    case False
    then have "body_err arr \<noteq> None"
      using h2_body.IH by (auto simp: h2_inv_def pump_ok_def split: read_pump.splits option.splits)
    with False h2_body.IH show ?thesis
      by (auto simp: h2_inv_def pump_ok_def ahead_def pump_ahead_def body_append split: read_pump.splits option.splits)
  qed
next
  case (h2_pump arr got c stop c')
  then show ?case using pump_step_inv by blast
next
  case (h2_read arr got c now fired stop n r c')
  then show ?case using h2_Read_inv by blast
next
  case (h2_write arr got c lost p r c')
  then show ?case by (auto simp: h2_Write_def split: if_splits option.splits prod.splits)
next
  case (h2_close arr got c c' t)
  then show ?case
    by (auto simp: h2_CloseWrite_def h2_Close_def h2_SetDeadline_def h2_SetReadDeadline_def h2_SetWriteDeadline_def)
qed

lemma h2_progress:
  assumes "h2_inv arr got c" "0 < n" "ccDeadline c = None" "ahead c \<noteq> []"
  shows "(\<exists>d c'. h2_Read now fired stop n c = (RdGot d, c') \<and> d \<noteq> []) \<or> pump_step False c \<noteq> None"
proof -
  have e: "\<not> ccReadEOF c" using assms(1,4) by (auto simp: h2_inv_def)
  show ?thesis
  proof (cases "ccPending c = []")
    case False
    with e assms(2) show ?thesis by (simp add: h2_Read_def)
  next
    case True
    show ?thesis
    proof (cases "ccQueue c")
      case Nil
      with assms(4) True have "pump_step False c \<noteq> None"
        by (auto simp: ahead_def pump_ahead_def pump_step_def readQueue_def split: read_pump.splits option.splits list.splits)
      then show ?thesis ..
    next
      case (Cons it q)
      with assms(1,4) True obtain d where "it = SData d" "d \<noteq> []"
        by (cases it) (auto simp: ahead_def h2_inv_def pump_ok_def Cons_eq_append_conv split: read_pump.splits option.splits)
      moreover have "\<not> ccDone c" using assms(1) by (simp add: h2_inv_def)
      ultimately show ?thesis using Cons True e assms(2,3) by (simp add: h2_Read_def)
    qed
  qed
qed

section \<open>Theorems\<close>

text \<open>
  C35: The dialling side of an HTTP/2 connection reads the response body faithfully. Whatever
  the interleaving of the read pump with reads of any buffer sizes, deadlines, writes and
  closes, the bytes returned so far followed by those still ahead are the body up to its first error;
  end of file is reported only when the body ended with it and every byte was returned; and
  while there are bytes ahead and no deadline, a read returns some or the pump can go on.
\<close>

theorem h2_stream_faithful:
  assumes "h2_run arr got c"
  shows "body_data arr = got @ ahead c
    \<and> (h2_Read now fired stop n c = (RdErr EOF, c') \<longrightarrow> got = body_data arr \<and> body_err arr = Some EOF)
    \<and> (0 < n \<and> ccDeadline c = None \<and> ahead c \<noteq> [] \<longrightarrow>
         (\<exists>d c'. h2_Read now fired stop n c = (RdGot d, c') \<and> d \<noteq> []) \<or> pump_step False c \<noteq> None)"
proof -
  note inv = h2_run_inv [OF assms]
  have "h2_Read now fired stop n c = (RdErr EOF, c') \<longrightarrow> got = body_data arr \<and> body_err arr = Some EOF"
    using h2_Read_inv [OF inv] by blast
  with inv h2_progress [OF inv] show ?thesis by (auto simp: h2_inv_def)
qed

text \<open>The pump moves two chunks and the end of the body; three reads return the bytes, then the end.\<close>

theorem h2_stream_faithful_witness:
  "body_data [([1, 2, 3], None), ([4], Some EOF)] = [1, 2, 3, 4]
   \<and> body_err [([1, 2, 3], None), ([4], Some EOF)] = Some EOF
   \<and> (\<exists>c. h2_run [([1, 2, 3], None), ([4], Some EOF)] [1, 2, 3, 4] c \<and> ahead c = [] \<and> fst (h2_Read 0 False False 8 c) = RdErr EOF)"
proof -
  let ?c0 = newClientStreamConn
  let ?c1 = "?c0\<lparr>ccBody := [([1, 2, 3], None), ([4], Some EOF)]\<rparr>"
  let ?c2 = "?c1\<lparr>ccBody := [([4], Some EOF)], ccPump := PumpSend [1, 2, 3] None\<rparr>"
  let ?c3 = "?c2\<lparr>ccQueue := [SData [1, 2, 3]], ccPump := PumpRead\<rparr>"
  let ?c4 = "?c3\<lparr>ccQueue := [], ccPending := [3]\<rparr>"
  let ?c5 = "?c4\<lparr>ccPending := []\<rparr>"
  let ?c6 = "?c5\<lparr>ccBody := [], ccPump := PumpSend [4] (Some EOF)\<rparr>"
  let ?c7 = "?c6\<lparr>ccQueue := [SData [4]], ccPump := PumpErr EOF\<rparr>"
  let ?c8 = "?c7\<lparr>ccQueue := [SData [4], SErr EOF], ccPump := PumpExit\<rparr>"
  let ?c9 = "?c8\<lparr>ccQueue := [SErr EOF]\<rparr>"
  let ?arr = "[([1, 2, 3], None), ([4], Some EOF)]"
  have "h2_run ?arr [] ?c1"
    using h2_body [OF h2_body [OF h2_start, of "[1, 2, 3]" None], of "[4]" "Some EOF"] by (simp add: newClientStreamConn_def readChunk_def)
  then have "h2_run ?arr [] ?c2" by (rule h2_pump [where stop = False]) (simp add: pump_step_def newClientStreamConn_def)
  then have "h2_run ?arr [] ?c3"
    by (rule h2_pump [where stop = False]) (simp add: pump_step_def newClientStreamConn_def readQueue_def)
  then have "h2_run ?arr ([] @ rd_bytes (RdGot [1, 2])) ?c4"
    by (rule h2_read [where now = 0 and fired = False and stop = False and n = 2]) (simp add: h2_Read_def newClientStreamConn_def)
  then have "h2_run ?arr (([] @ rd_bytes (RdGot [1, 2])) @ rd_bytes (RdGot [3])) ?c5"
    by (rule h2_read [where now = 0 and fired = False and stop = False and n = 2]) (simp add: h2_Read_def newClientStreamConn_def)
  then have "h2_run ?arr [1, 2, 3] ?c6"
    by - (rule h2_pump [where stop = False], simp, simp add: pump_step_def newClientStreamConn_def)
  then have "h2_run ?arr [1, 2, 3] ?c7"
    by (rule h2_pump [where stop = False]) (simp add: pump_step_def newClientStreamConn_def readQueue_def)
  then have "h2_run ?arr [1, 2, 3] ?c8"
    by (rule h2_pump [where stop = False]) (simp add: pump_step_def newClientStreamConn_def readQueue_def)
  then have "h2_run ?arr ([1, 2, 3] @ rd_bytes (RdGot [4])) ?c9"
    by (rule h2_read [where now = 0 and fired = False and stop = False and n = 8]) (simp add: h2_Read_def newClientStreamConn_def)
  then have r: "h2_run ?arr [1, 2, 3, 4] ?c9" by simp
  have "h2_Read 0 False False 8 ?c9 = (RdErr EOF, ?c9\<lparr>ccQueue := [], ccReadEOF := True\<rparr>)" by (simp add: h2_Read_def newClientStreamConn_def)
  with h2_stream_faithful [OF r, of 0 False False 8] r show ?thesis by (intro conjI exI [of _ ?c9]) auto
qed

text \<open>
  \<^verbatim>\<open>Close\<close> does not release the read pump. When the queue is full and nobody reads any more, the pump
  stays blocked, since nothing ever closes \<^verbatim>\<open>done\<close>.
\<close>

lemma h2_close_leaks_pump:
  assumes "h2_run arr got c" "ccPump c = PumpSend d err" "length (ccQueue c) = readQueue"
  shows "pump_step stop (h2_Close c) = None"
  using h2_run_inv [OF assms(1)] assms(2,3)
  by (simp add: h2_inv_def pump_step_def h2_Close_def h2_CloseWrite_def)

text \<open>Half closing leaves the read direction as it is.\<close>

lemma h2_CloseWrite_reads: "fst (h2_Read now fired stop n (h2_CloseWrite c)) = fst (h2_Read now fired stop n c)"
proof -
  have "fst (read_queue f stop n q (c\<lparr>ccWriteClosed := True\<rparr>)) = fst (read_queue f stop n q c)" for f q
    by (induction q) (auto split: streamItem.split)
  then show ?thesis by (simp add: h2_Read_def h2_CloseWrite_def split: option.split)
qed

lemma server_writes_visible:
  assumes "ssFlusher s" "ssBuffered s = []" "ss_Write lost p s = ((n, e), s')"
  shows "ssFlushed s' = ssFlushed s @ take n p \<and> ssBuffered s' = [] \<and> (e = None \<longrightarrow> n = length p)"
  using assms by (auto simp: ss_Write_def ss_flush_def min_def split: option.splits prod.splits)

lemma server_handler_waits: "handler_return s \<noteq> None \<longleftrightarrow> ssHandler s \<and> ssDone s"
  by (simp add: handler_return_def)

lemma h2_Dial_cleans:
  "case doConn (h2_Dial addr b r) of
     Inl e \<Rightarrow> doCancelled (h2_Dial addr b r)
   | Inr c \<Rightarrow> r = Inr 200 \<and> b = None \<and> c = newClientStreamConn \<and> \<not> doCancelled (h2_Dial addr b r)"
  by (simp add: h2_Dial_def split: option.split sum.split)

end
