(* ===== verification/TransportSetup.thy ===== *)
theory TransportSetup
  imports Schema GoText WsTransport H2Conn
begin

text \<open>
  The transports of the server binary (\<^verbatim>\<open>internal/transport/{tcp,tls,ws,h2,kcp,quic}\<close>, mounted by
  \<^verbatim>\<open>internal/star/zplugin\<close>): how each is built from the options, what its \<^verbatim>\<open>Listen\<close> demands before a
  socket is opened, the TLS settings of its \<^verbatim>\<open>Dial\<close>, and the listeners of a star server
  (\<^verbatim>\<open>internal/star/starserver/server.go\<close>). Loading a key pair, resolving an address and opening a
  socket are arguments. The connections are in theories WsTransport and H2Conn, the listeners in
  TransportListen, the pools of dialled sessions in SessionPool.
\<close>

section \<open>Building a transport\<close>

text \<open>A certificate is whatever the key pair loads to.\<close>

datatype 'k Transport =
    TcpT
  | TlsT "'k option" bool
  | WsT string
  | H2T string
  | KcpT
  | QuicT "'k option" bool

type_synonym 'k key_pairs = "string \<Rightarrow> string \<Rightarrow> string + 'k"

definition tcp_build :: "Schema.Options \<Rightarrow> string + 'k Transport" where
  "tcp_build opts = Inr TcpT"

definition tls_build :: "'k key_pairs \<Rightarrow> Schema.Options \<Rightarrow> string + 'k Transport" where
  "tls_build load opts =
     (if opCertFile opts \<noteq> [] \<or> opKeyFile opts \<noteq> []
      then case load (opCertFile opts) (opKeyFile opts) of
          Inl e \<Rightarrow> Inl (''tls: load key pair: '' @ e)
        | Inr cert \<Rightarrow> Inr (TlsT (Some cert) (opTLSSkipVerify opts))
      else Inr (TlsT None (opTLSSkipVerify opts)))"

definition ws_build :: "Schema.Options \<Rightarrow> string + 'k Transport" where
  "ws_build opts = Inr (WsT (opPath opts))"

definition h2_build :: "Schema.Options \<Rightarrow> string + 'k Transport" where
  "h2_build opts = Inr (H2T (h2_path (opPath opts)))"

definition kcp_build :: "Schema.Options \<Rightarrow> string + 'k Transport" where
  "kcp_build opts = Inr KcpT"

definition quic_build :: "'k key_pairs \<Rightarrow> Schema.Options \<Rightarrow> string + 'k Transport" where
  "quic_build load opts =
     (if opCertFile opts \<noteq> [] \<or> opKeyFile opts \<noteq> []
      then case load (opCertFile opts) (opKeyFile opts) of
          Inl e \<Rightarrow> Inl (''quic: load key pair: '' @ e)
        | Inr cert \<Rightarrow> Inr (QuicT (Some cert) (opTLSSkipVerify opts))
      else Inr (QuicT None (opTLSSkipVerify opts)))"

text \<open>The registry after the imports of the binary; a second registration of a name would panic (none).\<close>

definition star_transports :: "'k key_pairs \<Rightarrow> 'k Transport transports option" where
  "star_transports load =
     fold (\<lambda>(name, fn) reg. Option.bind reg (transport_Register name fn))
       [(''h2'', h2_build), (''kcp'', kcp_build), (''quic'', quic_build load), (''tcp'', tcp_build),
        (''tls'', tls_build load), (''ws'', ws_build)] (Some [])"

section \<open>Listening\<close>

text \<open>
  What a transport listens with: the socket, with TLS on it where a certificate is set, or a facade on a
  server that hands out logical connections. \<open>osListen\<close> is the error of opening a socket of a kind at an
  address, \<open>osResolve\<close> that of resolving a UDP address, \<open>osQuic\<close> that of the QUIC library on it.
\<close>

record os_env =
  osListen :: "string \<Rightarrow> string \<Rightarrow> string option"
  osResolve :: "string \<Rightarrow> string option"
  osQuic :: "string \<Rightarrow> string option"

datatype 'k facade = RawLn | TlsLn 'k | WsLn string | H2Ln string | KcpLn | QuicLn 'k

definition refused :: "string option \<Rightarrow> 'a \<Rightarrow> string + 'a" where
  "refused err x = (case err of Some e \<Rightarrow> Inl e | None \<Rightarrow> Inr x)"

definition tcp_Listen :: "os_env \<Rightarrow> string \<Rightarrow> string + 'k facade" where
  "tcp_Listen os addr = refused (osListen os ''tcp'' addr) RawLn"

definition tls_Listen :: "os_env \<Rightarrow> 'k option \<Rightarrow> string \<Rightarrow> string + 'k facade" where
  "tls_Listen os cert addr =
     (case cert of
        None \<Rightarrow> Inl ''tls: listen requires certFile/keyFile''
      | Some c \<Rightarrow> refused (osListen os ''tcp'' addr) (TlsLn c))"

definition quic_Listen_setup :: "os_env \<Rightarrow> 'k option \<Rightarrow> string \<Rightarrow> string + 'k facade" where
  "quic_Listen_setup os cert addr =
     (case cert of
        None \<Rightarrow> Inl ''quic: listen requires certFile/keyFile''
      | Some c \<Rightarrow>
          (case osResolve os addr of
             Some e \<Rightarrow> Inl (''quic: resolve '' @ addr @ '': '' @ e)
           | None \<Rightarrow>
               (case osListen os ''udp'' addr of
                  Some e \<Rightarrow> Inl e
                | None \<Rightarrow> refused (osQuic os addr) (QuicLn c))))"

fun transport_Listen :: "os_env \<Rightarrow> 'k Transport \<Rightarrow> string \<Rightarrow> string + 'k facade" where
  "transport_Listen os TcpT addr = tcp_Listen os addr"
| "transport_Listen os (TlsT cert skip) addr = tls_Listen os cert addr"
| "transport_Listen os (WsT path) addr = refused (osListen os ''tcp'' addr) (WsLn (handshakePath path))"
| "transport_Listen os (H2T path) addr = refused (osListen os ''tcp'' addr) (H2Ln path)"
| "transport_Listen os KcpT addr =
     (case osListen os ''udp'' addr of Some e \<Rightarrow> Inl (''kcp: listen '' @ addr @ '': '' @ e) | None \<Rightarrow> Inr KcpLn)"
| "transport_Listen os (QuicT cert skip) addr = quic_Listen_setup os cert addr"

text \<open>\<^verbatim>\<open>Listen\<close> and \<^verbatim>\<open>ListenPacket\<close> of a star server; the second gives whether a packet connection was opened.\<close>

definition server_Listen :: "os_env \<Rightarrow> 'k Transport transports \<Rightarrow> 'h PluginServer \<Rightarrow> string + 'k facade option" where
  "server_Listen os reg s =
     (if plNet s = ''udp'' then Inr None
      else case transport_Build reg (plNet s) (plOpts s) of
        Inl e \<Rightarrow> Inl e
      | Inr tr \<Rightarrow> rbind (transport_Listen os tr (plAddr s)) (\<lambda>ln. Inr (Some ln)))"

definition server_ListenPacket :: "os_env \<Rightarrow> 'h PluginServer \<Rightarrow> string + bool" where
  "server_ListenPacket os s =
     (if plNet s \<noteq> ''udp'' then Inr False else refused (osListen os ''udp'' (plAddr s)) True)"

section \<open>Dialling with TLS\<close>

record ClientTLS =
  ctServerName :: string
  ctSkipVerify :: bool
  ctMinVersion :: string
  ctNextProtos :: "string list"

definition server_name :: "string \<Rightarrow> string" where
  "server_name addr = (case SplitHostPort addr of Some (host, _) \<Rightarrow> host | None \<Rightarrow> addr)"

text \<open>\<^verbatim>\<open>Dial\<close> of the TLS transport: an error of the socket, or the settings of the handshake that the first read or write makes.\<close>

definition tls_Dial :: "bool \<Rightarrow> string option \<Rightarrow> string \<Rightarrow> string + ClientTLS" where
  "tls_Dial skip err addr =
     refused err \<lparr>ctServerName = server_name addr, ctSkipVerify = skip, ctMinVersion = ''1.2'', ctNextProtos = []\<rparr>"

definition quic_client_tls :: "bool \<Rightarrow> string \<Rightarrow> ClientTLS" where
  "quic_client_tls skip addr =
     \<lparr>ctServerName = server_name addr, ctSkipVerify = skip, ctMinVersion = ''1.3'', ctNextProtos = [''rain-net'']\<rparr>"

section \<open>QUIC and KCP clients\<close>

text \<open>
  The shared socket of the QUIC client, opened once (\<open>qcOnce\<close> is the state of the \<^verbatim>\<open>sync.Once\<close>); \<open>sock\<close> is the socket
  that the operating system gives, if it gives one.
\<close>

record QuicClient =
  qcOnce :: bool
  qcSocket :: "nat option"

definition clientTransport :: "nat option \<Rightarrow> QuicClient \<Rightarrow> nat option \<times> QuicClient" where
  "clientTransport sock q =
     (if qcOnce q then (qcSocket q, q) else (sock, q\<lparr>qcOnce := True, qcSocket := sock\<rparr>))"

text \<open>A QUIC stream as a connection: the two closing operations, each carried out at most once.\<close>

record QuicStream =
  qsWriteOnce :: bool
  qsCloseOnce :: bool
  qsFins :: nat
  qsCancels :: nat

definition quic_newStreamConn :: QuicStream where
  "quic_newStreamConn = \<lparr>qsWriteOnce = False, qsCloseOnce = False, qsFins = 0, qsCancels = 0\<rparr>"

definition quic_CloseWrite :: "QuicStream \<Rightarrow> QuicStream" where
  "quic_CloseWrite s = (if qsWriteOnce s then s else s\<lparr>qsWriteOnce := True, qsFins := Suc (qsFins s)\<rparr>)"

definition quic_stream_Close :: "QuicStream \<Rightarrow> QuicStream" where
  "quic_stream_Close s =
     (let s1 = quic_CloseWrite s in
      if qsCloseOnce s1 then s1 else s1\<lparr>qsCloseOnce := True, qsCancels := Suc (qsCancels s1)\<rparr>)"

text \<open>
  \<^verbatim>\<open>dialKCP\<close>: the dial runs in a goroutine that reports through a channel; the result, and the connection
  that was opened and that nobody has.
\<close>

definition dialKCP :: "bool \<Rightarrow> string + nat \<Rightarrow> (string + nat) \<times> nat option" where
  "dialKCP expired r =
     (if expired then (Inl ''context deadline exceeded'', case r of Inl e \<Rightarrow> None | Inr c \<Rightarrow> Some c)
      else (r, None))"

section \<open>Lemmas\<close>

lemma star_transports_registry:
  "star_transports load =
     Some [(''h2'', h2_build), (''kcp'', kcp_build), (''quic'', quic_build load), (''tcp'', tcp_build),
           (''tls'', tls_build load), (''ws'', ws_build)]"
  by (simp add: star_transports_def transport_Register_def)

lemma transport_names: "map_option transport_Names (star_transports load) = Some [''h2'', ''kcp'', ''quic'', ''tcp'', ''tls'', ''ws'']"
  by (simp add: star_transports_registry transport_Names_def)

lemma refused_Inr [simp]: "(\<exists>ln. refused err x = Inr ln) \<longleftrightarrow> err = None"
  by (simp add: refused_def split: option.split)

text \<open>Which key pair a configuration names, and whether it is there.\<close>

definition names_key :: "Schema.Options \<Rightarrow> bool" where
  "names_key opts \<longleftrightarrow> opCertFile opts \<noteq> [] \<or> opKeyFile opts \<noteq> []"

definition key_loads :: "'k key_pairs \<Rightarrow> Schema.Options \<Rightarrow> bool" where
  "key_loads load opts = (case load (opCertFile opts) (opKeyFile opts) of Inl _ \<Rightarrow> False | Inr _ \<Rightarrow> True)"

text \<open>When a transport of a name with its options can serve an address.\<close>

definition can_listen :: "'k key_pairs \<Rightarrow> os_env \<Rightarrow> string \<Rightarrow> Schema.Options \<Rightarrow> string \<Rightarrow> bool" where
  "can_listen load os name opts addr \<longleftrightarrow>
     name \<in> {''tcp'', ''ws'', ''h2''} \<and> osListen os ''tcp'' addr = None
   \<or> name = ''kcp'' \<and> osListen os ''udp'' addr = None
   \<or> name = ''tls'' \<and> names_key opts \<and> key_loads load opts \<and> osListen os ''tcp'' addr = None
   \<or> name = ''quic'' \<and> names_key opts \<and> key_loads load opts \<and> osResolve os addr = None \<and> osListen os ''udp'' addr = None
       \<and> osQuic os addr = None"

lemma build_named:
  assumes "star_transports load = Some reg"
  shows "transport_Build reg ''h2'' opts = h2_build opts" "transport_Build reg ''kcp'' opts = kcp_build opts"
    "transport_Build reg ''quic'' opts = quic_build load opts" "transport_Build reg ''tcp'' opts = tcp_build opts"
    "transport_Build reg ''tls'' opts = tls_build load opts" "transport_Build reg ''ws'' opts = ws_build opts"
  using assms by (auto simp: star_transports_registry transport_Build_def)

lemma build_unknown:
  assumes "star_transports load = Some reg" "name \<notin> {''h2'', ''kcp'', ''quic'', ''tcp'', ''tls'', ''ws''}"
  shows "transport_Build reg name opts = Inl (''transport: unknown transport '' @ go_quote name)"
  using assms by (auto simp: star_transports_registry transport_Build_def)

lemma build_listen:
  assumes "star_transports load = Some reg"
  shows "(\<exists>tr ln. transport_Build reg name opts = Inr tr \<and> transport_Listen os tr addr = Inr ln)
     \<longleftrightarrow> can_listen load os name opts addr"
proof -
  note d = tcp_build_def tls_build_def ws_build_def h2_build_def kcp_build_def quic_build_def
    tcp_Listen_def tls_Listen_def quic_Listen_setup_def refused_def names_key_def key_loads_def
  show ?thesis
  proof (cases "name \<in> {''h2'', ''kcp'', ''quic'', ''tcp'', ''tls'', ''ws''}")
    case True
    then show ?thesis
      by (elim insertE emptyE) (simp_all add: build_named [OF assms] can_listen_def d split: option.split sum.split)
  next
    case False
    with build_unknown [OF assms False] show ?thesis by (simp add: can_listen_def)
  qed
qed

section \<open>Theorems\<close>

text \<open>
  C20: A star server opens its listener exactly when it can. With the transports of the binary, the listener of
  a server that is not on UDP opens if and only if its transport is one of the six registered ones,
  a transport with TLS has a key pair that loads, and the socket (with the address of a QUIC listener) is granted; a
  server on UDP opens no listener but a packet connection, exactly when the socket is granted.
\<close>

theorem server_listen_exact:
  assumes "star_transports load = Some reg"
  shows "((\<exists>ln. server_Listen os reg s = Inr (Some ln)) \<longleftrightarrow> plNet s \<noteq> ''udp'' \<and> can_listen load os (plNet s) (plOpts s) (plAddr s))
    \<and> (server_Listen os reg s = Inr None \<longleftrightarrow> plNet s = ''udp'')
    \<and> (server_ListenPacket os s = Inr True \<longleftrightarrow> plNet s = ''udp'' \<and> osListen os ''udp'' (plAddr s) = None)"
proof -
  have "(\<exists>ln. server_Listen os reg s = Inr (Some ln)) \<longleftrightarrow> plNet s \<noteq> ''udp'' \<and>
      (\<exists>tr ln. transport_Build reg (plNet s) (plOpts s) = Inr tr \<and> transport_Listen os tr (plAddr s) = Inr ln)"
    by (auto simp: server_Listen_def rbind_eq_Inr split: sum.splits)
  moreover have "server_Listen os reg s = Inr None \<longleftrightarrow> plNet s = ''udp''"
    by (auto simp: server_Listen_def rbind_eq_Inr split: sum.splits)
  moreover have "server_ListenPacket os s = Inr True \<longleftrightarrow> plNet s = ''udp'' \<and> osListen os ''udp'' (plAddr s) = None"
    by (auto simp: server_ListenPacket_def refused_def split: option.splits)
  ultimately show ?thesis using build_listen [OF assms] by simp
qed

definition demo_os :: os_env where
  "demo_os = \<lparr>osListen = (\<lambda>net addr. if addr = '':1'' then Some ''denied'' else None), osResolve = (\<lambda>_. None), osQuic = (\<lambda>_. None)\<rparr>"

definition demo_tls_server :: "string \<Rightarrow> unit PluginServer" where
  "demo_tls_server cert = \<lparr>plName = ''s'', plNet = ''tls'', plAddr = '':9'', plZones = empty_zone,
     plOpts = \<lparr>opCertFile = cert, opKeyFile = cert, opTLSSkipVerify = False, opPath = []\<rparr>\<rparr>"

theorem server_listen_exact_witness:
  "\<exists>reg. star_transports (\<lambda>c k. Inr c) = Some reg \<and> (\<exists>ln. server_Listen demo_os reg (demo_tls_server ''c'') = Inr (Some ln))
     \<and> \<not> (\<exists>ln. server_Listen demo_os reg (demo_tls_server []) = Inr (Some ln))"
proof -
  obtain reg :: "string Transport transports" where reg: "star_transports (\<lambda>c k. Inr c) = Some reg"
    by (simp add: star_transports_registry)
  from server_listen_exact [OF reg, of demo_os "demo_tls_server ''c''"] server_listen_exact [OF reg, of demo_os "demo_tls_server []"]
  show ?thesis
    by (intro exI [of _ reg]) (simp add: reg, simp add: can_listen_def demo_tls_server_def demo_os_def names_key_def key_loads_def)
qed

text \<open>
  The assembly of the servers builds the transport but does not listen: a TLS listener without a key pair is accepted there and fails
  only when the server starts.
\<close>

lemma tls_without_key_fails_late:
  assumes "star_transports load = Some reg" "\<not> names_key opts"
  shows "transport_Build reg ''tls'' opts = Inr (TlsT None (opTLSSkipVerify opts))"
    and "transport_Listen os (TlsT None b) addr = Inl ''tls: listen requires certFile/keyFile''"
  using assms by (auto simp: star_transports_registry transport_Build_def tls_build_def names_key_def tls_Listen_def)

text \<open>The name that a certificate is checked against is the host of a joined address.\<close>

lemma server_name_host:
  assumes "CHR '':'' \<notin> set p" "CHR ''['' \<notin> set h \<union> set p" "CHR '']'' \<notin> set h \<union> set p"
  shows "server_name (JoinHostPort h p) = h"
  using split_join [OF assms] by (simp add: server_name_def)

text \<open>
  If the first socket of the QUIC client cannot be opened, none is ever opened again: the once has run, and every later
  dial of the process fails.
\<close>

lemma client_socket_failure_sticks:
  assumes "clientTransport None q = (None, q')" "\<not> qcOnce q"
  shows "clientTransport sock q' = (None, q')"
  using assms by (auto simp: clientTransport_def)

text \<open>Any sequence of closing operations sends one end of stream, and cancels reading once, at the first full close.\<close>

lemma quic_stream_closes_once:
  "let s = fold (\<lambda>full s. if full then quic_stream_Close s else quic_CloseWrite s) ops quic_newStreamConn in
   qsFins s = (if ops = [] then 0 else 1) \<and> qsCancels s = (if True \<in> set ops then 1 else 0)"
proof -
  let ?op = "\<lambda>full s. if full then quic_stream_Close s else quic_CloseWrite s"
  let ?inv = "\<lambda>(seen :: bool list) s. qsWriteOnce s = (seen \<noteq> []) \<and> qsCloseOnce s = (True \<in> set seen)
      \<and> qsFins s = (if seen = [] then 0 else 1) \<and> qsCancels s = (if True \<in> set seen then 1 else 0)"
  have run: "?inv seen s \<Longrightarrow> ?inv (seen @ ops) (fold ?op ops s)" for seen s
  proof (induction ops arbitrary: seen s)
    case (Cons full ops)
    have "?inv (seen @ [full]) (?op full s)"
      using Cons.prems by (cases full) (auto simp: quic_stream_Close_def quic_CloseWrite_def Let_def split: if_splits)
    from Cons.IH [OF this] show ?case by simp
  qed simp
  have "?inv [] quic_newStreamConn" by (simp add: quic_newStreamConn_def)
  from run [OF this] show ?thesis by (simp add: Let_def)
qed

text \<open>A KCP dial that ends by its timeout leaves the connection to nobody.\<close>

lemma expired_dial_leaks: "dialKCP True (Inr c) = (Inl ''context deadline exceeded'', Some c)"
  by (simp add: dialKCP_def)

end
