(* ===== verification/ClientCommand.thy ===== *)
theory ClientCommand
  imports Schema GoText
begin

text \<open>
  The client command, \<^verbatim>\<open>cmd/rainc/main.go\<close>: from the flags and the configuration file to the
  arguments of the dialler of theory Reconnect. Reading the file and decoding it are arguments. An exit
  with status 1 is the left result.
\<close>

section \<open>Splitting\<close>

text \<open>The loop of \<^verbatim>\<open>splitCSV\<close>: \<open>i\<close> runs up to the length of the text, one past the last character.\<close>

function csv_from :: "string \<Rightarrow> nat \<Rightarrow> nat \<Rightarrow> string list" where
  "csv_from s start i =
     (if length s < i then []
      else if i = length s \<or> s ! i = CHR '',''
      then (if start < i then [take (i - start) (drop start s)] else []) @ csv_from s (i + 1) (i + 1)
      else csv_from s start (i + 1))"
  by pat_completeness auto
termination
  by (relation "measure (\<lambda>(s, start, i). Suc (length s) - i)") auto

declare csv_from.simps [simp del]

definition splitCSV :: "string \<Rightarrow> string list" where
  "splitCSV s = csv_from s 0 0"

function split2_from :: "string \<Rightarrow> string \<Rightarrow> nat \<Rightarrow> string \<times> string" where
  "split2_from s sep i =
     (if i + length sep \<le> length s
      then (if take (length sep) (drop i s) = sep then (take i s, drop (i + length sep) s) else split2_from s sep (i + 1))
      else (s, []))"
  by pat_completeness auto
termination
  by (relation "measure (\<lambda>(s, sep, i). Suc (length s) - i)") auto

declare split2_from.simps [simp del]

definition split2 :: "string \<Rightarrow> string \<Rightarrow> string \<times> string" where
  "split2 s sep = split2_from s sep 0"

section \<open>The command\<close>

record Flags =
  flConfig :: string
  flDialer :: string
  flAddr :: string
  flIdentity :: string
  flPassword :: string
  flStreams :: string
  flKeepalive :: nat
  flTls :: bool
  flTlsSkip :: bool

record dialerArgs =
  daName :: string
  daAddr :: string
  daIdentity :: string
  daPassword :: string
  daStreams :: "RegisterStreamReq list"
  daKeepalive :: nat
  daTls :: bool
  daTlsSkip :: bool
  daTargets :: "(string \<times> string) list"

datatype rainc_error = ReadFailed | BadConfig config_error | NoSuchDialer string | ManualFlagsMissing

definition config_args :: "Flags \<Rightarrow> DialerSpec \<Rightarrow> dialerArgs" where
  "config_args f d =
     \<lparr>daName = dsName d,
      daAddr = (if flAddr f = [] then dsAddr d else flAddr f),
      daIdentity = (if flIdentity f = [] then dsIdentity d else flIdentity f),
      daPassword = (if flPassword f = [] then dsKeyPassword d else flPassword f),
      daStreams = map (\<lambda>loc. \<lparr>rrClientProxyName = dsIdentity d, rrStreamId = lsStream loc\<rparr>) (dsLocals d),
      daKeepalive = flKeepalive f, daTls = (dsTransport d = ''tls''), daTlsSkip = flTlsSkip f,
      daTargets = fold (\<lambda>loc ts. AList.update (lsStream loc) (lsAddr loc) ts) (dsLocals d) []\<rparr>"

definition manual_args :: "Flags \<Rightarrow> dialerArgs" where
  "manual_args f =
     \<lparr>daName = flIdentity f, daAddr = flAddr f, daIdentity = flIdentity f, daPassword = flPassword f,
      daStreams = map (\<lambda>part. let (k, v) = split2 part '':'' in \<lparr>rrClientProxyName = k, rrStreamId = v\<rparr>) (splitCSV (flStreams f)),
      daKeepalive = flKeepalive f, daTls = flTls f, daTlsSkip = flTlsSkip f, daTargets = []\<rparr>"

definition rainc_main :: "(string \<Rightarrow> bytes option) \<Rightarrow> (bytes \<Rightarrow> config_error + Root) \<Rightarrow> Flags \<Rightarrow> rainc_error + dialerArgs" where
  "rainc_main readFile load f =
     (if flConfig f \<noteq> [] then
        (case readFile (flConfig f) of
           None \<Rightarrow> Inl ReadFailed
         | Some data \<Rightarrow>
             (case load data of
                Inl e \<Rightarrow> Inl (BadConfig e)
              | Inr root \<Rightarrow>
                  (case List.find (\<lambda>d. dsName d = flDialer f) (rtDialers root) of
                     None \<Rightarrow> Inl (NoSuchDialer (flDialer f))
                   | Some d \<Rightarrow> Inr (config_args f d))))
      else if flPassword f = [] \<or> flIdentity f = [] then Inl ManualFlagsMissing
      else Inr (manual_args f))"

text \<open>
  What \<^verbatim>\<open>runDialer\<close> gives to the dialler: the fields of \<^verbatim>\<open>client.Dialer\<close>, with the local dialler when there
  are targets.
\<close>

record dialer_fields =
  dfName :: string
  dfAddr :: string
  dfPassword :: string
  dfStreams :: "RegisterStreamReq list"
  dfTls :: bool
  dfTlsSkip :: bool
  dfKeepAlive :: nat
  dfLocal :: "(string \<Rightarrow> string + string) option"

definition local_target :: "(string \<times> string) list \<Rightarrow> string \<Rightarrow> string + string" where
  "local_target targets streamId =
     (case map_of targets streamId of
        None \<Rightarrow> Inl (''stream '' @ go_quote streamId @ '' has no local target'')
      | Some t \<Rightarrow> Inr t)"

definition runDialer :: "dialerArgs \<Rightarrow> dialer_fields" where
  "runDialer a =
     \<lparr>dfName = daName a, dfAddr = daAddr a, dfPassword = daPassword a, dfStreams = daStreams a, dfTls = daTls a,
      dfTlsSkip = daTlsSkip a, dfKeepAlive = daKeepalive a,
      dfLocal = (if daTargets a \<noteq> [] then Some (local_target (daTargets a)) else None)\<rparr>"

section \<open>Splitting is what it seems\<close>

text \<open>Reference: the non-empty pieces between commas, and the text around the first separator.\<close>

fun csv_fields :: "string \<Rightarrow> string \<Rightarrow> string list" where
  "csv_fields acc [] = (if acc = [] then [] else [acc])"
| "csv_fields acc (c # s) = (if c = CHR '','' then (if acc = [] then [] else [acc]) @ csv_fields [] s else csv_fields (acc @ [c]) s)"

lemma csv_from_fields:
  "start \<le> i \<Longrightarrow> i \<le> length s \<Longrightarrow> csv_from s start i = csv_fields (take (i - start) (drop start s)) (drop i s)"
proof (induction s start i rule: csv_from.induct)
  case (1 s start i)
  have take_snoc: "take (Suc i - start) (drop start s) = take (i - start) (drop start s) @ [s ! i]" if "i < length s"
    using that "1.prems"(1) by (simp add: Suc_diff_le take_Suc_conv_app_nth)
  consider (fin) "i = length s" | (comma) "i < length s" "s ! i = CHR '',''" | (char) "i < length s" "s ! i \<noteq> CHR '',''"
    using "1.prems"(2) by linarith
  then show ?case
  proof cases
    case fin
    then show ?thesis
      using "1.prems"(1) by (subst csv_from.simps) (subst csv_from.simps, auto)
  next
    case comma
    then have "csv_from s (i + 1) (i + 1) = csv_fields [] (drop (Suc i) s)" using "1.IH"(1) by simp
    with comma "1.prems" show ?thesis
      by (subst csv_from.simps) (auto simp: Cons_nth_drop_Suc [symmetric])
  next
    case char
    then have "csv_from s start (i + 1) = csv_fields (take (Suc i - start) (drop start s)) (drop (Suc i) s)"
      using "1.IH"(2) "1.prems" by simp
    with char take_snoc show ?thesis
      by (subst csv_from.simps) (simp add: Cons_nth_drop_Suc [symmetric])
  qed
qed

lemma splitCSV_fields: "splitCSV s = csv_fields [] s"
  by (simp add: splitCSV_def csv_from_fields)

lemma csv_fields_clean: "CHR '','' \<notin> set acc \<Longrightarrow> x \<in> set (csv_fields acc s) \<Longrightarrow> x \<noteq> [] \<and> CHR '','' \<notin> set x"
  by (induction acc s rule: csv_fields.induct) (auto split: if_splits)

lemma csv_fields_join:
  "csv_fields acc (s @ CHR '','' # t) = csv_fields acc s @ csv_fields [] t"
  by (induction acc s rule: csv_fields.induct) auto

lemma csv_fields_field: "CHR '','' \<notin> set s \<Longrightarrow> csv_fields acc s = (if acc @ s = [] then [] else [acc @ s])"
  by (induction acc s rule: csv_fields.induct) auto

lemma split2_first:
  assumes "CHR '':'' \<notin> set k"
  shows "split2 (k @ '':'' @ v) '':'' = (k, v)"
proof -
  have "split2_from (k @ '':'' @ v) '':'' i = (k, v)" if "i \<le> length k" for i
    using that
  proof (induction "length k - i" arbitrary: i)
    case 0
    then show ?case by (subst split2_from.simps) simp
  next
    case (Suc n)
    then have i: "i < length k" by simp
    have "take 1 (drop i (k @ '':'' @ v)) = [k ! i]"
      using i by (simp add: Cons_nth_drop_Suc [symmetric])
    moreover have "k ! i \<noteq> CHR '':''" using assms i nth_mem by metis
    ultimately show ?case
      using Suc.hyps(1) [of "Suc i"] Suc.hyps(2) i by (subst split2_from.simps) simp
  qed
  then show ?thesis by (simp add: split2_def)
qed

text \<open>Pairs that contain neither separator survive being written as a flag.\<close>

definition flag_text :: "(string \<times> string) list \<Rightarrow> string" where
  "flag_text kvs = join_with '','' (map (\<lambda>(k, v). k @ '':'' @ v) kvs)"

lemma splitCSV_join:
  "list_all (\<lambda>x. x \<noteq> [] \<and> CHR '','' \<notin> set x) xs \<Longrightarrow> splitCSV (join_with '','' xs) = xs"
proof (induction xs rule: induct_list012)
  case (3 x y ys)
  then show ?case by (simp add: splitCSV_fields csv_fields_join csv_fields_field)
qed (auto simp: splitCSV_fields csv_fields_field)

definition flag_ok :: "string \<times> string \<Rightarrow> bool" where
  "flag_ok = (\<lambda>(k, v). CHR '','' \<notin> set k \<and> CHR '':'' \<notin> set k \<and> CHR '','' \<notin> set v)"

lemma flag_text_streams:
  assumes "list_all flag_ok kvs"
  shows "map (\<lambda>part. split2 part '':'') (splitCSV (flag_text kvs)) = kvs"
proof -
  have "splitCSV (flag_text kvs) = map (\<lambda>(k, v). k @ '':'' @ v) kvs"
    unfolding flag_text_def using assms by (intro splitCSV_join) (auto simp: list_all_iff flag_ok_def)
  moreover have "map ((\<lambda>part. split2 part '':'') \<circ> (\<lambda>(k, v). k @ '':'' @ v)) kvs = kvs"
    by (rule map_idI) (use assms split2_first in \<open>auto simp: list_all_iff flag_ok_def\<close>)
  ultimately show ?thesis by simp
qed

section \<open>Theorems\<close>

text \<open>
  Streams given on the command line arrive. In manual mode, with a password and an
  identity, any list of identity and stream pairs without commas and without a colon in the
  identity, written as the flag's value, is what the client registers, in order; no local
  dialler is installed.
\<close>

theorem rainc_manual_streams:
  assumes "flConfig f = []" "flPassword f \<noteq> []" "flIdentity f \<noteq> []" "list_all flag_ok kvs" "flStreams f = flag_text kvs"
  shows "\<exists>a. rainc_main readFile load f = Inr a
    \<and> map (\<lambda>r. (rrClientProxyName r, rrStreamId r)) (daStreams a) = kvs \<and> dfLocal (runDialer a) = None"
  using flag_text_streams [OF assms(4)] assms
  by (simp add: rainc_main_def manual_args_def runDialer_def comp_def Let_def case_prod_beta)

theorem rainc_manual_streams_witness:
  "\<exists>a. rainc_main (\<lambda>_. None) (\<lambda>_. Inl YamlFailed)
       \<lparr>flConfig = [], flDialer = [], flAddr = ''h:1'', flIdentity = ''me'', flPassword = ''pw'', flStreams = ''a:s1,b:s:2'',
        flKeepalive = 10, flTls = False, flTlsSkip = False\<rparr> = Inr a
     \<and> map (\<lambda>r. (rrClientProxyName r, rrStreamId r)) (daStreams a) = [(''a'', ''s1''), (''b'', ''s:2'')]"
  using rainc_manual_streams [where kvs = "[(''a'', ''s1''), (''b'', ''s:2'')]" and readFile = "\<lambda>_. None" and load = "\<lambda>_. Inl YamlFailed"
      and f = "\<lparr>flConfig = [], flDialer = [], flAddr = ''h:1'', flIdentity = ''me'', flPassword = ''pw'', flStreams = ''a:s1,b:s:2'',
        flKeepalive = 10, flTls = False, flTlsSkip = False\<rparr>"]
  by (auto simp: flag_ok_def flag_text_def)

lemma find_snoc: "List.find P (xs @ [x]) = (case List.find P xs of Some y \<Rightarrow> Some y | None \<Rightarrow> if P x then Some x else None)"
  by (induction xs) auto

lemma targets_of:
  "map_of (fold (\<lambda>loc ts. AList.update (lsStream loc) (lsAddr loc) ts) locs ts0) s =
     (case List.find (\<lambda>loc. lsStream loc = s) (rev locs) of Some loc \<Rightarrow> Some (lsAddr loc) | None \<Rightarrow> map_of ts0 s)"
proof (induction locs arbitrary: ts0)
  case (Cons loc locs)
  then show ?case by (auto simp: AList.update_conv' find_snoc split: option.split)
qed simp

lemma find_SomeD: "List.find P xs = Some x \<Longrightarrow> x \<in> set xs \<and> P x"
  by (induction xs) (auto split: if_splits)

text \<open>
  In configuration mode the dialler is the first of that name in the file, and every stream that it registers
  has a local target, one that the file gives for it.
\<close>

lemma rainc_config_targets:
  assumes "flConfig f \<noteq> []" "readFile (flConfig f) = Some data" "load data = Inr root"
    and "rainc_main readFile load f = Inr a" "r \<in> set (daStreams a)"
  shows "\<exists>d loc. d \<in> set (rtDialers root) \<and> dsName d = flDialer f \<and> rrClientProxyName r = dsIdentity d
    \<and> loc \<in> set (dsLocals d) \<and> lsStream loc = rrStreamId r \<and> local_target (daTargets a) (rrStreamId r) = Inr (lsAddr loc)"
proof -
  obtain d where d: "List.find (\<lambda>d. dsName d = flDialer f) (rtDialers root) = Some d" "a = config_args f d"
    using assms(1-4) by (auto simp: rainc_main_def split: option.splits)
  then obtain loc0 where loc0: "loc0 \<in> set (dsLocals d)" "lsStream loc0 = rrStreamId r" "rrClientProxyName r = dsIdentity d"
    using assms(5) by (auto simp: config_args_def)
  obtain loc where l: "List.find (\<lambda>loc. lsStream loc = rrStreamId r) (rev (dsLocals d)) = Some loc"
    using loc0 by (cases "List.find (\<lambda>loc. lsStream loc = rrStreamId r) (rev (dsLocals d))") (auto simp: find_None_iff)
  have "local_target (daTargets a) (rrStreamId r) = Inr (lsAddr loc)"
    by (simp add: local_target_def d(2) config_args_def targets_of l)
  with find_SomeD [OF l] find_SomeD [OF d(1)] loc0(3) show ?thesis by auto
qed

text \<open>In configuration mode the flag \<^verbatim>\<open>-identity\<close> changes nothing: the streams keep the identity of the file.\<close>

lemma identity_flag_ignored:
  assumes "flConfig f \<noteq> []"
  shows "map_sum id runDialer (rainc_main readFile load (f\<lparr>flIdentity := x\<rparr>)) = map_sum id runDialer (rainc_main readFile load f)"
  using assms by (auto simp: rainc_main_def config_args_def runDialer_def split: option.split sum.split)

end
