(* ===== verification/Gateway.thy ===== *)
theory Gateway
  imports Schema Bridge
begin

text \<open>
  The outbound chain of the proxy listener, \<^verbatim>\<open>serveChain\<close> of
  \<^verbatim>\<open>internal/star/starserver/proxy_server.go\<close>: a user's connection is bridged with a connection that an
  embedded client opens through another node. It composes the choice of a route (theory
  ProxyServer), opening the tunnel (CtrlClient) and the bridge (Bridge). \<^verbatim>\<open>Listen\<close> of the
  listener is here too, over the transport registry of theory Schema.
\<close>

section \<open>Opening the listener\<close>

text \<open>An injected listener comes first; packets are not served. \<open>listen\<close> is the transport's own \<^verbatim>\<open>Listen\<close>.\<close>

definition proxy_Listen :: "'t transports \<Rightarrow> ('t \<Rightarrow> string + 'l) \<Rightarrow> 'l option \<Rightarrow> string \<Rightarrow> Settings \<Rightarrow> string + 'l option" where
  "proxy_Listen reg listen injected net st =
     (case injected of
        Some l \<Rightarrow> Inr (Some l)
      | None \<Rightarrow>
          if net = ''udp'' then Inr None
          else case transport_Build reg net \<lparr>opCertFile = setCertFile st, opKeyFile = setKeyFile st, opTLSSkipVerify = False, opPath = []\<rparr> of
            Inl e \<Rightarrow> Inl e
          | Inr t \<Rightarrow> map_sum id Some (listen t))"

section \<open>Serving a connection over the chain\<close>

datatype gw_end = GwNoDialer | GwNotReady | GwDialFailed intraerr | GwServing | GwServed "berr option"

text \<open>
  \<open>gwExternal\<close> and \<open>gwTunnel\<close>: has the user's connection been closed; was a tunnel connection made, and has it been closed.
\<close>

record gw_out =
  gwEnd :: gw_end
  gwExternal :: bool
  gwTunnel :: "bool option"

text \<open>The clients that \<^verbatim>\<open>d.Client()\<close> returned at the polls before the deadline: the first that is not nil is used.\<close>

fun first_client :: "CtrlClient option list \<Rightarrow> CtrlClient option" where
  "first_client [] = None"
| "first_client (Some c # ps) = Some c"
| "first_client (None # ps) = first_client ps"

text \<open>\<open>others\<close> is what the client's other goroutines do to its state until the answer \<open>ack\<close> (or none in time) is there.\<close>

definition dial_chain :: "(CtrlClient \<Rightarrow> CtrlClient) \<Rightarrow> ClientConnAck option \<Rightarrow> ChainRoute \<Rightarrow> CtrlClient \<Rightarrow> (intraerr + ref) \<times> CtrlClient" where
  "dial_chain others ack cr c =
     (case DialIntranet_send (crIdentity cr) (crStream cr) c of
        (Inl e, c1) \<Rightarrow> (Inl e, c1)
      | (Inr (connID, r, a), c1) \<Rightarrow> DialIntranet_wait connID r ack (others c1))"

definition bridged_out :: "Bridge \<Rightarrow> gw_out" where
  "bridged_out b =
     (case brMain b of
        Returned e \<Rightarrow> \<lparr>gwEnd = GwServed e, gwExternal = True, gwTunnel = Some True\<rparr>
      | _ \<Rightarrow> \<lparr>gwEnd = GwServing, gwExternal = bcClosed (brConn b Src), gwTunnel = Some (bcClosed (brConn b Dst))\<rparr>)"

text \<open>
  \<^verbatim>\<open>serveChain\<close>; \<open>evs\<close> are the events of the bridge (\<open>half\<close> says which side can be half-closed) up to
  now. When the bridge has returned, the deferred closes have run.
\<close>

definition serveChain ::
    "CtrlClient option list \<Rightarrow> (CtrlClient \<Rightarrow> CtrlClient) \<Rightarrow> ClientConnAck option \<Rightarrow> (side \<Rightarrow> bool) \<Rightarrow> bridge_event list \<Rightarrow> ProxyServer
      \<Rightarrow> (gw_out \<times> Bridge option) option \<times> ProxyServer" where
  "serveChain polls others ack half evs s =
     (let (pick, s1) = pickChain s in
      (case pick of
         Some (cr, Some d) \<Rightarrow>
           (case first_client polls of
              None \<Rightarrow> Some (\<lparr>gwEnd = GwNotReady, gwExternal = True, gwTunnel = None\<rparr>, None)
            | Some c \<Rightarrow>
                (case fst (dial_chain others ack cr c) of
                   Inl e \<Rightarrow> Some (\<lparr>gwEnd = GwDialFailed e, gwExternal = True, gwTunnel = None\<rparr>, None)
                 | Inr r \<Rightarrow>
                     map_option (\<lambda>b. (bridged_out b, Some b)) (run_events evs (start_bridge [] half))))
       | _ \<Rightarrow> Some (\<lparr>gwEnd = GwNoDialer, gwExternal = True, gwTunnel = None\<rparr>, None), s1))"

section \<open>Routes in turn\<close>

fun pick_many :: "nat \<Rightarrow> ProxyServer \<Rightarrow> ChainRoute list" where
  "pick_many 0 s = []"
| "pick_many (Suc k) s = (case pickChain s of (Some (cr, d), s') \<Rightarrow> cr # pick_many k s' | (None, s') \<Rightarrow> [])"

lemma pickChain_index:
  assumes "pxChainRoutes s \<noteq> []" "length (pxChainRoutes s) < 2 ^ 32" "unat (pxChainRR s) + 1 < 2 ^ 32"
  shows "\<exists>d. pickChain s = (Some (pxChainRoutes s ! ((unat (pxChainRR s) + 1) mod length (pxChainRoutes s)), d), s\<lparr>pxChainRR := pxChainRR s + 1\<rparr>)"
    and "unat (pxChainRR s + 1) = unat (pxChainRR s) + 1"
proof -
  show u: "unat (pxChainRR s + 1) = unat (pxChainRR s) + 1" using assms(3) by (simp add: unat_word_ariths)
  have "unat ((pxChainRR s + 1) mod word_of_nat (length (pxChainRoutes s))) = (unat (pxChainRR s) + 1) mod length (pxChainRoutes s)"
    using assms(2) by (simp add: unat_mod u unat_of_nat)
  with assms(1) show "\<exists>d. pickChain s = (Some (pxChainRoutes s ! ((unat (pxChainRR s) + 1) mod length (pxChainRoutes s)), d), s\<lparr>pxChainRR := pxChainRR s + 1\<rparr>)"
    by (simp add: pickChain_def Let_def)
qed

lemma pick_many_nth:
  assumes "pxChainRoutes s \<noteq> []" "length (pxChainRoutes s) < 2 ^ 32" "unat (pxChainRR s) + k < 2 ^ 32"
  shows "pick_many k s = map (\<lambda>j. pxChainRoutes s ! ((unat (pxChainRR s) + 1 + j) mod length (pxChainRoutes s))) [0..<k]"
  using assms
proof (induction k arbitrary: s)
  case (Suc k)
  note p = pickChain_index [of s]
  obtain d where d: "pickChain s = (Some (pxChainRoutes s ! ((unat (pxChainRR s) + 1) mod length (pxChainRoutes s)), d), s\<lparr>pxChainRR := pxChainRR s + 1\<rparr>)"
    using p(1) Suc.prems by auto
  have "pick_many k (s\<lparr>pxChainRR := pxChainRR s + 1\<rparr>)
      = map (\<lambda>j. pxChainRoutes s ! ((unat (pxChainRR s) + 1 + Suc j) mod length (pxChainRoutes s))) [0..<k]"
    using Suc.IH [of "s\<lparr>pxChainRR := pxChainRR s + 1\<rparr>"] p(2) Suc.prems by simp
  then show ?case by (simp add: d map_upt_Suc del: upt_Suc)
qed simp

text \<open>
  The chain routes of a listener are used in turn. As long as the 32-bit counter does not
  overflow, any number of consecutive connections equal to the number of routes uses each route
  exactly once, in the order of the configuration from where the counter stands.
\<close>

theorem chain_round_robin:
  assumes "length (pxChainRoutes s) < 2 ^ 32" "unat (pxChainRR s) + length (pxChainRoutes s) < 2 ^ 32"
  shows "pick_many (length (pxChainRoutes s)) s = rotate (unat (pxChainRR s) + 1) (pxChainRoutes s)"
proof (cases "pxChainRoutes s = []")
  case False
  then show ?thesis
    using pick_many_nth [OF False assms] by (intro nth_equalityI) (simp_all add: nth_rotate del: rotate_Suc)
qed simp

definition demo_proxy :: "string list \<Rightarrow> ProxyServer" where
  "demo_proxy names = \<lparr>pxName = ''p'', pxProxyName = ''p'', pxInCodec = RawCodec, pxRR = 0,
     pxChainRoutes = map (\<lambda>n. \<lparr>crProxyName = ''p'', crDialer = ''d'', crIdentity = ''me'', crStream = n\<rparr>) names,
     pxChainSpecs = [''d''], pxChainDialers = [(''d'', [])], pxChainRR = 0\<rparr>"

theorem chain_round_robin_witness:
  "map crStream (pick_many (Suc (Suc (Suc 0))) (demo_proxy [''a'', ''b'', ''c''])) = [''b'', ''c'', ''a'']"
  using chain_round_robin [of "demo_proxy [''a'', ''b'', ''c'']"] by (simp add: demo_proxy_def)

section \<open>Nothing stays open\<close>



end
