(* ===== verification/Lifecycle.thy ===== *)
theory Lifecycle
  imports Instance GoText
begin

text \<open>
  The life of a server process: server types (\<^verbatim>\<open>pluginer/server.go\<close>), the goroutines that
  \<^verbatim>\<open>startServers\<close> leaves behind (\<^verbatim>\<open>pluginer/pluginer.go\<close>), callbacks (\<^verbatim>\<open>controller.go\<close>, \<^verbatim>\<open>instance.go\<close>), signals
  (\<^verbatim>\<open>sigtrap.go\<close>) and the main loop of the star server (\<^verbatim>\<open>internal/star/starserver/star.go\<close>). Opening the
  listeners is in theory Instance. A callback is named by a number; \<open>res\<close> says which error it returns.
\<close>

section \<open>Server types\<close>

text \<open>
  A server type with its plugin names and, where it has one, the context that \<^verbatim>\<open>NewContext\<close> makes: the
  configuration and the plugin zones.
\<close>

record 'c ServerType =
  stDirectives :: "string list"
  stNewContext :: "((string \<times> string \<times> Host list) list \<times> 'c) option"

type_synonym 'c server_types = "(string \<times> 'c ServerType) list"

text \<open>\<^verbatim>\<open>RegisterServerType\<close> panics on a taken name: none.\<close>

definition RegisterServerType :: "string \<Rightarrow> 'c ServerType \<Rightarrow> 'c server_types \<Rightarrow> 'c server_types option" where
  "RegisterServerType name t types =
     (if map_of types name \<noteq> None then None else Some (AList.update name t types))"

text \<open>A type without \<^verbatim>\<open>NewContext\<close> is a call of a nil function.\<close>

definition ValidateAndExecuteDirectives :: "'c plugins \<Rightarrow> 'c server_types \<Rightarrow> string \<Rightarrow> 'c asm_result" where
  "ValidateAndExecuteDirectives ps types stype =
     (case map_of types stype of
        None \<Rightarrow> AsmError ''no server types plugged in''
      | Some t \<Rightarrow>
          (case stNewContext t of
             None \<Rightarrow> AsmPanic
           | Some (config, c) \<Rightarrow>
               (case executeDirectives ps stype config c of Inl e \<Rightarrow> AsmError e | Inr c' \<Rightarrow> AsmOk c')))"

section \<open>The goroutines of the servers\<close>

text \<open>
  Two goroutines for each server, one in \<^verbatim>\<open>Serve\<close> and one in \<^verbatim>\<open>ServePacket\<close>: still serving, about to send the
  result to \<^verbatim>\<open>errChan\<close>, or gone (with both wait groups told).
\<close>

datatype serve_state = Serving | Reporting "string option" | Exited

text \<open>The goroutine that waits for all of them: waiting, about to send on \<^verbatim>\<open>stopChan\<close>, gone.\<close>

datatype wait_state = WaitAll | SendStop | WaitOver

record Group =
  gpCap :: nat
  gpServe :: "serve_state list"
  gpErrChan :: "string option list"
  gpLog :: "string list"
  gpDrain :: bool
  gpWait :: wait_state

definition group_start :: "nat \<Rightarrow> Group" where
  "group_start n = \<lparr>gpCap = n, gpServe = replicate (2 * n) Serving, gpErrChan = [], gpLog = [], gpDrain = True, gpWait = WaitAll\<rparr>"

datatype group_event = GReturn nat "string option" | GReport nat | GDrain | GWaited | GStop

definition closed_text :: string where "closed_text = ''use of closed network connection''"

definition log_error :: "string option \<Rightarrow> string list \<Rightarrow> string list" where
  "log_error err log = (case err of None \<Rightarrow> log | Some e \<Rightarrow> if Contains e closed_text then log else log @ [e])"

fun group_step :: "group_event \<Rightarrow> Group \<Rightarrow> Group option" where
  "group_step (GReturn i err) g =
     (if i < length (gpServe g) \<and> gpServe g ! i = Serving
      then Some (g\<lparr>gpServe := (gpServe g)[i := Reporting err]\<rparr>) else None)"
| "group_step (GReport i) g =
     (if i < length (gpServe g) \<and> length (gpErrChan g) < gpCap g
      then case gpServe g ! i of
          Reporting err \<Rightarrow> Some (g\<lparr>gpServe := (gpServe g)[i := Exited], gpErrChan := gpErrChan g @ [err]\<rparr>)
        | _ \<Rightarrow> None
      else None)"
| "group_step GDrain g =
     (if gpDrain g
      then case gpErrChan g of
          [] \<Rightarrow> None
        | err # rest \<Rightarrow> Some (g\<lparr>gpErrChan := rest, gpLog := log_error err (gpLog g)\<rparr>)
      else None)"
| "group_step GWaited g =
     (if gpWait g = WaitAll \<and> list_all (\<lambda>s. s = Exited) (gpServe g) then Some (g\<lparr>gpWait := SendStop\<rparr>) else None)"
| "group_step GStop g =
     (if gpWait g = SendStop \<and> gpDrain g then Some (g\<lparr>gpWait := WaitOver, gpDrain := False\<rparr>) else None)"

inductive group_run :: "nat \<Rightarrow> Group \<Rightarrow> bool" for n where
  group_init: "group_run n (group_start n)"
| group_next: "group_run n g \<Longrightarrow> group_step e g = Some g' \<Longrightarrow> group_run n g'"

fun group_exec :: "group_event list \<Rightarrow> Group \<Rightarrow> Group option" where
  "group_exec [] g = Some g"
| "group_exec (e # es) g = (case group_step e g of None \<Rightarrow> None | Some g' \<Rightarrow> group_exec es g')"

lemma group_exec_run: "group_run n g \<Longrightarrow> group_exec es g = Some g' \<Longrightarrow> group_run n g'"
  by (induction es arbitrary: g) (auto split: option.splits intro: group_next)

definition group_over :: "Group \<Rightarrow> bool" where
  "group_over g \<longleftrightarrow> list_all (\<lambda>s. s = Exited) (gpServe g) \<and> \<not> gpDrain g \<and> gpWait g = WaitOver"

definition group_inv :: "nat \<Rightarrow> Group \<Rightarrow> bool" where
  "group_inv n g \<longleftrightarrow> gpCap g = n \<and> length (gpServe g) = 2 * n \<and> length (gpErrChan g) \<le> n
     \<and> (gpDrain g \<longleftrightarrow> gpWait g \<noteq> WaitOver) \<and> (gpWait g \<noteq> WaitAll \<longrightarrow> list_all (\<lambda>s. s = Exited) (gpServe g))"

fun serve_weight :: "serve_state \<Rightarrow> nat" where
  "serve_weight Serving = 3" | "serve_weight (Reporting e) = 2" | "serve_weight Exited = 0"

definition group_measure :: "Group \<Rightarrow> nat" where
  "group_measure g = sum_list (map serve_weight (gpServe g)) + length (gpErrChan g)
     + (case gpWait g of WaitAll \<Rightarrow> 2 | SendStop \<Rightarrow> 1 | WaitOver \<Rightarrow> 0)"

lemma exited_update: "list_all (\<lambda>s. s = Exited) xs \<Longrightarrow> i < length xs \<Longrightarrow> xs ! i = Exited"
  by (simp add: list_all_length)

lemma group_step_inv:
  assumes "group_inv n g" "group_step e g = Some g'"
  shows "group_inv n g'"
  using assms by (cases e) (auto simp: group_inv_def dest: exited_update split: if_splits serve_state.splits list.splits)

lemma group_run_inv: "group_run n g \<Longrightarrow> group_inv n g"
proof (induction rule: group_run.induct)
  case group_init
  then show ?case by (simp add: group_inv_def group_start_def)
qed (rule group_step_inv)

lemma serve_sum:
  assumes "i < length xs"
  shows "sum_list (map serve_weight (xs[i := s])) + serve_weight (xs ! i) = sum_list (map serve_weight xs) + serve_weight s"
  using assms
proof (induction xs arbitrary: i)
  case (Cons x xs)
  show ?case
  proof (cases i)
    case (Suc j)
    with Cons.IH [of j] Cons.prems show ?thesis by simp
  qed simp
qed simp

lemma group_step_decreases:
  assumes "group_step e g = Some g'"
  shows "group_measure g' < group_measure g"
proof (cases e)
  case (GReturn i err)
  with assms serve_sum [of i "gpServe g" "Reporting err"] show ?thesis by (auto simp: group_measure_def split: if_splits)
next
  case (GReport i)
  with assms serve_sum [of i "gpServe g" Exited] show ?thesis
    by (auto simp: group_measure_def split: if_splits serve_state.splits)
qed (use assms in \<open>auto simp: group_measure_def split: if_splits list.splits\<close>)

lemma group_progress:
  assumes "group_inv n g" "Serving \<notin> set (gpServe g)" "\<not> group_over g"
  shows "\<exists>e. group_step e g \<noteq> None"
proof (cases "list_all (\<lambda>s. s = Exited) (gpServe g)")
  case True
  with assms have "group_step GWaited g \<noteq> None \<or> group_step GStop g \<noteq> None"
    by (cases "gpWait g") (auto simp: group_inv_def group_over_def)
  then show ?thesis by blast
next
  case False
  then obtain i where i: "i < length (gpServe g)" "gpServe g ! i \<noteq> Exited" by (auto simp: list_all_length)
  with assms(2) obtain err where err: "gpServe g ! i = Reporting err"
    by (cases "gpServe g ! i") (auto simp: in_set_conv_nth)
  show ?thesis
  proof (cases "length (gpErrChan g) < gpCap g")
    case True
    with i err have "group_step (GReport i) g \<noteq> None" by simp
    then show ?thesis by blast
  next
    case full: False
    then have "gpErrChan g \<noteq> []" "gpDrain g" using assms(1) i False by (auto simp: group_inv_def)
    then have "group_step GDrain g \<noteq> None" by (auto split: list.split)
    then show ?thesis by blast
  qed
qed

section \<open>Callbacks\<close>

record Callbacks =
  cbFirstStartup :: "nat list"
  cbStartup :: "nat list"
  cbRestart :: "nat list"
  cbRestartFailed :: "nat list"
  cbShutdown :: "nat list"
  cbFinalShutdown :: "nat list"

definition no_callbacks :: Callbacks where
  "no_callbacks = \<lparr>cbFirstStartup = [], cbStartup = [], cbRestart = [], cbRestartFailed = [], cbShutdown = [], cbFinalShutdown = []\<rparr>"

definition OnFirstStartup :: "nat \<Rightarrow> Callbacks \<Rightarrow> Callbacks" where
  "OnFirstStartup f c = c\<lparr>cbFirstStartup := cbFirstStartup c @ [f]\<rparr>"

definition OnStartup :: "nat \<Rightarrow> Callbacks \<Rightarrow> Callbacks" where
  "OnStartup f c = c\<lparr>cbStartup := cbStartup c @ [f]\<rparr>"

definition OnRestart :: "nat \<Rightarrow> Callbacks \<Rightarrow> Callbacks" where
  "OnRestart f c = c\<lparr>cbRestart := cbRestart c @ [f]\<rparr>"

definition OnRestartFailed :: "nat \<Rightarrow> Callbacks \<Rightarrow> Callbacks" where
  "OnRestartFailed f c = c\<lparr>cbRestartFailed := cbRestartFailed c @ [f]\<rparr>"

definition OnShutdown :: "nat \<Rightarrow> Callbacks \<Rightarrow> Callbacks" where
  "OnShutdown f c = c\<lparr>cbShutdown := cbShutdown c @ [f]\<rparr>"

definition OnFinalShutdown :: "nat \<Rightarrow> Callbacks \<Rightarrow> Callbacks" where
  "OnFinalShutdown f c = c\<lparr>cbFinalShutdown := cbFinalShutdown c @ [f]\<rparr>"

text \<open>The callbacks that run, in order, and the errors they return.\<close>

definition ShutdownCallbacks :: "(nat \<Rightarrow> string option) \<Rightarrow> Callbacks \<Rightarrow> nat list \<times> string list" where
  "ShutdownCallbacks res c =
     (cbShutdown c @ cbFinalShutdown c,
      List.map_filter res (cbShutdown c) @ List.map_filter res (cbFinalShutdown c))"

section \<open>The process\<close>

text \<open>
  \<open>prInstances\<close> is the global list of instances, \<open>prOnce\<close> the guard of the shutdown callbacks, \<open>prRan\<close>
  the callbacks run so far (those of \<^verbatim>\<open>OnProcessExit\<close> included), \<open>prExit\<close> the exit code.
\<close>

record Proc =
  prInstances :: "Callbacks list"
  prOnProcessExit :: "nat list"
  prOnce :: bool
  prRan :: "nat list"
  prExit :: "nat option"

text \<open>\<^verbatim>\<open>startWithListenerFds\<close> adds the instance before anything can fail; no instance is ever taken off.\<close>

definition add_instance :: "Callbacks \<Rightarrow> Proc \<Rightarrow> Proc" where
  "add_instance c p = p\<lparr>prInstances := prInstances p @ [c]\<rparr>"

definition stop_instance :: "(nat \<Rightarrow> string option) \<Rightarrow> Callbacks \<Rightarrow> Proc \<Rightarrow> Proc" where
  "stop_instance res c p = p\<lparr>prRan := prRan p @ fst (ShutdownCallbacks res c)\<rparr>"

definition allShutdownCallbacks :: "(nat \<Rightarrow> string option) \<Rightarrow> Proc \<Rightarrow> string list \<times> Proc" where
  "allShutdownCallbacks res p =
     (concat (map (\<lambda>c. snd (ShutdownCallbacks res c)) (prInstances p)),
      p\<lparr>prRan := prRan p @ concat (map (\<lambda>c. fst (ShutdownCallbacks res c)) (prInstances p))\<rparr>)"

definition executeShutdownCallbacks :: "(nat \<Rightarrow> string option) \<Rightarrow> Proc \<Rightarrow> nat \<times> Proc" where
  "executeShutdownCallbacks res p =
     (if prOnce p then (0, p)
      else let (errs, p') = allShutdownCallbacks res p in (if errs = [] then 0 else 4, p'\<lparr>prOnce := True\<rparr>))"

text \<open>
  The handler of SIGINT, for the \<open>i\<close>-th one: the first starts the callbacks in a goroutine of their own (the
  second component says so), whose end is the end of the process; a second one ends it at once.
\<close>

definition sigint :: "nat \<Rightarrow> Proc \<Rightarrow> Proc \<times> bool" where
  "sigint i p =
     (let p' = p\<lparr>prRan := prRan p @ prOnProcessExit p\<rparr> in
      if i > 0 then (p'\<lparr>prExit := Some 2\<rparr>, False) else (p', True))"

definition shutdown_goroutine :: "(nat \<Rightarrow> string option) \<Rightarrow> Proc \<Rightarrow> Proc" where
  "shutdown_goroutine res p = (let (code, p') = executeShutdownCallbacks res p in p'\<lparr>prExit := Some code\<rparr>)"

section \<open>The main loop of the star server\<close>

text \<open>
  Signals with what the file and the operating system say at each SIGHUP; anything else stops the instance and
  ends the loop. Without a final signal the loop waits (the flag).
\<close>

datatype 's signal = SigHup "config_error + Root" "string + 's list" | SigTerm

fun run_signals :: "('s \<Rightarrow> string + string) \<Rightarrow> 's signal list \<Rightarrow> 's Instance \<Rightarrow> 's Instance \<times> bool" where
  "run_signals listens [] inst = (inst, False)"
| "run_signals listens (SigHup check build # sigs) inst = run_signals listens sigs (on_hup listens check build inst)"
| "run_signals listens (SigTerm # sigs) inst = (Stop inst, True)"

text \<open>\<^verbatim>\<open>Run\<close> panics (none) when the first start fails.\<close>

definition star_Run :: "('s \<Rightarrow> string + string) \<Rightarrow> string + 's list \<Rightarrow> 's signal list \<Rightarrow> ('s Instance \<times> bool) option" where
  "star_Run listens build sigs =
     (case Start listens build of (Some e, inst) \<Rightarrow> None | (None, inst) \<Rightarrow> Some (run_signals listens sigs inst))"

section \<open>Theorems\<close>

text \<open>
  C17: The goroutines that a start leaves behind never block each other. In every interleaving of the serving
  goroutines, the one that logs errors and the one that waits, once every \<^verbatim>\<open>Serve\<close> and \<^verbatim>\<open>ServePacket\<close> has returned
  some step is possible until all of them are gone, although the error channel holds only half
  of the results; and every step brings the end nearer, so that after finitely many the wait of \<^verbatim>\<open>Stop\<close> is over.
\<close>

theorem serve_group_ends:
  assumes "group_run n g"
  shows "(Serving \<notin> set (gpServe g) \<and> \<not> group_over g \<longrightarrow> (\<exists>e. group_step e g \<noteq> None))
    \<and> (\<forall>e g'. group_step e g = Some g' \<longrightarrow> group_measure g' < group_measure g)
    \<and> (gpWait g = WaitOver \<longrightarrow> group_over g)"
  using group_progress [OF group_run_inv [OF assms]] group_step_decreases group_run_inv [OF assms]
  by (auto simp: group_inv_def group_over_def)

text \<open>One server: the second report has to wait for the logger, then everything ends.\<close>

theorem serve_group_ends_witness:
  "\<exists>g. group_exec [GReturn 0 (Some ''x''), GReturn 1 None, GReport 0] (group_start 1) = Some g
     \<and> group_step (GReport 1) g = None \<and> \<not> group_over g \<and> (\<exists>e. group_step e g \<noteq> None)
     \<and> map_option (\<lambda>h. (gpLog h, group_over h)) (group_exec [GDrain, GReport 1, GWaited, GStop] g) = Some ([''x''], True)"
proof -
  let ?g = "\<lparr>gpCap = 1, gpServe = [Exited, Reporting None], gpErrChan = [Some ''x''], gpLog = [], gpDrain = True, gpWait = WaitAll\<rparr>"
  have ex: "group_exec [GReturn 0 (Some ''x''), GReturn 1 None, GReport 0] (group_start 1) = Some ?g"
    by (simp add: group_start_def numeral_2_eq_2)
  have over: "\<not> group_over ?g" "Serving \<notin> set (gpServe ?g)" by (simp_all add: group_over_def)
  have "\<exists>e. group_step e ?g \<noteq> None"
    using serve_group_ends [OF group_exec_run [OF group_init ex]] over by blast
  moreover have "map_option (\<lambda>h. (gpLog h, group_over h)) (group_exec [GDrain, GReport 1, GWaited, GStop] ?g) = Some ([''x''], True)"
    by (simp add: log_error_def closed_text_def Contains_def group_over_def) code_simp
  moreover have "group_step (GReport 1) ?g = None" by simp
  ultimately show ?thesis using ex over(1) by blast
qed

text \<open>Every configuration the star server is told to load takes effect or leaves it as it is; the last signal stops what serves then.\<close>

lemma run_signals_stops:
  "run_signals listens (sigs @ [SigTerm]) inst = (out, fin) \<Longrightarrow> fin \<and> serving out = []"
proof (induction sigs arbitrary: inst)
  case Nil
  then show ?case by (auto simp: serving_def Stop_def)
next
  case (Cons s sigs)
  then show ?case by (cases s) (auto simp: serving_def Stop_def)
qed

text \<open>
  The callbacks for the final shutdown run at every reload too, and the callbacks for a start or a restart
  never: nothing reads those lists.
\<close>

lemma final_callbacks_run_at_reload:
  "f \<in> set (prRan (stop_instance res (OnFinalShutdown f c) p))"
  by (simp add: stop_instance_def ShutdownCallbacks_def OnFinalShutdown_def)

text \<open>An instance stays in the global list when it is stopped: at the end of the process its callbacks run a second time.\<close>

lemma stopped_callbacks_run_again:
  assumes "\<not> prOnce p"
  shows "count_list (prRan (snd (executeShutdownCallbacks res (stop_instance res c (add_instance c p))))) f
    \<ge> 2 * count_list (fst (ShutdownCallbacks res c)) f"
  using assms
  by (simp add: executeShutdownCallbacks_def allShutdownCallbacks_def add_instance_def stop_instance_def)

text \<open>The shutdown callbacks of all instances run once however often the process is told to end.\<close>

lemma shutdown_once:
  "executeShutdownCallbacks res (snd (executeShutdownCallbacks res p)) = (0, snd (executeShutdownCallbacks res p))"
  by (simp add: executeShutdownCallbacks_def allShutdownCallbacks_def split: prod.split)

end
