(* ===== verification/EndToEnd.thy ===== *)
theory EndToEnd
  imports CtrlProxy CtrlClient
begin

text \<open>
  The two ends of a tunnel composed: the client of \<^verbatim>\<open>protocol/star/ctrlclient.go\<close> and the server of
  \<^verbatim>\<open>internal/handler/star\<close> joined by the bytes of the control connection. What one session has written is what
  the other reads; each end runs its receive loop. The theorems follow the data of one connection through both
  in each direction, with the half-close behind it and the credit that comes back.
\<close>

section \<open>Loops\<close>

definition set_session :: "sess_ref \<Rightarrow> Session \<Rightarrow> CtrlProxyServer \<Rightarrow> CtrlProxyServer" where
  "set_session k se s = s\<lparr>psHub := (psHub s)\<lparr>chSess := (chSess (psHub s))(k := se)\<rparr>\<rparr>"

text \<open>
  \<open>n\<close> turns of the receive loop of \<^verbatim>\<open>CtrlProxyServer.handleConn\<close>; a read error ends it with the deferred cleanup, none is a turn
  that blocks.
\<close>

fun ctrl_loop :: "bool \<Rightarrow> nat \<Rightarrow> sess_ref \<Rightarrow> string \<Rightarrow> nat \<Rightarrow> CtrlProxyServer \<Rightarrow> CtrlProxyServer option" where
  "ctrl_loop lose now k identity 0 s = Some s"
| "ctrl_loop lose now k identity (Suc n) s =
     (case Receive (chSess (psHub s) k) of
        (Inl e, se) \<Rightarrow> Some (ctrl_disconnect k (set_session k se s))
      | (Inr m, se) \<Rightarrow>
          (case ctrl_dispatch lose now k identity m (set_session k se s) of
             None \<Rightarrow> None
           | Some s' \<Rightarrow> ctrl_loop lose now k identity n s'))"

text \<open>\<open>n\<close> turns of \<^verbatim>\<open>CtrlClient.Run\<close>.\<close>

fun client_loop :: "(string \<Rightarrow> string + bool \<times> bool) option \<Rightarrow> (string \<Rightarrow> string \<Rightarrow> string) \<Rightarrow> bool \<Rightarrow> nat \<Rightarrow> CtrlClient \<Rightarrow> run_result" where
  "client_loop dialer et lose 0 c = RunMore c"
| "client_loop dialer et lose (Suc n) c =
     (case Receive (ccSess c) of
        (Inl e, se) \<Rightarrow> RunExit e (run_exit (c\<lparr>ccSess := se\<rparr>))
      | (Inr m, se) \<Rightarrow>
          (case run_dispatch dialer et lose m (c\<lparr>ccSess := se\<rparr>) of
             RunMore c' \<Rightarrow> client_loop dialer et lose n c'
           | r \<Rightarrow> r))"

text \<open>The uplink pump of a client's connection over the chunks it reads, none when a turn does not go through.\<close>

fun pump_all :: "chan_id \<Rightarrow> u32 \<Rightarrow> ref \<Rightarrow> bytes list \<Rightarrow> CtrlClient \<Rightarrow> CtrlClient option" where
  "pump_all ch i r [] c = Some c"
| "pump_all ch i r (d # ds) c =
     (case pumpUplink ch i r (ReadSome d) c of (PumpMore, c') \<Rightarrow> pump_all ch i r ds c' | _ \<Rightarrow> None)"

text \<open>The chunks that a user's connection sends into the tunnel, each after taking its credit.\<close>

fun send_chunks :: "chan_id \<Rightarrow> ref \<Rightarrow> bytes list \<Rightarrow> CtrlHub \<Rightarrow> CtrlHub option" where
  "send_chunks ch q [] h = Some h"
| "send_chunks ch q (d # ds) h =
     (case AcquireSend (length d) ch (chHeap h ! q) of
        (TurnDone, e) \<Rightarrow>
          (case hub_send (ceClient e) (mk_msg MsgData (ceConnID e) d) (upd_entry q (\<lambda>_. e) h) of
             (Inr _, h') \<Rightarrow> send_chunks ch q ds h'
           | _ \<Rightarrow> None)
      | _ \<Rightarrow> None)"

section \<open>Uplink\<close>

definition chunk_ok :: "bytes \<Rightarrow> bool" where
  "chunk_ok d \<longleftrightarrow> d \<noteq> [] \<and> length d \<le> uplinkChunk"

definition volume :: "bytes list \<Rightarrow> int" where
  "volume ds = int (length (concat ds))"

lemma volume_simps [simp]: "volume [] = 0" "volume (d # ds) = int (length d) + volume ds" "0 \<le> volume ds"
  by (simp_all add: volume_def)

lemma data_fits: "chunk_ok d \<Longrightarrow> fits (mk_msg MsgData i d)"
  by (simp add: chunk_ok_def fits_def mk_msg_def uplinkChunk_def MaxPayloadSize_def)

lemma half_fits: "fits (HalfClose i)"
  by (simp add: fits_def HalfClose_def)

lemma acquire_room:
  assumes "\<not> wClosed w" "0 \<le> outstanding w" "outstanding w + int n \<le> wLimit w"
  shows "acquire_turn (int n) ch w = (TurnDone, w\<lparr>outstanding := outstanding w + int n\<rparr>)"
  using assms by (simp add: acquire_turn_def min64_def Let_def)

lemma pump_all_sends:
  assumes "list_all chunk_ok ds" "r < length (ccHeap c)" "writable (ccSess c)"
    "w = lcWin (ccHeap c ! r)" "\<not> wClosed w" "0 \<le> outstanding w" "outstanding w + volume ds \<le> wLimit w"
  shows "pump_all ch i r ds c = Some (c\<lparr>ccHeap := (ccHeap c)[r := (ccHeap c ! r)\<lparr>lcWin := w\<lparr>outstanding := outstanding w + volume ds\<rparr>\<rparr>],
     ccSess := (ccSess c)\<lparr>sOut := sOut (ccSess c) @ concat (map (\<lambda>d. frame_of (mk_msg MsgData i d)) ds)\<rparr>\<rparr>)"
  using assms
proof (induction ds arbitrary: c w)
  case Nil
  then show ?case by simp
next
  case (Cons d ds)
  let ?w1 = "w\<lparr>outstanding := outstanding w + int (length d)\<rparr>"
  let ?c1 = "c\<lparr>ccHeap := (ccHeap c)[r := (ccHeap c ! r)\<lparr>lcWin := ?w1\<rparr>],
     ccSess := (ccSess c)\<lparr>sOut := sOut (ccSess c) @ frame_of (mk_msg MsgData i d)\<rparr>\<rparr>"
  have "outstanding w + int (length d) \<le> wLimit w" using Cons.prems(7) volume_simps(3) [of ds] by (simp del: volume_simps(3))
  with acquire_room [of w "length d" ch] Cons.prems(4-6)
  have "acquire_turn (int (length d)) ch (lcWin (ccHeap c ! r)) = (TurnDone, ?w1)" by simp
  then have p: "pumpUplink ch i r (ReadSome d) c = (PumpMore, ?c1)"
    using Cons.prems(1,3) data_fits [of d i]
    by (simp add: pumpUplink_def chunk_ok_def SendData_def client_send_def upd_local_def pump_finish_def)
  from Cons.prems p show ?case by (simp add: Cons.IH [where w = ?w1] add.assoc)
qed

text \<open>The data frames of a connection reach its queue, and no other entry changes.\<close>

lemma loop_data:
  assumes "list_all chunk_ok ds" "sIn (chSess (psHub s) k) = concat (map (\<lambda>d. frame_of (mk_msg MsgData i d)) ds) @ rest"
    "map_of (chConns (psHub s)) i = Some q" "q < length (chHeap (psHub s))" "\<not> ceDone (chHeap (psHub s) ! q)"
    "map_of (hConns (psFeeds s k)) i = None" "length (ceSink (chHeap (psHub s) ! q)) + length ds \<le> downlinkQueue"
  shows "\<exists>s'. ctrl_loop lose now k identity (length ds + n) s = ctrl_loop lose now k identity n s'
    \<and> sIn (chSess (psHub s') k) = rest \<and> chConns (psHub s') = chConns (psHub s) \<and> psFeeds s' = psFeeds s
    \<and> chHeap (psHub s') = (chHeap (psHub s))[q := (chHeap (psHub s) ! q)\<lparr>ceSink := ceSink (chHeap (psHub s) ! q) @ ds\<rparr>]"
  using assms
proof (induction ds arbitrary: s)
  case Nil
  then show ?case by (intro exI [of _ s]) (simp add: list_update_id)
next
  case (Cons d ds)
  let ?e = "chHeap (psHub s) ! q"
  let ?m = "mk_msg MsgData i d"
  let ?se = "(chSess (psHub s) k)\<lparr>sIn := concat (map (\<lambda>d. frame_of (mk_msg MsgData i d)) ds) @ rest\<rparr>"
  have r: "Receive (chSess (psHub s) k) = (Inr ?m, ?se)"
    using Cons.prems(1,2) data_fits [of d i] by (intro Receive_frame) simp_all
  define st where "st = (case ceStream ?e of None \<Rightarrow> chStreams (psHub s) | Some x \<Rightarrow> add_out_bytes x (length d) (chStreams (psHub s)))"
  have down: "Downlink lose i d (psHub (set_session k ?se s)) = Some (True,
      (psHub (set_session k ?se s))\<lparr>chStreams := st, chHeap := (chHeap (psHub s))[q := ?e\<lparr>ceSink := ceSink ?e @ [d]\<rparr>]\<rparr>)"
    using Cons.prems(3,5,7)
    by (cases "psHub s") (simp add: Downlink_def Let_def upd_entry_def set_session_def st_def split: option.split)
  define s1 where "s1 = (set_session k ?se s)\<lparr>psHub := (psHub (set_session k ?se s))\<lparr>chStreams := st,
      chHeap := (chHeap (psHub s))[q := ?e\<lparr>ceSink := ceSink ?e @ [d]\<rparr>]\<rparr>\<rparr>"
  have "ctrl_dispatch lose now k identity ?m (set_session k ?se s) = Some s1"
    using Cons.prems(6) down
    by (simp add: ctrl_dispatch_def dispatch_hub_def Feed_def mk_msg_def msg_type_defs set_session_def s1_def Let_def)
  then have step: "ctrl_loop lose now k identity (length (d # ds) + n) s = ctrl_loop lose now k identity (length ds + n) s1"
    using r by simp
  have "\<exists>s'. ctrl_loop lose now k identity (length ds + n) s1 = ctrl_loop lose now k identity n s'
    \<and> sIn (chSess (psHub s') k) = rest \<and> chConns (psHub s') = chConns (psHub s1) \<and> psFeeds s' = psFeeds s1
    \<and> chHeap (psHub s') = (chHeap (psHub s1))[q := (chHeap (psHub s1) ! q)\<lparr>ceSink := ceSink (chHeap (psHub s1) ! q) @ ds\<rparr>]"
    using Cons.prems by (intro Cons.IH) (simp_all add: s1_def set_session_def)
  with step Cons.prems(4) show ?case by (auto simp: s1_def set_session_def)
qed

lemma loop_half:
  assumes "sIn (chSess (psHub s) k) = frame_of (HalfClose i) @ rest"
    "map_of (chConns (psHub s)) i = Some q" "map_of (hConns (psFeeds s k)) i = None"
  shows "\<exists>s'. ctrl_loop lose now k identity 1 s = Some s' \<and> sIn (chSess (psHub s') k) = rest
    \<and> chHeap (psHub s') = (chHeap (psHub s))[q := markRemoteClosed (chHeap (psHub s) ! q)]"
proof -
  let ?se = "(chSess (psHub s) k)\<lparr>sIn := rest\<rparr>"
  have r: "Receive (chSess (psHub s) k) = (Inr (HalfClose i), ?se)"
    using assms(1) half_fits by (intro Receive_frame) simp_all
  have "IsHalfClose (HalfClose i)" "mType (HalfClose i) = MsgStreamClose" "mStreamID (HalfClose i) = i"
    by (simp_all add: IsHalfClose_def HalfClose_def FlagHalfClose_def)
  with r assms(2,3) show ?thesis
    by (simp add: ctrl_dispatch_def dispatch_hub_def Feed_def msg_type_defs set_session_def ClientClosed_def upd_entry_def Let_def)
qed

definition hear :: "sess_ref \<Rightarrow> bytes \<Rightarrow> CtrlProxyServer \<Rightarrow> CtrlProxyServer" where
  "hear k bs s = set_session k ((chSess (psHub s) k)\<lparr>sIn := bs\<rparr>) s"

text \<open>
  C2: Data crosses the tunnel from a client to the server, whole and in order, with the end behind it. The chunks that
  the uplink pump of a connection reads, within its credit, and then end of file: the pump takes them all; and the server,
  reading what the client wrote, appends exactly those chunks to the queue of the connection with that number and marks it
  closed by the peer after the last, leaving nothing unread.
\<close>

theorem uplink_end_to_end:
  assumes client: "list_all chunk_ok ds" "r < length (ccHeap c)" "writable (ccSess c)" "sOut (ccSess c) = []"
    "w = lcWin (ccHeap c ! r)" "\<not> wClosed w" "0 \<le> outstanding w" "outstanding w + volume ds \<le> wLimit w"
    and server: "map_of (chConns (psHub s)) i = Some q" "q < length (chHeap (psHub s))" "e = chHeap (psHub s) ! q" "\<not> ceDone e"
    "map_of (hConns (psFeeds s k)) i = None" "length (ceSink e) + length ds \<le> downlinkQueue"
  shows "\<exists>c1 c2 s'. pump_all ch i r ds c = Some c1 \<and> pumpUplink ch i r (ReadEOF []) c1 = (PumpEnd, c2)
    \<and> ctrl_loop lose now k identity (length ds + 1) (hear k (sOut (ccSess c2)) s) = Some s'
    \<and> sIn (chSess (psHub s') k) = []
    \<and> chHeap (psHub s') = (chHeap (psHub s))[q := e\<lparr>ceSink := ceSink e @ ds, ceRemoteClosed := True\<rparr>]"
proof -
  let ?frames = "concat (map (\<lambda>d. frame_of (mk_msg MsgData i d)) ds)"
  define c1 where "c1 = c\<lparr>ccHeap := (ccHeap c)[r := (ccHeap c ! r)\<lparr>lcWin := w\<lparr>outstanding := outstanding w + volume ds\<rparr>\<rparr>],
     ccSess := (ccSess c)\<lparr>sOut := sOut (ccSess c) @ ?frames\<rparr>\<rparr>"
  have p1: "pump_all ch i r ds c = Some c1" unfolding c1_def by (rule pump_all_sends [OF client(1-3,5-8)])
  define c2 where "c2 = c1\<lparr>ccSess := (ccSess c1)\<lparr>sOut := ?frames @ frame_of (HalfClose i)\<rparr>\<rparr>"
  have p2: "pumpUplink ch i r (ReadEOF []) c1 = (PumpEnd, c2)"
    using client(3,4) half_fits by (simp add: pumpUplink_def pump_finish_def client_send_def c1_def c2_def)
  define s0 where "s0 = hear k (sOut (ccSess c2)) s"
  have s0: "sIn (chSess (psHub s0) k) = ?frames @ frame_of (HalfClose i)" "chConns (psHub s0) = chConns (psHub s)"
    "chHeap (psHub s0) = chHeap (psHub s)" "psFeeds s0 = psFeeds s"
    by (simp_all add: s0_def hear_def set_session_def c2_def)
  obtain s1 where s1: "ctrl_loop lose now k identity (length ds + 1) s0 = ctrl_loop lose now k identity 1 s1"
    "sIn (chSess (psHub s1) k) = frame_of (HalfClose i)" "chConns (psHub s1) = chConns (psHub s)" "psFeeds s1 = psFeeds s"
    "chHeap (psHub s1) = (chHeap (psHub s))[q := e\<lparr>ceSink := ceSink e @ ds\<rparr>]"
    using loop_data [OF client(1) s0(1), of q lose now identity 1] server by (auto simp: s0(2-4) simp del: ctrl_loop.simps)
  obtain s' where "ctrl_loop lose now k identity 1 s1 = Some s'" "sIn (chSess (psHub s') k) = []"
    "chHeap (psHub s') = (chHeap (psHub s1))[q := markRemoteClosed (chHeap (psHub s1) ! q)]"
    using loop_half [of s1 k i "[]" q lose now identity] s1(2-4) server(1,5) by auto
  with p1 p2 s1(1,5) server(2) show ?thesis
    unfolding s0_def by (intro exI [of _ c1] exI [of _ c2] exI [of _ s']) (simp add: markRemoteClosed_def del: ctrl_loop.simps)
qed

text \<open>A server with one connection open, number 1 of session 1, and a client that has it too.\<close>

definition demo_near :: CtrlProxyServer where
  "demo_near = NewCtrlProxyServer no_settings (demo_ctrl\<lparr>chSess := \<lambda>_. NewSession []\<rparr>)"

definition demo_far :: CtrlClient where
  "demo_far = (new_client (NewSession []))\<lparr>ccHeap := [demo_local []], ccConnsQ := [(1, 0)]\<rparr>"

lemmas demo_ends = demo_near_def demo_far_def NewCtrlProxyServer_def demo_ctrl_conns new_entry_def demo_stream_def demo_local_def new_local_def
  new_client_def NewSession_def writable_def NewWindow_def DefaultStreamWindow_def NewStreamHub_def

theorem uplink_end_to_end_witness:
  "\<exists>c1 c2 s'. pump_all 0 1 0 [[1, 2], [3]] demo_far = Some c1 \<and> pumpUplink 0 1 0 (ReadEOF []) c1 = (PumpEnd, c2)
     \<and> ctrl_loop False 0 1 ''home'' 3 (hear 1 (sOut (ccSess c2)) demo_near) = Some s'
     \<and> ceSink (chHeap (psHub s') ! 0) = [[1, 2], [3]] \<and> ceRemoteClosed (chHeap (psHub s') ! 0)"
proof -
  let ?ds = "[[1, 2], [3 :: byte]]"
  have "\<exists>c1 c2 s'. pump_all 0 1 0 ?ds demo_far = Some c1 \<and> pumpUplink 0 1 0 (ReadEOF []) c1 = (PumpEnd, c2)
    \<and> ctrl_loop False 0 1 ''home'' (length ?ds + 1) (hear 1 (sOut (ccSess c2)) demo_near) = Some s'
    \<and> sIn (chSess (psHub s') 1) = []
    \<and> chHeap (psHub s') = (chHeap (psHub demo_near))[0 := (chHeap (psHub demo_near) ! 0)\<lparr>ceSink := ceSink (chHeap (psHub demo_near) ! 0) @ ?ds, ceRemoteClosed := True\<rparr>]"
    by (rule uplink_end_to_end [OF _ _ _ _ refl]) (simp_all add: demo_ends chunk_ok_def uplinkChunk_def downlinkQueue_def)
  moreover have "ceSink ((chHeap (psHub demo_near))[0 := (chHeap (psHub demo_near) ! 0)\<lparr>ceSink := ceSink (chHeap (psHub demo_near) ! 0) @ ?ds, ceRemoteClosed := True\<rparr>] ! 0) = ?ds"
    "ceRemoteClosed ((chHeap (psHub demo_near))[0 := (chHeap (psHub demo_near) ! 0)\<lparr>ceSink := ceSink (chHeap (psHub demo_near) ! 0) @ ?ds, ceRemoteClosed := True\<rparr>] ! 0)"
    by (simp_all add: demo_ends)
  moreover have "length ?ds + 1 = 3" by simp
  ultimately show ?thesis by metis
qed

section \<open>Downlink\<close>

lemma send_chunks_sends:
  assumes "list_all chunk_ok ds" "q < length (chHeap h)" "e = chHeap h ! q" "ceConnID e = i" "ceClient e = k"
    "writable (chSess h k)" "ceSendWin e = Some w" "\<not> wClosed w" "0 \<le> outstanding w" "outstanding w + volume ds \<le> wLimit w"
  shows "send_chunks ch q ds h = Some (h\<lparr>chHeap := (chHeap h)[q := e\<lparr>ceSendWin := Some (w\<lparr>outstanding := outstanding w + volume ds\<rparr>)\<rparr>],
     chSess := (chSess h)(k := (chSess h k)\<lparr>sOut := sOut (chSess h k) @ concat (map (\<lambda>d. frame_of (mk_msg MsgData i d)) ds)\<rparr>)\<rparr>)"
  using assms
proof (induction ds arbitrary: h e w)
  case Nil
  have e: "x\<lparr>ceSendWin := Some w\<rparr> = x" if "ceSendWin x = Some w" for x :: ConnEntry using that by (cases x) simp
  from Nil show ?case by (cases h) (simp add: e list_update_id)
next
  case (Cons d ds)
  let ?w1 = "w\<lparr>outstanding := outstanding w + int (length d)\<rparr>"
  let ?e1 = "e\<lparr>ceSendWin := Some ?w1\<rparr>"
  let ?h1 = "h\<lparr>chHeap := (chHeap h)[q := ?e1], chSess := (chSess h)(k := (chSess h k)\<lparr>sOut := sOut (chSess h k) @ frame_of (mk_msg MsgData i d)\<rparr>)\<rparr>"
  have "outstanding w + int (length d) \<le> wLimit w" using Cons.prems(10) volume_simps(3) [of ds] by (simp del: volume_simps(3))
  with acquire_room [of w "length d" ch] Cons.prems(3,7-9)
  have a: "AcquireSend (length d) ch (chHeap h ! q) = (TurnDone, ?e1)" by (simp add: AcquireSend_def)
  have "hub_send k (mk_msg MsgData i d) (upd_entry q (\<lambda>_. ?e1) h) = (Inr (), ?h1)"
    using Cons.prems(1,6) data_fits [of d i] by (simp add: hub_send_def upd_entry_def)
  with a Cons.prems(4,5) have "send_chunks ch q (d # ds) h = send_chunks ch q ds ?h1" by simp
  also have "\<dots> = Some (?h1\<lparr>chHeap := (chHeap ?h1)[q := ?e1\<lparr>ceSendWin := Some (?w1\<lparr>outstanding := outstanding ?w1 + volume ds\<rparr>)\<rparr>],
     chSess := (chSess ?h1)(k := (chSess ?h1 k)\<lparr>sOut := sOut (chSess ?h1 k) @ concat (map (\<lambda>d. frame_of (mk_msg MsgData i d)) ds)\<rparr>)\<rparr>)"
    using Cons.prems by (intro Cons.IH) simp_all
  finally show ?case by (rule trans) (cases h, simp add: add.assoc fun_eq_iff)
qed

text \<open>The client queues the data frames of a connection for its write pump.\<close>

lemma client_data:
  assumes "list_all chunk_ok ds" "sIn (ccSess c) = concat (map (\<lambda>d. frame_of (mk_msg MsgData i d)) ds) @ rest"
    "map_of (ccConnsQ c) i = Some r" "map_of (ccDialConns c) i = None" "r < length (ccHeap c)"
    "length (lcQ (ccHeap c ! r)) + length ds \<le> connQueueCap"
  shows "client_loop dialer et lose (length ds + n) c = client_loop dialer et lose n
     (c\<lparr>ccSess := (ccSess c)\<lparr>sIn := rest\<rparr>, ccHeap := (ccHeap c)[r := (ccHeap c ! r)\<lparr>lcQ := lcQ (ccHeap c ! r) @ ds\<rparr>]\<rparr>)"
  using assms
proof (induction ds arbitrary: c)
  case Nil
  then show ?case by (cases c; cases "ccSess c") (simp add: list_update_id)
next
  case (Cons d ds)
  let ?rest = "concat (map (\<lambda>d. frame_of (mk_msg MsgData i d)) ds) @ rest"
  let ?c1 = "c\<lparr>ccSess := (ccSess c)\<lparr>sIn := ?rest\<rparr>, ccHeap := (ccHeap c)[r := (ccHeap c ! r)\<lparr>lcQ := lcQ (ccHeap c ! r) @ [d]\<rparr>]\<rparr>"
  have "Receive (ccSess c) = (Inr (mk_msg MsgData i d), (ccSess c)\<lparr>sIn := ?rest\<rparr>)"
    using Cons.prems(1,2) data_fits [of d i] by (intro Receive_frame) simp_all
  moreover have "run_dispatch dialer et lose (mk_msg MsgData i d) (c\<lparr>ccSess := (ccSess c)\<lparr>sIn := ?rest\<rparr>\<rparr>) = RunMore ?c1"
    using Cons.prems(3,4,6) by (simp add: run_dispatch_def mk_msg_def msg_type_defs or_blocked_def enqueue_def upd_local_def)
  ultimately have "client_loop dialer et lose (length (d # ds) + n) c = client_loop dialer et lose (length ds + n) ?c1" by simp
  with Cons.IH [of ?c1] Cons.prems show ?case by simp
qed

lemma client_half:
  assumes "sIn (ccSess c) = frame_of (HalfClose i)" "map_of (ccConnsQ c) i = Some r" "map_of (ccDialConns c) i = None"
    "length (lcQ (ccHeap c ! r)) < connQueueCap"
  shows "client_loop dialer et lose 1 c =
     RunMore (c\<lparr>ccSess := (ccSess c)\<lparr>sIn := []\<rparr>, ccHeap := (ccHeap c)[r := (ccHeap c ! r)\<lparr>lcQ := lcQ (ccHeap c ! r) @ [[]]\<rparr>]\<rparr>)"
proof -
  have "Receive (ccSess c) = (Inr (HalfClose i), (ccSess c)\<lparr>sIn := []\<rparr>)"
    using assms(1) half_fits by (intro Receive_frame) simp_all
  moreover have "IsHalfClose (HalfClose i)" "mType (HalfClose i) = MsgStreamClose" "mStreamID (HalfClose i) = i"
    by (simp_all add: IsHalfClose_def HalfClose_def FlagHalfClose_def)
  ultimately show ?thesis
    using assms(2-4) by (simp add: run_dispatch_def msg_type_defs halfCloseConn_def or_blocked_def enqueue_def upd_local_def)
qed

text \<open>The credit frames of the client are taken off the send window of the connection.\<close>

lemma delta_volume: "chunk_ok d \<Longrightarrow> uint (word_of_nat (length d) :: u32) = int (length d)"
  by (simp add: chunk_ok_def uplinkChunk_def unsigned_of_nat take_bit_nat_eq_self)

lemma loop_credit:
  assumes "list_all chunk_ok ds" "sIn (chSess (psHub s) k) = concat (map (window_update_frame i) ds)"
    "map_of (chConns (psHub s)) i = Some q" "q < length (chHeap (psHub s))" "ceSendWin (chHeap (psHub s) ! q) = Some w"
  shows "\<exists>s' w'. ctrl_loop lose now k identity (length ds) s = Some s' \<and> sIn (chSess (psHub s') k) = []
    \<and> ceSendWin (chHeap (psHub s') ! q) = Some w' \<and> outstanding w' = outstanding w - volume ds \<and> wLimit w' = wLimit w \<and> wClosed w' = wClosed w"
  using assms
proof (induction ds arbitrary: s w)
  case Nil
  then show ?case by simp
next
  case (Cons d ds)
  let ?u = "\<lparr>wuConnID = i, wuDelta = word_of_nat (length d)\<rparr>"
  let ?m = "control_message MsgWindowUpdate (WindowUpdate_json ?u)"
  let ?se = "(chSess (psHub s) k)\<lparr>sIn := concat (map (window_update_frame i) ds)\<rparr>"
  let ?w1 = "fst (Release (int (length d)) w)"
  define s1 where "s1 = (set_session k ?se s)\<lparr>psHub := (psHub (set_session k ?se s))\<lparr>
      chHeap := (chHeap (psHub s))[q := (chHeap (psHub s) ! q)\<lparr>ceSendWin := Some ?w1\<rparr>]\<rparr>\<rparr>"
  have r: "Receive (chSess (psHub s) k) = (Inr ?m, ?se)"
    using Cons.prems(2) window_update_fits by (intro Receive_frame) (simp_all add: window_update_frame_def [of i d])
  have "DecodeControl WindowUpdate_parse ?m = Inr ?u" by (rule wnd_upd.decode_message) (simp add: WindowUpdate_ok_def)
  then have "ctrl_dispatch lose now k identity ?m (set_session k ?se s) = Some s1"
    using Cons.prems(1,3,5) delta_volume [of d]
    by (simp add: ctrl_dispatch_def dispatch_hub_def msg_type_defs WindowRelease_def set_session_def upd_entry_def s1_def Let_def)
  then have "ctrl_loop lose now k identity (length (d # ds)) s = ctrl_loop lose now k identity (length ds) s1" using r by simp
  moreover have "\<exists>s' w'. ctrl_loop lose now k identity (length ds) s1 = Some s' \<and> sIn (chSess (psHub s') k) = []
    \<and> ceSendWin (chHeap (psHub s') ! q) = Some w' \<and> outstanding w' = outstanding ?w1 - volume ds \<and> wLimit w' = wLimit ?w1 \<and> wClosed w' = wClosed ?w1"
    using Cons.prems by (intro Cons.IH) (simp_all add: s1_def set_session_def)
  ultimately show ?case by (auto simp: Release_def)
qed

text \<open>
  C3: Data crosses the tunnel from a user to the service behind a client, whole and in order, and its credit comes back.
  The chunks that the server takes from a user's connection, within its send window, and the half-close after them: the
  client queues them, its write pump writes exactly those bytes in that order to the local connection and closes its sending
  side afterwards; and when the server has read what the client answered, the send window has all its credit again.
\<close>

theorem downlink_end_to_end:
  assumes chunks: "list_all chunk_ok ds" "length ds < connQueueCap"
    and server: "map_of (chConns (psHub s)) i = Some q" "q < length (chHeap (psHub s))" "e = chHeap (psHub s) ! q" "ceConnID e = i" "ceClient e = k"
    "writable (chSess (psHub s) k)" "sOut (chSess (psHub s) k) = []" "ceSendWin e = Some w" "\<not> wClosed w" "0 \<le> outstanding w"
    "outstanding w + volume ds \<le> wLimit w"
    and client: "map_of (ccConnsQ c) i = Some r" "map_of (ccDialConns c) i = None" "r < length (ccHeap c)" "l = ccHeap c ! r" "lcQ l = []"
    "writable (ccSess c)" "sOut (ccSess c) = []" "\<not> lcWErr l" "\<not> lcClosed l" "\<not> lcWriteClosed l" "lcHalf l"
  shows "\<exists>h1 h2 c1 c2 s' w'. send_chunks ch q ds (psHub s) = Some h1 \<and> hub_send k (HalfClose i) h1 = (Inr (), h2)
    \<and> client_loop dialer et lose (length ds + 1) (c\<lparr>ccSess := (ccSess c)\<lparr>sIn := sOut (chSess h2 k)\<rparr>\<rparr>) = RunMore c1
    \<and> drain_queue (length ds + 1) i r c1 = c2
    \<and> lcOut (ccHeap c2 ! r) = lcOut l @ concat ds \<and> lcWriteClosed (ccHeap c2 ! r) \<and> lcQ (ccHeap c2 ! r) = []
    \<and> ctrl_loop lose now k identity (length ds) (hear k (sOut (ccSess c2)) (s\<lparr>psHub := h2\<rparr>)) = Some s'
    \<and> ceSendWin (chHeap (psHub s') ! q) = Some w' \<and> outstanding w' = outstanding w"
proof -
  let ?frames = "concat (map (\<lambda>d. frame_of (mk_msg MsgData i d)) ds)"
  let ?w1 = "w\<lparr>outstanding := outstanding w + volume ds\<rparr>"
  define h1 where "h1 = (psHub s)\<lparr>chHeap := (chHeap (psHub s))[q := e\<lparr>ceSendWin := Some ?w1\<rparr>],
     chSess := (chSess (psHub s))(k := (chSess (psHub s) k)\<lparr>sOut := sOut (chSess (psHub s) k) @ ?frames\<rparr>)\<rparr>"
  have h1: "send_chunks ch q ds (psHub s) = Some h1"
    unfolding h1_def by (rule send_chunks_sends [OF chunks(1) server(2-6,8-11)])
  define h2 where "h2 = h1\<lparr>chSess := (chSess h1)(k := (chSess h1 k)\<lparr>sOut := ?frames @ frame_of (HalfClose i)\<rparr>)\<rparr>"
  have h2: "hub_send k (HalfClose i) h1 = (Inr (), h2)"
    using server(6,7) half_fits by (simp add: hub_send_def h1_def h2_def)
  let ?c = "c\<lparr>ccSess := (ccSess c)\<lparr>sIn := sOut (chSess h2 k)\<rparr>\<rparr>"
  let ?c' = "?c\<lparr>ccSess := (ccSess ?c)\<lparr>sIn := frame_of (HalfClose i)\<rparr>, ccHeap := (ccHeap ?c)[r := (ccHeap ?c ! r)\<lparr>lcQ := lcQ (ccHeap ?c ! r) @ ds\<rparr>]\<rparr>"
  have "sIn (ccSess ?c) = ?frames @ frame_of (HalfClose i)" by (simp add: h2_def)
  from client_data [OF chunks(1) this, of r dialer et lose 1] client(1-5) chunks(2)
  have a: "client_loop dialer et lose (length ds + 1) ?c = client_loop dialer et lose 1 ?c'" by (simp del: client_loop.simps)
  define c1 where "c1 = c\<lparr>ccSess := (ccSess c)\<lparr>sIn := []\<rparr>, ccHeap := (ccHeap c)[r := l\<lparr>lcQ := ds @ [[]]\<rparr>]\<rparr>"
  have b: "client_loop dialer et lose (length ds + 1) ?c = RunMore c1"
    unfolding a using client(1-5) chunks(2) by (subst client_half [of ?c' i r]) (simp_all add: c1_def)
  define c2 where "c2 = drain_queue (length ds + 1) i r c1"
  have "[] \<notin> set ds" using chunks(1) by (auto simp: list_all_iff chunk_ok_def)
  then have c2: "c2 = c1\<lparr>ccHeap := (ccHeap c1)[r := (ccHeap c1 ! r)\<lparr>lcQ := [], lcOut := lcOut (ccHeap c1 ! r) @ concat ds, lcWriteClosed := True\<rparr>],
       ccSess := (ccSess c1)\<lparr>sOut := sOut (ccSess c1) @ concat (map (window_update_frame i) ds)\<rparr>\<rparr>"
    unfolding c2_def using client(3-11) by (intro half_close_after_data) (simp_all add: c1_def)
  have out: "lcOut (ccHeap c2 ! r) = lcOut l @ concat ds" "lcWriteClosed (ccHeap c2 ! r)" "lcQ (ccHeap c2 ! r) = []"
    "sOut (ccSess c2) = concat (map (window_update_frame i) ds)"
    using client(3,7) by (simp_all add: c2) (simp_all add: c1_def)
  have "\<exists>s' w'. ctrl_loop lose now k identity (length ds) (hear k (sOut (ccSess c2)) (s\<lparr>psHub := h2\<rparr>)) = Some s'
    \<and> sIn (chSess (psHub s') k) = [] \<and> ceSendWin (chHeap (psHub s') ! q) = Some w' \<and> outstanding w' = outstanding ?w1 - volume ds
    \<and> wLimit w' = wLimit ?w1 \<and> wClosed w' = wClosed ?w1"
    using server(1,2) by (intro loop_credit [OF chunks(1)]) (simp_all add: hear_def set_session_def out(4) h2_def h1_def)
  with h1 h2 b out(1-3) show ?thesis unfolding c2_def by auto
qed

theorem downlink_end_to_end_witness:
  "\<exists>h1 h2 c1 s' w'. send_chunks 0 0 [[1, 2], [3]] (psHub demo_near) = Some h1 \<and> hub_send 1 (HalfClose 1) h1 = (Inr (), h2)
     \<and> client_loop None (\<lambda>_ _. []) False 3 (demo_far\<lparr>ccSess := (ccSess demo_far)\<lparr>sIn := sOut (chSess h2 1)\<rparr>\<rparr>) = RunMore c1
     \<and> lcOut (ccHeap (drain_queue 3 1 0 c1) ! 0) = [1, 2, 3] \<and> lcWriteClosed (ccHeap (drain_queue 3 1 0 c1) ! 0)
     \<and> ctrl_loop False 0 1 ''home'' 2 (hear 1 (sOut (ccSess (drain_queue 3 1 0 c1))) (demo_near\<lparr>psHub := h2\<rparr>)) = Some s'
     \<and> ceSendWin (chHeap (psHub s') ! 0) = Some w' \<and> outstanding w' = 0"
proof -
  let ?ds = "[[1, 2], [3 :: byte]]"
  have n: "length ?ds = 2" "(2 :: nat) + 1 = 3" "concat ?ds = [1, 2, 3]" by simp_all
  have l: "lcOut (ccHeap demo_far ! 0) = []" by (simp add: demo_ends)
  have w: "ceSendWin (chHeap (psHub demo_near) ! 0) = Some (NewWindow DefaultStreamWindow)" by (simp add: demo_ends)
  have o: "outstanding (NewWindow DefaultStreamWindow) = 0" by (simp add: NewWindow_def)
  have "\<exists>h1 h2 c1 c2 s' w'. send_chunks 0 0 ?ds (psHub demo_near) = Some h1 \<and> hub_send 1 (HalfClose 1) h1 = (Inr (), h2)
    \<and> client_loop None (\<lambda>_ _. []) False (length ?ds + 1) (demo_far\<lparr>ccSess := (ccSess demo_far)\<lparr>sIn := sOut (chSess h2 1)\<rparr>\<rparr>) = RunMore c1
    \<and> drain_queue (length ?ds + 1) 1 0 c1 = c2
    \<and> lcOut (ccHeap c2 ! 0) = lcOut (ccHeap demo_far ! 0) @ concat ?ds \<and> lcWriteClosed (ccHeap c2 ! 0) \<and> lcQ (ccHeap c2 ! 0) = []
    \<and> ctrl_loop False 0 1 ''home'' (length ?ds) (hear 1 (sOut (ccSess c2)) (demo_near\<lparr>psHub := h2\<rparr>)) = Some s'
    \<and> ceSendWin (chHeap (psHub s') ! 0) = Some w' \<and> outstanding w' = outstanding (NewWindow DefaultStreamWindow)"
    by (rule downlink_end_to_end [OF _ _ _ _ refl _ _ _ _ w _ _ _ _ _ _ refl])
      (simp_all add: demo_ends chunk_ok_def uplinkChunk_def connQueueCap_def)
  then show ?thesis unfolding n l o append_Nil by blast
qed

end
