(* ===== verification/SessionStart.thy ===== *)
theory SessionStart
  imports EndToEnd Reconnect GoText
begin

text \<open>
  How a session begins: \<^verbatim>\<open>DialCtrlTLS\<close> of \<^verbatim>\<open>protocol/star/ctrlclient.go\<close> and \<^verbatim>\<open>dial\<close> of
  \<^verbatim>\<open>internal/client/dialer.go\<close>, from the address to the registered streams, and the dial of a client run against the
  accept and the receive loop of the server. Both sides end up with the same streams under the same ids.
\<close>

section \<open>Dialling\<close>

record TlsConfig =
  tcServerName :: string
  tcSkipVerify :: bool

text \<open>The name a certificate is checked against: the host of the address unless one is set.\<close>

definition tls_config :: "string \<Rightarrow> TlsConfig \<Rightarrow> TlsConfig" where
  "tls_config addr cfg =
     (if tcServerName cfg = [] then (case SplitHostPort addr of Some (host, _) \<Rightarrow> cfg\<lparr>tcServerName := host\<rparr> | None \<Rightarrow> cfg) else cfg)"

datatype dial_outcome = NoConnection string | Refused dialerr CtrlClient | Connected CtrlClient

text \<open>\<open>plain\<close> and \<open>tls\<close> are the two dial functions of the library: an error or a connection.\<close>

definition DialCtrlTLS ::
    "(string \<Rightarrow> string \<Rightarrow> string + Session) \<Rightarrow> (string \<Rightarrow> string \<Rightarrow> TlsConfig \<Rightarrow> string + Session) \<Rightarrow> string \<Rightarrow> string
     \<Rightarrow> HandshakeReq \<Rightarrow> RegisterStreamReq list \<Rightarrow> TlsConfig option \<Rightarrow> dial_outcome" where
  "DialCtrlTLS plain tls network addr req streams cfg =
     (case (case cfg of Some t \<Rightarrow> tls network addr (tls_config addr t) | None \<Rightarrow> plain network addr) of
        Inl e \<Rightarrow> NoConnection (''star: dial ctrl '' @ addr @ '': '' @ e)
      | Inr s \<Rightarrow> (case DialCtrl s req streams of (Some e, c) \<Rightarrow> Refused e c | (None, c) \<Rightarrow> Connected c))"

definition dial_plain :: "(string \<Rightarrow> string \<Rightarrow> string + Session) \<Rightarrow> string \<Rightarrow> string \<Rightarrow> HandshakeReq \<Rightarrow> RegisterStreamReq list \<Rightarrow> dial_outcome" where
  "dial_plain plain network addr req streams = DialCtrlTLS plain (\<lambda>_ _ _. Inl []) network addr req streams None"

text \<open>What a dialler of the client is configured with.\<close>

record DialerConfig =
  dcName :: string
  dcAddr :: string
  dcKeyPassword :: string
  dcTLS :: bool
  dcTLSSkipVerify :: bool
  dcStreams :: "RegisterStreamReq list"

definition dialer_dial ::
    "(string \<Rightarrow> string \<Rightarrow> string + Session) \<Rightarrow> (string \<Rightarrow> string \<Rightarrow> TlsConfig \<Rightarrow> string + Session) \<Rightarrow> DialerConfig \<Rightarrow> dial_outcome" where
  "dialer_dial plain tls d =
     (let cfg = (if dcTLS d then Some \<lparr>tcServerName = [], tcSkipVerify = dcTLSSkipVerify d\<rparr> else None);
          req = \<lparr>hrVersion = 0, hrClientName = dcName d, hrKeyPassword = dcKeyPassword d\<rparr> in
      DialCtrlTLS plain tls ''tcp'' (dcAddr d) req (dcStreams d) cfg)"

text \<open>With TLS configured the connection is never a plain one, and the certificate is checked against the host of the address.\<close>

lemma dialer_dial_tls:
  assumes "dcTLS d" "SplitHostPort (dcAddr d) = Some (host, port)"
  shows "dialer_dial plain tls d = dialer_dial plain' (\<lambda>n a c. tls n a \<lparr>tcServerName = host, tcSkipVerify = dcTLSSkipVerify d\<rparr>) d"
  using assms by (simp add: dialer_dial_def DialCtrlTLS_def tls_config_def Let_def)

section \<open>Messages of a registration\<close>

definition reg_msg :: "RegisterStreamReq \<Rightarrow> Message" where
  "reg_msg st = control_message MsgRegisterStream (RegisterStreamReq_json st)"

definition ack_of :: "RegisterStreamReq \<Rightarrow> u32 \<Rightarrow> RegisterStreamAck" where
  "ack_of st i = \<lparr>raOK = True, raStreamId = rrStreamId st, raAssignID = i, raMessage = []\<rparr>"

definition ack_msg :: "RegisterStreamReq \<Rightarrow> u32 \<Rightarrow> Message" where
  "ack_msg st i = control_message MsgRegisterStreamAck (RegisterStreamAck_json (ack_of st i))"

text \<open>The acknowledgements of streams that get the ids after \<open>i\<close>.\<close>

fun acks :: "u32 \<Rightarrow> RegisterStreamReq list \<Rightarrow> bytes" where
  "acks i [] = []"
| "acks i (st # sts) = frame_of (ack_msg st (i + 1)) @ acks (i + 1) sts"

definition stream_ok :: "RegisterStreamReq \<Rightarrow> bool" where
  "stream_ok st \<longleftrightarrow> RegisterStreamReq_ok st \<and> length (rrClientProxyName st) + length (rrStreamId st) \<le> 100000"

definition stream_key :: "RegisterStreamReq \<Rightarrow> string" where
  "stream_key st = streamKey (rrClientProxyName st) (rrStreamId st)"

lemma reg_msg_fits: "stream_ok st \<Longrightarrow> fits (reg_msg st)"
  unfolding reg_msg_def RegisterStreamReq_json_def
  by (rule fits_object) (simp add: stream_ok_def MaxPayloadSize_def)

lemma ack_msg_fits: "stream_ok st \<Longrightarrow> fits (ack_msg st i)"
  unfolding ack_msg_def RegisterStreamAck_json_def
  by (rule fits_object) (use length_print_u32 [of i] in \<open>simp add: stream_ok_def MaxPayloadSize_def omit_empty_def ack_of_def\<close>)

lemma ack_of_ok: "stream_ok st \<Longrightarrow> RegisterStreamAck_ok (ack_of st i)"
  by (simp add: stream_ok_def RegisterStreamReq_ok_def RegisterStreamAck_ok_def ack_of_def valid_utf8_def)

section \<open>The client\<close>

lemma ClientRegister_frame:
  assumes "sIn c = frame_of (ack_msg st i) @ rest" "stream_ok st" "writable c"
  shows "ClientRegisterStream c st =
     (Inr (ack_of st i), clearDeadline (deadline registerTimeout c)\<lparr>sIn := rest, sOut := sOut c @ frame_of (reg_msg st)\<rparr>)"
proof -
  let ?s = "(deadline registerTimeout c)\<lparr>sOut := sOut c @ frame_of (reg_msg st)\<rparr>"
  have "expect MsgRegisterStreamAck ?s = (Inr (ack_msg st i), ?s\<lparr>sIn := rest\<rparr>)"
    using assms ack_msg_fits [OF assms(2)] by (intro expect_frame) (simp_all add: ack_msg_def)
  with assms reg_msg_fits [OF assms(2)] ack_of_ok [OF assms(2)] show ?thesis
    by (simp add: ClientRegisterStream_def SendControl_def reg_msg_def ack_msg_def reg_ack.decode_message clearDeadline_def)
qed

text \<open>A client that reads the acknowledgements has every stream under the id it was given, in the order of the requests.\<close>

lemma register_all_acks:
  assumes "sIn (ccSess c) = acks i sts @ rest" "list_all stream_ok sts" "writable (ccSess c)" "distinct (map rrStreamId sts)"
  shows "\<exists>c'. register_all sts c = (None, c') \<and> sIn (ccSess c') = rest
    \<and> sOut (ccSess c') = sOut (ccSess c) @ concat (map (\<lambda>st. frame_of (reg_msg st)) sts)
    \<and> (\<forall>x. x \<notin> rrStreamId ` set sts \<longrightarrow> map_of (ccStreams c') x = map_of (ccStreams c) x)
    \<and> (\<forall>j < length sts. map_of (ccStreams c') (rrStreamId (sts ! j)) = Some (i + word_of_nat (Suc j)))"
  using assms
proof (induction sts arbitrary: c i)
  case Nil
  then show ?case by simp
next
  case (Cons st sts)
  have ok: "stream_ok st" "list_all stream_ok sts" "rrStreamId st \<notin> rrStreamId ` set sts" "distinct (map rrStreamId sts)"
    using Cons.prems(2,4) by auto
  let ?s = "clearDeadline (deadline registerTimeout (ccSess c))\<lparr>sIn := acks (i + 1) sts @ rest, sOut := sOut (ccSess c) @ frame_of (reg_msg st)\<rparr>"
  define c1 where "c1 = c\<lparr>ccSess := ?s, ccStreams := AList.update (rrStreamId st) (i + 1) (ccStreams c),
      ccStreamIDs := AList.update (i + 1) (rrStreamId st) (ccStreamIDs c),
      ccPairs := List.insert (pair_key (rrClientProxyName st) (rrStreamId st)) (ccPairs c)\<rparr>"
  have "ClientRegisterStream (ccSess c) st = (Inr (ack_of st (i + 1)), ?s)"
    using Cons.prems(1,3) ok(1) by (intro ClientRegister_frame) simp_all
  then have step: "register_all (st # sts) c = register_all sts c1" by (simp add: c1_def ack_of_def)
  have "writable (ccSess c1)" using Cons.prems(3) by (simp add: c1_def writable_def clearDeadline_def deadline_def)
  then obtain c' where c': "register_all sts c1 = (None, c')" "sIn (ccSess c') = rest"
    "sOut (ccSess c') = sOut (ccSess c1) @ concat (map (\<lambda>st. frame_of (reg_msg st)) sts)"
    "\<And>x. x \<notin> rrStreamId ` set sts \<Longrightarrow> map_of (ccStreams c') x = map_of (ccStreams c1) x"
    "\<And>j. j < length sts \<Longrightarrow> map_of (ccStreams c') (rrStreamId (sts ! j)) = Some (i + 1 + word_of_nat (Suc j))"
    using Cons.IH [of c1 "i + 1"] ok(2,4) by (auto simp: c1_def)
  have "map_of (ccStreams c') (rrStreamId ((st # sts) ! j)) = Some (i + word_of_nat (Suc j))" if "j < length (st # sts)" for j
    using that c'(5) c'(4) [OF ok(3)] by (cases j) (simp_all add: c1_def AList.update_conv' add.assoc)
  with c' step show ?case by (simp add: c1_def AList.update_conv' clearDeadline_def deadline_def)
qed

section \<open>The server\<close>

fun assign_all :: "nat \<Rightarrow> sess_ref \<Rightarrow> RegisterStreamReq list \<Rightarrow> StreamTable \<Rightarrow> StreamTable" where
  "assign_all now k [] t = t"
| "assign_all now k (st # sts) t = assign_all now k sts (snd (Assign now k st t))"

definition fresh_streams :: "RegisterStreamReq list \<Rightarrow> StreamTable \<Rightarrow> bool" where
  "fresh_streams sts t \<longleftrightarrow> distinct (map stream_key sts) \<and> (\<forall>st \<in> set sts. map_of (byStreamID t) (stream_key st) = None)"

definition new_entry :: "nat \<Rightarrow> sess_ref \<Rightarrow> RegisterStreamReq \<Rightarrow> StreamTable \<Rightarrow> StreamEntry" where
  "new_entry now k st t = \<lparr>seAssignID = stSeq t + 1, seClientProxyName = rrClientProxyName st, seStreamId = rrStreamId st,
     seClient = k, seSince = now, seCell = length (cells t)\<rparr>"

lemma Assign_fresh:
  assumes "map_of (byStreamID t) (stream_key st) = None"
  shows "Assign now k st t = (Inr (stSeq t + 1), t\<lparr>stSeq := stSeq t + 1, byID := AList.update (stSeq t + 1) (new_entry now k st t) (byID t),
      byStreamID := AList.update (stream_key st) (new_entry now k st t) (byStreamID t), cells := cells t @ [(0, 0)]\<rparr>)"
  using assms by (simp add: Assign_def Let_def stream_key_def new_entry_def)

lemma fresh_streams_step:
  assumes "fresh_streams (st # sts) t"
  shows "map_of (byStreamID t) (stream_key st) = None" "fresh_streams sts (snd (Assign now k st t))" "stream_key st \<notin> stream_key ` set sts"
proof -
  show n: "map_of (byStreamID t) (stream_key st) = None" and d: "stream_key st \<notin> stream_key ` set sts"
    using assms by (simp_all add: fresh_streams_def)
  have "stream_key x \<noteq> stream_key st" if "x \<in> set sts" for x using d that by (metis image_eqI)
  with assms show "fresh_streams sts (snd (Assign now k st t))"
    by (simp add: fresh_streams_def Assign_fresh [OF n] AList.update_conv')
qed

lemma assign_all_keys:
  "fresh_streams sts t \<Longrightarrow> x \<notin> stream_key ` set sts \<Longrightarrow> map_of (byStreamID (assign_all now k sts t)) x = map_of (byStreamID t) x"
proof (induction sts arbitrary: t)
  case (Cons st sts)
  note fr = fresh_streams_step [OF Cons.prems(1)]
  show ?case using Cons.IH [OF fr(2) [of now k]] Cons.prems(2) by (simp add: Assign_fresh [OF fr(1)] AList.update_conv')
qed simp

lemma assign_all_ids:
  "fresh_streams sts t \<Longrightarrow> \<forall>j < length sts. i \<noteq> stSeq t + word_of_nat (Suc j) \<Longrightarrow> Get i (assign_all now k sts t) = Get i t"
proof (induction sts arbitrary: t)
  case (Cons st sts)
  note fr = fresh_streams_step [OF Cons.prems(1)]
  have "i \<noteq> stSeq t + 1 + word_of_nat (Suc j)" if "j < length sts" for j
    using Cons.prems(2) [rule_format, of "Suc j"] that by (simp add: add.assoc)
  moreover have "i \<noteq> stSeq t + 1" using Cons.prems(2) [rule_format, of 0] by simp
  ultimately show ?case using Cons.IH [OF fr(2) [of now k]] by (simp add: Assign_fresh [OF fr(1)] AList.update_conv' Get_def)
qed simp

text \<open>Streams registered one after another each have an entry of the session under their own id and name.\<close>

lemma assign_all_entries:
  assumes "fresh_streams sts t" "length sts < 2 ^ 32" "j < length sts"
  shows "\<exists>e. Get (stSeq t + word_of_nat (Suc j)) (assign_all now k sts t) = Some e
      \<and> GetByName (rrClientProxyName (sts ! j)) (rrStreamId (sts ! j)) (assign_all now k sts t) = Some e
      \<and> seAssignID e = stSeq t + word_of_nat (Suc j) \<and> seClient e = k"
  using assms
proof (induction sts arbitrary: t j)
  case (Cons st sts)
  note fr = fresh_streams_step [OF Cons.prems(1)]
  let ?t1 = "snd (Assign now k st t)"
  have seq: "stSeq ?t1 = stSeq t + 1" by (simp add: Assign_fresh [OF fr(1)])
  show ?case
  proof (cases j)
    case 0
    have "(word_of_nat (Suc j') :: u32) \<noteq> 0" if "j' < length sts" for j'
      using that Cons.prems(2) by (simp add: word_of_nat_eq_0_iff nat_dvd_not_less del: of_nat_Suc)
    then have "Get (stSeq t + 1) (assign_all now k sts ?t1) = Get (stSeq t + 1) ?t1"
      using seq by (intro assign_all_ids [OF fr(2)]) simp
    moreover have "map_of (byStreamID (assign_all now k sts ?t1)) (stream_key st) = map_of (byStreamID ?t1) (stream_key st)"
      by (rule assign_all_keys [OF fr(2,3)])
    ultimately show ?thesis
      by (simp add: 0 GetByName_def stream_key_def [symmetric]) (simp add: Get_def Assign_fresh [OF fr(1)] AList.update_conv' new_entry_def)
  next
    case (Suc j')
    have "stSeq t + word_of_nat (Suc j) = stSeq ?t1 + word_of_nat (Suc j')" by (simp add: Suc seq add.assoc)
    with Suc show ?thesis using Cons.IH [OF fr(2) [of now k], of j'] Cons.prems(2,3) by (simp del: of_nat_Suc)
  qed
qed simp

text \<open>One turn of the receive loop on a registration that is allowed, and all of them.\<close>

definition registered :: "sess_ref \<Rightarrow> bytes \<Rightarrow> bytes \<Rightarrow> StreamTable \<Rightarrow> CtrlProxyServer \<Rightarrow> CtrlProxyServer" where
  "registered k rest out t s =
     s\<lparr>psHub := (psHub s)\<lparr>chSess := (chSess (psHub s))(k := (chSess (psHub s) k)\<lparr>sIn := rest, sOut := sOut (chSess (psHub s) k) @ out\<rparr>),
        chStreams := t\<rparr>\<rparr>"

lemma loop_register:
  assumes "sIn (chSess (psHub s) k) = frame_of (reg_msg st) @ rest" "stream_ok st" "writable (chSess (psHub s) k)"
    and "identity = [] \<or> rrClientProxyName st = identity" "map_of (byStreamID (chStreams (psHub s))) (stream_key st) = None"
  shows "ctrl_loop lose now k identity (Suc n) s =
    ctrl_loop lose now k identity n (registered k rest (frame_of (ack_msg st (stSeq (chStreams (psHub s)) + 1)))
      (snd (Assign now k st (chStreams (psHub s)))) s)"
proof -
  let ?se = "(chSess (psHub s) k)\<lparr>sIn := rest\<rparr>"
  let ?t = "chStreams (psHub s)"
  have r: "Receive (chSess (psHub s) k) = (Inr (reg_msg st), ?se)"
    using assms(1) reg_msg_fits [OF assms(2)] by (intro Receive_frame) simp_all
  have a: "assign_for identity now k st ?t = (Inr (stSeq ?t + 1), snd (Assign now k st ?t))"
    using assms(4) by (auto simp: assign_for_def Assign_fresh [OF assms(5)])
  have "writable ?se" using assms(3) by (simp add: writable_def)
  then have sr: "ServerRegisterStream ?se (reg_msg st) ?t (Some (assign_for identity now k)) =
      (Inr (ack_of st (stSeq ?t + 1)), ?se\<lparr>sOut := sOut ?se @ frame_of (ack_msg st (stSeq ?t + 1))\<rparr>, snd (Assign now k st ?t))"
    using assms(2) ack_msg_fits [OF assms(2), of "stSeq ?t + 1"]
    by (simp add: ServerRegisterStream_def reg_msg_def reg_req.decode_message stream_ok_def a SendControl_def ack_msg_def ack_of_def)
  have "ctrl_dispatch lose now k identity (reg_msg st) (set_session k ?se s) =
      Some (registered k rest (frame_of (ack_msg st (stSeq ?t + 1))) (snd (Assign now k st ?t)) s)"
    using sr by (simp add: ctrl_dispatch_def dispatch_hub_def set_session_def reg_msg_def control_message_def mk_msg_def msg_type_defs
        registered_def Let_def)
  then show ?thesis using r by simp
qed


lemma registered_none: "sIn (chSess (psHub s) k) = rest \<Longrightarrow> registered k rest [] (chStreams (psHub s)) s = s"
  by (auto simp: registered_def)

lemma registered_registered:
  "registered k rest out' t' (registered k rest' out t s) = registered k rest (out @ out') t' s"
  by (simp add: registered_def)

lemma registered_fields [simp]:
  "chStreams (psHub (registered k rest out t s)) = t"
  "chSess (psHub (registered k rest out t s)) k = (chSess (psHub s) k)\<lparr>sIn := rest, sOut := sOut (chSess (psHub s) k) @ out\<rparr>"
  by (simp_all add: registered_def)

lemma loop_register_all:
  assumes "sIn (chSess (psHub s) k) = concat (map (\<lambda>st. frame_of (reg_msg st)) sts) @ rest" "list_all stream_ok sts"
    and "writable (chSess (psHub s) k)" "list_all (\<lambda>st. identity = [] \<or> rrClientProxyName st = identity) sts"
    and "fresh_streams sts (chStreams (psHub s))"
  shows "ctrl_loop lose now k identity (length sts) s =
    Some (registered k rest (acks (stSeq (chStreams (psHub s))) sts) (assign_all now k sts (chStreams (psHub s))) s)"
  using assms
proof (induction sts arbitrary: s)
  case Nil
  then show ?case by (simp add: registered_none)
next
  case (Cons st sts)
  let ?t = "chStreams (psHub s)"
  let ?rest = "concat (map (\<lambda>st. frame_of (reg_msg st)) sts) @ rest"
  let ?s1 = "registered k ?rest (frame_of (ack_msg st (stSeq ?t + 1))) (snd (Assign now k st ?t)) s"
  note fr = fresh_streams_step [OF Cons.prems(5)]
  have "ctrl_loop lose now k identity (length (st # sts)) s = ctrl_loop lose now k identity (length sts) ?s1"
    using Cons.prems fr(1) by (simp add: loop_register del: ctrl_loop.simps)
  also have "\<dots> = Some (registered k rest (acks (stSeq ?t + 1) sts) (assign_all now k sts (snd (Assign now k st ?t))) ?s1)"
    using Cons.IH [of ?s1] Cons.prems fr(2) by (simp add: writable_def) (simp add: Assign_fresh [OF fr(1)])
  finally show ?case by (simp add: registered_registered)
qed


section \<open>Both sides\<close>

text \<open>What a client writes to start a session.\<close>

definition hello_msg :: "HandshakeReq \<Rightarrow> Message" where
  "hello_msg req = control_message MsgHandshake (HandshakeReq_json (default_version req))"

definition session_start :: "HandshakeReq \<Rightarrow> RegisterStreamReq list \<Rightarrow> bytes" where
  "session_start req sts = frame_of (hello_msg req) @ concat (map (\<lambda>st. frame_of (reg_msg st)) sts)"

definition accepted_msg :: Message where
  "accepted_msg = control_message MsgHandshakeAck (HandshakeAck_json \<lparr>haOK = True, haMessage = []\<rparr>)"

lemma default_version_password [simp]: "hrKeyPassword (default_version req) = hrKeyPassword req"
  by (simp add: default_version_def)

text \<open>The server accepts a client whose key it knows and answers with one acknowledgement.\<close>

lemma ctrl_accept_hello:
  assumes "HandshakeReq_ok req" "fits (hello_msg req)" "map_of (creds (psSettings s)) (hrKeyPassword req) = Some identity"
    and "writable (chSess (psHub s) k)" "sIn (chSess (psHub s) k) = frame_of (hello_msg req) @ rest"
  shows "\<exists>s1. ctrl_accept k remote now s = (True, s1) \<and> chStreams (psHub s1) = chStreams (psHub s)
    \<and> sIn (chSess (psHub s1) k) = rest \<and> sOut (chSess (psHub s1) k) = sOut (chSess (psHub s) k) @ frame_of accepted_msg
    \<and> writable (chSess (psHub s1) k)"
proof -
  let ?c = "chSess (psHub s) k"
  have "ServerHandshakeVerify ?c (Some (verify_creds (psSettings s))) =
      (Inr (default_version req), clearDeadline (deadline handshakeTimeout ?c)\<lparr>sIn := rest, sOut := sOut ?c @ frame_of accepted_msg\<rparr>)"
    using ServerHandshakeVerify_frame [of ?c "default_version req" rest "Some (verify_creds (psSettings s))"]
      assms default_version_ok [OF assms(1)]
    by (simp add: hello_msg_def verify_creds_def accepted_msg_def)
  then show ?thesis using assms(4)
    by (simp add: ctrl_accept_def Let_def writable_def clearDeadline_def deadline_def)
qed

text \<open>The client dials successfully when it reads the acknowledgements.\<close>

lemma DialCtrl_acks:
  assumes "sIn c = frame_of accepted_msg @ acks i sts @ rest" "fits (hello_msg req)" "writable c"
    and "list_all stream_ok sts" "distinct (map rrStreamId sts)"
  shows "\<exists>c'. DialCtrl c req sts = (None, c') \<and> sIn (ccSess c') = rest \<and> sOut (ccSess c') = sOut c @ session_start req sts
    \<and> (\<forall>j < length sts. StreamID (rrStreamId (sts ! j)) c' = Some (i + word_of_nat (Suc j)))"
proof -
  let ?s = "clearDeadline (deadline handshakeTimeout c)\<lparr>sIn := acks i sts @ rest, sOut := sOut c @ frame_of (hello_msg req)\<rparr>"
  have "ClientHandshake c req = (Inr \<lparr>haOK = True, haMessage = []\<rparr>, ?s)"
    using ClientHandshake_frame [of c "\<lparr>haOK = True, haMessage = []\<rparr>" "acks i sts @ rest" req] assms
    by (simp add: accepted_msg_def hello_msg_def HandshakeAck_ok_def valid_utf8_def)
  then have d: "DialCtrl c req sts = register_all sts (new_client ?s)" by (simp add: DialCtrl_def)
  have "writable ?s" using assms(3) by (simp add: writable_def clearDeadline_def deadline_def)
  then obtain c' where "register_all sts (new_client ?s) = (None, c')" "sIn (ccSess c') = rest"
    "sOut (ccSess c') = sOut ?s @ concat (map (\<lambda>st. frame_of (reg_msg st)) sts)"
    "\<forall>j < length sts. map_of (ccStreams c') (rrStreamId (sts ! j)) = Some (i + word_of_nat (Suc j))"
    using register_all_acks [of "new_client ?s" i sts rest] assms(4,5) by (auto simp: new_client_def)
  with d show ?thesis by (simp add: StreamID_def session_start_def)
qed

text \<open>
  C4: A session starts with both sides in agreement. When the server knows the key of a client and the streams it asks for are
  permitted and not yet taken, then for any number of streams: the server accepts the connection and serves every
  registration, consuming exactly what the client writes; the client, reading exactly what the server answers, dials without an error;
  and every stream is afterwards known to the client under the very id at which the server holds the entry of that stream, found by
  id and by name alike and owned by this session.
\<close>

theorem session_start_agreement:
  assumes "HandshakeReq_ok req" "fits (hello_msg req)" "map_of (creds (psSettings s)) (hrKeyPassword req) = Some identity"
    and "list_all stream_ok sts" "list_all (\<lambda>st. identity = [] \<or> rrClientProxyName st = identity) sts"
    and "fresh_streams sts (chStreams (psHub s))" "distinct (map rrStreamId sts)" "length sts < 2 ^ 32"
    and "writable c" "writable (chSess (psHub s) k)" "sIn (chSess (psHub s) k) = session_start req sts @ rest"
  shows "\<exists>s1 s2 c'. ctrl_accept k remote now s = (True, s1) \<and> ctrl_loop lose now k identity (length sts) s1 = Some s2
    \<and> sIn (chSess (psHub s2) k) = rest
    \<and> DialCtrl (c\<lparr>sIn := drop (length (sOut (chSess (psHub s) k))) (sOut (chSess (psHub s2) k))\<rparr>) req sts = (None, c')
    \<and> sIn (ccSess c') = [] \<and> sOut (ccSess c') = sOut c @ session_start req sts
    \<and> (\<forall>st \<in> set sts. \<exists>i e. StreamID (rrStreamId st) c' = Some i \<and> Get i (chStreams (psHub s2)) = Some e
        \<and> GetByName (rrClientProxyName st) (rrStreamId st) (chStreams (psHub s2)) = Some e \<and> seAssignID e = i \<and> seClient e = k)"
proof -
  let ?t = "chStreams (psHub s)"
  let ?regs = "concat (map (\<lambda>st. frame_of (reg_msg st)) sts)"
  have inp: "sIn (chSess (psHub s) k) = frame_of (hello_msg req) @ ?regs @ rest" using assms(11) by (simp add: session_start_def)
  obtain s1 where s1: "ctrl_accept k remote now s = (True, s1)" "chStreams (psHub s1) = ?t" "sIn (chSess (psHub s1) k) = ?regs @ rest"
    "sOut (chSess (psHub s1) k) = sOut (chSess (psHub s) k) @ frame_of accepted_msg" "writable (chSess (psHub s1) k)"
    using ctrl_accept_hello [OF assms(1-3,10) inp] by blast
  define s2 where "s2 = registered k rest (acks (stSeq ?t) sts) (assign_all now k sts ?t) s1"
  have lp: "ctrl_loop lose now k identity (length sts) s1 = Some s2"
    using loop_register_all [OF s1(3) assms(4) s1(5) assms(5)] assms(6) by (simp add: s1(2) s2_def)
  have out: "drop (length (sOut (chSess (psHub s) k))) (sOut (chSess (psHub s2) k)) = frame_of accepted_msg @ acks (stSeq ?t) sts"
    by (simp add: s2_def s1(4))
  let ?c = "c\<lparr>sIn := frame_of accepted_msg @ acks (stSeq ?t) sts\<rparr>"
  obtain c' where c': "DialCtrl ?c req sts = (None, c')" "sIn (ccSess c') = []" "sOut (ccSess c') = sOut c @ session_start req sts"
    "\<And>j. j < length sts \<Longrightarrow> StreamID (rrStreamId (sts ! j)) c' = Some (stSeq ?t + word_of_nat (Suc j))"
    using DialCtrl_acks [of ?c "stSeq ?t" sts "[]" req] assms(2,4,7,9) by (auto simp: writable_def)
  have "\<exists>i e. StreamID (rrStreamId st) c' = Some i \<and> Get i (chStreams (psHub s2)) = Some e
        \<and> GetByName (rrClientProxyName st) (rrStreamId st) (chStreams (psHub s2)) = Some e \<and> seAssignID e = i \<and> seClient e = k"
    if st: "st \<in> set sts" for st
  proof -
    obtain j where j: "j < length sts" "st = sts ! j" using st by (auto simp: in_set_conv_nth)
    show ?thesis using assign_all_entries [OF assms(6,8) j(1), of now k] c'(4) [OF j(1)] by (auto simp: s2_def j(2))
  qed
  with s1(1) lp out c'(1-3) show ?thesis by (auto simp: s2_def)
qed


definition start_req :: HandshakeReq where
  "start_req = \<lparr>hrVersion = 0, hrClientName = ''rainc'', hrKeyPassword = ''pw''\<rparr>"

definition start_streams :: "RegisterStreamReq list" where
  "start_streams = [\<lparr>rrClientProxyName = ''home'', rrStreamId = ''ssh''\<rparr>, \<lparr>rrClientProxyName = ''home'', rrStreamId = ''web''\<rparr>]"

definition start_server :: CtrlProxyServer where
  "start_server = NewCtrlProxyServer (no_settings\<lparr>setClientProxy :=
       [\<lparr>cpClientProxyName = ''home'', cpStreamId = ''ssh'', cpAddr = [], cpTransport = [], cpKeyPassword = ''pw''\<rparr>]\<rparr>)
     (NewCtrlHub (\<lambda>_. NewSession (session_start start_req start_streams)))"

theorem session_start_agreement_witness:
  "\<exists>s1 s2 c' i e. ctrl_accept 1 ''peer'' 3 start_server = (True, s1) \<and> ctrl_loop False 3 1 ''home'' 2 s1 = Some s2
    \<and> DialCtrl ((NewSession [])\<lparr>sIn := sOut (chSess (psHub s2) 1)\<rparr>) start_req start_streams = (None, c')
    \<and> StreamID ''web'' c' = Some i \<and> Get i (chStreams (psHub s2)) = Some e \<and> seClient e = 1"
proof -
  have "print_int 1 = ''1''" by code_simp
  then have hello: "fits (hello_msg start_req)"
    by (simp add: hello_msg_def start_req_def default_version_def ProtocolVersion_def HandshakeReq_json_def omit_empty_def
        fits_object MaxPayloadSize_def)
  have req: "HandshakeReq_ok start_req" by (simp add: start_req_def HandshakeReq_ok_def valid_utf8_def)
  have cr: "map_of (creds (psSettings start_server)) (hrKeyPassword start_req) = Some ''home''"
    by (simp add: creds_def client_creds.simps no_settings_def start_req_def start_server_def NewCtrlProxyServer_def)
  have sts: "list_all stream_ok start_streams" "list_all (\<lambda>st. ''home'' = [] \<or> rrClientProxyName st = ''home'') start_streams"
    "distinct (map rrStreamId start_streams)" "length start_streams < 2 ^ 32"
    by (simp_all add: start_streams_def stream_ok_def RegisterStreamReq_ok_def valid_utf8_def)
  have fr: "fresh_streams start_streams (chStreams (psHub start_server))"
    by (simp add: fresh_streams_def start_streams_def stream_key_def streamKey_def start_server_def NewCtrlProxyServer_def NewCtrlHub_def
        NewStreamTable_def)
  have w: "writable (NewSession [])" "writable (chSess (psHub start_server) 1)"
    "sIn (chSess (psHub start_server) 1) = session_start start_req start_streams @ []" "sOut (chSess (psHub start_server) 1) = []"
    by (simp_all add: writable_def NewSession_def start_server_def NewCtrlProxyServer_def NewCtrlHub_def)
  have "\<lparr>rrClientProxyName = ''home'', rrStreamId = ''web''\<rparr> \<in> set start_streams" "length start_streams = 2"
    by (simp_all add: start_streams_def)
  then show ?thesis
    using session_start_agreement [OF req hello cr sts(1,2) fr sts(3,4) w(1-3), of "''peer''" 3 False] w(4) by fastforce
qed

end
