(* ===== verification/Spec2Isabelle.thy ===== *)
theory Spec2Isabelle
  imports StarSession StreamTable Window StreamAdapter CtrlHub CtrlProxy CtrlClient Routing ProxyServer Bridge WsFrame WsHandshake CodecConn Sniff Socks5 Schema Admin
    Dns DnsApi AcceptLoops Reconnect ConfigStore Decorator Limiter Instance WsTransport TransportListen SessionPool H2Conn TransportSetup ClientCommand FrameServer
    Gateway CustomServer Lifecycle EndToEnd SessionStart
begin

text \<open>
  Verification of rain-net, a tunnel between networks written in Go.

  \<^bold>\<open>The program.\<close> A server (\<^verbatim>\<open>cmd/raind\<close>) accepts control connections of clients behind a firewall
  (\<^verbatim>\<open>cmd/rainc\<close>). A client authenticates, registers named streams, and the server's proxy listeners then
  forward the connections of external users over the control connection to the client, which dials the
  service of its own network. Everything between the two is the star protocol: framed messages
  with control structs in JSON, ids for streams and connections, credit windows, half-close.
  Around it stand a connection bridge, a router, several protocols on one port, a SOCKS5
  plugin, a management API and the configuration that puts the parts together. Below it six
  transports (TCP, TLS, websocket, HTTP/2, KCP, QUIC) carry byte streams, and a plugin framework starts, reloads and
  stops the servers.

  \<^bold>\<open>Theories and sources\<close> (paths under \<^verbatim>\<open>src/\<close>):
  \<^item> Prelude: bytes, results, fixed-size reads, big-endian integers, sorting and map lemmas.
  \<^item> GoJson: the part of \<^verbatim>\<open>encoding/json\<close> the program uses, with the proof that printed objects parse back.
  \<^item> GoText: functions of \<^verbatim>\<open>strings\<close> and \<^verbatim>\<open>net\<close> on text and addresses.
  \<^item> StarMessage, StarControl, StarSession: \<^verbatim>\<open>protocol/star/message.go\<close>, \<^verbatim>\<open>response.go\<close>, \<^verbatim>\<open>session.go\<close>,
    \<^verbatim>\<open>handshake.go\<close>. Frames and control structs with round trips both ways, what a truncated or forged
    frame does, and that the two sides of a handshake agree.
  \<^item> StreamTable: \<^verbatim>\<open>internal/handler/star/streamtable.go\<close>. The two indexes agree, ids are fresh.
  \<^item> Window: \<^verbatim>\<open>protocol/star/window.go\<close>. All interleavings of waiting senders, releases and
    closing: the limit, no lost wake-up, termination.
  \<^item> StreamAdapter: \<^verbatim>\<open>protocol/star/adapter.go\<close>. Tunnelled connections as byte queues, the hub that
    routes frames to them, the end of a session.
  \<^item> CtrlHub, CtrlProxy: \<^verbatim>\<open>internal/handler/star/ctrl_hub.go\<close>, \<^verbatim>\<open>ctrlproxy.go\<close>. Connections of the
    server side, credentials and identities, the read loop of a control session, cleanup.
  \<^item> CtrlClient: \<^verbatim>\<open>protocol/star/ctrlclient.go\<close>. The client: registration, dialled connections, pumps, keep-alive.
  \<^item> Routing: \<^verbatim>\<open>internal/star/starserver/connecttable.go\<close>, \<^verbatim>\<open>internal/router/router.go\<close>.
  \<^item> ProxyServer: \<^verbatim>\<open>internal/star/starserver/proxy_server.go\<close>, \<^verbatim>\<open>protocol/codec/codec.go\<close>. The choice of a stream and the life of
    one external connection as steps of its two goroutines.
  \<^item> Bridge: \<^verbatim>\<open>internal/bridge/bridge.go\<close>. Two pumps, cancellation and drain timer.
  \<^item> WsFrame, HttpHead, WsHandshake: \<^verbatim>\<open>protocol/ws/ws.go\<close>. Websocket frames and messages; the opening handshake, with the HTTP heads,
    SHA-1 and base64 of the Go library it uses. The two sides agree and no byte behind the handshake is lost.
  \<^item> CodecConn: \<^verbatim>\<open>protocol/codec\<close>. Raw and websocket message connections: with either the bytes written arrive.
  \<^item> Sniff: \<^verbatim>\<open>internal/ingress/sniff/sniff.go\<close>. Dispatch by the first bytes, with replay.
  \<^item> Socks5: \<^verbatim>\<open>internal/star/plugin/socks5\<close>. Negotiation, authentication, requests and replies.
  \<^item> Schema: \<^verbatim>\<open>config/schema.go\<close>, \<^verbatim>\<open>internal/star/starserver/register.go\<close>, \<^verbatim>\<open>config.go\<close>, \<^verbatim>\<open>server.go\<close>,
    \<^verbatim>\<open>internal/transport/transport.go\<close>. From a configuration document to the list of servers.
  \<^item> Admin: \<^verbatim>\<open>internal/star/starserver/admin_server.go\<close>. The management API.
  \<^item> Dns: \<^verbatim>\<open>internal/handler/dns/dns.go\<close>. Zones, lookup, framed messages, upstreams in turn.
  \<^item> DnsApi: the routes of the same file that read and replace the zones, with their JSON and the store.
  \<^item> AcceptLoops: the accept loops of the SOCKS5 plugin, \<^verbatim>\<open>protocol/custom/server.go\<close>, the control and proxy listeners and the
    dispatcher of a shared port, and the contract they share with those of FrameServer and DnsApi.
  \<^item> Reconnect: \<^verbatim>\<open>internal/client/dialer.go\<close>. Back-off and stopping of the client's connection loop.
  \<^item> ConfigStore: \<^verbatim>\<open>internal/configstore\<close>. Keys that stay below a directory, atomic writes, polling.
  \<^item> Decorator: \<^verbatim>\<open>pkg/rainnet\<close>, \<^verbatim>\<open>internal/decorator\<close>. Error kinds, metadata, counters, the admission gate.
  \<^item> Limiter: \<^verbatim>\<open>internal/decorator/limiter.go\<close>, \<^verbatim>\<open>ratelimit.go\<close>. The token bucket keeps its rate, waiting ends, every identity is
    limited by itself. Tokens are rational numbers.
  \<^item> Instance: \<^verbatim>\<open>pluginer\<close>, \<^verbatim>\<open>internal/star/starserver/star.go\<close>. Plugins, start, stop and reload.
  \<^item> Lifecycle: the rest of \<^verbatim>\<open>pluginer\<close> and \<^verbatim>\<open>star.go\<close>. Server types, the goroutines that serve and report errors,
    callbacks, signals; that the goroutines always come to their end.
  \<^item> WsTransport: \<^verbatim>\<open>internal/transport/ws/ws.go\<close>. A byte stream in websocket frames, read in any pieces.
  \<^item> H2Conn: \<^verbatim>\<open>internal/transport/h2/h2.go\<close>. A byte stream in an HTTP/2 request, with its read pump.
  \<^item> TransportListen: the listeners of the websocket, HTTP/2, KCP and QUIC transports, closed by any goroutine at any time.
  \<^item> SessionPool: the pools of dialled sessions of \<^verbatim>\<open>internal/transport/kcp\<close> and \<^verbatim>\<open>quic\<close>, with their mutex.
  \<^item> TransportSetup: building the six transports, when their listeners open, TLS settings, QUIC streams.
  \<^item> FrameServer: \<^verbatim>\<open>protocol/star/server.go\<close> and the plugins \<^verbatim>\<open>printer\<close>, \<^verbatim>\<open>httpProxy\<close> and \<^verbatim>\<open>forward\<close>.
  \<^item> Gateway: \<^verbatim>\<open>serveChain\<close> of \<^verbatim>\<open>proxy_server.go\<close>, a user's connection bridged over another node.
  \<^item> ClientCommand: \<^verbatim>\<open>cmd/rainc/main.go\<close>. From flags and file to the dialler.
  \<^item> CustomServer: \<^verbatim>\<open>internal/custom\<close>, \<^verbatim>\<open>protocol/custom\<close>. The demonstration server type.
  \<^item> EndToEnd: client and server joined by the bytes of the control connection; data, half-close and credit of a
    connection followed through both, in each direction.
  \<^item> SessionStart: \<^verbatim>\<open>DialCtrlTLS\<close> of \<^verbatim>\<open>ctrlclient.go\<close> and \<^verbatim>\<open>dial\<close> of \<^verbatim>\<open>internal/client/dialer.go\<close> against the accept and
    the receive loop of the server: both sides end with the same streams under the same ids.

  \<^bold>\<open>How code becomes definitions.\<close> A struct is a record with the same fields, an operation a function from
  the old state to its result and the new state; pointers that are shared (sessions, entries of the hub)
  are indexes into a heap the owner keeps. A mutex-protected operation is one step. Goroutines
  are inductive step relations or labelled events over the shared state, cut at the points where they block,
  and an invariant is proved for every reachable state. Environment choices (what a socket
  delivers, which ready case a \<^verbatim>\<open>select\<close> takes, timers, random numbers) are arguments. Errors are
  values. Counters keep their width as words. Reads of a connection are given by the bytes that
  can still be read; a short read is an error as in \<^verbatim>\<open>io.ReadFull\<close>.

  \<^bold>\<open>Interfaces.\<close> What one part needs of another is a locale with an interpretation on the model:
  \<open>control_codec\<close> (encoders and decoders of control structs), \<open>rule_table\<close> (tables
  without duplicates), \<open>framing\<close> (a decoder that undoes an encoder on any stream), \<open>byte_pipe\<close> (a connection read in
  pieces gives the bytes fed to it), \<open>stream_registry\<close> (lookup after registration and removal), \<open>ws_frames\<close> (a
  frame library whose messages are read back; a \<open>byte_pipe\<close> by \<^theory_text>\<open>sublocale\<close>), \<open>listener\<close> and \<open>once_listener\<close> (no connection is lost
  by a listener; closing is safe), \<open>message_stream\<close> (a reader of messages gets the bytes sent, then the end), \<open>session_pool\<close> (a pool under a mutex), \<open>accept_loop\<close> (every accepted connection is served once, in order, until an error) and \<open>reading_handler\<close> (a plugin that asks to be called
  again has read something). Parameters that stand for code outside the repository are the YAML decoder, the
  SOCKS5 resolver, rules and dialler, the DNS message library, the websocket frame library, the HTTP, KCP and QUIC libraries
  (as what they return), key pairs and sockets, and the local dialler of the client.

  \<^bold>\<open>Bounds and fuel.\<close> The JSON parser recurses with fuel; twice the length of the text plus one is
  enough, since every call consumes a character or returns. Loops over input terminate by its
  length. \<open>data_ahead\<close> of WsTransport, a specification, counts frames, of which a stream has at most as many as bytes. The loops
  of EndToEnd take the number of turns, one for each frame. No other fuel is used; loops that may not end are
  \<^theory_text>\<open>partial_function\<close>, and that they return is proved.

  \<^bold>\<open>Not modelled, and why.\<close> The insides of the protocol
  libraries, sockets, timers and log lines. The embedded web console, type aliases and stubs without
  behaviour. The rounding of the floating-point numbers of the token bucket. Memory and timing behaviour (the constant time of the token comparison, for
  example) is outside the model.
\<close>

section \<open>Across components\<close>

text \<open>
  The credit that the server's \<^verbatim>\<open>ReleaseRecv\<close> sends is lost at the client: the frame has an empty
  payload, which the client's read loop cannot decode, so its window is not released.
\<close>

lemma uplink_credit_lost:
  assumes "chHeap h ! r = e" "releaseBatch \<le> ceRecvPending e + int n"
    "writable (chSess h (ceClient e))"
  shows "sOut (chSess (ReleaseRecv r n h) (ceClient e)) =
           sOut (chSess h (ceClient e)) @ frame_of (mk_msg MsgWindowUpdate (ceConnID e) [])"
    and "run_dispatch dialer et lose (mk_msg MsgWindowUpdate (ceConnID e) []) c = RunMore c"
proof -
  have "fits (mk_msg MsgWindowUpdate (ceConnID e) [])" by (simp add: fits_def mk_msg_def)
  then show "sOut (chSess (ReleaseRecv r n h) (ceClient e)) =
      sOut (chSess h (ceClient e)) @ frame_of (mk_msg MsgWindowUpdate (ceConnID e) [])"
    using assms by (simp add: ReleaseRecv_def hub_send_def Let_def)
  have "WindowUpdate_parse [] = None" by code_simp
  then have "\<exists>err. DecodeControl WindowUpdate_parse (mk_msg MsgWindowUpdate (ceConnID e) []) = Inl err"
    by (simp add: DecodeControl_def mk_msg_def string_of_bytes_def)
  then show "run_dispatch dialer et lose (mk_msg MsgWindowUpdate (ceConnID e) []) c = RunMore c"
    by (auto simp: run_dispatch_def mk_msg_def msg_type_defs)
qed

end
